(* ===== verification/Flute_Prelude.thy ===== *)
theory Flute_Prelude
  imports Main "HOL-Library.Word"
begin

text \<open>
  Shared vocabulary of the development: machine words at the widths the C++ code uses,
  exceptions and undefined behaviour as values, bounds-checked access to byte buffers, and the
  big-endian fields of the wire formats. The locale \<open>byte_codec\<close> is the contract every
  fixed-width field keeps; it is interpreted for 8, 16 and 32 bit fields.
\<close>

unbundle bit_operations_syntax

section \<open>Machine integers\<close>

type_synonym byte = "8 word"
type_synonym u16 = "16 word"
type_synonym u32 = "32 word"
type_synonym u64 = "64 word"

lemma unat_bound: "unat (w :: 'a::len word) < 2 ^ LENGTH('a)"
  by (fact unsigned_less)

lemma u16_bound: "unat (w :: u16) < 2 ^ 16"
  using unat_bound [of w] by simp

lemma u32_bound: "unat (w :: u32) < 2 ^ 32"
  using unat_bound [of w] by simp

lemma u64_bound: "unat (w :: u64) < 2 ^ 64"
  using unat_bound [of w] by simp

text \<open>Widening keeps the value, and narrowing keeps what fits.\<close>

lemma unat_ucast_le:
  "LENGTH('a::len) \<le> LENGTH('b::len) \<Longrightarrow> unat (ucast (w :: 'a word) :: 'b word) = unat w"
proof -
  assume "LENGTH('a) \<le> LENGTH('b)"
  then have "(2 :: nat) ^ LENGTH('a) \<le> 2 ^ LENGTH('b)"
    by (rule power_increasing) simp
  with unat_bound [of w] have "unat w < 2 ^ LENGTH('b)"
    by (rule order_less_le_trans)
  then show ?thesis
    by (simp add: unsigned_ucast_eq take_bit_nat_eq_self)
qed

lemma unat_ucast_32_64 [simp]: "unat (ucast (w :: u32) :: u64) = unat w"
  by (rule unat_ucast_le) simp

lemma unat_ucast_16_64 [simp]: "unat (ucast (w :: u16) :: u64) = unat w"
  by (rule unat_ucast_le) simp

lemma unat_ucast_16_32 [simp]: "unat (ucast (w :: u16) :: u32) = unat w"
  by (rule unat_ucast_le) simp

lemma unat_ucast_8_32 [simp]: "unat (ucast (w :: byte) :: u32) = unat w"
  by (rule unat_ucast_le) simp

lemma unat_ucast_8_64 [simp]: "unat (ucast (w :: byte) :: u64) = unat w"
  by (rule unat_ucast_le) simp

lemma unat_ucast_small:
  "unat (w :: 'a::len word) < 2 ^ LENGTH('b::len) \<Longrightarrow> unat (ucast w :: 'b word) = unat w"
  by (simp add: unsigned_ucast_eq take_bit_nat_eq_self)

lemma ucast_ucast_u16: "unat (w :: u32) < 2 ^ 16 \<Longrightarrow> ucast (ucast w :: u16) = w"
  by (rule word_unat_eq_iff [THEN iffD2]) (simp add: unat_ucast_small)

lemma unat_or_less:
  "unat (a :: 'a::len word) < 2 ^ n \<Longrightarrow> unat b < 2 ^ n \<Longrightarrow> unat (a OR b) < 2 ^ n"
  by (metis take_bit_nat_eq_self_iff take_bit_or unsigned_or_eq)

lemma unat_of_nat64: "n < 2 ^ 64 \<Longrightarrow> unat (of_nat n :: u64) = n"
  by (simp add: unat_of_nat)

named_theorems res_simps \<open>evaluation of computations that may throw\<close>
named_theorems mem_simps \<open>reading and writing byte buffers\<close>
named_theorems wire_simps \<open>lengths and round trips of wire fields\<close>

section \<open>Exceptions and undefined behaviour\<close>

text \<open>
  What can leave a function other than by returning: \<open>CStr\<close> is a thrown string literal (a
  \<^verbatim>\<open>const char*\<close>, which a handler for \<^verbatim>\<open>std::exception\<close> does not catch), \<open>StdExc\<close> an exception
  derived from \<^verbatim>\<open>std::exception\<close>, \<open>Undefined\<close> a step whose behaviour the language leaves
  undefined (an access out of bounds, a null dereference, a conversion out of range), and
  \<open>AssertFail\<close> a failed \<^verbatim>\<open>assert\<close>.
\<close>

datatype exn = CStr string | StdExc string | Undefined string | AssertFail

type_synonym 'a result = "exn + 'a"

fun caught_as_std_exception :: "exn \<Rightarrow> bool" where
  "caught_as_std_exception (StdExc _) = True"
| "caught_as_std_exception _ = False"

definition rbind :: "'a result \<Rightarrow> ('a \<Rightarrow> 'b result) \<Rightarrow> 'b result" where
  "rbind r f = (case r of Inl e \<Rightarrow> Inl e | Inr x \<Rightarrow> f x)"

lemma rbind_Inr [simp, res_simps]: "rbind (Inr x) f = f x"
  by (simp add: rbind_def)

lemma rbind_Inl [simp, res_simps]: "rbind (Inl e) f = Inl e"
  by (simp add: rbind_def)

lemma rbind_eq_Inr_iff: "rbind r f = Inr y \<longleftrightarrow> (\<exists>x. r = Inr x \<and> f x = Inr y)"
  by (cases r) auto

lemma rbind_eq_Inl_iff:
  "rbind r f = Inl e \<longleftrightarrow> r = Inl e \<or> (\<exists>x. r = Inr x \<and> f x = Inl e)"
  by (cases r) auto

lemma rbind_assoc: "rbind (rbind r f) g = rbind r (\<lambda>x. rbind (f x) g)"
  by (cases r) auto

lemma rbind_cong [fundef_cong]:
  "r = r' \<Longrightarrow> (\<And>x. r' = Inr x \<Longrightarrow> f x = g x) \<Longrightarrow> rbind r f = rbind r' g"
  by (cases r') auto

section \<open>Byte buffers\<close>

text \<open>
  A buffer is the list of its bytes and a pointer into it an offset. Every access checks its
  bounds: the C++ code does not, so leaving the buffer is the value \<open>Undefined\<close>.
\<close>

definition read_byte :: "byte list \<Rightarrow> nat \<Rightarrow> byte result" where
  "read_byte mem p = (if p < length mem then Inr (mem ! p) else Inl (Undefined ''read''))"

definition read_bytes :: "byte list \<Rightarrow> nat \<Rightarrow> nat \<Rightarrow> byte list result" where
  "read_bytes mem p n =
     (if p + n \<le> length mem then Inr (take n (drop p mem)) else Inl (Undefined ''read''))"

definition write_bytes :: "byte list \<Rightarrow> nat \<Rightarrow> byte list \<Rightarrow> byte list result" where
  "write_bytes mem p bs =
     (if p + length bs \<le> length mem
      then Inr (take p mem @ bs @ drop (p + length bs) mem)
      else Inl (Undefined ''write''))"

lemma read_byte_app [mem_simps]: "read_byte (pre @ b # post) (length pre) = Inr b"
  by (simp add: read_byte_def)

lemma read_bytes_app [mem_simps]:
  "read_bytes (pre @ bs @ post) (length pre) (length bs) = Inr bs"
  by (simp add: read_bytes_def)

lemma write_bytes_app [mem_simps]:
  "length old = length bs \<Longrightarrow>
     write_bytes (pre @ old @ post) (length pre) bs = Inr (pre @ bs @ post)"
  by (simp add: write_bytes_def)

lemma write_bytes_length: "write_bytes mem p bs = Inr mem' \<Longrightarrow> length mem' = length mem"
  by (auto simp: write_bytes_def split: if_splits)

lemma write_bytes_ok_iff:
  "(\<exists>mem'. write_bytes mem p bs = Inr mem') \<longleftrightarrow> p + length bs \<le> length mem"
  by (simp add: write_bytes_def)

lemma read_after_write:
  assumes "write_bytes mem p bs = Inr mem'"
  shows "read_bytes mem' p (length bs) = Inr bs"
  using assms by (auto simp: write_bytes_def read_bytes_def split: if_splits)

lemma read_bytes_take:
  "read_bytes mem p n = Inr bs \<Longrightarrow> length bs = n"
  by (auto simp: read_bytes_def split: if_splits)

section \<open>Big-endian fields\<close>

definition be16_enc :: "u16 \<Rightarrow> byte list" where
  "be16_enc w = [ucast (drop_bit 8 w), ucast w]"

definition be16_dec :: "byte list \<Rightarrow> u16" where
  "be16_dec bs = push_bit 8 (ucast (bs ! 0)) OR ucast (bs ! 1)"

definition be32_enc :: "u32 \<Rightarrow> byte list" where
  "be32_enc w = [ucast (drop_bit 24 w), ucast (drop_bit 16 w), ucast (drop_bit 8 w), ucast w]"

definition be32_dec :: "byte list \<Rightarrow> u32" where
  "be32_dec bs = push_bit 24 (ucast (bs ! 0)) OR push_bit 16 (ucast (bs ! 1)) OR
                 push_bit 8 (ucast (bs ! 2)) OR ucast (bs ! 3)"

text \<open>\<open>ntohs\<close> and \<open>ntohl\<close> of a load through a cast pointer.\<close>

definition read16 :: "byte list \<Rightarrow> nat \<Rightarrow> u16 result" where
  "read16 mem p = rbind (read_bytes mem p 2) (\<lambda>bs. Inr (be16_dec bs))"

definition read32 :: "byte list \<Rightarrow> nat \<Rightarrow> u32 result" where
  "read32 mem p = rbind (read_bytes mem p 4) (\<lambda>bs. Inr (be32_dec bs))"

lemma be16_enc_length [simp, wire_simps]: "length (be16_enc w) = 2"
  by (simp add: be16_enc_def)

lemma be32_enc_length [simp, wire_simps]: "length (be32_enc w) = 4"
  by (simp add: be32_enc_def)

lemma be16_dec_enc [simp, wire_simps]: "be16_dec (be16_enc w) = w"
  by (rule bit_word_eqI) (auto simp: be16_dec_def be16_enc_def bit_simps)

lemma be32_dec_enc [simp, wire_simps]: "be32_dec (be32_enc w) = w"
proof (rule bit_word_eqI)
  fix n :: nat
  assume "n < LENGTH(32)"
  then consider "n < 8" | "8 \<le> n" "n < 16" | "16 \<le> n" "n < 24" | "24 \<le> n" "n < 32"
    by fastforce
  then show "bit (be32_dec (be32_enc w)) n = bit w n"
    by cases (auto simp: be32_dec_def be32_enc_def bit_simps)
qed

lemma byte_bit_out: "8 \<le> n \<Longrightarrow> \<not> bit (b :: byte) n"
  by (auto dest: bit_imp_le_length)

lemma be16_enc_dec: "be16_enc (be16_dec [a, b]) = [a, b]"
  by (auto simp: be16_dec_def be16_enc_def bit_simps byte_bit_out intro!: bit_word_eqI)

lemma be32_enc_dec: "be32_enc (be32_dec [a, b, c, d]) = [a, b, c, d]"
  by (auto simp: be32_dec_def be32_enc_def bit_simps byte_bit_out intro!: bit_word_eqI)

text \<open>The contract of a fixed-width field.\<close>

locale byte_codec =
  fixes width :: nat
    and enc :: "'a \<Rightarrow> byte list"
    and dec :: "byte list \<Rightarrow> 'a"
  assumes enc_width: "length (enc x) = width"
    and dec_enc: "dec (enc x) = x"
    and enc_dec: "length bs = width \<Longrightarrow> enc (dec bs) = bs"
begin

lemma enc_inject: "enc x = enc y \<longleftrightarrow> x = y"
  by (metis dec_enc)

lemma read_field:
  "rbind (read_bytes (pre @ enc x @ post) (length pre) width) (\<lambda>bs. Inr (dec bs)) = Inr x"
  using read_bytes_app [of pre "enc x" post] by (simp add: enc_width dec_enc)

lemma read_written_field:
  assumes "write_bytes mem p (enc x) = Inr mem'"
  shows "rbind (read_bytes mem' p width) (\<lambda>bs. Inr (dec bs)) = Inr x"
  using read_after_write [OF assms] by (simp add: enc_width dec_enc)

end

interpretation u8_field: byte_codec 1 "\<lambda>b. [b]" "\<lambda>bs. hd bs"
  by unfold_locales (auto simp: length_Suc_conv)

interpretation be16_field: byte_codec 2 be16_enc be16_dec
proof unfold_locales
  fix bs :: "byte list"
  assume "length bs = 2"
  then obtain a b where "bs = [a, b]"
    by (auto simp: numeral_2_eq_2 length_Suc_conv)
  then show "be16_enc (be16_dec bs) = bs"
    by (simp add: be16_enc_dec)
qed simp_all

interpretation be32_field: byte_codec 4 be32_enc be32_dec
proof unfold_locales
  fix bs :: "byte list"
  assume "length bs = 4"
  then obtain a b c d where "bs = [a, b, c, d]"
    by (auto simp: numeral_eq_Suc length_Suc_conv)
  then show "be32_enc (be32_dec bs) = bs"
    by (simp add: be32_enc_dec)
qed simp_all

lemma read16_app [mem_simps]:
  "length pre = p \<Longrightarrow> read16 (pre @ be16_enc w @ post) p = Inr w"
  using be16_field.read_field [of pre w post] by (simp add: read16_def)

lemma read32_app [mem_simps]:
  "length pre = p \<Longrightarrow> read32 (pre @ be32_enc w @ post) p = Inr w"
  using be32_field.read_field [of pre w post] by (simp add: read32_def)

section \<open>Operations that keep their state when they throw\<close>

text \<open>A member function that throws leaves its object as it is at that point.\<close>

type_synonym 's outcome = "unit result \<times> 's"

definition and_then :: "'s outcome \<Rightarrow> ('s \<Rightarrow> 's outcome) \<Rightarrow> 's outcome" where
  "and_then r f = (case r of (Inl e, s) \<Rightarrow> (Inl e, s) | (Inr _, s) \<Rightarrow> f s)"

lemma and_then_simps [simp, res_simps]: "and_then (Inl e, s) f = (Inl e, s)" "and_then (Inr u, s) f = f s"
  by (simp_all add: and_then_def)

fun for_each :: "('a \<Rightarrow> 's \<Rightarrow> 's outcome) \<Rightarrow> 'a list \<Rightarrow> 's \<Rightarrow> 's outcome" where
  "for_each f [] s = (Inr (), s)"
| "for_each f (x # xs) s = and_then (f x s) (for_each f xs)"

lemma for_each_invariant:
  assumes "\<And>x s. x \<in> set xs \<Longrightarrow> P s \<Longrightarrow> P (snd (f x s))" and "P s"
  shows "P (snd (for_each f xs s))"
  using assms
proof (induction xs arbitrary: s)
  case (Cons x xs)
  then have "P (snd (f x s))" by simp
  with Cons show ?case by (cases "f x s"; cases "fst (f x s)") simp_all
qed simp

end
