(* ===== verification/Ordered_Map.thy ===== *)
theory Ordered_Map
  imports Main
begin

text \<open>
  \<^verbatim>\<open>std::map\<close> as the code uses it: a container iterated in the order of its keys. It is an
  association list kept strictly sorted by key, so that \<^verbatim>\<open>for (auto& x : m)\<close> is a walk down the
  list. The locale \<open>std_map\<close> is the contract the components rely on (what a lookup returns after
  each operation, what the operations keep of the ordering); the association list interprets it.
\<close>

type_synonym ('k, 'v) omap = "('k \<times> 'v) list"

text \<open>\<^verbatim>\<open>m[k] = v\<close>, \<^verbatim>\<open>insert_or_assign\<close>.\<close>

fun om_set :: "'k::linorder \<Rightarrow> 'v \<Rightarrow> ('k, 'v) omap \<Rightarrow> ('k, 'v) omap" where
  "om_set k v [] = [(k, v)]"
| "om_set k v ((k', v') # m) =
     (if k < k' then (k, v) # (k', v') # m
      else if k = k' then (k, v) # m
      else (k', v') # om_set k v m)"

text \<open>\<^verbatim>\<open>find\<close>.\<close>

definition om_get :: "('k, 'v) omap \<Rightarrow> 'k \<Rightarrow> 'v option" where
  "om_get m k = map_of m k"

text \<open>\<^verbatim>\<open>insert\<close> and \<^verbatim>\<open>emplace\<close>, which leave an existing entry as it is.\<close>

definition om_insert :: "'k::linorder \<Rightarrow> 'v \<Rightarrow> ('k, 'v) omap \<Rightarrow> ('k, 'v) omap" where
  "om_insert k v m = (case om_get m k of None \<Rightarrow> om_set k v m | Some _ \<Rightarrow> m)"

definition om_erase :: "'k \<Rightarrow> ('k, 'v) omap \<Rightarrow> ('k, 'v) omap" where
  "om_erase k m = filter (\<lambda>(k', _). k' \<noteq> k) m"

definition om_keys :: "('k, 'v) omap \<Rightarrow> 'k list" where
  "om_keys m = map fst m"

definition om_ok :: "('k::linorder, 'v) omap \<Rightarrow> bool" where
  "om_ok m \<longleftrightarrow> sorted_wrt (<) (om_keys m)"

text \<open>The erase-while-iterating loops: every entry that satisfies \<open>p\<close> goes.\<close>

definition om_erase_if :: "('k \<Rightarrow> 'v \<Rightarrow> bool) \<Rightarrow> ('k, 'v) omap \<Rightarrow> ('k, 'v) omap" where
  "om_erase_if p m = filter (\<lambda>(k, v). \<not> p k v) m"

section \<open>Laws\<close>

lemma om_get_Nil [simp]: "om_get [] k = None"
  by (simp add: om_get_def)

lemma om_get_Cons [simp]: "om_get ((k', v) # m) k = (if k = k' then Some v else om_get m k)"
  by (auto simp: om_get_def)

lemma om_keys_Nil [simp]: "om_keys [] = []"
  by (simp add: om_keys_def)

lemma om_keys_Cons [simp]: "om_keys (x # m) = fst x # om_keys m"
  by (simp add: om_keys_def)

lemma om_ok_Nil [simp]: "om_ok []"
  by (simp add: om_ok_def)

lemma om_ok_Cons: "om_ok ((k, v) # m) \<longleftrightarrow> (\<forall>k' \<in> set (om_keys m). k < k') \<and> om_ok m"
  by (simp add: om_ok_def)

lemma set_om_keys: "set (om_keys m) = {k. om_get m k \<noteq> None}"
  by (auto simp: om_keys_def om_get_def dom_map_of_conv_image_fst [symmetric])

lemma om_get_None_iff: "om_get m k = None \<longleftrightarrow> k \<notin> set (om_keys m)"
  by (simp add: set_om_keys)

lemma om_get_in_set: "om_get m k = Some v \<Longrightarrow> (k, v) \<in> set m"
  by (simp add: om_get_def map_of_SomeD)

lemma om_ok_distinct: "om_ok m \<Longrightarrow> distinct (om_keys m)"
  by (simp add: om_ok_def strict_sorted_iff)

lemma om_in_set_get: "om_ok m \<Longrightarrow> (k, v) \<in> set m \<Longrightarrow> om_get m k = Some v"
  by (simp add: om_get_def om_ok_distinct om_keys_def [symmetric])

lemma om_get_set: "om_ok m \<Longrightarrow> om_get (om_set k v m) k' = (if k' = k then Some v else om_get m k')"
proof (induction k v m rule: om_set.induct)
  case (2 k v a b m)
  then show ?case
    by (auto simp: om_ok_Cons)
qed simp

lemma keys_om_set: "set (om_keys (om_set k v m)) = insert k (set (om_keys m))"
  by (induction k v m rule: om_set.induct) auto

lemma om_set_subset: "set (om_set k v m) \<subseteq> insert (k, v) (set m)"
  by (induction k v m rule: om_set.induct) auto

lemma om_insert_subset: "set (om_insert k v m) \<subseteq> insert (k, v) (set m)"
  using om_set_subset [of k v m] by (auto simp: om_insert_def split: option.split)

lemma om_ok_set: "om_ok m \<Longrightarrow> om_ok (om_set k v m)"
  by (induction k v m rule: om_set.induct) (auto simp: om_ok_Cons keys_om_set)

lemma om_keys_erase: "om_keys (om_erase k m) = filter (\<lambda>k'. k' \<noteq> k) (om_keys m)"
  by (induction m) (auto simp: om_erase_def om_keys_def)

lemma om_ok_erase: "om_ok m \<Longrightarrow> om_ok (om_erase k m)"
  by (simp add: om_ok_def om_keys_erase sorted_wrt_filter)

lemma om_get_erase: "om_get (om_erase k m) k' = (if k' = k then None else om_get m k')"
  by (induction m) (auto simp: om_erase_def om_get_def)

lemma om_get_erase_if:
  "om_ok m \<Longrightarrow> om_get (om_erase_if p m) k =
     (case om_get m k of None \<Rightarrow> None | Some v \<Rightarrow> if p k v then None else Some v)"
proof (induction m)
  case Nil
  then show ?case by (simp add: om_erase_if_def)
next
  case (Cons x m)
  obtain a b where x: "x = (a, b)" by force
  show ?case
  proof (cases "p a b \<and> k = a")
    case True
    with Cons.prems x have "om_get m a = None"
      by (auto simp: om_ok_Cons om_get_None_iff)
    with Cons True x show ?thesis
      by (auto simp: om_erase_if_def om_ok_Cons)
  next
    case False
    with Cons x show ?thesis
      by (auto simp: om_erase_if_def om_ok_Cons)
  qed
qed

lemma om_keys_erase_if_subset: "set (om_keys (om_erase_if p m)) \<subseteq> set (om_keys m)"
  by (auto simp: om_erase_if_def om_keys_def)

lemma om_ok_erase_if: "om_ok m \<Longrightarrow> om_ok (om_erase_if p m)"
proof (induction m)
  case Nil
  then show ?case by (simp add: om_erase_if_def)
next
  case (Cons x m)
  obtain a b where x: "x = (a, b)" by force
  have "om_erase_if p (x # m) = (if p a b then om_erase_if p m else x # om_erase_if p m)"
    by (simp add: om_erase_if_def x)
  with Cons x om_keys_erase_if_subset [of p m] show ?case
    by (auto simp: om_ok_Cons)
qed

text \<open>A strictly sorted list overwritten at a present key keeps its keys.\<close>

lemma om_keys_set_present:
  "om_ok m \<Longrightarrow> om_get m k = Some v \<Longrightarrow> om_keys (om_set k v' m) = om_keys m"
proof (induction k v' m rule: om_set.induct)
  case (2 k v' a b m)
  then show ?case
    by (auto simp: om_ok_Cons om_get_None_iff [symmetric] split: if_splits
        dest: order_less_imp_not_less)
qed simp

lemma om_length_set:
  "om_ok m \<Longrightarrow> length (om_set k v m) = (if om_get m k = None then Suc (length m) else length m)"
proof (induction k v m rule: om_set.induct)
  case (2 k v a b m)
  then show ?case
    by (auto simp: om_ok_Cons om_get_None_iff split: if_splits)
qed simp

text \<open>A key above all others goes to the end.\<close>

lemma om_set_last: "(\<forall>k' \<in> set (om_keys m). k' < k) \<Longrightarrow> om_set k v m = m @ [(k, v)]"
  by (induction k v m rule: om_set.induct) auto

section \<open>The interface\<close>

locale std_map =
  fixes get :: "'m \<Rightarrow> 'k::linorder \<Rightarrow> 'v option"
    and assign :: "'k \<Rightarrow> 'v \<Rightarrow> 'm \<Rightarrow> 'm"
    and emplace :: "'k \<Rightarrow> 'v \<Rightarrow> 'm \<Rightarrow> 'm"
    and erase :: "'k \<Rightarrow> 'm \<Rightarrow> 'm"
    and ok :: "'m \<Rightarrow> bool"
  assumes get_assign: "ok m \<Longrightarrow> get (assign k v m) = (get m)(k \<mapsto> v)"
    and get_emplace: "ok m \<Longrightarrow>
      get (emplace k v m) = (if get m k = None then (get m)(k \<mapsto> v) else get m)"
    and get_erase: "ok m \<Longrightarrow> get (erase k m) = (get m)(k := None)"
    and ok_assign: "ok m \<Longrightarrow> ok (assign k v m)"
    and ok_emplace: "ok m \<Longrightarrow> ok (emplace k v m)"
    and ok_erase: "ok m \<Longrightarrow> ok (erase k m)"
begin

lemmas ok_intros = ok_assign ok_emplace ok_erase

lemma emplace_keeps: "ok m \<Longrightarrow> get m k = Some v \<Longrightarrow> get (emplace k' v' m) k = Some v"
  by (auto simp: get_emplace)

lemma emplace_present: "ok m \<Longrightarrow> get (emplace k v m) k \<noteq> None"
  by (auto simp: get_emplace)

lemma erase_other: "ok m \<Longrightarrow> k' \<noteq> k \<Longrightarrow> get (erase k m) k' = get m k'"
  by (simp add: get_erase)

lemma erase_gone: "ok m \<Longrightarrow> get (erase k m) k = None"
  by (simp add: get_erase)

lemma assign_dom: "ok m \<Longrightarrow> dom (get (assign k v m)) = insert k (dom (get m))"
  by (simp add: get_assign)

lemma emplace_dom: "ok m \<Longrightarrow> dom (get (emplace k v m)) = insert k (dom (get m))"
  by (auto simp: get_emplace)

lemma ok_fold_emplace: "ok m \<Longrightarrow> ok (fold (\<lambda>(k, v). emplace k v) kvs m)"
  by (induction kvs arbitrary: m) (auto simp: ok_emplace)

lemma dom_fold_emplace:
  "ok m \<Longrightarrow> dom (get (fold (\<lambda>(k, v). emplace k v) kvs m)) = dom (get m) \<union> fst ` set kvs"
  by (induction kvs arbitrary: m) (simp_all add: ok_emplace emplace_dom case_prod_beta)

end

interpretation om: std_map om_get om_set om_insert om_erase om_ok
proof unfold_locales
  fix m :: "('a::linorder, 'b) omap" and k :: 'a and v :: 'b
  assume m: "om_ok m"
  show get: "om_get (om_set k v m) = (om_get m)(k \<mapsto> v)"
    using m by (auto simp: om_get_set fun_eq_iff)
  show "om_get (om_insert k v m) = (if om_get m k = None then (om_get m)(k \<mapsto> v) else om_get m)"
    using get by (auto simp: om_insert_def)
  show "om_get (om_erase k m) = (om_get m)(k := None)"
    by (auto simp: om_get_erase fun_eq_iff)
  show "om_ok (om_set k v m)"
    using m by (rule om_ok_set)
  show "om_ok (om_insert k v m)"
    using m by (simp add: om_insert_def om_ok_set split: option.split)
  show "om_ok (om_erase k m)"
    using m by (rule om_ok_erase)
qed

end
