(* ===== verification/Float_Division.thy ===== *)
theory Float_Division
  imports Complex_Main "HOL-Library.Log_Nat" Flute_Prelude
begin

text \<open>
  The code computes block and symbol counts by dividing in \<^verbatim>\<open>float\<close> or \<^verbatim>\<open>double\<close> and rounding up
  or down afterwards. This theory models that arithmetic: every operation is the exact rational
  result rounded to the nearest value with \<open>p\<close> significant bits, ties to even (\<open>p = 24\<close> for
  \<^verbatim>\<open>float\<close>, \<open>p = 53\<close> for \<^verbatim>\<open>double\<close>; the exponents of the values that occur are far from the limits
  of both formats). The main result is that, while the dividend has at most \<open>p\<close> bits, the rounded
  quotient has the floor and the ceiling of the exact one.
\<close>

section \<open>Rounding to \<open>p\<close> significant bits\<close>

text \<open>The exponent of the leading bit of a positive rational.\<close>

definition lead_exp :: "rat \<Rightarrow> int" where
  "lead_exp x =
     (let (n, d) = quotient_of x;
          k = int (floorlog 2 (nat n)) - int (floorlog 2 (nat d))
      in if 2 powi k \<le> x then k else k - 1)"

text \<open>Nearest integer, ties to even.\<close>

definition round_even :: "rat \<Rightarrow> int" where
  "round_even x =
     (let f = \<lfloor>x\<rfloor>; r = x - of_int f
      in if r < 1 / 2 \<or> (r = 1 / 2 \<and> even f) then f else f + 1)"

definition fp_round :: "nat \<Rightarrow> rat \<Rightarrow> rat" where
  "fp_round p x =
     (if x = 0 then 0
      else let u = 2 powi (lead_exp x - (int p - 1)) in of_int (round_even (x / u)) * u)"

text \<open>Integers are rounded when they are converted, and the quotient is rounded again. A division
  by zero gives an infinity or a NaN, which is \<open>None\<close> here.\<close>

definition fp_div :: "nat \<Rightarrow> nat \<Rightarrow> nat \<Rightarrow> rat option" where
  "fp_div p a b =
     (if b = 0 then None
      else Some (fp_round p (fp_round p (of_nat a) / fp_round p (of_nat b))))"

text \<open>\<^verbatim>\<open>std::ceil\<close> and \<^verbatim>\<open>std::floor\<close> of a quotient, on their way into an integer type: an infinity,
  a NaN or a value outside the type has no defined conversion.\<close>

definition fp_ceil_div :: "nat \<Rightarrow> nat \<Rightarrow> nat \<Rightarrow> int result" where
  "fp_ceil_div p a b =
     (case fp_div p a b of None \<Rightarrow> Inl (Undefined ''float conversion'') | Some q \<Rightarrow> Inr \<lceil>q\<rceil>)"

definition fp_floor_div :: "nat \<Rightarrow> nat \<Rightarrow> nat \<Rightarrow> int result" where
  "fp_floor_div p a b =
     (case fp_div p a b of None \<Rightarrow> Inl (Undefined ''float conversion'') | Some q \<Rightarrow> Inr \<lfloor>q\<rfloor>)"

definition to_u32 :: "int \<Rightarrow> u32 result" where
  "to_u32 z = (if 0 \<le> z \<and> z < 2 ^ 32 then Inr (of_int z)
               else Inl (Undefined ''float conversion''))"

definition to_int32 :: "int \<Rightarrow> int result" where
  "to_int32 z = (if - (2 ^ 31) \<le> z \<and> z < 2 ^ 31 then Inr z
                 else Inl (Undefined ''float conversion''))"

section \<open>Exactness\<close>

lemma floorlog_bounds:
  assumes "0 < n"
  shows "2 powi (int (floorlog 2 n) - 1) \<le> (of_nat n :: rat)"
    and "(of_nat n :: rat) < 2 powi int (floorlog 2 n)"
proof -
  from floorlog_bounds [OF assms, of 2]
  have lo: "2 ^ (floorlog 2 n - 1) \<le> n" and hi: "n < 2 ^ floorlog 2 n"
    by simp_all
  have pos: "0 < floorlog 2 n"
    using assms by (simp add: floorlog_def)
  have "(2 :: rat) powi (int (floorlog 2 n) - 1) = 2 ^ (floorlog 2 n - 1)"
    using pos by (simp add: power_int_def nat_diff_distrib)
  moreover have "(2 :: rat) ^ (floorlog 2 n - 1) \<le> of_nat n"
    using lo by (metis of_nat_le_iff of_nat_numeral of_nat_power)
  ultimately show "2 powi (int (floorlog 2 n) - 1) \<le> (of_nat n :: rat)"
    by simp
  show "(of_nat n :: rat) < 2 powi int (floorlog 2 n)"
    using hi by (metis of_nat_less_iff of_nat_numeral of_nat_power power_int_of_nat)
qed

lemma lead_exp_bounds:
  assumes "0 < x"
  shows "2 powi lead_exp x \<le> x" and "x < 2 powi (lead_exp x + 1)"
proof -
  obtain n d where q: "quotient_of x = (n, d)"
    by force
  have d: "0 < d" and n: "0 < n" and x: "x = of_int n / of_int d"
    using q assms quotient_of_denom_pos [OF q] quotient_of_div [OF q]
    by (auto simp: zero_less_divide_iff)
  define ln where "ln = int (floorlog 2 (nat n))"
  define ld where "ld = int (floorlog 2 (nat d))"
  have n1: "2 powi (ln - 1) \<le> (of_int n :: rat)" and n2: "(of_int n :: rat) < 2 powi ln"
    using floorlog_bounds [of "nat n"] n by (simp_all add: ln_def)
  have d1: "2 powi (ld - 1) \<le> (of_int d :: rat)" and d2: "(of_int d :: rat) < 2 powi ld"
    using floorlog_bounds [of "nat d"] d by (simp_all add: ld_def)
  have "x < 2 powi ln / 2 powi (ld - 1)"
    unfolding x using n2 d1 d n by (intro frac_less) (auto simp: zero_less_power_int)
  also have "\<dots> = 2 powi (ln - ld + 1)"
    by (simp add: power_int_diff power_int_add)
  finally have up: "x < 2 powi (ln - ld + 1)" .
  have "2 powi (ln - ld - 1) = (2 powi (ln - 1) / 2 powi ld :: rat)"
    by (simp add: power_int_diff)
  also have "\<dots> \<le> x"
    unfolding x using n1 d2 d n by (intro frac_le) auto
  finally have low: "2 powi (ln - ld - 1) \<le> x" .
  have e: "lead_exp x = (if 2 powi (ln - ld) \<le> x then ln - ld else ln - ld - 1)"
    by (simp add: lead_exp_def q ln_def ld_def)
  show "2 powi lead_exp x \<le> x"
    using e low by auto
  show "x < 2 powi (lead_exp x + 1)"
    using e up by auto
qed

lemma round_even_floor: "round_even x = \<lfloor>x\<rfloor> \<or> round_even x = \<lfloor>x\<rfloor> + 1"
  by (simp add: round_even_def Let_def)

lemma round_even_of_int [simp]: "round_even (of_int m) = m"
  by (simp add: round_even_def)

lemma round_even_le:
  assumes "x \<le> of_int m"
  shows "round_even x \<le> m"
proof (cases "\<lfloor>x\<rfloor> = m")
  case True
  then have "of_int m \<le> x" by linarith
  with assms have "x = of_int m" by simp
  then show ?thesis by simp
next
  case False
  with assms have "\<lfloor>x\<rfloor> < m" by linarith
  with round_even_floor [of x] show ?thesis by linarith
qed

lemma round_even_ge: "of_int m \<le> x \<Longrightarrow> m \<le> round_even x"
  using round_even_floor [of x] by (auto simp: le_floor_iff [symmetric])

lemma round_even_close: "\<bar>of_int (round_even x) - x\<bar> \<le> 1 / 2"
  by (auto simp: round_even_def Let_def abs_if) linarith+

lemma fp_round_of_int:
  assumes "0 < n" and "n < 2 ^ p"
  shows "fp_round p (of_int n) = of_int n"
proof -
  define k where "k = nat (int p - 1 - lead_exp (of_int n))"
  have "2 powi lead_exp (of_int n) \<le> (of_int n :: rat)"
    using lead_exp_bounds(1) [of "of_int n"] assms by simp
  also have "\<dots> < 2 powi int p"
    using assms(2) by (metis of_int_less_iff of_int_numeral of_int_power power_int_of_nat)
  finally have "(2 :: rat) powi lead_exp (of_int n) < 2 powi int p" .
  then have "lead_exp (of_int n) < int p"
    using power_int_increasing [of "int p" "lead_exp (of_int n)" "2 :: rat"] by linarith
  then have k: "lead_exp (of_int n) - (int p - 1) = - int k"
    by (simp add: k_def)
  have u: "2 powi (lead_exp (of_int n) - (int p - 1)) = (1 / 2 ^ k :: rat)"
    unfolding k by (simp add: power_int_minus divide_inverse)
  have "round_even (of_int n * 2 ^ k) = n * 2 ^ k"
    using round_even_of_int [of "n * 2 ^ k"] by simp
  then show ?thesis
    using assms by (simp add: fp_round_def u)
qed

lemma fp_round_of_nat: "n < 2 ^ p \<Longrightarrow> fp_round p (of_nat n) = of_nat n"
  using fp_round_of_int [of "int n" p] by (cases "n = 0") (simp_all add: fp_round_def)

lemma fp_round_error:
  assumes "0 < x"
  shows "\<bar>fp_round p x - x\<bar> \<le> x / 2 ^ p"
proof -
  define u :: rat where "u = 2 powi (lead_exp x - (int p - 1))"
  have u: "0 < u" by (simp add: u_def zero_less_power_int)
  have "\<bar>of_int (round_even (x / u)) - x / u\<bar> * u \<le> 1 / 2 * u"
    by (rule mult_right_mono [OF round_even_close]) (simp add: u less_imp_le)
  then have "\<bar>fp_round p x - x\<bar> \<le> u / 2"
    using u assms by (simp add: fp_round_def u_def [symmetric] abs_mult_pos' left_diff_distrib
        abs_mult_pos)
  also have "u / 2 = 2 powi lead_exp x / 2 ^ p"
    by (simp add: u_def power_int_diff power_int_add)
  also have "\<dots> \<le> x / 2 ^ p"
    using lead_exp_bounds(1) [OF assms] by (simp add: divide_right_mono)
  finally show ?thesis .
qed

text \<open>
  The rounded quotient of an integer below \<open>2 ^ p\<close> stays strictly between the integers around the
  exact one: the distance to them is at least \<open>1 / b\<close> and the rounding error is smaller.
\<close>

lemma fp_round_ratio_error:
  assumes "0 < a" and "a < 2 ^ p" and "0 < b"
  shows "\<bar>fp_round p (of_nat a / of_nat b) - of_nat a / of_nat b\<bar> < (1 / of_nat b :: rat)"
proof -
  let ?x = "of_nat a / of_nat b :: rat"
  have "\<bar>fp_round p ?x - ?x\<bar> \<le> ?x / 2 ^ p"
    using assms by (intro fp_round_error) simp
  also have "\<dots> < 1 / of_nat b"
  proof -
    have "of_nat a < (2 ^ p :: rat)"
      using assms(2) by (metis of_nat_less_iff of_nat_numeral of_nat_power)
    with assms(3) show ?thesis by (simp add: field_simps)
  qed
  finally show ?thesis .
qed

lemma fp_round_between:
  assumes "of_int m \<le> x" and "0 < x" and "x < 2 ^ p" and "x \<le> of_int n"
  shows "of_int m \<le> fp_round p x" and "fp_round p x \<le> of_int n"
proof -
  define k where "k = nat (int p - 1 - lead_exp x)"
  have "(2 :: rat) powi lead_exp x < 2 powi int p"
    using lead_exp_bounds(1) [OF assms(2)] assms(3) by simp
  then have "lead_exp x < int p"
    using power_int_increasing [of "int p" "lead_exp x" "2 :: rat"] by linarith
  then have k: "lead_exp x - (int p - 1) = - int k"
    by (simp add: k_def)
  have u: "2 powi (lead_exp x - (int p - 1)) = (1 / 2 ^ k :: rat)"
    unfolding k by (simp add: power_int_minus divide_inverse)
  have r: "fp_round p x = of_int (round_even (x * 2 ^ k)) / 2 ^ k"
    using assms(2) by (simp add: fp_round_def u)
  have "of_int (m * 2 ^ k) \<le> x * 2 ^ k" and "x * 2 ^ k \<le> of_int (n * 2 ^ k)"
    using assms by simp_all
  then have "m * 2 ^ k \<le> round_even (x * 2 ^ k)" and "round_even (x * 2 ^ k) \<le> n * 2 ^ k"
    using round_even_ge round_even_le by blast+
  then have "of_int (m * 2 ^ k) \<le> (of_int (round_even (x * 2 ^ k)) :: rat)"
    and "(of_int (round_even (x * 2 ^ k)) :: rat) \<le> of_int (n * 2 ^ k)"
    by (simp_all only: of_int_le_iff)
  then show "of_int m \<le> fp_round p x" and "fp_round p x \<le> of_int n"
    unfolding r by (simp_all add: pos_le_divide_eq pos_divide_le_eq)
qed

lemma ratio_gap:
  assumes "0 < b"
  shows "of_int \<lfloor>of_nat a / of_nat b :: rat\<rfloor> + 1 - of_nat a / of_nat b \<ge> (1 / of_nat b :: rat)"
    and "of_nat a / of_nat b - (of_int \<lceil>of_nat a / of_nat b :: rat\<rceil> - 1) \<ge> (1 / of_nat b :: rat)"
proof -
  let ?x = "of_nat a / of_nat b :: rat"
  have b: "0 < (of_nat b :: rat)" using assms by simp
  have "?x < of_int (\<lfloor>?x\<rfloor> + 1)" by linarith
  then have "of_int (int a) < (of_int ((\<lfloor>?x\<rfloor> + 1) * int b) :: rat)"
    using b by (simp add: field_simps)
  then have "int a + 1 \<le> (\<lfloor>?x\<rfloor> + 1) * int b"
    by (simp only: of_int_less_iff)
  then have "of_int (int a + 1) \<le> (of_int ((\<lfloor>?x\<rfloor> + 1) * int b) :: rat)"
    by (simp only: of_int_le_iff)
  then show "of_int \<lfloor>?x\<rfloor> + 1 - ?x \<ge> 1 / of_nat b"
    using b by (simp add: field_simps)
  have "of_int (\<lceil>?x\<rceil> - 1) < ?x" by linarith
  then have "(of_int ((\<lceil>?x\<rceil> - 1) * int b) :: rat) < of_int (int a)"
    using b by (simp add: field_simps)
  then have "(\<lceil>?x\<rceil> - 1) * int b + 1 \<le> int a"
    by (simp only: of_int_less_iff)
  then have "(of_int ((\<lceil>?x\<rceil> - 1) * int b + 1) :: rat) \<le> of_int (int a)"
    by (simp only: of_int_le_iff)
  then show "?x - (of_int \<lceil>?x\<rceil> - 1) \<ge> 1 / of_nat b"
    using b by (simp add: field_simps)
qed

lemma fp_round_ratio_exact:
  assumes "a < 2 ^ p" and "0 < b"
  shows "\<lceil>fp_round p (of_nat a / of_nat b)\<rceil> = \<lceil>of_nat a / of_nat b :: rat\<rceil>"
    and "\<lfloor>fp_round p (of_nat a / of_nat b)\<rfloor> = \<lfloor>of_nat a / of_nat b :: rat\<rfloor>"
proof -
  let ?x = "of_nat a / of_nat b :: rat"
  have "\<lceil>fp_round p ?x\<rceil> = \<lceil>?x\<rceil> \<and> \<lfloor>fp_round p ?x\<rfloor> = \<lfloor>?x\<rfloor>"
  proof (cases "a = 0")
    case True
    then show ?thesis by (simp add: fp_round_def)
  next
    case False
    then have err: "\<bar>fp_round p ?x - ?x\<bar> < 1 / of_nat b"
      using assms by (intro fp_round_ratio_error) simp_all
    have "of_nat a < (2 ^ p :: rat)"
      using assms(1) by (metis of_nat_less_iff of_nat_numeral of_nat_power)
    also have "(2 ^ p :: rat) \<le> 2 ^ p * of_nat b"
      using assms(2) by simp
    finally have "?x < 2 ^ p"
      using assms(2) by (simp add: pos_divide_less_eq)
    moreover have "0 < ?x"
      using False assms(2) by simp
    ultimately have "of_int \<lfloor>?x\<rfloor> \<le> fp_round p ?x" and "fp_round p ?x \<le> of_int \<lceil>?x\<rceil>"
      by (auto intro!: fp_round_between [where m = "\<lfloor>?x\<rfloor>" and n = "\<lceil>?x\<rceil>"])
    with err ratio_gap [OF assms(2), of a] show ?thesis
      by (auto simp: ceiling_eq_iff floor_eq_iff abs_less_iff)
  qed
  then show "\<lceil>fp_round p ?x\<rceil> = \<lceil>?x\<rceil>" and "\<lfloor>fp_round p ?x\<rfloor> = \<lfloor>?x\<rfloor>"
    by simp_all
qed

text \<open>Integer division, rounded up: what the code means to compute.\<close>

definition ceil_div :: "nat \<Rightarrow> nat \<Rightarrow> nat" where
  "ceil_div a b = (a + b - 1) div b"

lemma ceil_div_mult: "0 < b \<Longrightarrow> ceil_div (n * b) b = n"
  unfolding ceil_div_def by (rule div_nat_eqI) (simp_all add: algebra_simps)

lemma ceil_div_step: "0 < r \<Longrightarrow> r \<le> b \<Longrightarrow> ceil_div (q * b + r) b = Suc q"
  unfolding ceil_div_def by (rule div_nat_eqI) (simp_all add: algebra_simps)

lemma ceil_div_le_one: "0 < a \<Longrightarrow> a \<le> b \<Longrightarrow> ceil_div a b = 1"
  using ceil_div_step [of a b 0] by simp

lemma ceil_div_bounds:
  assumes "0 < b"
  shows "a \<le> b * ceil_div a b" and "0 < a \<Longrightarrow> b * (ceil_div a b - 1) < a"
    and "ceil_div a b \<le> a"
proof -
  have eq: "a + b - 1 = b * ceil_div a b + (a + b - 1) mod b" and lt: "(a + b - 1) mod b < b"
    using assms by (simp_all add: ceil_div_def)
  show "a \<le> b * ceil_div a b"
    using eq lt assms by linarith
  show "0 < a \<Longrightarrow> b * (ceil_div a b - 1) < a"
    using eq assms by (simp add: diff_mult_distrib2)
  have "b * ceil_div a b \<le> a + (b - 1)"
    using eq assms by linarith
  show "ceil_div a b \<le> a"
  proof (rule ccontr)
    assume "\<not> ceil_div a b \<le> a"
    then have "Suc a \<le> ceil_div a b" by simp
    then have "b * Suc a \<le> b * ceil_div a b" by (rule mult_le_mono2)
    with \<open>b * ceil_div a b \<le> a + (b - 1)\<close> have "b * Suc a \<le> a + (b - 1)" by linarith
    moreover have "a \<le> b * a" using assms by simp
    ultimately show False using assms unfolding mult_Suc_right by linarith
  qed
qed

lemma ceil_div_pos: "0 < b \<Longrightarrow> 0 < a \<Longrightarrow> 0 < ceil_div a b"
  using ceil_div_bounds(1) [of b a] by (cases "ceil_div a b") auto

lemma ceiling_ratio:
  assumes b: "0 < b"
  shows "\<lceil>of_nat a / of_nat b :: rat\<rceil> = int (ceil_div a b)"
proof -
  define q where "q = ceil_div a b"
  have eq: "a + b - 1 = b * q + (a + b - 1) mod b" and lt: "(a + b - 1) mod b < b"
    using b by (simp_all add: q_def ceil_div_def)
  have "b * q < a + b"
    using eq b by linarith
  then have "of_nat (b * q) < (of_nat (a + b) :: rat)"
    by (simp only: of_nat_less_iff)
  then have "of_int (int q) - 1 < (of_nat a / of_nat b :: rat)"
    using b by (simp add: field_simps)
  moreover have "a \<le> b * q"
    using eq lt b by linarith
  then have "of_nat a \<le> (of_nat (b * q) :: rat)"
    by (simp only: of_nat_le_iff)
  then have "of_nat a / of_nat b \<le> (of_int (int q) :: rat)"
    using b by (simp add: field_simps)
  ultimately show ?thesis
    by (simp add: ceiling_eq_iff q_def)
qed

lemma floor_ratio: "\<lfloor>of_nat a / of_nat b :: rat\<rfloor> = int (a div b)"
  by (simp add: floor_divide_of_nat_eq)

theorem fp_ceil_div_exact:
  "a < 2 ^ p \<Longrightarrow> b < 2 ^ p \<Longrightarrow> 0 < b \<Longrightarrow> fp_ceil_div p a b = Inr (int (ceil_div a b))"
  by (simp add: fp_ceil_div_def fp_div_def fp_round_of_nat fp_round_ratio_exact ceiling_ratio)

theorem fp_floor_div_exact:
  "a < 2 ^ p \<Longrightarrow> b < 2 ^ p \<Longrightarrow> 0 < b \<Longrightarrow> fp_floor_div p a b = Inr (int (a div b))"
  by (simp add: fp_floor_div_def fp_div_def fp_round_of_nat fp_round_ratio_exact floor_ratio)

lemma fp_ceil_div_zero: "fp_ceil_div p a 0 = Inl (Undefined ''float conversion'')"
  by (simp add: fp_ceil_div_def fp_div_def)

lemma fp_floor_div_zero: "fp_floor_div p a 0 = Inl (Undefined ''float conversion'')"
  by (simp add: fp_floor_div_def fp_div_def)

end
