(* ===== verification/C_Numbers.thy ===== *)
theory C_Numbers
  imports Flute_Prelude
begin

text \<open>
  The number formatting and parsing of the C and C++ standard libraries that the file delivery
  table uses: \<^verbatim>\<open>std::to_string\<close>, \<^verbatim>\<open>strtoul\<close>/\<^verbatim>\<open>strtoull\<close> with base 0 (LP64, so both have 64 bits) and
  \<^verbatim>\<open>std::stoull\<close>. Printing followed by parsing gives the number back.
\<close>

section \<open>Printing\<close>

definition digit_char :: "nat \<Rightarrow> char" where
  "digit_char d = char_of (48 + d)"

fun dec_string :: "nat \<Rightarrow> string" where
  "dec_string n = (if n < 10 then [digit_char n] else dec_string (n div 10) @ [digit_char (n mod 10)])"

declare dec_string.simps [simp del]

definition std_to_string :: "u64 \<Rightarrow> string" where
  "std_to_string w = dec_string (unat w)"

section \<open>Parsing\<close>

definition c_isspace :: "char \<Rightarrow> bool" where
  "c_isspace c \<longleftrightarrow> of_char c = (32 :: nat) \<or> (9 \<le> (of_char c :: nat) \<and> of_char c \<le> (13 :: nat))"

definition digit_val :: "nat \<Rightarrow> char \<Rightarrow> nat option" where
  "digit_val base c =
     (let n = of_char c :: nat;
          v = (if 48 \<le> n \<and> n \<le> 57 then n - 48
               else if 97 \<le> n \<and> n \<le> 122 then n - 87
               else if 65 \<le> n \<and> n \<le> 90 then n - 55
               else base)
      in if v < base then Some v else None)"

definition digits_of :: "nat \<Rightarrow> string \<Rightarrow> nat list" where
  "digits_of base s = map (\<lambda>c. the (digit_val base c)) (takeWhile (\<lambda>c. digit_val base c \<noteq> None) s)"

definition digits_value :: "nat \<Rightarrow> nat list \<Rightarrow> nat" where
  "digits_value base ds = foldl (\<lambda>acc d. acc * base + d) 0 ds"

fun split_sign :: "string \<Rightarrow> bool \<times> string" where
  "split_sign [] = (False, [])"
| "split_sign (c # s) =
     (if c = CHR ''-'' then (True, s) else if c = CHR ''+'' then (False, s) else (False, c # s))"

text \<open>Base 0: \<^verbatim>\<open>0x\<close> before a hexadecimal digit selects 16, another leading \<^verbatim>\<open>0\<close> selects 8.\<close>

definition detect_base :: "string \<Rightarrow> nat \<times> string" where
  "detect_base s =
     (case s of
        c0 # c1 # c2 # t \<Rightarrow>
          if c0 = CHR ''0'' \<and> (c1 = CHR ''x'' \<or> c1 = CHR ''X'') \<and> digit_val 16 c2 \<noteq> None
          then (16, c2 # t)
          else if c0 = CHR ''0'' then (8, s) else (10, s)
      | c0 # t \<Rightarrow> if c0 = CHR ''0'' then (8, s) else (10, s)
      | [] \<Rightarrow> (10, s))"

text \<open>The value saturates on overflow; a minus sign negates modulo \<open>2 ^ 64\<close>; no digits give 0.\<close>

definition c_strtoull :: "string \<Rightarrow> u64" where
  "c_strtoull s =
     (let (neg, t) = split_sign (dropWhile c_isspace s);
          (base, u) = detect_base t;
          v = digits_value base (digits_of base u)
      in if 2 ^ 64 \<le> v then - 1 else if neg then - of_nat v else of_nat v)"

text \<open>\<^verbatim>\<open>std::stoull\<close> in base 10 throws when there is no digit and when the value does not fit.\<close>

definition std_stoull :: "string \<Rightarrow> u64 result" where
  "std_stoull s =
     (let (neg, t) = split_sign (dropWhile c_isspace s);
          ds = digits_of 10 t;
          v = digits_value 10 ds
      in if ds = [] then Inl (StdExc ''invalid_argument'')
         else if 2 ^ 64 \<le> v then Inl (StdExc ''out_of_range'')
         else Inr (if neg then - of_nat v else of_nat v))"

section \<open>Round trips\<close>

lemma digit_char_code: "d < 10 \<Longrightarrow> of_char (digit_char d) = 48 + d"
  by (simp add: digit_char_def take_bit_nat_eq_self)

lemma digit_val_digit_char [simp]: "d < 10 \<Longrightarrow> 10 \<le> base \<Longrightarrow> digit_val base (digit_char d) = Some d"
  by (simp add: digit_val_def digit_char_code)

lemma digit_val_8_digit_char: "d < 8 \<Longrightarrow> digit_val 8 (digit_char d) = Some d"
  by (simp add: digit_val_def digit_char_code)

lemma dec_string_digits: "\<forall>c \<in> set (dec_string n). \<exists>d < 10. c = digit_char d"
proof (induction n rule: dec_string.induct)
  case (1 n)
  show ?case
  proof (cases "n < 10")
    case True
    then show ?thesis by (subst dec_string.simps) auto
  next
    case False
    with 1 show ?thesis by (subst dec_string.simps) (auto intro!: exI [of _ "n mod 10"])
  qed
qed

lemma dec_string_nonempty: "dec_string n \<noteq> []"
  by (subst dec_string.simps) simp

lemma digits_of_all:
  "\<forall>c \<in> set s. digit_val base c \<noteq> None \<Longrightarrow> digits_of base s = map (\<lambda>c. the (digit_val base c)) s"
  unfolding digits_of_def by (subst takeWhile_eq_all_conv [THEN iffD2]) simp_all

lemma digits_value_append: "digits_value base (ds @ [d]) = digits_value base ds * base + d"
  by (simp add: digits_value_def)

lemma dec_string_digit_vals: "\<forall>c \<in> set (dec_string n). digit_val 10 c \<noteq> None"
  using dec_string_digits [of n] by auto

lemma digits_value_dec_string:
  "digits_value 10 (map (\<lambda>c. the (digit_val 10 c)) (dec_string n)) = n"
proof (induction n rule: dec_string.induct)
  case (1 n)
  show ?case
  proof (cases "n < 10")
    case True
    then show ?thesis by (subst dec_string.simps) (simp add: digits_value_def)
  next
    case False
    with 1 show ?thesis
      by (subst dec_string.simps) (simp add: digits_value_append)
  qed
qed

lemma dec_string_parse: "digits_value 10 (digits_of 10 (dec_string n)) = n"
  by (simp add: digits_of_all [OF dec_string_digit_vals] digits_value_dec_string)

lemma dec_string_head:
  "0 < n \<Longrightarrow> \<exists>d. 0 < d \<and> d < 10 \<and> hd (dec_string n) = digit_char d"
proof (induction n rule: dec_string.induct)
  case (1 n)
  show ?case
  proof (cases "n < 10")
    case True
    with 1 show ?thesis by (subst dec_string.simps) auto
  next
    case False
    then have "0 < n div 10" by (simp add: div_greater_zero_iff)
    with 1 False obtain d where "0 < d" "d < 10" "hd (dec_string (n div 10)) = digit_char d"
      by auto
    with False show ?thesis
      by (subst dec_string.simps) (auto simp: hd_append dec_string_nonempty)
  qed
qed

lemma digit_char_plain:
  assumes "d < 10"
  shows "\<not> c_isspace (digit_char d)" "digit_char d \<noteq> CHR ''-''" "digit_char d \<noteq> CHR ''+''"
    "digit_char d = CHR ''0'' \<longleftrightarrow> d = 0"
proof -
  have code: "of_char (digit_char d) = (48 + d :: nat)"
    using assms by (rule digit_char_code)
  show "\<not> c_isspace (digit_char d)"
    by (simp add: c_isspace_def code)
  show "digit_char d \<noteq> CHR ''-''"
  proof
    assume "digit_char d = CHR ''-''"
    then have "of_char (digit_char d) = (45 :: nat)" by simp
    with code show False by simp
  qed
  show "digit_char d \<noteq> CHR ''+''"
  proof
    assume "digit_char d = CHR ''+''"
    then have "of_char (digit_char d) = (43 :: nat)" by simp
    with code show False by simp
  qed
  have "digit_char d = CHR ''0'' \<longleftrightarrow> of_char (digit_char d) = (of_char CHR ''0'' :: nat)"
    by (simp only: of_char_eq_iff)
  then show "digit_char d = CHR ''0'' \<longleftrightarrow> d = 0"
    by (simp add: code)
qed

lemma dec_string_lead:
  "dropWhile c_isspace (dec_string n) = dec_string n"
  "split_sign (dec_string n) = (False, dec_string n)"
proof -
  obtain c s where cs: "dec_string n = c # s"
    using dec_string_nonempty by (meson list.exhaust)
  with dec_string_digits [of n] obtain d where "d < 10" "c = digit_char d"
    by auto
  with cs digit_char_plain [of d] show
    "dropWhile c_isspace (dec_string n) = dec_string n"
    "split_sign (dec_string n) = (False, dec_string n)"
    by simp_all
qed

lemma detect_base_dec_string:
  assumes "0 < n"
  shows "detect_base (dec_string n) = (10, dec_string n)"
proof -
  obtain c s where cs: "dec_string n = c # s"
    using dec_string_nonempty by (meson list.exhaust)
  with dec_string_head [OF assms] digit_char_plain(4) have "c \<noteq> CHR ''0''"
    by auto
  with cs show ?thesis
    by (simp add: detect_base_def split: list.split)
qed

theorem strtoull_dec_string:
  assumes "n < 2 ^ 64"
  shows "c_strtoull (dec_string n) = of_nat n"
proof (cases "n = 0")
  case True
  have "dec_string 0 = ''0''"
    using digit_char_plain(4) [of 0] by (subst dec_string.simps) simp
  with True show ?thesis
    by (simp add: c_strtoull_def c_isspace_def detect_base_def digits_of_def digits_value_def
        digit_val_def)
next
  case False
  with assms show ?thesis
    by (simp add: c_strtoull_def dec_string_lead detect_base_dec_string dec_string_parse)
qed

theorem stoull_dec_string: "n < 2 ^ 64 \<Longrightarrow> std_stoull (dec_string n) = Inr (of_nat n)"
  by (simp add: std_stoull_def dec_string_lead dec_string_parse
      digits_of_all [OF dec_string_digit_vals] dec_string_nonempty digits_value_dec_string)

corollary strtoull_to_string: "c_strtoull (std_to_string w) = w"
  using u64_bound [of w] by (simp add: std_to_string_def strtoull_dec_string)

corollary stoull_to_string: "std_stoull (std_to_string w) = Inr w"
  using u64_bound [of w] by (simp add: std_to_string_def stoull_dec_string)

end
