(* ===== verification/Base64.thy ===== *)
theory Base64
  imports Flute_Prelude
begin

text \<open>
  \<^verbatim>\<open>utils/base64.cpp\<close>: encoding and decoding of the Content-MD5 values. The loops run over
  positions, as in the source: the encoder's is an \<^verbatim>\<open>unsigned int\<close>, a word of 32 bits that wraps, compared
  with a length of 64 bits, and its loop need not end; the decoder's is a \<^verbatim>\<open>size_t\<close>, which no string in
  memory makes wrap, a natural number. They are related to recursion over the lists of three bytes and
  of four characters, on which the round trip is proved.
\<close>

section \<open>Tables\<close>

definition base64_chars :: "bool \<Rightarrow> string" where
  "base64_chars url =
     ''ABCDEFGHIJKLMNOPQRSTUVWXYZ'' @
     ''abcdefghijklmnopqrstuvwxyz'' @
     ''0123456789'' @
     (if url then ''-_'' else ''+/'')"

definition pos_of_char :: "char \<Rightarrow> nat result" where
  "pos_of_char chr =
     (let c = of_char chr :: nat in
      if 65 \<le> c \<and> c \<le> 90 then Inr (c - 65)
      else if 97 \<le> c \<and> c \<le> 122 then Inr (c - 97 + (90 - 65) + 1)
      else if 48 \<le> c \<and> c \<le> 57 then Inr (c - 48 + (90 - 65) + (122 - 97) + 2)
      else if chr = CHR ''+'' \<or> chr = CHR ''-'' then Inr 62
      else if chr = CHR ''/'' \<or> chr = CHR ''_'' then Inr 63
      else Inl (StdExc ''Input is not valid base64-encoded data.''))"

section \<open>Encoding\<close>

definition b64_char :: "bool \<Rightarrow> byte \<Rightarrow> char" where
  "b64_char url i = base64_chars url ! unat i"

definition trailing_char :: "bool \<Rightarrow> char" where
  "trailing_char url = (if url then CHR ''.'' else CHR ''='')"

text \<open>The four characters that one turn of the encoding loop appends; \<open>pos + 1\<close> and \<open>pos + 2\<close> wrap.\<close>

definition encode_chunk :: "bool \<Rightarrow> byte list \<Rightarrow> u32 \<Rightarrow> string" where
  "encode_chunk url bytes pos =
     (let b0 = bytes ! unat pos; b1 = bytes ! unat (pos + 1); b2 = bytes ! unat (pos + 2) in
      b64_char url (drop_bit 2 (b0 AND 0xfc)) #
      (if unat (pos + 1) < length bytes then
         b64_char url (push_bit 4 (b0 AND 0x03) + drop_bit 4 (b1 AND 0xf0)) #
         (if unat (pos + 2) < length bytes then
            [b64_char url (push_bit 2 (b1 AND 0x0f) + drop_bit 6 (b2 AND 0xc0)), b64_char url (b2 AND 0x3f)]
          else
            [b64_char url (push_bit 2 (b1 AND 0x0f)), trailing_char url])
       else
         [b64_char url (push_bit 4 (b0 AND 0x03)), trailing_char url, trailing_char url]))"

partial_function (option) encode_loop :: "bool \<Rightarrow> byte list \<Rightarrow> u32 \<Rightarrow> string \<Rightarrow> string option" where
  "encode_loop url bytes pos ret =
     (if unat pos < length bytes
      then encode_loop url bytes (pos + 3) (ret @ encode_chunk url bytes pos)
      else Some ret)"

text \<open>\<open>None\<close> is the call that does not return: its text grows as long as there is memory.\<close>

definition base64_encode_bytes :: "byte list \<Rightarrow> bool \<Rightarrow> string option" where
  "base64_encode_bytes bytes url = encode_loop url bytes 0 ''''"

text \<open>The text of a call that returns. The calls in the library and its programs encode digests of 16 and 20
  bytes, and use the text.\<close>

definition base64_encode :: "byte list \<Rightarrow> bool \<Rightarrow> string" where
  "base64_encode bytes url = (case base64_encode_bytes bytes url of Some text \<Rightarrow> text | None \<Rightarrow> '''')"

section \<open>Line breaks\<close>

text \<open>\<^verbatim>\<open>str.insert(pos, "\n")\<close> every \<open>distance\<close> characters; a distance of 0 would not end.\<close>

definition insert_at :: "nat \<Rightarrow> string \<Rightarrow> string" where
  "insert_at pos str = take pos str @ [CHR 0x0A] @ drop pos str"

partial_function (option) linebreak_loop :: "nat \<Rightarrow> nat \<Rightarrow> string \<Rightarrow> string option" where
  "linebreak_loop distance pos str =
     (if pos < length str
      then linebreak_loop distance (pos + (distance + 1)) (insert_at pos str)
      else Some str)"

definition insert_linebreaks :: "string \<Rightarrow> nat \<Rightarrow> string option" where
  "insert_linebreaks str distance =
     (if length str = 0 then Some '''' else linebreak_loop distance distance str)"

definition base64_encode_pem :: "byte list \<Rightarrow> string option" where
  "base64_encode_pem s =
     (case base64_encode_bytes s False of None \<Rightarrow> None | Some text \<Rightarrow> insert_linebreaks text 64)"

definition base64_encode_mime :: "byte list \<Rightarrow> string option" where
  "base64_encode_mime s =
     (case base64_encode_bytes s False of None \<Rightarrow> None | Some text \<Rightarrow> insert_linebreaks text 76)"

section \<open>Decoding\<close>

text \<open>\<^verbatim>\<open>operator[]\<close> of a \<^verbatim>\<open>std::string\<close> is the terminating zero at its length.\<close>

definition str_at :: "string \<Rightarrow> nat \<Rightarrow> char" where
  "str_at s i = (if i < length s then s ! i else CHR 0x00)"

definition is_pad :: "char \<Rightarrow> bool" where
  "is_pad c \<longleftrightarrow> c = CHR ''='' \<or> c = CHR ''.''"

text \<open>The one to three bytes that one turn of the decoding loop appends.\<close>

definition decode_chunk :: "string \<Rightarrow> nat \<Rightarrow> byte list result" where
  "decode_chunk s pos =
     rbind (pos_of_char (str_at s (pos + 1))) (\<lambda>p1.
     rbind (pos_of_char (str_at s pos)) (\<lambda>p0.
     let b0 = push_bit 2 (of_nat p0) + drop_bit 4 (of_nat p1 AND 0x30) in
     if pos + 2 < length s \<and> \<not> is_pad (str_at s (pos + 2)) then
       rbind (pos_of_char (str_at s (pos + 2))) (\<lambda>p2.
       let b1 = push_bit 4 (of_nat p1 AND 0x0f) + drop_bit 2 (of_nat p2 AND 0x3c) in
       if pos + 3 < length s \<and> \<not> is_pad (str_at s (pos + 3)) then
         rbind (pos_of_char (str_at s (pos + 3))) (\<lambda>p3.
         Inr [b0, b1, push_bit 6 (of_nat p2 AND 0x03) + of_nat p3])
       else Inr [b0, b1])
     else Inr [b0]))"

function decode_loop :: "string \<Rightarrow> nat \<Rightarrow> byte list \<Rightarrow> byte list result" where
  "decode_loop s pos ret =
     (if pos < length s
      then rbind (decode_chunk s pos) (\<lambda>bs. decode_loop s (pos + 4) (ret @ bs))
      else Inr ret)"
  by pat_completeness auto
termination
  by (relation "measure (\<lambda>(s, pos, ret). length s - pos)") auto

definition base64_decode :: "string \<Rightarrow> bool \<Rightarrow> byte list result" where
  "base64_decode s remove_linebreaks =
     (if s = [] then Inr []
      else if remove_linebreaks
      then (let copy = filter (\<lambda>c. c \<noteq> CHR 0x0A) s in
            if copy = [] then Inr [] else decode_loop copy 0 [])
      else decode_loop s 0 [])"

declare encode_loop.simps [code] decode_loop.simps [simp del]

section \<open>Recursion over chunks\<close>

fun encode_list :: "bool \<Rightarrow> byte list \<Rightarrow> string" where
  "encode_list url [] = ''''"
| "encode_list url [a] = encode_chunk url [a] 0"
| "encode_list url [a, b] = encode_chunk url [a, b] 0"
| "encode_list url (a # b # c # bs) = encode_chunk url [a, b, c] 0 @ encode_list url bs"

lemma unat_position: "n + k < 2 ^ 32 \<Longrightarrow> unat (of_nat n + of_nat k :: u32) = n + k"
  by (simp add: unat_of_nat take_bit_nat_eq_self flip: of_nat_add)

lemma encode_chunk_app:
  assumes "length pre + 2 < 2 ^ 32"
  shows "encode_chunk url (pre @ xs) (of_nat (length pre)) = encode_chunk url xs 0"
  using unat_position [of "length pre" 0] unat_position [of "length pre" 1] unat_position [of "length pre" 2] assms
  by (simp add: encode_chunk_def nth_append del: add_2_eq_Suc' cong: if_cong)

lemma encode_chunk_three: "encode_chunk url (a # b # c # bs) 0 = encode_chunk url [a, b, c] 0"
  by (simp add: encode_chunk_def)

lemma encode_loop_past:
  "length pre < 2 ^ 32 \<Longrightarrow> encode_loop url pre (of_nat (length pre)) ret = Some ret"
  using unat_position [of "length pre" 0] by (subst encode_loop.simps) simp

text \<open>No input below \<open>2 ^ 32\<close> bytes makes the position wrap: it is a multiple of 3, and so is \<open>2 ^ 32 - 1\<close>.\<close>

lemma encode_loop_turn:
  assumes "xs \<noteq> []" and "length pre + 3 < 2 ^ 32"
  shows "encode_loop url (pre @ xs) (of_nat (length pre)) ret =
     encode_loop url (pre @ xs) (of_nat (length pre) + 3) (ret @ encode_chunk url xs 0)"
  using assms unat_position [of "length pre" 0] encode_chunk_app [of pre url xs]
  by (subst encode_loop.simps) (simp add: add.commute)

lemma encode_loop_stop:
  assumes "length pre + 3 < 2 ^ 32" and "length xs \<le> 3"
  shows "encode_loop url (pre @ xs) (of_nat (length pre) + 3) ret = Some ret"
  using assms unat_position [of "length pre" 3] by (subst encode_loop.simps) simp

lemma position_below: "3 dvd n \<Longrightarrow> n < 2 ^ 32 - 1 \<Longrightarrow> n + 3 < (2 ^ 32 :: nat)"
  by simp presburger

lemma encode_loop_list:
  assumes "3 dvd length pre" and "length (pre @ xs) < 2 ^ 32"
  shows "encode_loop url (pre @ xs) (of_nat (length pre)) ret = Some (ret @ encode_list url xs)"
  using assms
proof (induction url xs arbitrary: pre ret rule: encode_list.induct)
  case (1 url)
  then show ?case using encode_loop_past [of pre url ret] by simp
next
  case (2 url a)
  then have n: "length pre + 3 < 2 ^ 32" by (intro position_below) simp_all
  then show ?case by (simp add: encode_loop_turn encode_loop_stop)
next
  case (3 url a b)
  then have n: "length pre + 3 < 2 ^ 32" by (intro position_below) simp_all
  then show ?case by (simp add: encode_loop_turn encode_loop_stop)
next
  case (4 url a b c bs)
  have n: "length pre + 3 < 2 ^ 32" using "4.prems"(2) by simp
  have "encode_loop url ((pre @ [a, b, c]) @ bs) (of_nat (length (pre @ [a, b, c]))) (ret @ encode_chunk url [a, b, c] 0) =
      Some ((ret @ encode_chunk url [a, b, c] 0) @ encode_list url bs)"
    by (rule "4.IH") (use "4.prems" in \<open>simp_all, presburger\<close>)
  then show ?case
    by (subst encode_loop_turn) (use n in \<open>simp_all add: encode_chunk_three [of url a b c bs] add.commute\<close>)
qed

lemma base64_encode_bytes_list: "length bytes < 2 ^ 32 \<Longrightarrow> base64_encode_bytes bytes url = Some (encode_list url bytes)"
  using encode_loop_list [of "[]" bytes url "[]"] by (simp add: base64_encode_bytes_def)

lemma base64_encode_list: "length bytes < 2 ^ 32 \<Longrightarrow> base64_encode bytes url = encode_list url bytes"
  by (simp add: base64_encode_def base64_encode_bytes_list)

text \<open>From \<open>2 ^ 32\<close> bytes on every position is within the input.\<close>

lemma encode_loop_returns: "encode_loop url bytes pos ret = Some r \<Longrightarrow> length bytes < 2 ^ 32"
proof (rule encode_loop.raw_induct [where P = "\<lambda>url bytes pos ret r. length bytes < 2 ^ 32"])
  assume "encode_loop url bytes pos ret = Some r"
  then show "encode_loop url bytes pos ret = Some r" .
next
  fix loop :: "bool \<Rightarrow> byte list \<Rightarrow> u32 \<Rightarrow> string \<Rightarrow> string option" and url bytes pos ret r
  assume 1: "\<And>url bytes pos ret r. loop url bytes pos ret = Some r \<Longrightarrow> length bytes < 2 ^ 32"
    "(if unat pos < length bytes then loop url bytes (pos + 3) (ret @ encode_chunk url bytes pos) else Some ret) = Some r"
  show "length bytes < 2 ^ 32"
  proof (cases "unat pos < length bytes")
    case True
    then show ?thesis using 1(1) [of url bytes] 1(2) by simp
  next
    case False
    moreover have "unat pos < 2 ^ 32" using unsigned_less [of pos] by simp
    ultimately show ?thesis by linarith
  qed
qed

lemma base64_encode_bytes_iff:
  "base64_encode_bytes bytes url = (if length bytes < 2 ^ 32 then Some (base64_encode bytes url) else None)"
proof (cases "length bytes < 2 ^ 32")
  case True
  then show ?thesis by (simp add: base64_encode_bytes_list base64_encode_list)
next
  case False
  then have "base64_encode_bytes bytes url = None"
    using encode_loop_returns [of url bytes 0 "[]"] unfolding base64_encode_bytes_def by (meson option.exhaust)
  with False show ?thesis by simp
qed

fun decode_list :: "string \<Rightarrow> byte list result" where
  "decode_list (c0 # c1 # c2 # c3 # cs) =
     rbind (decode_chunk [c0, c1, c2, c3] 0) (\<lambda>bs.
     rbind (decode_list cs) (\<lambda>rest. Inr (bs @ rest)))"
| "decode_list [] = Inr []"
| "decode_list cs = decode_chunk cs 0"

lemma str_at_app: "str_at (pre @ xs) (length pre + i) = str_at xs i"
  by (simp add: str_at_def nth_append)

lemma decode_chunk_app: "decode_chunk (pre @ xs) (length pre) = decode_chunk xs 0"
  using str_at_app [of pre xs 0] str_at_app [of pre xs 1] str_at_app [of pre xs 2]
    str_at_app [of pre xs 3]
  by (simp add: decode_chunk_def Let_def numeral_2_eq_2 cong: if_cong)

lemma decode_chunk_four:
  "decode_chunk (c0 # c1 # c2 # c3 # cs) 0 = decode_chunk [c0, c1, c2, c3] 0"
  by (simp add: decode_chunk_def str_at_def Let_def cong: if_cong)

lemma decode_loop_past: "length s \<le> pos \<Longrightarrow> decode_loop s pos ret = Inr ret"
  by (subst decode_loop.simps) simp

lemma decode_loop_turn:
  "xs \<noteq> [] \<Longrightarrow> decode_loop (pre @ xs) (length pre) ret =
     rbind (decode_chunk xs 0) (\<lambda>bs. decode_loop (pre @ xs) (length pre + 4) (ret @ bs))"
  by (subst decode_loop.simps) (simp add: decode_chunk_app)

lemma decode_loop_list:
  "decode_loop (pre @ xs) (length pre) ret = rbind (decode_list xs) (\<lambda>bs. Inr (ret @ bs))"
proof (induction xs arbitrary: pre ret rule: decode_list.induct)
  case (1 c0 c1 c2 c3 cs)
  have "decode_loop (pre @ c0 # c1 # c2 # c3 # cs) (length pre + 4) ret' =
      rbind (decode_list cs) (\<lambda>bs. Inr (ret' @ bs))"
    if "decode_chunk [c0, c1, c2, c3] 0 = Inr x" for ret' x
    using "1.IH" [OF that, of "pre @ [c0, c1, c2, c3]" ret'] by (simp add: eval_nat_numeral)
  then show ?case
    by (cases "decode_chunk [c0, c1, c2, c3] 0")
      (simp_all add: decode_loop_turn decode_chunk_four [of c0 c1 c2 c3 cs] rbind_assoc)
qed (simp_all add: decode_loop_turn decode_loop_past)

section \<open>Round trip\<close>

lemma pos_of_base64_chars: "map pos_of_char (base64_chars url) = map Inr [0..<64]"
  by (simp add: base64_chars_def pos_of_char_def upt_rec)

lemma base64_chars_clean:
  "list_all (\<lambda>c. c \<noteq> CHR ''='' \<and> c \<noteq> CHR ''.'' \<and> c \<noteq> CHR 0x0A) (base64_chars url)"
  by (simp add: base64_chars_def)

lemma base64_chars_length: "length (base64_chars url) = 64"
  by (simp add: base64_chars_def)

lemma b64_char_props:
  assumes "unat i < 64"
  shows "pos_of_char (b64_char url i) = Inr (unat i)" and "\<not> is_pad (b64_char url i)"
    and "b64_char url i \<noteq> CHR 0x0A"
proof -
  have i: "unat i < length (base64_chars url)"
    using assms by (simp add: base64_chars_length)
  have "pos_of_char (base64_chars url ! unat i) = map pos_of_char (base64_chars url) ! unat i"
    using i by simp
  then show "pos_of_char (b64_char url i) = Inr (unat i)"
    using assms by (simp add: b64_char_def pos_of_base64_chars)
  have "b64_char url i \<in> set (base64_chars url)"
    using i by (simp add: b64_char_def)
  then show "\<not> is_pad (b64_char url i)" and "b64_char url i \<noteq> CHR 0x0A"
    using base64_chars_clean [of url] by (auto simp: list_all_iff is_pad_def)
qed

lemma byte_cases8:
  assumes "n < LENGTH(8)"
  obtains "n = 0" | "n = 1" | "n = 2" | "n = 3" | "n = 4" | "n = 5" | "n = 6" | "n = (7::nat)"
proof -
  from assms have "n = 0 \<or> n = 1 \<or> n = 2 \<or> n = 3 \<or> n = 4 \<or> n = 5 \<or> n = 6 \<or> n = 7"
    by (simp, linarith)
  then show ?thesis using that by blast
qed

lemma byte_add_or: "(x :: byte) AND y = 0 \<Longrightarrow> x + y = x OR y"
  by (rule disjunctive_add_eq_or)

lemma byte_below_64: "unat ((x :: byte) AND 63) < 64"
proof -
  have "x AND 63 \<le> 63" by (rule word_and_le1)
  then show ?thesis by (simp add: word_le_nat_alt)
qed

text \<open>The four six-bit groups of three bytes, and the three bytes of four groups.\<close>

definition group0 :: "byte \<Rightarrow> byte" where
  "group0 a = drop_bit 2 (a AND 0xfc)"

definition group1 :: "byte \<Rightarrow> byte \<Rightarrow> byte" where
  "group1 a b = push_bit 4 (a AND 0x03) + drop_bit 4 (b AND 0xf0)"

definition group2 :: "byte \<Rightarrow> byte \<Rightarrow> byte" where
  "group2 b c = push_bit 2 (b AND 0x0f) + drop_bit 6 (c AND 0xc0)"

definition group3 :: "byte \<Rightarrow> byte" where
  "group3 c = c AND 0x3f"

lemma group1_or: "group1 a b = push_bit 4 (a AND 0x03) OR drop_bit 4 (b AND 0xf0)"
  unfolding group1_def
  by (rule byte_add_or, rule bit_word_eqI, erule byte_cases8) (auto simp: bit_simps)

lemma group2_or: "group2 b c = push_bit 2 (b AND 0x0f) OR drop_bit 6 (c AND 0xc0)"
  unfolding group2_def
  by (rule byte_add_or, rule bit_word_eqI, erule byte_cases8) (auto simp: bit_simps)

lemma groups_below_64:
  "unat (group0 a) < 64" "unat (group1 a b) < 64" "unat (group2 b c) < 64" "unat (group3 c) < 64"
proof -
  have "group0 a = group0 a AND 63" "group1 a b = group1 a b AND 63"
    "group2 b c = group2 b c AND 63" "group3 c = group3 c AND 63"
    unfolding group0_def group1_or group2_or group3_def
    by (rule bit_word_eqI, erule byte_cases8, auto simp: bit_simps)+
  then show "unat (group0 a) < 64" "unat (group1 a b) < 64" "unat (group2 b c) < 64"
    "unat (group3 c) < 64"
    by (metis byte_below_64)+
qed

lemma ungroup0: "push_bit 2 (group0 a) + drop_bit 4 (group1 a b AND 0x30) = a"
proof -
  have "push_bit 2 (group0 a) AND drop_bit 4 (group1 a b AND 0x30) = 0"
    unfolding group0_def group1_or
    by (rule bit_word_eqI, erule byte_cases8) (auto simp: bit_simps)
  then have "push_bit 2 (group0 a) + drop_bit 4 (group1 a b AND 0x30) =
      push_bit 2 (group0 a) OR drop_bit 4 (group1 a b AND 0x30)"
    by (rule byte_add_or)
  also have "\<dots> = a"
    unfolding group0_def group1_or
    by (rule bit_word_eqI, erule byte_cases8) (auto simp: bit_simps)
  finally show ?thesis .
qed

lemma ungroup1: "push_bit 4 (group1 a b AND 0x0f) + drop_bit 2 (group2 b c AND 0x3c) = b"
proof -
  have "push_bit 4 (group1 a b AND 0x0f) AND drop_bit 2 (group2 b c AND 0x3c) = 0"
    unfolding group1_or group2_or
    by (rule bit_word_eqI, erule byte_cases8) (auto simp: bit_simps)
  then have "push_bit 4 (group1 a b AND 0x0f) + drop_bit 2 (group2 b c AND 0x3c) =
      push_bit 4 (group1 a b AND 0x0f) OR drop_bit 2 (group2 b c AND 0x3c)"
    by (rule byte_add_or)
  also have "\<dots> = b"
    unfolding group1_or group2_or
    by (rule bit_word_eqI, erule byte_cases8) (auto simp: bit_simps)
  finally show ?thesis .
qed

lemma ungroup2: "push_bit 6 (group2 b c AND 0x03) + group3 c = c"
proof -
  have "push_bit 6 (group2 b c AND 0x03) AND group3 c = 0"
    unfolding group3_def group2_or
    by (rule bit_word_eqI, erule byte_cases8) (auto simp: bit_simps)
  then have "push_bit 6 (group2 b c AND 0x03) + group3 c = push_bit 6 (group2 b c AND 0x03) OR group3 c"
    by (rule byte_add_or)
  also have "\<dots> = c"
    unfolding group3_def group2_or
    by (rule bit_word_eqI, erule byte_cases8) (auto simp: bit_simps)
  finally show ?thesis .
qed

lemma encode_chunk_groups:
  "encode_chunk url [a, b, c] 0 =
     [b64_char url (group0 a), b64_char url (group1 a b), b64_char url (group2 b c), b64_char url (group3 c)]"
  "encode_chunk url [a, b] 0 =
     [b64_char url (group0 a), b64_char url (group1 a b), b64_char url (group2 b 0), trailing_char url]"
  "encode_chunk url [a] 0 =
     [b64_char url (group0 a), b64_char url (group1 a 0), trailing_char url, trailing_char url]"
  by (simp_all add: encode_chunk_def group0_def group1_def group2_def group3_def)

lemmas b64_group_chars =
  b64_char_props [OF groups_below_64(1)] b64_char_props [OF groups_below_64(2)]
  b64_char_props [OF groups_below_64(3)] b64_char_props [OF groups_below_64(4)]

lemma is_pad_trailing [simp]: "is_pad (trailing_char url)"
  by (simp add: is_pad_def trailing_char_def)

lemma decode_encode_chunk:
  "decode_chunk (encode_chunk url [a, b, c] 0) 0 = Inr [a, b, c]"
  "decode_chunk (encode_chunk url [a, b] 0) 0 = Inr [a, b]"
  "decode_chunk (encode_chunk url [a] 0) 0 = Inr [a]"
  using ungroup0 [of a b] ungroup0 [of a 0] ungroup1 [of a b c] ungroup1 [of a b 0] ungroup2 [of b c]
  by (simp_all only: encode_chunk_groups decode_chunk_def)
    (simp_all add: str_at_def b64_group_chars Let_def)

lemma decode_list_encode_list: "decode_list (encode_list url bs) = Inr bs"
proof (induction url bs rule: encode_list.induct)
  case (2 url a)
  then show ?case
    using decode_encode_chunk(3) [of url a] by (simp add: encode_chunk_groups)
next
  case (3 url a b)
  then show ?case
    using decode_encode_chunk(2) [of url a b] by (simp add: encode_chunk_groups)
next
  case (4 url a b c bs)
  then show ?case
    using decode_encode_chunk(1) [of url a b c] by (simp add: encode_chunk_groups)
qed simp

lemma encode_chunk_no_newline: "bs \<in> {[a], [a, b], [a, b, c]} \<Longrightarrow>
    filter (\<lambda>x. x \<noteq> CHR 0x0A) (encode_chunk url bs 0) = encode_chunk url bs 0"
  by (auto simp: encode_chunk_groups b64_group_chars trailing_char_def)

lemma encode_list_no_newline: "filter (\<lambda>x. x \<noteq> CHR 0x0A) (encode_list url bs) = encode_list url bs"
  by (induction url bs rule: encode_list.induct) (simp_all add: encode_chunk_no_newline)

lemma encode_list_length: "length (encode_list url bs) = (length bs + 2) div 3 * 4"
proof (induction url bs rule: encode_list.induct)
  case (4 url a b c bs)
  have "(5 + length bs) div 3 = Suc ((length bs + 2) div 3)" by presburger
  with 4 show ?case by (simp add: encode_chunk_groups)
qed (simp_all add: encode_chunk_groups)

lemma decode_loop_start: "decode_loop s 0 [] = decode_list s"
  using decode_loop_list [of "[]" s "[]"] by (cases "decode_list s") simp_all

lemma base64_decode_list:
  "base64_decode s rl = decode_list (if rl then filter (\<lambda>c. c \<noteq> CHR 0x0A) s else s)"
  by (auto simp: base64_decode_def decode_loop_start Let_def)

text \<open>Line breaks: the loop ends for a positive distance, and only newlines are added.\<close>

lemma linebreak_loop_ends:
  assumes "0 < distance"
  shows "\<exists>r. linebreak_loop distance pos str = Some r \<and>
    filter (\<lambda>c. c \<noteq> CHR 0x0A) r = filter (\<lambda>c. c \<noteq> CHR 0x0A) str"
proof (induction "length str - pos" arbitrary: pos str rule: less_induct)
  case less
  show ?case
  proof (cases "pos < length str")
    case False
    then show ?thesis by (simp add: linebreak_loop.simps)
  next
    case True
    let ?str = "insert_at pos str"
    have "length ?str = Suc (length str)"
      using True by (simp add: insert_at_def)
    then have "length ?str - (pos + (distance + 1)) < length str - pos"
      using True assms by simp
    from less [OF this] obtain r where
      r: "linebreak_loop distance (pos + (distance + 1)) ?str = Some r"
      "filter (\<lambda>c. c \<noteq> CHR 0x0A) r = filter (\<lambda>c. c \<noteq> CHR 0x0A) ?str"
      by blast
    moreover have "filter (\<lambda>c. c \<noteq> CHR 0x0A) ?str = filter (\<lambda>c. c \<noteq> CHR 0x0A) str"
      by (simp add: insert_at_def) (metis append_take_drop_id filter_append)
    ultimately show ?thesis
      using True by (simp add: linebreak_loop.simps [of distance pos])
  qed
qed

lemma insert_linebreaks_filter:
  "0 < distance \<Longrightarrow> \<exists>r. insert_linebreaks str distance = Some r \<and>
     filter (\<lambda>c. c \<noteq> CHR 0x0A) r = filter (\<lambda>c. c \<noteq> CHR 0x0A) str"
  using linebreak_loop_ends [of distance distance str] by (auto simp: insert_linebreaks_def)

lemma base64_decode_encode: "length bs < 2 ^ 32 \<Longrightarrow> base64_decode (base64_encode bs url) rl = Inr bs"
  by (simp add: base64_decode_list base64_encode_list encode_list_no_newline decode_list_encode_list)

lemma base64_lines_decode:
  assumes "length bs < 2 ^ 32"
  shows "\<exists>s. base64_encode_mime bs = Some s \<and> base64_decode s True = Inr bs"
    and "\<exists>s. base64_encode_pem bs = Some s \<and> base64_decode s True = Inr bs"
  using insert_linebreaks_filter [of 76 "base64_encode bs False"]
    insert_linebreaks_filter [of 64 "base64_encode bs False"] assms
  by (auto simp: base64_encode_mime_def base64_encode_pem_def base64_decode_list base64_encode_list
      base64_encode_bytes_list encode_list_no_newline decode_list_encode_list)

lemma base64_lines_none:
  "\<not> length bs < 2 ^ 32 \<Longrightarrow> base64_encode_mime bs = None \<and> base64_encode_pem bs = None"
  by (simp add: base64_encode_mime_def base64_encode_pem_def base64_encode_bytes_iff)

lemma base64_encode_length: "length bs < 2 ^ 32 \<Longrightarrow> length (base64_encode bs url) = (length bs + 2) div 3 * 4"
  by (simp add: base64_encode_list encode_list_length)

text \<open>Decoding fails with a \<^verbatim>\<open>std::runtime_error\<close> only, on any text.\<close>

lemma pos_of_char_error: "pos_of_char c = Inl e \<Longrightarrow> caught_as_std_exception e"
  by (auto simp: pos_of_char_def Let_def split: if_splits)

lemma decode_chunk_error: "decode_chunk s pos = Inl e \<Longrightarrow> caught_as_std_exception e"
  by (auto simp: decode_chunk_def Let_def rbind_eq_Inl_iff pos_of_char_error split: if_splits)

lemma decode_list_error: "decode_list s = Inl e \<Longrightarrow> caught_as_std_exception e"
  by (induction s rule: decode_list.induct) (auto simp: rbind_eq_Inl_iff decode_chunk_error)

lemma base64_decode_error: "base64_decode s rl = Inl e \<Longrightarrow> caught_as_std_exception e"
  by (auto simp: base64_decode_list decode_list_error)

text \<open>(C25) Below \<open>2 ^ 32\<close> bytes the encoder returns and decoding is inverse to it, with either alphabet,
  with and without removal of line breaks, and through the PEM and MIME forms, whose loop over the line
  breaks ends; the text has four characters for three bytes or part of three. From \<open>2 ^ 32\<close> bytes on the
  encoder, whose position has 32 bits where the length has 64, never returns, nor do the PEM and MIME forms.\<close>
theorem base64_roundtrip:
  "if length bs < 2 ^ 32
   then base64_encode_bytes bs url = Some (base64_encode bs url) \<and>
     base64_decode (base64_encode bs url) remove_linebreaks = Inr bs \<and>
     length (base64_encode bs url) = (length bs + 2) div 3 * 4 \<and>
     (\<exists>s. base64_encode_mime bs = Some s \<and> base64_decode s True = Inr bs) \<and>
     (\<exists>s. base64_encode_pem bs = Some s \<and> base64_decode s True = Inr bs)
   else base64_encode_bytes bs url = None \<and> base64_encode_mime bs = None \<and> base64_encode_pem bs = None"
  using base64_lines_decode [of bs] base64_lines_none [of bs]
  by (simp add: base64_decode_encode base64_encode_length base64_encode_bytes_iff)

end
