(* ===== verification/Flute_Types.thy ===== *)
theory Flute_Types
  imports Flute_Prelude
begin

text \<open>
  \<^verbatim>\<open>include/flute_types.h\<close>: content encodings, FEC schemes and the FEC object transmission
  information (OTI). \<^verbatim>\<open>FecScheme\<close> is an enumeration with one named value, but the code also casts
  arbitrary numbers of an FDT into it, so it is modelled by its 32-bit underlying value.
\<close>

datatype content_encoding = NONE | ZLIB | DEFLATE | GZIP

type_synonym fec_scheme = u32

definition CompactNoCode :: fec_scheme where
  "CompactNoCode = 0"

record fec_oti =
  encoding_id :: fec_scheme
  oti_instance_id :: u32
  transfer_length :: u64
  encoding_symbol_length :: u32
  max_source_block_length :: u32
  max_number_of_encoding_symbols :: u32

text \<open>The value-initialised \<^verbatim>\<open>FecOti\<close> (\<^verbatim>\<open>= {}\<close>).\<close>

definition fec_oti_zero :: fec_oti where
  "fec_oti_zero =
     \<lparr>encoding_id = 0, oti_instance_id = 0, transfer_length = 0, encoding_symbol_length = 0,
      max_source_block_length = 0, max_number_of_encoding_symbols = 0\<rparr>"

text \<open>\<^verbatim>\<open>FecOti::operator==\<close>: the FEC instance id takes no part in it.\<close>

definition fec_oti_eq :: "fec_oti \<Rightarrow> fec_oti \<Rightarrow> bool" where
  "fec_oti_eq a b \<longleftrightarrow>
     encoding_id a = encoding_id b \<and> transfer_length a = transfer_length b \<and>
     encoding_symbol_length a = encoding_symbol_length b \<and>
     max_source_block_length a = max_source_block_length b \<and>
     max_number_of_encoding_symbols a = max_number_of_encoding_symbols b"

lemma fec_oti_eq_iff:
  "fec_oti_eq a b \<longleftrightarrow> a\<lparr>oti_instance_id := 0\<rparr> = b\<lparr>oti_instance_id := 0\<rparr>"
  by (cases a, cases b) (auto simp: fec_oti_eq_def)

lemma fec_oti_eq_equiv:
  "fec_oti_eq a a" "fec_oti_eq a b \<Longrightarrow> fec_oti_eq b a"
  "fec_oti_eq a b \<Longrightarrow> fec_oti_eq b c \<Longrightarrow> fec_oti_eq a c"
  by (simp_all add: fec_oti_eq_def)

end
