(* ===== verification/Encoding_Symbol.thy ===== *)
theory Encoding_Symbol
  imports Flute_Types Float_Division
begin

text \<open>
  \<^verbatim>\<open>src/EncodingSymbol.cpp\<close>: the FEC encoding symbols of a packet. A symbol holds a pointer into
  memory it does not own and a length; \<open>es_mem\<close> is the memory readable from that pointer on, so
  that a length beyond it is an access out of bounds. Sizes (\<^verbatim>\<open>size_t\<close>) are 64-bit words because
  the code subtracts from them without a check.
\<close>

record encoding_symbol =
  es_id :: u32
  es_source_block_number :: u32
  es_fec_scheme :: fec_scheme
  es_mem :: "byte list"
  es_len :: u64

section \<open>Copying a symbol\<close>

text \<open>\<^verbatim>\<open>memcpy\<close> out of the symbol: the bytes it copies.\<close>

definition symbol_bytes :: "encoding_symbol \<Rightarrow> byte list result" where
  "symbol_bytes s = read_bytes (es_mem s) 0 (unat (es_len s))"

text \<open>\<^verbatim>\<open>decode_to\<close>: what is stored at the start of the target, nothing when the symbol is longer
  than \<open>max_length\<close>.\<close>

definition decode_to :: "encoding_symbol \<Rightarrow> u64 \<Rightarrow> byte list result" where
  "decode_to s max_length =
     (if es_fec_scheme s = CompactNoCode then
        (if es_len s \<le> max_length then symbol_bytes s else Inr [])
      else Inr [])"

text \<open>\<^verbatim>\<open>encode_to\<close>: the buffer with the symbol stored at \<open>ptr\<close>, and the number of bytes stored.\<close>

definition encode_to :: "encoding_symbol \<Rightarrow> byte list \<Rightarrow> nat \<Rightarrow> u64 \<Rightarrow> (u64 \<times> byte list) result" where
  "encode_to s buf ptr max_length =
     (if es_fec_scheme s = CompactNoCode then
        (if es_len s \<le> max_length then
           rbind (symbol_bytes s) (\<lambda>bs.
           rbind (write_bytes buf ptr bs) (\<lambda>buf'. Inr (es_len s, buf')))
         else Inr (0, buf))
      else Inr (0, buf))"

section \<open>Parsing a payload\<close>

text \<open>The loop over the symbols of a payload. \<open>data_len\<close> stays the length of the whole payload.\<close>

fun payload_symbols :: "nat \<Rightarrow> u32 \<Rightarrow> u32 \<Rightarrow> fec_oti \<Rightarrow> u64 \<Rightarrow> byte list \<Rightarrow> encoding_symbol list" where
  "payload_symbols 0 esi sbn oti data_len mem = []"
| "payload_symbols (Suc n) esi sbn oti data_len mem =
     \<lparr>es_id = esi, es_source_block_number = sbn, es_fec_scheme = encoding_id oti, es_mem = mem,
      es_len = min data_len (ucast (encoding_symbol_length oti))\<rparr> #
     payload_symbols n (esi + 1) sbn oti data_len
       (drop (unat (encoding_symbol_length oti)) mem)"

definition from_payload ::
  "byte list \<Rightarrow> u64 \<Rightarrow> fec_oti \<Rightarrow> content_encoding \<Rightarrow> encoding_symbol list result" where
  "from_payload encoded_data data_len oti encoding =
     (if encoding \<noteq> NONE \<and> encoding \<noteq> GZIP
      then Inl (CStr ''Only unencoded or gzipped content is supported'')
      else if encoding_id oti = CompactNoCode then
        rbind (read16 encoded_data 0) (\<lambda>sbn.
        rbind (read16 encoded_data 2) (\<lambda>esi.
        let data_len' = data_len - 4 in
        rbind (fp_ceil_div 24 (unat data_len') (unat (encoding_symbol_length oti))) (\<lambda>q.
        rbind (to_int32 q) (\<lambda>nof_symbols.
        Inr (payload_symbols (nat nof_symbols) (ucast esi) (ucast sbn) oti data_len'
               (drop 4 encoded_data))))))
      else Inl (CStr ''Only compact no-code FEC is supported''))"

section \<open>Writing a payload\<close>

fun payload_loop ::
  "encoding_symbol list \<Rightarrow> byte list \<Rightarrow> nat \<Rightarrow> u64 \<Rightarrow> u64 \<Rightarrow> (u64 \<times> byte list) result" where
  "payload_loop [] buf ptr data_len len = Inr (len, buf)"
| "payload_loop (s # ss) buf ptr data_len len =
     (if es_len s \<le> data_len then
        rbind (encode_to s buf ptr data_len) (\<lambda>(symbol_len, buf').
        payload_loop ss buf' (ptr + unat symbol_len) (data_len - symbol_len) (len + symbol_len))
      else Inr (len, buf))"

text \<open>Reading the first symbol of an empty vector is undefined.\<close>

definition to_payload ::
  "encoding_symbol list \<Rightarrow> byte list \<Rightarrow> nat \<Rightarrow> u64 \<Rightarrow> fec_oti \<Rightarrow> (u64 \<times> byte list) result" where
  "to_payload symbols buf ptr data_len oti =
     (if encoding_id oti = CompactNoCode \<and> 4 \<le> data_len then
        (case symbols of
           [] \<Rightarrow> Inl (Undefined ''begin of an empty vector'')
         | first_symbol # _ \<Rightarrow>
             rbind (write_bytes buf ptr (be16_enc (ucast (es_source_block_number first_symbol)))) (\<lambda>buf1.
             rbind (write_bytes buf1 (ptr + 2) (be16_enc (ucast (es_id first_symbol)))) (\<lambda>buf2.
             payload_loop symbols buf2 (ptr + 4) (data_len - 4) 4)))
      else Inl (CStr ''Only compact no-code FEC is supported''))"

section \<open>Properties\<close>

text \<open>A symbol that can be copied: its length is backed by memory.\<close>

definition symbol_ok :: "encoding_symbol \<Rightarrow> bool" where
  "symbol_ok s \<longleftrightarrow> es_fec_scheme s = CompactNoCode \<and> unat (es_len s) \<le> length (es_mem s)"

definition symbol_data :: "encoding_symbol \<Rightarrow> byte list" where
  "symbol_data s = take (unat (es_len s)) (es_mem s)"

lemma symbol_bytes_ok [simp]: "symbol_ok s \<Longrightarrow> symbol_bytes s = Inr (symbol_data s)"
  by (simp add: symbol_ok_def symbol_bytes_def symbol_data_def read_bytes_def)

lemma symbol_data_length [simp]: "symbol_ok s \<Longrightarrow> length (symbol_data s) = unat (es_len s)"
  by (simp add: symbol_ok_def symbol_data_def)

lemma encode_to_ok:
  "symbol_ok s \<Longrightarrow> es_len s \<le> max_length \<Longrightarrow> length old = unat (es_len s) \<Longrightarrow>
     encode_to s (pre @ old @ post) (length pre) max_length =
       Inr (es_len s, pre @ symbol_data s @ post)"
  by (simp add: encode_to_def symbol_ok_def [of s] write_bytes_app)

definition payload_data :: "encoding_symbol list \<Rightarrow> byte list" where
  "payload_data ss = concat (map symbol_data ss)"

lemma payload_data_simps [simp]:
  "payload_data [] = []" "payload_data (s # ss) = symbol_data s @ payload_data ss"
  by (simp_all add: payload_data_def)

text \<open>With enough room, all symbols are stored one after the other.\<close>

lemma payload_loop_all:
  assumes "\<forall>s \<in> set ss. symbol_ok s" and "length (payload_data ss) \<le> unat data_len"
    and "length old = length (payload_data ss)"
  shows "payload_loop ss (pre @ old @ post) (length pre) data_len len =
    Inr (len + of_nat (length (payload_data ss)), pre @ payload_data ss @ post)"
  using assms
proof (induction ss arbitrary: pre old data_len len)
  case Nil
  then show ?case by simp
next
  case (Cons s ss)
  define n where "n = unat (es_len s)"
  have ok: "symbol_ok s" and len_n: "length (symbol_data s) = n"
    using Cons.prems by (simp_all add: n_def)
  have le: "es_len s \<le> data_len"
    using Cons.prems len_n by (simp add: word_le_nat_alt n_def)
  have old: "old = take n old @ drop n old"
    by simp
  have n: "length (take n old) = unat (es_len s)"
    using Cons.prems len_n by (simp add: n_def)
  have enc: "encode_to s (pre @ old @ post) (length pre) data_len =
      Inr (es_len s, pre @ symbol_data s @ drop n old @ post)"
    using encode_to_ok [OF ok le n, of pre "drop n old @ post"]
    by (metis append_assoc append_take_drop_id)
  have "unat (data_len - es_len s) = unat data_len - n"
    using le by (simp add: unat_sub n_def)
  then have "payload_loop ss ((pre @ symbol_data s) @ drop n old @ post) (length (pre @ symbol_data s))
      (data_len - es_len s) (len + es_len s) =
    Inr (len + es_len s + of_nat (length (payload_data ss)),
      (pre @ symbol_data s) @ payload_data ss @ post)"
    using Cons.prems len_n by (intro Cons.IH) simp_all
  with le enc len_n ok show ?case
    by (simp add: n_def add.assoc)
qed

lemma split_at: "n \<le> length xs \<Longrightarrow> \<exists>ys zs. xs = ys @ zs \<and> length ys = n"
  by (metis append_take_drop_id length_take min.absorb2)

definition payload_image :: "encoding_symbol list \<Rightarrow> byte list" where
  "payload_image ss =
     be16_enc (ucast (es_source_block_number (hd ss))) @ be16_enc (ucast (es_id (hd ss))) @
     payload_data ss"

lemma payload_image_length [simp]: "length (payload_image ss) = 4 + length (payload_data ss)"
  by (simp add: payload_image_def)

text \<open>The whole payload: the FEC payload id of the first symbol, then the data of all symbols.\<close>

lemma to_payload_image:
  assumes "ss \<noteq> []" and "\<forall>s \<in> set ss. symbol_ok s" and "encoding_id oti = CompactNoCode"
    and "4 + length (payload_data ss) \<le> unat data_len"
    and old: "length old = length (payload_image ss)"
  shows "to_payload ss (pre @ old @ post) (length pre) data_len oti =
    Inr (4 + of_nat (length (payload_data ss)), pre @ payload_image ss @ post)"
proof -
  obtain o1 o2 o3 where o: "old = o1 @ o2 @ o3" "length o1 = 2" "length o2 = 2"
    "length o3 = length (payload_data ss)"
  proof -
    obtain o1 r where "old = o1 @ r" "length o1 = 2"
      using split_at [of 2 old] old by auto
    moreover obtain o2 o3 where "r = o2 @ o3" "length o2 = 2"
      using split_at [of 2 r] old calculation by auto
    ultimately show ?thesis using old that by simp
  qed
  obtain s ss' where ss: "ss = s # ss'" using assms(1) by (cases ss) auto
  define b1 where "b1 = be16_enc (ucast (es_source_block_number s))"
  define b2 where "b2 = be16_enc (ucast (es_id s))"
  have four: "(4 :: u64) \<le> data_len" using assms(4) by (simp add: word_le_nat_alt)
  have w1: "write_bytes (pre @ old @ post) (length pre) b1 = Inr (pre @ b1 @ o2 @ o3 @ post)"
    using write_bytes_app [of o1 b1 pre "o2 @ o3 @ post"] o by (simp add: b1_def)
  have w2: "write_bytes (pre @ b1 @ o2 @ o3 @ post) (length pre + 2) b2 =
      Inr (pre @ b1 @ b2 @ o3 @ post)"
    using write_bytes_app [of o2 b2 "pre @ b1" "o3 @ post"] o by (simp add: b1_def b2_def)
  have "payload_loop ss ((pre @ b1 @ b2) @ o3 @ post) (length (pre @ b1 @ b2)) (data_len - 4) 4 =
      Inr (4 + of_nat (length (payload_data ss)), (pre @ b1 @ b2) @ payload_data ss @ post)"
    using assms o four by (intro payload_loop_all) (simp_all add: unat_sub)
  then have l: "payload_loop ss (pre @ b1 @ b2 @ o3 @ post) (length pre + 4) (data_len - 4) 4 =
      Inr (4 + of_nat (length (payload_data ss)), pre @ b1 @ b2 @ payload_data ss @ post)"
    by (simp add: b1_def b2_def del: payload_loop.simps)
  have img: "payload_image ss = b1 @ b2 @ payload_data ss"
    by (simp add: payload_image_def b1_def b2_def ss del: payload_data_simps)
  have "to_payload ss (pre @ old @ post) (length pre) data_len oti =
      rbind (write_bytes (pre @ old @ post) (length pre) b1) (\<lambda>buf1.
      rbind (write_bytes buf1 (length pre + 2) b2) (\<lambda>buf2.
      payload_loop ss buf2 (length pre + 4) (data_len - 4) 4))"
    using assms(3) four by (simp add: to_payload_def ss b1_def b2_def del: payload_loop.simps)
  then show ?thesis
    by (simp only: w1 w2 l img rbind_Inr append_assoc)
qed

text \<open>Parsing: the number of symbols, and what each of them is.\<close>

lemma payload_symbols_length [simp]: "length (payload_symbols n esi sbn oti data_len mem) = n"
  by (induction n esi sbn oti data_len mem rule: payload_symbols.induct) simp_all

lemma payload_symbols_nth:
  "i < n \<Longrightarrow> payload_symbols n esi sbn oti data_len mem ! i =
     \<lparr>es_id = esi + of_nat i, es_source_block_number = sbn, es_fec_scheme = encoding_id oti,
      es_mem = drop (i * unat (encoding_symbol_length oti)) mem,
      es_len = min data_len (ucast (encoding_symbol_length oti))\<rparr>"
proof (induction n arbitrary: esi mem i)
  case (Suc n)
  then show ?case
    by (cases i) (simp_all add: add.commute add.left_commute)
qed simp

lemma from_payload_ok:
  fixes data_len :: u64
  assumes "encoding = NONE \<or> encoding = GZIP" and "encoding_id oti = CompactNoCode"
    and "encoding_symbol_length oti \<noteq> 0" and "unat (encoding_symbol_length oti) < 2 ^ 24"
    and "4 \<le> data_len" and "unat data_len < 2 ^ 24" and "2 + 2 \<le> length mem"
  shows "from_payload mem data_len oti encoding =
    Inr (payload_symbols (ceil_div (unat data_len - 4) (unat (encoding_symbol_length oti)))
      (ucast (be16_dec (take 2 (drop 2 mem)))) (ucast (be16_dec (take 2 mem))) oti (data_len - 4)
      (drop 4 mem))"
proof -
  let ?e = "unat (encoding_symbol_length oti)"
  have e: "0 < ?e" using assms(3) by (simp add: unat_gt_0)
  have d: "unat (data_len - 4) = unat data_len - 4"
    using assms(5) by (simp add: unat_sub)
  have q: "fp_ceil_div 24 (unat data_len - 4) ?e = Inr (int (ceil_div (unat data_len - 4) ?e))"
    using assms(4,6) e by (intro fp_ceil_div_exact) auto
  have "ceil_div (unat data_len - 4) ?e \<le> unat data_len - 4 + ?e - 1"
    by (simp add: ceil_div_def)
  with assms(4,6) have "ceil_div (unat data_len - 4) ?e < 2 ^ 31"
    by simp
  then have "to_int32 (int (ceil_div (unat data_len - 4) ?e)) =
      Inr (int (ceil_div (unat data_len - 4) ?e))"
    by (simp add: to_int32_def)
  with assms q d show ?thesis
    by (auto simp: from_payload_def read16_def read_bytes_def Let_def)
qed

text \<open>Consecutive symbols of one source block, each of the full length or a single shorter one.\<close>

definition symbol_run :: "u32 \<Rightarrow> encoding_symbol list \<Rightarrow> bool" where
  "symbol_run e ss \<longleftrightarrow>
     ss \<noteq> [] \<and> (\<forall>s \<in> set ss. symbol_ok s) \<and>
     (\<forall>i < length ss. es_id (ss ! i) = es_id (hd ss) + of_nat i \<and>
        es_source_block_number (ss ! i) = es_source_block_number (hd ss)) \<and>
     unat (es_id (hd ss)) < 2 ^ 16 \<and> unat (es_source_block_number (hd ss)) < 2 ^ 16 \<and>
     ((\<forall>s \<in> set ss. es_len s = ucast e) \<or>
      (length ss = 1 \<and> 0 < es_len (hd ss) \<and> es_len (hd ss) \<le> ucast e))"

lemma payload_data_full:
  "\<forall>s \<in> set ss. symbol_ok s \<and> es_len s = ucast (e :: u32) \<Longrightarrow>
     length (payload_data ss) = length ss * unat e"
  by (induction ss) (simp_all)

lemma payload_data_chunk:
  "\<forall>s \<in> set ss. symbol_ok s \<and> es_len s = ucast (e :: u32) \<Longrightarrow> i < length ss \<Longrightarrow>
     take (unat e) (drop (i * unat e) (payload_data ss @ rest)) = symbol_data (ss ! i)"
proof (induction ss arbitrary: i)
  case (Cons s ss)
  have s: "length (symbol_data s) = unat e"
    using Cons.prems by (simp)
  show ?case
  proof (cases i)
    case 0
    with s show ?thesis by simp
  next
    case (Suc j)
    then have "drop (i * unat e) (payload_data (s # ss) @ rest) = drop (j * unat e) (payload_data ss @ rest)"
      using s by simp
    with Suc Cons show ?thesis by simp
  qed
qed simp

lemma payload_image_ids:
  "take 2 (payload_image ss @ rest) = be16_enc (ucast (es_source_block_number (hd ss)))"
  "take 2 (drop 2 (payload_image ss @ rest)) = be16_enc (ucast (es_id (hd ss)))"
  "drop 4 (payload_image ss @ rest) = payload_data ss @ rest"
  by (simp_all add: payload_image_def)

lemma from_payload_image:
  assumes "symbol_run (encoding_symbol_length oti) ss" and "encoding_id oti = CompactNoCode"
    and "encoding = NONE \<or> encoding = GZIP"
    and "encoding_symbol_length oti \<noteq> 0" and "unat (encoding_symbol_length oti) < 2 ^ 24"
    and "length (payload_image ss) < 2 ^ 24"
  shows "from_payload (payload_image ss @ rest) (of_nat (length (payload_image ss))) oti encoding =
    Inr (payload_symbols (length ss) (es_id (hd ss)) (es_source_block_number (hd ss)) oti
      (of_nat (length (payload_data ss))) (payload_data ss @ rest))"
proof -
  let ?e = "unat (encoding_symbol_length oti)" and ?n = "length (payload_data ss)"
  have e: "0 < ?e" using assms(4) by (simp add: unat_gt_0)
  have small: "unat (of_nat (length (payload_image ss)) :: u64) = 4 + ?n"
    using assms(6) unat_of_nat64 [of "length (payload_image ss)"]
    by (simp only: payload_image_length) simp
  have count: "ceil_div ?n ?e = length ss"
  proof (cases "\<forall>s \<in> set ss. es_len s = ucast (encoding_symbol_length oti)")
    case True
    with assms(1) have "?n = length ss * ?e"
      by (intro payload_data_full) (auto simp: symbol_run_def)
    with e show ?thesis by (simp add: ceil_div_mult)
  next
    case False
    with assms(1) have one: "length ss = 1" "0 < es_len (hd ss)"
      "es_len (hd ss) \<le> ucast (encoding_symbol_length oti)" "symbol_ok (hd ss)"
      by (auto simp: symbol_run_def)
    then obtain s where "ss = [s]" by (auto simp: length_Suc_conv)
    with one have "0 < ?n" "?n \<le> ?e"
      by (simp_all add: word_less_nat_alt word_le_nat_alt)
    with one show ?thesis by (simp add: ceil_div_le_one)
  qed
  have ids: "ucast (ucast (es_id (hd ss)) :: u16) = es_id (hd ss)"
    "ucast (ucast (es_source_block_number (hd ss)) :: u16) = es_source_block_number (hd ss)"
    using assms(1) by (auto simp: symbol_run_def intro!: ucast_ucast_u16)
  have len4: "(of_nat (length (payload_image ss)) :: u64) - 4 = of_nat ?n"
    by simp
  have "4 \<le> (of_nat (length (payload_image ss)) :: u64)"
    by (simp only: word_le_nat_alt small) simp
  then have "from_payload (payload_image ss @ rest) (of_nat (length (payload_image ss))) oti encoding =
    Inr (payload_symbols (ceil_div (4 + ?n - 4) ?e)
      (ucast (be16_dec (take 2 (drop 2 (payload_image ss @ rest)))))
      (ucast (be16_dec (take 2 (payload_image ss @ rest)))) oti
      (of_nat (length (payload_image ss)) - 4) (drop 4 (payload_image ss @ rest)))"
    using assms small by (subst from_payload_ok) simp_all
  then show ?thesis
    by (simp only: payload_image_ids be16_dec_enc ids count len4 diff_add_inverse)
qed

section \<open>Correctness\<close>

lemma payload_parsed:
  assumes "symbol_run (encoding_symbol_length oti) ss" and "encoding_id oti = CompactNoCode"
    and "encoding = NONE \<or> encoding = GZIP"
    and "encoding_symbol_length oti \<noteq> 0" and "unat (encoding_symbol_length oti) < 2 ^ 24"
    and "4 + length (payload_data ss) < 2 ^ 24"
  shows "\<exists>parsed. from_payload (payload_image ss @ post) (of_nat (4 + length (payload_data ss))) oti encoding =
      Inr parsed \<and>
    map es_id parsed = map es_id ss \<and>
    map es_source_block_number parsed = map es_source_block_number ss \<and>
    map symbol_bytes parsed = map symbol_bytes ss \<and>
    (\<forall>p \<in> set parsed. es_fec_scheme p = CompactNoCode)"
proof -
  let ?n = "length (payload_data ss)" and ?e = "encoding_symbol_length oti"
  let ?parsed = "payload_symbols (length ss) (es_id (hd ss)) (es_source_block_number (hd ss)) oti
      (of_nat ?n) (payload_data ss @ post)"
  have small': "unat (of_nat ?n :: u64) = ?n"
    using assms(6) by (simp add: unat_of_nat)
  have from_p: "from_payload (payload_image ss @ post) (of_nat (4 + ?n)) oti encoding = Inr ?parsed"
    using from_payload_image [OF assms(1-5), of post] assms(6) by (simp only: payload_image_length)
  have ids: "map es_id ?parsed = map es_id ss"
    "map es_source_block_number ?parsed = map es_source_block_number ss"
    using assms(1) by (auto intro!: nth_equalityI simp: payload_symbols_nth symbol_run_def)
  have bytes: "symbol_bytes (?parsed ! i) = symbol_bytes (ss ! i)" if i: "i < length ss" for i
  proof (cases "\<forall>s \<in> set ss. es_len s = ucast ?e")
    case True
    then have full: "\<forall>s \<in> set ss. symbol_ok s \<and> es_len s = ucast ?e"
      using assms(1) by (simp add: symbol_run_def)
    have n: "?n = length ss * unat ?e"
      using payload_data_full [OF full] .
    have "unat ?e \<le> ?n"
      using n i by (cases ss) auto
    then have "min (of_nat ?n) (ucast ?e :: u64) = ucast ?e"
      using small' by (simp add: min_def word_le_nat_alt)
    then have p: "es_len (?parsed ! i) = ucast ?e"
      "es_mem (?parsed ! i) = drop (i * unat ?e) (payload_data ss @ post)"
      using i by (simp_all add: payload_symbols_nth)
    have "Suc i * unat ?e \<le> length ss * unat ?e"
      using i by (intro mult_le_mono1) simp
    then have "unat ?e \<le> length (es_mem (?parsed ! i))"
      unfolding p using n by simp
    then have "symbol_bytes (?parsed ! i) = Inr (symbol_data (ss ! i))"
      using payload_data_chunk [OF full i, of post]
      by (simp only: p symbol_bytes_def read_bytes_def) simp
    with full i show ?thesis by simp
  next
    case False
    with assms(1) have one: "length ss = 1" "es_len (hd ss) \<le> ucast ?e" "symbol_ok (hd ss)"
      by (auto simp: symbol_run_def)
    then obtain s where s: "ss = [s]" by (auto simp: length_Suc_conv)
    with one have "unat (es_len s) = ?n" by simp
    moreover from this have "of_nat ?n = es_len s"
      by (metis of_nat_unat ucast_id)
    then have "min (of_nat ?n) (ucast ?e) = es_len s"
      using one s by (simp add: min_def)
    ultimately show ?thesis
      using i s one by (simp add: symbol_bytes_def read_bytes_def symbol_data_def symbol_ok_def)
  qed
  have "map symbol_bytes ?parsed = map symbol_bytes ss"
    by (rule nth_equalityI) (simp_all add: bytes)
  moreover have "\<forall>p \<in> set ?parsed. es_fec_scheme p = CompactNoCode"
    using assms(2) by (auto simp: in_set_conv_nth payload_symbols_nth)
  ultimately show ?thesis using from_p ids by blast
qed

text \<open>
  (C19) Sending and receiving a packet payload is the identity on the symbols: what
  \<^verbatim>\<open>EncodingSymbol::to_payload\<close> writes for a run of full symbols (or one shorter symbol) of a block,
  \<^verbatim>\<open>EncodingSymbol::from_payload\<close> parses back to the same number of symbols with the same ids, the
  same block number and the same data, whatever bytes follow the payload in the receive buffer.
\<close>

theorem payload_roundtrip:
  assumes "symbol_run (encoding_symbol_length oti) ss" and "encoding_id oti = CompactNoCode"
    and "encoding = NONE \<or> encoding = GZIP"
    and "encoding_symbol_length oti \<noteq> 0" and "unat (encoding_symbol_length oti) < 2 ^ 24"
    and "4 + length (payload_data ss) < 2 ^ 24"
    and "4 + length (payload_data ss) \<le> unat room" and "length old = 4 + length (payload_data ss)"
  shows "\<exists>len buf parsed.
    to_payload ss (pre @ old @ post) (length pre) room oti = Inr (len, buf) \<and>
    unat len = 4 + length (payload_data ss) \<and>
    from_payload (drop (length pre) buf) len oti encoding = Inr parsed \<and>
    map es_id parsed = map es_id ss \<and>
    map es_source_block_number parsed = map es_source_block_number ss \<and>
    map symbol_bytes parsed = map symbol_bytes ss"
proof -
  let ?n = "length (payload_data ss)"
  have "to_payload ss (pre @ old @ post) (length pre) room oti =
      Inr (of_nat (4 + ?n), pre @ payload_image ss @ post)"
    using assms by (subst to_payload_image) (auto simp: symbol_run_def)
  moreover have "unat (of_nat (4 + ?n) :: u64) = 4 + ?n"
    using assms(6) by (simp add: unat_of_nat del: of_nat_add)
  moreover have "drop (length pre) (pre @ payload_image ss @ post) = payload_image ss @ post"
    by simp
  moreover obtain parsed where
    "from_payload (payload_image ss @ post) (of_nat (4 + ?n)) oti encoding = Inr parsed"
    "map es_id parsed = map es_id ss" "map es_source_block_number parsed = map es_source_block_number ss"
    "map symbol_bytes parsed = map symbol_bytes ss"
    using payload_parsed [OF assms(1-6), of post] by blast
  ultimately show ?thesis
    by (intro exI [of _ "of_nat (4 + ?n)"] exI [of _ "pre @ payload_image ss @ post"] exI [of _ parsed])
      (simp only: simp_thms)
qed

text \<open>A run of two full symbols, of three bytes each, through a buffer of twelve bytes.\<close>

definition example_symbol :: "u32 \<Rightarrow> byte list \<Rightarrow> encoding_symbol" where
  "example_symbol i bs =
     \<lparr>es_id = i, es_source_block_number = 7, es_fec_scheme = CompactNoCode, es_mem = bs,
      es_len = of_nat (length bs)\<rparr>"

definition example_oti :: fec_oti where
  "example_oti = fec_oti_zero\<lparr>encoding_symbol_length := 3, max_source_block_length := 64\<rparr>"

theorem payload_roundtrip_witness:
  "\<exists>len buf parsed.
    to_payload [example_symbol 4 [1, 2, 3], example_symbol 5 [4, 5, 6]] ([9] @ replicate 10 0 @ [8])
      (length [9 :: byte]) 10 example_oti = Inr (len, buf) \<and>
    unat len = 10 \<and>
    from_payload (drop 1 buf) len example_oti GZIP = Inr parsed \<and>
    map es_id parsed = [4, 5] \<and> map symbol_bytes parsed = [Inr [1, 2, 3], Inr [4, 5, 6]]"
  using payload_roundtrip [of example_oti "[example_symbol 4 [1, 2, 3], example_symbol 5 [4, 5, 6]]"
      GZIP 10 "replicate 10 0" "[9]" "[8]"]
  by (auto simp: example_symbol_def example_oti_def fec_oti_zero_def symbol_run_def symbol_ok_def
      symbol_data_def symbol_bytes_def read_bytes_def less_Suc_eq CompactNoCode_def)

text \<open>
  When a payload ends with a short symbol after at least one full one,
  \<^verbatim>\<open>EncodingSymbol::from_payload\<close> gives that last symbol the full symbol length all the same: the
  length it is given is the minimum with the length of the whole payload, not of what is left of
  it, so the symbol claims bytes beyond the end of the payload.
\<close>

theorem from_payload_overlong_tail:
  fixes data_len :: u64
  assumes "encoding = NONE \<or> encoding = GZIP" and "encoding_id oti = CompactNoCode"
    and "unat data_len = 4 + q * unat (encoding_symbol_length oti) + r" and "0 < q" and "0 < r"
    and "r < unat (encoding_symbol_length oti)" and "unat (encoding_symbol_length oti) < 2 ^ 24"
    and "unat data_len < 2 ^ 24" and "unat data_len \<le> length mem"
  shows "\<exists>parsed. from_payload mem data_len oti encoding = Inr parsed \<and> length parsed = q + 1 \<and>
    unat (es_len (last parsed)) = unat (encoding_symbol_length oti) \<and>
    es_mem (last parsed) = drop (unat data_len - r) mem"
proof -
  let ?e = "unat (encoding_symbol_length oti)"
  have e: "encoding_symbol_length oti \<noteq> 0" using assms(6) by auto
  have four: "4 \<le> data_len" using assms(3) by (simp add: word_le_nat_alt)
  have d4: "unat (data_len - 4) = q * ?e + r" using four assms(3) by (simp add: unat_sub)
  have count: "ceil_div (unat data_len - 4) ?e = Suc q"
    using assms(3,5,6) ceil_div_step [of r ?e q] by simp
  have from_p: "\<exists>a b. from_payload mem data_len oti encoding =
      Inr (payload_symbols (Suc q) a b oti (data_len - 4) (drop 4 mem))"
    using assms four e count by (subst from_payload_ok) auto
  have "?e \<le> q * ?e + r" using assms(4) by (cases q) auto
  then have m: "min (data_len - 4) (ucast (encoding_symbol_length oti)) = ucast (encoding_symbol_length oti)"
    by (intro min.absorb2) (simp add: word_le_nat_alt d4)
  have l: "last (payload_symbols (Suc q) a b oti (data_len - 4) (drop 4 mem)) =
      payload_symbols (Suc q) a b oti (data_len - 4) (drop 4 mem) ! q" for a b
    using last_conv_nth [of "payload_symbols (Suc q) a b oti (data_len - 4) (drop 4 mem)"]
    by (metis Zero_not_Suc diff_Suc_1 length_0_conv payload_symbols_length)
  from from_p m show ?thesis
    using assms(3) by (auto simp: l payload_symbols_nth simp del: payload_symbols.simps) (simp_all add: add.commute)
qed

theorem from_payload_overlong_tail_witness:
  "\<exists>parsed. from_payload [0, 1, 0, 2, 10, 11, 12, 13, 99, 99] 8 example_oti NONE = Inr parsed \<and>
    length parsed = 2 \<and> unat (es_len (last parsed)) = 3 \<and> es_mem (last parsed) = [13, 99, 99]"
  using from_payload_overlong_tail [of NONE example_oti 8 1 1 "[0, 1, 0, 2, 10, 11, 12, 13, 99, 99]"]
  by (simp add: example_oti_def fec_oti_zero_def CompactNoCode_def numeral_2_eq_2 [symmetric])

end
