(* ===== verification/Alc_Packet.thy ===== *)
theory Alc_Packet
  imports Encoding_Symbol
begin

text \<open>
  \<^verbatim>\<open>src/AlcPacket.cpp\<close>: parsing and building ALC/LCT packet headers (RFC 5651, RFC 5775). The
  parser reads through pointers that it never compares with the packet length: here a read beyond
  the memory it is given is \<open>Undefined\<close>. The loop over the header extensions may not end, so the
  parser returns an option and \<open>None\<close> stands for a call that does not return.
\<close>

section \<open>The LCT header word\<close>

record lct_header =
  version :: byte
  congestion_control_flag :: byte
  source_packet_indicator :: byte
  close_object_flag :: byte
  close_session_flag :: byte
  half_word_flag :: byte
  toi_flag :: byte
  tsi_flag :: byte
  lct_header_len :: byte
  codepoint :: byte

text \<open>The bit fields of the packed structure, on either byte order of the host.\<close>

definition lct_header_of :: "byte list \<Rightarrow> lct_header" where
  "lct_header_of bs =
     \<lparr>version = drop_bit 4 (bs ! 0),
      congestion_control_flag = drop_bit 2 (bs ! 0) AND 3,
      source_packet_indicator = drop_bit 1 (bs ! 0) AND 1,
      close_object_flag = bs ! 1 AND 1,
      close_session_flag = drop_bit 1 (bs ! 1) AND 1,
      half_word_flag = drop_bit 4 (bs ! 1) AND 1,
      toi_flag = drop_bit 5 (bs ! 1) AND 3,
      tsi_flag = drop_bit 7 (bs ! 1),
      lct_header_len = bs ! 2,
      codepoint = bs ! 3\<rparr>"

definition EXT_NOP :: byte where "EXT_NOP = 0"

definition EXT_AUTH :: byte where "EXT_AUTH = 1"

definition EXT_TIME :: byte where "EXT_TIME = 2"

definition EXT_FTI :: byte where "EXT_FTI = 64"

definition EXT_FDT :: byte where "EXT_FDT = 192"

definition EXT_CENC :: byte where "EXT_CENC = 193"

lemmas ext_codes = EXT_NOP_def EXT_AUTH_def EXT_TIME_def EXT_FTI_def EXT_FDT_def EXT_CENC_def

record alc_packet =
  alc_tsi :: u64
  alc_toi :: u64
  alc_fdt_instance_id :: u32
  alc_content_encoding :: content_encoding
  alc_fec_oti :: fec_oti
  alc_lct_header :: lct_header

text \<open>\<^verbatim>\<open>header_length()\<close>, in bytes.\<close>

definition header_length :: "alc_packet \<Rightarrow> nat" where
  "header_length pkt = unat (lct_header_len (alc_lct_header pkt)) * 4"

section \<open>Parsing the fixed part\<close>

text \<open>The transport session identifier: the half word, then the full word shifted by 16 in 32-bit
  arithmetic.\<close>

definition parse_tsi :: "lct_header \<Rightarrow> byte list \<Rightarrow> nat \<Rightarrow> (u64 \<times> nat) result" where
  "parse_tsi h mem p =
     (if half_word_flag h = 0 \<and> tsi_flag h = 0 then Inl (CStr ''TSI field not present'')
      else
        rbind (if half_word_flag h = 1
               then rbind (read16 mem p) (\<lambda>w. Inr (ucast w, 16 :: nat, p + 2))
               else Inr (0, 0, p)) (\<lambda>(tsi, shift, p').
        if tsi_flag h = 1
        then rbind (read32 mem p') (\<lambda>w. Inr (tsi OR ucast (push_bit shift w), p' + 4))
        else Inr (tsi, p')))"

definition parse_toi :: "lct_header \<Rightarrow> byte list \<Rightarrow> nat \<Rightarrow> (u64 \<times> nat) result" where
  "parse_toi h mem p =
     (if close_session_flag h = 0 \<and> half_word_flag h = 0 \<and> toi_flag h = 0
      then Inl (CStr ''TOI field not present'')
      else
        rbind (if half_word_flag h = 1
               then rbind (read16 mem p) (\<lambda>w. Inr (ucast w, 16 :: nat, p + 2))
               else Inr (0, 0, p)) (\<lambda>(toi, shift, p').
        if toi_flag h = 0 then Inr (toi, p')
        else if toi_flag h = 1
        then rbind (read32 mem p') (\<lambda>w. Inr (toi OR ucast (push_bit shift w), p' + 4))
        else if toi_flag h = 2 then
          (if shift > 0
           then Inl (CStr ''TOI fields over 64 bits in length are not supported'')
           else rbind (read32 mem p') (\<lambda>lo. rbind (read32 mem (p' + 4)) (\<lambda>hi.
             Inr (ucast lo OR push_bit 32 (ucast hi), p' + 8))))
        else Inl (CStr ''TOI fields over 64 bits in length are not supported'')))"

text \<open>Up to the header extensions: the packet so far, the position of the first extension and
  their total length (computed in \<^verbatim>\<open>int\<close> and converted to \<^verbatim>\<open>size_t\<close>).\<close>

definition parse_fixed :: "byte list \<Rightarrow> nat \<Rightarrow> (alc_packet \<times> nat \<times> u64) result" where
  "parse_fixed mem len =
     (if len < 4 then Inl (CStr ''Packet too short'')
      else rbind (read_bytes mem 0 4) (\<lambda>hb.
        let h = lct_header_of hb in
        if version h \<noteq> 1 then Inl (CStr ''Unsupported LCT version'')
        else if congestion_control_flag h \<noteq> 0 then Inl (CStr ''Unsupported CCI field length'')
        else rbind (parse_tsi h mem 8) (\<lambda>(tsi, p1).
          rbind (parse_toi h mem p1) (\<lambda>(toi, p2).
          if codepoint h \<noteq> 0 then Inl (CStr ''Only Compact No-Code FEC is supported'')
          else
            let expected_header_len =
                  2 + uint (congestion_control_flag h) + uint (half_word_flag h) +
                  uint (tsi_flag h) + uint (toi_flag h);
                ext_header_len = of_int ((uint (lct_header_len h) - expected_header_len) * 4)
            in Inr (\<lparr>alc_tsi = tsi, alc_toi = toi, alc_fdt_instance_id = 0,
                     alc_content_encoding = NONE,
                     alc_fec_oti = fec_oti_zero\<lparr>encoding_id := CompactNoCode\<rparr>,
                     alc_lct_header = h\<rparr>, p2, ext_header_len)))))"

section \<open>Parsing the header extensions\<close>

text \<open>The body of one extension; \<open>p\<close> is the position behind HET (and HEL).\<close>

definition parse_fti :: "byte list \<Rightarrow> nat \<Rightarrow> byte \<Rightarrow> alc_packet \<Rightarrow> alc_packet result" where
  "parse_fti mem p hel pkt =
     (if encoding_id (alc_fec_oti pkt) = CompactNoCode then
        (if hel \<noteq> 4 then Inl (CStr ''Invalid length for EXT_FTI header extension'')
         else rbind (read16 mem p) (\<lambda>tl_hi.
           rbind (read32 mem (p + 2)) (\<lambda>tl_lo.
           rbind (read16 mem (p + 8)) (\<lambda>esl.
           rbind (read32 mem (p + 10)) (\<lambda>msbl.
           Inr (pkt\<lparr>alc_fec_oti := (alc_fec_oti pkt)
             \<lparr>transfer_length := push_bit 32 (ucast tl_hi) OR ucast tl_lo,
              encoding_symbol_length := ucast esl,
              max_source_block_length := msbl\<rparr>\<rparr>))))))
      else Inr pkt)"

definition parse_fdt_ext :: "byte list \<Rightarrow> nat \<Rightarrow> alc_packet \<Rightarrow> alc_packet result" where
  "parse_fdt_ext mem p pkt =
     rbind (read_byte mem p) (\<lambda>b.
     if drop_bit 4 (b AND 0xF0) > 2 then Inl (CStr ''Unsupported FLUTE version'')
     else rbind (read16 mem (p + 1)) (\<lambda>w.
       Inr (pkt\<lparr>alc_fdt_instance_id := push_bit 16 (ucast (b AND 0x0F)) OR ucast w\<rparr>)))"

definition parse_cenc :: "byte list \<Rightarrow> nat \<Rightarrow> alc_packet \<Rightarrow> alc_packet result" where
  "parse_cenc mem p pkt =
     rbind (read_byte mem p) (\<lambda>encoding.
     Inr (if encoding = 0 then pkt\<lparr>alc_content_encoding := NONE\<rparr>
          else if encoding = 1 then pkt\<lparr>alc_content_encoding := ZLIB\<rparr>
          else if encoding = 2 then pkt\<lparr>alc_content_encoding := DEFLATE\<rparr>
          else if encoding = 3 then pkt\<lparr>alc_content_encoding := GZIP\<rparr>
          else pkt))"

text \<open>One turn of the loop: the length of the extension and the packet after it.\<close>

definition ext_step :: "byte list \<Rightarrow> nat \<Rightarrow> u64 \<Rightarrow> alc_packet \<Rightarrow> (u64 \<times> alc_packet) result" where
  "ext_step mem p remaining pkt =
     rbind (read_byte mem p) (\<lambda>het.
     rbind (if het \<le> 127
            then rbind (read_byte mem (p + 1)) (\<lambda>hel. Inr (hel, ucast hel * 4, p + 2))
            else Inr (0, 4, p + 1)) (\<lambda>(hel, ext_len, ext_ptr).
     if ext_len > remaining
     then Inl (CStr ''Header extension length exceeds remaining header length'')
     else rbind
       (if het = EXT_NOP \<or> het = EXT_AUTH \<or> het = EXT_TIME then Inr pkt
        else if het = EXT_FTI then parse_fti mem ext_ptr hel pkt
        else if het = EXT_FDT then parse_fdt_ext mem ext_ptr pkt
        else if het = EXT_CENC then parse_cenc mem ext_ptr pkt
        else Inr pkt)
       (\<lambda>pkt'. Inr (ext_len, pkt'))))"

partial_function (option) parse_ext ::
  "byte list \<Rightarrow> nat \<Rightarrow> u64 \<Rightarrow> alc_packet \<Rightarrow> alc_packet result option" where
  "parse_ext mem p remaining pkt =
     (if remaining = 0 then Some (Inr pkt)
      else case ext_step mem p remaining pkt of
             Inl e \<Rightarrow> Some (Inl e)
           | Inr (ext_len, pkt') \<Rightarrow>
               parse_ext mem (p + unat ext_len) (remaining - ext_len) pkt')"

definition alc_parse :: "byte list \<Rightarrow> nat \<Rightarrow> alc_packet result option" where
  "alc_parse mem len =
     (case parse_fixed mem len of
        Inl e \<Rightarrow> Some (Inl e)
      | Inr (pkt, p, ext_header_len) \<Rightarrow> parse_ext mem p ext_header_len pkt)"

section \<open>Building\<close>

text \<open>Stores through a pointer that moves on by the size of each field.\<close>

fun write_fields :: "byte list \<Rightarrow> nat \<Rightarrow> byte list list \<Rightarrow> byte list result" where
  "write_fields buf p [] = Inr buf"
| "write_fields buf p (f # fs) =
     rbind (write_bytes buf p f) (\<lambda>buf'. write_fields buf' (p + length f) fs)"

definition fdt_extension_fields :: "fec_oti \<Rightarrow> u32 \<Rightarrow> byte list list" where
  "fdt_extension_fields oti fdt_instance_id =
     [[EXT_FDT],
      [push_bit 4 1 OR ucast (drop_bit 16 (fdt_instance_id AND 0x000F0000))],
      be16_enc (ucast (fdt_instance_id AND 0x0000FFFF)),
      [EXT_FTI],
      [4],
      be16_enc (ucast (drop_bit 32 (transfer_length oti AND 0x00FF0000))),
      be32_enc (ucast (transfer_length oti AND 0x0000FFFF))]"

definition fti_tail_fields :: "fec_oti \<Rightarrow> byte list list" where
  "fti_tail_fields oti =
     [be16_enc (ucast (encoding_symbol_length oti)), be32_enc (max_source_block_length oti)]"

record alc_out =
  out_buffer :: "byte list"
  out_len :: u64

definition alc_build ::
  "u16 \<Rightarrow> u16 \<Rightarrow> fec_oti \<Rightarrow> encoding_symbol list \<Rightarrow> u64 \<Rightarrow> u32 \<Rightarrow> alc_out result" where
  "alc_build tsi toi oti symbols max_encoding_symbol_size fdt_instance_id =
     (let max_alc_header_size = 4 :: u64;
          lct_len = (if toi = 0 then 8 else 3) :: nat;
          max_packet_length = max_encoding_symbol_size + of_nat (lct_len * 4) + max_alc_header_size;
          buf0 = replicate (unat max_packet_length) 0
      in rbind (write_bytes buf0 0 [push_bit 4 1, push_bit 4 1, of_nat lct_len]) (\<lambda>buf1.
         rbind (to_payload symbols buf1 (4 * lct_len)
                  (max_encoding_symbol_size + max_alc_header_size) oti) (\<lambda>(payload_size, buf2).
         rbind (write_fields buf2 8 [be16_enc tsi, be16_enc toi]) (\<lambda>buf3.
         rbind (if toi = 0
                then rbind (write_fields buf3 12 (fdt_extension_fields oti fdt_instance_id))
                       (\<lambda>b. write_fields b 26 (fti_tail_fields oti))
                else Inr buf3) (\<lambda>buf4.
         Inr \<lparr>out_buffer = buf4, out_len = of_nat (4 * lct_len) + payload_size\<rparr>)))))"

text \<open>What goes on the wire: \<^verbatim>\<open>size()\<close> bytes at \<^verbatim>\<open>data()\<close>.\<close>

definition wire :: "alc_out \<Rightarrow> byte list" where
  "wire out = take (unat (out_len out)) (out_buffer out)"

section \<open>The image of a built packet\<close>

lemma write_fields_app:
  "length old = length (concat fs) \<Longrightarrow>
     write_fields (pre @ old @ post) (length pre) fs = Inr (pre @ concat fs @ post)"
proof (induction fs arbitrary: pre old)
  case (Cons f fs)
  then obtain o1 o2 where o: "old = o1 @ o2" "length o1 = length f" "length o2 = length (concat fs)"
    using split_at [of "length f" old] by auto
  have "write_bytes (pre @ old @ post) (length pre) f = Inr ((pre @ f) @ o2 @ post)"
    using write_bytes_app [of o1 f pre "o2 @ post"] o by simp
  moreover have "write_fields ((pre @ f) @ o2 @ post) (length (pre @ f)) fs =
      Inr ((pre @ f) @ concat fs @ post)"
    using o by (intro Cons.IH) simp
  ultimately show ?case by simp
qed simp

definition lct_words :: "u16 \<Rightarrow> nat" where
  "lct_words toi = (if toi = 0 then 8 else 3)"

definition fdt_extensions :: "u16 \<Rightarrow> fec_oti \<Rightarrow> u32 \<Rightarrow> byte list" where
  "fdt_extensions toi oti fdt_instance_id =
     (if toi = 0
      then concat (fdt_extension_fields oti fdt_instance_id) @ [0, 0] @ concat (fti_tail_fields oti)
      else [])"

definition header_image :: "u16 \<Rightarrow> u16 \<Rightarrow> fec_oti \<Rightarrow> u32 \<Rightarrow> byte list" where
  "header_image tsi toi oti fdt_instance_id =
     [0x10, 0x10, of_nat (lct_words toi), 0, 0, 0, 0, 0] @ be16_enc tsi @ be16_enc toi @
     fdt_extensions toi oti fdt_instance_id"

lemma fdt_fields_length [simp]:
  "length (concat (fdt_extension_fields oti fid)) = 12" "length (concat (fti_tail_fields oti)) = 6"
  by (simp_all add: fdt_extension_fields_def fti_tail_fields_def)

lemma fdt_extensions_length: "length (fdt_extensions toi oti fid) = 4 * lct_words toi - 12"
  by (simp add: fdt_extensions_def lct_words_def)

lemma header_image_length [simp]: "length (header_image tsi toi oti fid) = 4 * lct_words toi"
  by (simp add: header_image_def fdt_extensions_length) (simp add: lct_words_def)

lemma alc_build_image:
  assumes "ss \<noteq> []" and "\<forall>s \<in> set ss. symbol_ok s" and "encoding_id oti = CompactNoCode"
    and n: "length (payload_data ss) \<le> unat max_size" and m: "unat max_size < 2 ^ 63"
  shows "alc_build tsi toi oti ss max_size fid =
    Inr \<lparr>out_buffer = header_image tsi toi oti fid @ payload_image ss @
                        replicate (unat max_size - length (payload_data ss)) 0,
         out_len = of_nat (4 * lct_words toi + length (payload_image ss))\<rparr>"
proof -
  let ?n = "length (payload_data ss)" and ?l = "lct_words toi"
  let ?tail = "replicate (unat max_size - ?n) (0 :: byte)"
  define ext where "ext = (if toi = 0 then 20 else 0 :: nat)"
  have l: "4 * ?l = 12 + ext" and "ext \<le> 20" by (simp_all add: lct_words_def ext_def)
  have room: "unat (max_size + 4) = unat max_size + 4"
    using m unat_of_nat64 [of "unat max_size + 4"] by simp
  have size: "unat (max_size + of_nat (?l * 4) + 4) = (12 + ext) + (4 + ?n) + (unat max_size - ?n)"
    using m n unat_of_nat64 [of "unat max_size + (12 + ext) + 4"] l \<open>ext \<le> 20\<close>
    by (simp add: mult.commute [of 4])
  define pre where "pre = [0x10, 0x10, of_nat ?l, 0, 0, 0, 0, 0 :: byte]"
  have buf0: "replicate (unat (max_size + of_nat (?l * 4) + 4)) (0 :: byte) =
      replicate 3 0 @ (replicate 5 0 @ replicate 4 0 @ replicate ext 0) @ replicate (4 + ?n) 0 @ ?tail"
    unfolding size by (simp add: replicate_add [symmetric])
  have b1: "write_bytes (replicate (unat (max_size + of_nat (?l * 4) + 4)) (0 :: byte)) 0
      [push_bit 4 1, push_bit 4 1, of_nat ?l] =
    Inr ((pre @ replicate 4 0 @ replicate ext 0) @ replicate (4 + ?n) 0 @ ?tail)"
    unfolding buf0 by (simp add: write_bytes_def pre_def eval_nat_numeral)
  have "length (pre @ replicate 4 0 @ replicate ext 0) = 4 * ?l"
    by (simp add: pre_def l)
  then have b2: "to_payload ss ((pre @ replicate 4 0 @ replicate ext 0) @ replicate (4 + ?n) 0 @ ?tail)
      (4 * ?l) (max_size + 4) oti =
    Inr (4 + of_nat ?n, (pre @ replicate 4 0 @ replicate ext 0) @ payload_image ss @ ?tail)"
    using to_payload_image [OF assms(1-3), of "max_size + 4" "replicate (4 + ?n) 0"
        "pre @ replicate 4 0 @ replicate ext 0" ?tail] n room by simp
  have b3: "write_fields ((pre @ replicate 4 0 @ replicate ext 0) @ payload_image ss @ ?tail) 8
      [be16_enc tsi, be16_enc toi] =
    Inr ((pre @ be16_enc tsi @ be16_enc toi) @ replicate ext 0 @ payload_image ss @ ?tail)"
  proof -
    have "write_fields (pre @ replicate 4 0 @ replicate ext 0 @ payload_image ss @ ?tail) (length pre)
        [be16_enc tsi, be16_enc toi] =
      Inr (pre @ concat [be16_enc tsi, be16_enc toi] @ replicate ext 0 @ payload_image ss @ ?tail)"
      by (rule write_fields_app) simp
    moreover have "length pre = 8" by (simp add: pre_def)
    ultimately show ?thesis
      by (simp only: append_assoc concat.simps append_Nil2)
  qed
  define pre2 where "pre2 = pre @ be16_enc tsi @ be16_enc toi"
  have b4: "(if toi = 0
      then rbind (write_fields (pre2 @ replicate ext 0 @ payload_image ss @ ?tail) 12
             (fdt_extension_fields oti fid)) (\<lambda>b. write_fields b 26 (fti_tail_fields oti))
      else Inr (pre2 @ replicate ext 0 @ payload_image ss @ ?tail)) =
    Inr (header_image tsi toi oti fid @ payload_image ss @ ?tail)"
  proof (cases "toi = 0")
    case True
    then have e: "replicate ext (0 :: byte) = replicate 12 0 @ [0, 0] @ replicate 6 0"
      by (simp add: ext_def eval_nat_numeral)
    have p2: "length pre2 = 12" by (simp add: pre2_def pre_def)
    let ?f = "concat (fdt_extension_fields oti fid)"
    have w1: "write_fields (pre2 @ replicate ext 0 @ payload_image ss @ ?tail) 12
        (fdt_extension_fields oti fid) =
      Inr ((pre2 @ ?f @ [0, 0]) @ replicate 6 0 @ payload_image ss @ ?tail)"
      using write_fields_app [of "replicate 12 0" "fdt_extension_fields oti fid" pre2
          "[0, 0] @ replicate 6 0 @ payload_image ss @ ?tail"] p2 by (simp add: e)
    have w2: "write_fields ((pre2 @ ?f @ [0, 0]) @ replicate 6 0 @ payload_image ss @ ?tail) 26
        (fti_tail_fields oti) =
      Inr ((pre2 @ ?f @ [0, 0]) @ concat (fti_tail_fields oti) @ payload_image ss @ ?tail)"
      using write_fields_app [of "replicate 6 0" "fti_tail_fields oti" "pre2 @ ?f @ [0, 0]"
          "payload_image ss @ ?tail"] p2 by simp
    show ?thesis
      using True by (simp only: w1 w2 rbind_Inr if_True simp_thms)
        (simp add: header_image_def fdt_extensions_def pre2_def pre_def)
  next
    case False
    then show ?thesis
      by (simp add: header_image_def fdt_extensions_def pre2_def pre_def ext_def)
  qed
  have lct: "(if toi = 0 then 8 else 3) = ?l" by (simp add: lct_words_def)
  show ?thesis
    unfolding alc_build_def Let_def lct
    by (simp only: b1 b2 b3 rbind_Inr prod.case pre2_def [symmetric] b4)
      (simp add: add.commute)
qed

section \<open>Parsing what was built\<close>

lemma read16_eqI: "take 2 (drop p mem) = be16_enc w \<Longrightarrow> read16 mem p = Inr w"
proof -
  assume eq: "take 2 (drop p mem) = be16_enc w"
  then have "length (take 2 (drop p mem)) = 2" by simp
  then have "p + 2 \<le> length mem" by simp
  with eq show ?thesis by (simp add: read16_def read_bytes_def)
qed

lemma read32_eqI: "take 4 (drop p mem) = be32_enc w \<Longrightarrow> read32 mem p = Inr w"
proof -
  assume eq: "take 4 (drop p mem) = be32_enc w"
  then have "length (take 4 (drop p mem)) = 4" by simp
  then have "p + 4 \<le> length mem" by simp
  with eq show ?thesis by (simp add: read32_def read_bytes_def)
qed

definition built_lct_header :: "u16 \<Rightarrow> lct_header" where
  "built_lct_header toi =
     \<lparr>version = 1, congestion_control_flag = 0, source_packet_indicator = 0, close_object_flag = 0,
      close_session_flag = 0, half_word_flag = 1, toi_flag = 0, tsi_flag = 0,
      lct_header_len = of_nat (lct_words toi), codepoint = 0\<rparr>"

lemma built_lct_header_sel [simp]:
  "version (built_lct_header toi) = 1" "congestion_control_flag (built_lct_header toi) = 0"
  "close_session_flag (built_lct_header toi) = 0" "half_word_flag (built_lct_header toi) = 1"
  "toi_flag (built_lct_header toi) = 0" "tsi_flag (built_lct_header toi) = 0"
  "lct_header_len (built_lct_header toi) = of_nat (lct_words toi)" "codepoint (built_lct_header toi) = 0"
  by (simp_all add: built_lct_header_def)

lemma lct_header_of_built:
  "lct_header_of [0x10, 0x10, of_nat (lct_words toi), 0] = built_lct_header toi"
  by (simp add: lct_header_of_def built_lct_header_def)

definition built_packet :: "u16 \<Rightarrow> u16 \<Rightarrow> alc_packet" where
  "built_packet tsi toi =
     \<lparr>alc_tsi = ucast tsi, alc_toi = ucast toi, alc_fdt_instance_id = 0, alc_content_encoding = NONE,
      alc_fec_oti = fec_oti_zero\<lparr>encoding_id := CompactNoCode\<rparr>,
      alc_lct_header = built_lct_header toi\<rparr>"

lemma parse_fixed_image:
  assumes "4 \<le> len"
  shows "parse_fixed (header_image tsi toi oti fid @ rest) len =
    Inr (built_packet tsi toi, 12, if toi = 0 then 20 else 0)"
proof -
  let ?mem = "header_image tsi toi oti fid @ rest"
  have hb: "read_bytes ?mem 0 4 = Inr [0x10, 0x10, of_nat (lct_words toi), 0]"
    by (simp add: read_bytes_def header_image_def)
  have tsi: "read16 ?mem 8 = Inr tsi"
    by (rule read16_eqI) (simp add: header_image_def)
  have toi: "read16 ?mem 10 = Inr toi"
    by (rule read16_eqI) (simp add: header_image_def)
  have "parse_tsi (built_lct_header toi) ?mem 8 = Inr (ucast tsi, 10)"
    by (simp add: parse_tsi_def tsi)
  moreover have "parse_toi (built_lct_header toi) ?mem 10 = Inr (ucast toi, 12)"
    by (simp add: parse_toi_def toi)
  ultimately show ?thesis
    using assms
    by (simp add: parse_fixed_def hb lct_header_of_built Let_def)
      (simp add: built_packet_def lct_words_def)
qed

text \<open>The two extensions of an FDT packet.\<close>

definition fdt_version_byte :: "u32 \<Rightarrow> byte" where
  "fdt_version_byte fid = push_bit 4 1 OR ucast (drop_bit 16 (fid AND 0x000F0000))"

lemma mask_forms:
  "(0x000F0000 :: u32) = push_bit 16 (mask 4)" "(0xFFFF :: u32) = mask 16"
  "(0xFFFFF :: u32) = mask 20" "(0xF0 :: byte) = push_bit 4 (mask 4)" "(0x0F :: byte) = mask 4"
  by (simp_all add: mask_numeral push_bit_eq_mult)

lemma bit_16: "bit (16 :: byte) n \<longleftrightarrow> n = 4" "bit (16 :: int) n \<longleftrightarrow> n = 4"
proof -
  have "bit (push_bit 4 1 :: byte) n \<longleftrightarrow> n = 4" and "bit (push_bit 4 1 :: int) n \<longleftrightarrow> n = 4"
    by (auto simp only: bit_simps) simp_all
  then show "bit (16 :: byte) n \<longleftrightarrow> n = 4" "bit (16 :: int) n \<longleftrightarrow> n = 4" by simp_all
qed

lemma fdt_version_byte_nibbles:
  "drop_bit 4 (fdt_version_byte fid AND 0xF0) = 1"
  "push_bit 16 (ucast (fdt_version_byte fid AND 0x0F)) OR ucast (ucast (fid AND 0xFFFF) :: u16) =
     fid AND 0xFFFFF"
  unfolding fdt_version_byte_def mask_forms
  by (rule bit_word_eqI, auto simp: bit_simps bit_16)+

lemma drop_shift: "drop (p + k) mem = drop k (drop p mem)"
  by (simp add: add.commute)

lemma read_byte_dropI: "drop p mem = b # bs \<Longrightarrow> read_byte mem p = Inr b"
proof -
  assume eq: "drop p mem = b # bs"
  then have "p < length mem" by (metis drop_all list.distinct(1) not_le)
  with eq show ?thesis by (metis Cons_nth_drop_Suc list.inject read_byte_def)
qed

text \<open>The first of the two extensions written for an FDT is the one with the instance identifier.\<close>

lemma ext_step_fdt:
  assumes "drop p mem = EXT_FDT # fdt_version_byte fid # be16_enc (ucast (fid AND 0xFFFF)) @ rest"
    and "4 \<le> remaining"
  shows "ext_step mem p remaining pkt = Inr (4, pkt\<lparr>alc_fdt_instance_id := fid AND 0xFFFFF\<rparr>)"
proof -
  have het: "read_byte mem p = Inr EXT_FDT"
    using assms(1) by (rule read_byte_dropI)
  have ver: "read_byte mem (p + 1) = Inr (fdt_version_byte fid)"
    by (rule read_byte_dropI) (simp only: drop_shift assms(1) drop_Suc_Cons drop_0 One_nat_def)
  have low: "read16 mem (p + 2) = Inr (ucast (fid AND 0xFFFF))"
    by (rule read16_eqI) (simp add: drop_shift assms(1) del: drop_drop add_2_eq_Suc')
  have "\<not> EXT_FDT \<le> 127" "EXT_FDT \<noteq> EXT_NOP" "EXT_FDT \<noteq> EXT_AUTH" "EXT_FDT \<noteq> EXT_TIME" "EXT_FDT \<noteq> EXT_FTI"
    by (simp_all add: ext_codes)
  moreover have "parse_fdt_ext mem (p + 1) pkt = Inr (pkt\<lparr>alc_fdt_instance_id := fid AND 0xFFFFF\<rparr>)"
    unfolding parse_fdt_ext_def ver rbind_Inr fdt_version_byte_nibbles
    using low by (simp add: fdt_version_byte_nibbles)
  ultimately show ?thesis
    using assms(2) by (simp add: ext_step_def het not_less)
qed

definition fti_fields :: "fec_oti \<Rightarrow> byte list" where
  "fti_fields oti =
     [EXT_FTI, 4] @ be16_enc (ucast (drop_bit 32 (transfer_length oti AND 0x00FF0000))) @
     be32_enc (ucast (transfer_length oti AND 0x0000FFFF)) @ [0, 0] @ concat (fti_tail_fields oti)"

text \<open>What the receiver reads in the other extension.\<close>

definition received_oti :: "fec_oti \<Rightarrow> fec_oti" where
  "received_oti oti = fec_oti_zero
     \<lparr>encoding_id := CompactNoCode, transfer_length := transfer_length oti AND 0xFFFF,
      encoding_symbol_length := encoding_symbol_length oti AND 0xFFFF,
      max_source_block_length := max_source_block_length oti\<rparr>"

lemma fti_mask_zero: "drop_bit 32 ((w :: u64) AND 0x00FF0000) = 0"
proof -
  have m: "(0x00FF0000 :: u64) = push_bit 16 (mask 8)" by (simp add: mask_numeral push_bit_eq_mult)
  show ?thesis unfolding m by (rule bit_word_eqI) (auto simp: bit_simps)
qed

lemma fti_low: "ucast (ucast ((w :: u64) AND 0xFFFF) :: u32) = w AND 0xFFFF"
proof -
  have m: "(0xFFFF :: u64) = mask 16" by (simp add: mask_numeral)
  show ?thesis unfolding m by (rule bit_word_eqI) (auto simp: bit_simps)
qed

lemma esl_low: "ucast (ucast (w :: u32) :: u16) = w AND 0xFFFF"
  unfolding mask_forms by (rule bit_word_eqI) (auto simp: bit_simps)

lemma ext_step_fti:
  assumes "drop p mem = fti_fields oti @ rest" and "16 \<le> remaining"
    and "alc_fec_oti pkt = fec_oti_zero\<lparr>encoding_id := CompactNoCode\<rparr>"
  shows "ext_step mem p remaining pkt = Inr (16, pkt\<lparr>alc_fec_oti := received_oti oti\<rparr>)"
proof -
  note d = assms(1) [unfolded fti_fields_def fti_tail_fields_def, simplified]
  have het: "read_byte mem p = Inr EXT_FTI"
    using d by (rule read_byte_dropI)
  have hel: "read_byte mem (p + 1) = Inr 4"
    by (rule read_byte_dropI) (simp only: drop_shift d drop_Suc_Cons drop_0 One_nat_def)
  have hi: "read16 mem (p + 2) = Inr 0"
    by (rule read16_eqI) (simp add: drop_shift d fti_mask_zero del: drop_drop add_2_eq_Suc')
  have lo: "read32 mem (p + 4) = Inr (ucast (transfer_length oti AND 0xFFFF))"
    by (rule read32_eqI) (simp add: drop_shift d del: drop_drop)
  have esl: "read16 mem (p + 10) = Inr (ucast (encoding_symbol_length oti))"
    by (rule read16_eqI) (simp add: drop_shift d del: drop_drop)
  have msbl: "read32 mem (p + 12) = Inr (max_source_block_length oti)"
    by (rule read32_eqI) (simp add: drop_shift d del: drop_drop)
  have "EXT_FTI \<le> 127" "EXT_FTI \<noteq> EXT_NOP" "EXT_FTI \<noteq> EXT_AUTH" "EXT_FTI \<noteq> EXT_TIME"
    by (simp_all add: ext_codes)
  moreover have "parse_fti mem (p + 2) 4 pkt = Inr (pkt\<lparr>alc_fec_oti := received_oti oti\<rparr>)"
  proof -
    have addr: "p + 2 + 2 = p + 4" "p + 2 + 8 = p + 10" "p + 2 + 10 = p + 12" by simp_all
    show ?thesis
      unfolding parse_fti_def addr hi lo esl msbl rbind_Inr
      by (simp add: assms(3) fti_low esl_low received_oti_def)
  qed
  moreover have "(ucast (4 :: byte) * 4 :: u64) = 16" by simp
  ultimately show ?thesis
    using assms(2) hel by (simp add: ext_step_def het not_less)
qed

lemma fdt_extensions_split:
  "toi = 0 \<Longrightarrow> fdt_extensions toi oti fid =
     (EXT_FDT # fdt_version_byte fid # be16_enc (ucast (fid AND 0xFFFF))) @ fti_fields oti"
  by (simp add: fdt_extensions_def fdt_extension_fields_def fti_fields_def fdt_version_byte_def)

definition received_packet :: "u16 \<Rightarrow> u16 \<Rightarrow> fec_oti \<Rightarrow> u32 \<Rightarrow> alc_packet" where
  "received_packet tsi toi oti fid =
     (if toi = 0
      then (built_packet tsi toi)
        \<lparr>alc_fdt_instance_id := fid AND 0xFFFFF, alc_fec_oti := received_oti oti\<rparr>
      else built_packet tsi toi)"

lemma alc_parse_image:
  assumes "4 \<le> len"
  shows "alc_parse (header_image tsi toi oti fid @ rest) len =
    Some (Inr (received_packet tsi toi oti fid))"
proof (cases "toi = 0")
  case False
  then show ?thesis
    by (simp add: alc_parse_def parse_fixed_image [OF assms] received_packet_def parse_ext.simps)
next
  case True
  let ?mem = "header_image tsi toi oti fid @ rest"
  let ?pkt = "built_packet tsi toi"
  let ?fdt = "EXT_FDT # fdt_version_byte fid # be16_enc (ucast (fid AND 0xFFFF))"
  have d: "drop 12 ?mem = ?fdt @ fti_fields oti @ rest"
    by (simp add: header_image_def fdt_extensions_split [OF True])
  have d16: "drop 16 ?mem = fti_fields oti @ rest"
  proof -
    have "drop 16 ?mem = drop 4 (drop 12 ?mem)" by (simp only: drop_drop) simp
    then show ?thesis by (simp only: d) simp
  qed
  have one: "ext_step ?mem 12 20 ?pkt = Inr (4, ?pkt\<lparr>alc_fdt_instance_id := fid AND 0xFFFFF\<rparr>)"
    using d by (intro ext_step_fdt) simp_all
  have two: "ext_step ?mem 16 16 (?pkt\<lparr>alc_fdt_instance_id := fid AND 0xFFFFF\<rparr>) =
      Inr (16, received_packet tsi toi oti fid)"
    using d16 True by (subst ext_step_fti) (simp_all add: built_packet_def received_packet_def)
  have "parse_ext ?mem 12 20 ?pkt = parse_ext ?mem 16 16 (?pkt\<lparr>alc_fdt_instance_id := fid AND 0xFFFFF\<rparr>)"
    by (subst parse_ext.simps) (simp add: one)
  also have "\<dots> = parse_ext ?mem 32 0 (received_packet tsi toi oti fid)"
    by (subst parse_ext.simps) (simp add: two)
  also have "\<dots> = Some (Inr (received_packet tsi toi oti fid))"
    by (simp add: parse_ext.simps)
  finally show ?thesis
    using True by (simp add: alc_parse_def parse_fixed_image [OF assms])
qed

section \<open>Properties of building\<close>

text \<open>(C5) A packet that the sender builds is inside its buffer and is read back by the receiver:
  session and object identifier, header length and payload are the ones given. For the FDT
  (\<open>toi = 0\<close>) the two header extensions carry the low 20 bits of the instance identifier, the
  maximum source block length, the low 16 bits of the symbol length and the low 16 bits of the
  transfer length only.\<close>
theorem alc_roundtrip:
  assumes "ss \<noteq> []" and "\<forall>s \<in> set ss. symbol_ok s" and "encoding_id oti = CompactNoCode"
    and "length (payload_data ss) \<le> unat max_size" and "unat max_size < 2 ^ 63"
  shows "\<exists>out pkt.
    alc_build tsi toi oti ss max_size fid = Inr out \<and>
    length (wire out) = unat (out_len out) \<and>
    alc_parse (wire out @ rest) (length (wire out)) = Some (Inr pkt) \<and>
    alc_tsi pkt = ucast tsi \<and> alc_toi pkt = ucast toi \<and>
    header_length pkt = (if toi = 0 then 32 else 12) \<and>
    drop (header_length pkt) (wire out) = payload_image ss \<and>
    alc_content_encoding pkt = NONE \<and>
    (toi = 0 \<longrightarrow>
      alc_fdt_instance_id pkt = fid AND 0xFFFFF \<and>
      max_source_block_length (alc_fec_oti pkt) = max_source_block_length oti \<and>
      encoding_symbol_length (alc_fec_oti pkt) = encoding_symbol_length oti AND 0xFFFF \<and>
      transfer_length (alc_fec_oti pkt) = transfer_length oti AND 0xFFFF)"
proof -
  let ?n = "length (payload_data ss)"
  define out where "out = \<lparr>out_buffer = header_image tsi toi oti fid @ payload_image ss @
      replicate (unat max_size - ?n) 0, out_len = of_nat (4 * lct_words toi + length (payload_image ss))\<rparr>"
  define pkt where "pkt = received_packet tsi toi oti fid"
  have build: "alc_build tsi toi oti ss max_size fid = Inr out"
    unfolding out_def by (rule alc_build_image [OF assms])
  have "4 * lct_words toi \<le> 32" by (simp add: lct_words_def)
  then have len: "unat (out_len out) = 4 * lct_words toi + (4 + ?n)"
    using assms(4,5) unat_of_nat64 [of "4 * lct_words toi + (4 + ?n)"] by (simp add: out_def)
  have w: "wire out = header_image tsi toi oti fid @ payload_image ss"
    unfolding wire_def len by (simp add: out_def)
  have "unat (of_nat (lct_words toi) :: byte) = lct_words toi" by (simp add: lct_words_def)
  then have h: "header_length pkt = 4 * lct_words toi"
    by (cases "toi = 0") (simp_all add: pkt_def header_length_def received_packet_def built_packet_def)
  have parse: "alc_parse (wire out @ rest) (length (wire out)) = Some (Inr pkt)"
    unfolding w append_assoc pkt_def by (rule alc_parse_image) simp
  have "length (wire out) = unat (out_len out)" "drop (header_length pkt) (wire out) = payload_image ss"
    by (simp_all add: w len h)
  moreover have "header_length pkt = (if toi = 0 then 32 else 12)"
    by (simp add: h lct_words_def)
  moreover have "alc_tsi pkt = ucast tsi" "alc_toi pkt = ucast toi" "alc_content_encoding pkt = NONE"
    "toi = 0 \<Longrightarrow> alc_fdt_instance_id pkt = fid AND 0xFFFFF"
    "toi = 0 \<Longrightarrow> alc_fec_oti pkt = received_oti oti"
    by (simp_all add: pkt_def received_packet_def built_packet_def)
  ultimately show ?thesis
    using build parse by (intro exI [of _ out] exI [of _ pkt]) (simp add: received_oti_def)
qed

definition example_fdt_oti :: fec_oti where
  "example_fdt_oti = fec_oti_zero
     \<lparr>encoding_id := CompactNoCode, transfer_length := 70000, encoding_symbol_length := 1400,
      max_source_block_length := 64\<rparr>"

text \<open>An FDT of 70000 bytes is announced as one of 4464.\<close>
theorem alc_roundtrip_witness:
  "\<exists>out pkt.
    alc_build 7 0 example_fdt_oti [example_symbol 4 [1, 2, 3]] 1400 5 = Inr out \<and>
    alc_parse (wire out @ [9, 9]) (length (wire out)) = Some (Inr pkt) \<and>
    alc_tsi pkt = 7 \<and> header_length pkt = 32 \<and> alc_fdt_instance_id pkt = 5 \<and>
    encoding_symbol_length (alc_fec_oti pkt) = 1400 \<and>
    transfer_length (alc_fec_oti pkt) = 4464 \<and>
    drop 32 (wire out) = payload_image [example_symbol 4 [1, 2, 3]]"
proof -
  let ?ss = "[example_symbol 4 [1, 2, 3]]"
  have "?ss \<noteq> []" "\<forall>s \<in> set ?ss. symbol_ok s" "encoding_id example_fdt_oti = CompactNoCode"
    "length (payload_data ?ss) \<le> unat (1400 :: u64)" "unat (1400 :: u64) < 2 ^ 63"
    by (simp_all add: example_symbol_def example_fdt_oti_def symbol_ok_def symbol_data_def)
  from alc_roundtrip [OF this, of 7 0 5 "[9, 9]"] show ?thesis
    by (elim exE, intro exI) (auto simp: example_fdt_oti_def)
qed

section \<open>The loop over the header extensions\<close>

text \<open>The turns the loop makes: from a position, remaining length and packet to later ones.\<close>

inductive ext_reach ::
  "byte list \<Rightarrow> nat \<Rightarrow> u64 \<Rightarrow> alc_packet \<Rightarrow> nat \<Rightarrow> u64 \<Rightarrow> alc_packet \<Rightarrow> bool" for mem where
  ext_refl: "ext_reach mem p remaining pkt p remaining pkt"
| ext_next: "remaining \<noteq> 0 \<Longrightarrow> ext_step mem p remaining pkt = Inr (ext_len, pkt') \<Longrightarrow>
     ext_reach mem (p + unat ext_len) (remaining - ext_len) pkt' q r pkt'' \<Longrightarrow>
     ext_reach mem p remaining pkt q r pkt''"

text \<open>An extension that the loop does not get past: a variable length type other than EXT_FTI
  (which has to have length 4) with length 0.\<close>

definition stuck_at :: "byte list \<Rightarrow> nat \<Rightarrow> bool" where
  "stuck_at mem q \<longleftrightarrow> q + 1 < length mem \<and> mem ! q \<le> 127 \<and> mem ! q \<noteq> EXT_FTI \<and> mem ! (q + 1) = 0"

definition compact_packet :: "alc_packet \<Rightarrow> bool" where
  "compact_packet pkt \<longleftrightarrow> encoding_id (alc_fec_oti pkt) = CompactNoCode"

lemma parse_ext_body_compact:
  "parse_fti mem p hel pkt = Inr pkt' \<Longrightarrow> compact_packet pkt \<Longrightarrow> compact_packet pkt'"
  "parse_fdt_ext mem p pkt = Inr pkt' \<Longrightarrow> compact_packet pkt \<Longrightarrow> compact_packet pkt'"
  "parse_cenc mem p pkt = Inr pkt' \<Longrightarrow> compact_packet pkt \<Longrightarrow> compact_packet pkt'"
  by (auto simp: parse_fti_def parse_fdt_ext_def parse_cenc_def compact_packet_def rbind_eq_Inr_iff
      split: if_splits)

text \<open>One turn, by the kind of the extension.\<close>

lemma ext_step_short:
  "read_byte mem p = Inr het \<Longrightarrow> 127 < het \<Longrightarrow>
   ext_step mem p remaining pkt =
     (if remaining < 4 then Inl (CStr ''Header extension length exceeds remaining header length'')
      else rbind (if het = EXT_FDT then parse_fdt_ext mem (p + 1) pkt
                  else if het = EXT_CENC then parse_cenc mem (p + 1) pkt else Inr pkt)
             (\<lambda>pkt'. Inr (4, pkt')))"
  by (auto simp: ext_step_def ext_codes)

lemma ext_step_long:
  "read_byte mem p = Inr het \<Longrightarrow> het \<le> 127 \<Longrightarrow> read_byte mem (p + 1) = Inr hel \<Longrightarrow>
   ext_step mem p remaining pkt =
     (if remaining < ucast hel * 4
      then Inl (CStr ''Header extension length exceeds remaining header length'')
      else rbind (if het = EXT_FTI then parse_fti mem (p + 2) hel pkt else Inr pkt)
             (\<lambda>pkt'. Inr (ucast hel * 4, pkt')))"
  by (auto simp: ext_step_def ext_codes)

lemma unat_hel [simp]: "unat (ucast (hel :: byte) * 4 :: u64) = unat hel * 4"
proof -
  have "unat hel < 256" using unat_bound [of hel] by simp
  then show ?thesis by (simp add: unat_word_ariths)
qed

lemma ext_step_cases:
  assumes "ext_step mem p remaining pkt = Inr (l, pkt')"
  obtains (fixed) het where "read_byte mem p = Inr het" "127 < het" "l = 4" "4 \<le> remaining"
      "(if het = EXT_FDT then parse_fdt_ext mem (p + 1) pkt
        else if het = EXT_CENC then parse_cenc mem (p + 1) pkt else Inr pkt) = Inr pkt'"
  | (variable) het hel where "read_byte mem p = Inr het" "het \<le> 127" "read_byte mem (p + 1) = Inr hel"
      "l = ucast hel * 4" "ucast hel * 4 \<le> remaining"
      "(if het = EXT_FTI then parse_fti mem (p + 2) hel pkt else Inr pkt) = Inr pkt'"
proof -
  from assms obtain het where het: "read_byte mem p = Inr het"
    by (auto simp: ext_step_def rbind_eq_Inr_iff)
  show ?thesis
  proof (cases "het \<le> 127")
    case True
    with assms het obtain hel where hel: "read_byte mem (p + 1) = Inr hel"
      by (auto simp: ext_step_def rbind_eq_Inr_iff)
    with assms het True show ?thesis
      by (intro variable [OF het True hel])
        (auto simp: ext_step_long rbind_eq_Inr_iff not_less split: if_splits)
  next
    case False
    with assms het show ?thesis
      by (intro fixed [OF het])
        (auto simp: ext_step_short rbind_eq_Inr_iff not_less not_le split: if_splits)
  qed
qed

lemma ext_step_le: "ext_step mem p remaining pkt = Inr (l, pkt') \<Longrightarrow> l \<le> remaining"
  by (erule ext_step_cases) simp_all

lemma ext_step_compact:
  "ext_step mem p remaining pkt = Inr (l, pkt') \<Longrightarrow> compact_packet pkt \<Longrightarrow> compact_packet pkt'"
  by (erule ext_step_cases) (auto split: if_splits intro: parse_ext_body_compact)

lemma ext_step_zero:
  assumes "ext_step mem p remaining pkt = Inr (0, pkt')" and "compact_packet pkt"
  shows "stuck_at mem p"
  using assms(1)
proof (cases rule: ext_step_cases)
  case (variable het hel)
  have "unat (ucast hel * 4 :: u64) = 0" using variable(4) by simp
  then have "hel = 0" by (simp add: unat_eq_0)
  with variable assms(2) show ?thesis
    by (auto simp: stuck_at_def read_byte_def parse_fti_def compact_packet_def split: if_splits)
qed simp

lemma ext_step_stuck:
  "stuck_at mem p \<Longrightarrow> ext_step mem p remaining pkt = Inr (0, pkt)"
  by (subst ext_step_long) (auto simp: stuck_at_def read_byte_def)

lemma reach_no_stuck_next:
  "remaining \<noteq> 0 \<Longrightarrow> ext_step mem p remaining pkt = Inr (l, pkt') \<Longrightarrow>
   \<nexists>q r pkt''. ext_reach mem p remaining pkt q r pkt'' \<and> r \<noteq> 0 \<and> stuck_at mem q \<Longrightarrow>
   \<nexists>q r pkt''. ext_reach mem (p + unat l) (remaining - l) pkt' q r pkt'' \<and> r \<noteq> 0 \<and> stuck_at mem q"
  by (blast intro: ext_next)

lemma unat_sub_less: "l \<noteq> 0 \<Longrightarrow> l \<le> r \<Longrightarrow> unat (r - l) < unat (r :: u64)"
proof -
  assume "l \<noteq> 0" "l \<le> r"
  then have "0 < unat l" "unat l \<le> unat r" "unat (r - l) = unat r - unat l"
    by (simp_all add: unat_gt_0 word_le_nat_alt unat_sub)
  then show ?thesis by simp
qed

lemma parse_ext_returns:
  assumes "\<nexists>q r pkt'. ext_reach mem p remaining pkt q r pkt' \<and> r \<noteq> 0 \<and> stuck_at mem q"
    and "compact_packet pkt"
  shows "parse_ext mem p remaining pkt \<noteq> None"
  using assms
proof (induction "unat remaining" arbitrary: p remaining pkt rule: less_induct)
  case less
  show ?case
  proof (cases "remaining = 0 \<or> (\<exists>e. ext_step mem p remaining pkt = Inl e)")
    case True
    then show ?thesis by (subst parse_ext.simps) auto
  next
    case False
    then obtain l pkt' where step: "ext_step mem p remaining pkt = Inr (l, pkt')" and "remaining \<noteq> 0"
      by (metis sumE surj_pair)
    then have "l \<noteq> 0"
      using less.prems ext_step_zero [of mem p remaining pkt pkt'] ext_refl by blast
    then have "unat (remaining - l) < unat remaining"
      using ext_step_le [OF step] by (rule unat_sub_less)
    with less.hyps [OF this reach_no_stuck_next [OF \<open>remaining \<noteq> 0\<close> step less.prems(1)]]
      ext_step_compact [OF step less.prems(2)] \<open>remaining \<noteq> 0\<close> step
    show ?thesis by (subst parse_ext.simps) auto
  qed
qed

lemma stuck_reach_next:
  assumes "ext_reach mem p remaining pkt q r pkt''" and "r \<noteq> 0" and "stuck_at mem q"
    and "ext_step mem p remaining pkt = Inr (l, pkt')"
  shows "\<exists>q r pkt''. ext_reach mem (p + unat l) (remaining - l) pkt' q r pkt'' \<and> r \<noteq> 0 \<and> stuck_at mem q"
  using assms
proof (cases rule: ext_reach.cases)
  case ext_refl
  with assms show ?thesis
    using ext_reach.ext_refl [of mem p remaining pkt] by (force simp: ext_step_stuck)
next
  case (ext_next ext_len pkt1)
  with assms show ?thesis by auto
qed

lemma parse_ext_stuck:
  assumes "parse_ext mem p remaining pkt = Some y"
  shows "\<nexists>q r pkt'. ext_reach mem p remaining pkt q r pkt' \<and> r \<noteq> 0 \<and> stuck_at mem q"
proof (rule parse_ext.raw_induct [where P = "\<lambda>mem p remaining pkt y.
    \<nexists>q r pkt'. ext_reach mem p remaining pkt q r pkt' \<and> r \<noteq> 0 \<and> stuck_at mem q", OF _ assms])
  fix parse_ext' mem p remaining pkt y
  assume IH: "\<And>mem p remaining pkt y. parse_ext' mem p remaining pkt = Some y \<Longrightarrow>
      \<nexists>q r pkt'. ext_reach mem p remaining pkt q r pkt' \<and> r \<noteq> 0 \<and> stuck_at mem q"
    and body: "(if remaining = 0 then Some (Inr pkt)
      else case ext_step mem p remaining pkt of
             Inl e \<Rightarrow> Some (Inl e)
           | Inr (ext_len, pkt') \<Rightarrow>
               parse_ext' mem (p + unat ext_len) (remaining - ext_len) pkt') = Some y"
  show "\<nexists>q r pkt'. ext_reach mem p remaining pkt q r pkt' \<and> r \<noteq> 0 \<and> stuck_at mem q"
  proof (rule ccontr)
    assume "\<not> (\<nexists>q r pkt'. ext_reach mem p remaining pkt q r pkt' \<and> r \<noteq> 0 \<and> stuck_at mem q)"
    then obtain q r pkt' where reach: "ext_reach mem p remaining pkt q r pkt'" "r \<noteq> 0" "stuck_at mem q"
      by blast
    then have "remaining \<noteq> 0"
      by (cases rule: ext_reach.cases) auto
    moreover from reach have "\<exists>l pkt1. ext_step mem p remaining pkt = Inr (l, pkt1)"
      by (cases rule: ext_reach.cases) (auto simp: ext_step_stuck)
    ultimately obtain l pkt1 where step: "ext_step mem p remaining pkt = Inr (l, pkt1)"
      and "parse_ext' mem (p + unat l) (remaining - l) pkt1 = Some y"
      using body by auto
    then show False
      using IH stuck_reach_next [OF reach step] by blast
  qed
qed

lemma parse_fixed_compact:
  "parse_fixed mem len = Inr (pkt, p, n) \<Longrightarrow> compact_packet pkt"
  by (auto simp: parse_fixed_def Let_def rbind_eq_Inr_iff compact_packet_def split: if_splits)

text \<open>(C17) Exactly when the parser fails to return: when the loop over the header extensions
  reaches, with length remaining, an extension of a variable length type (not EXT_FTI) whose length
  field is 0. A datagram can make the receiver loop for ever; every other datagram is parsed or
  rejected in finitely many turns.\<close>
theorem alc_parse_diverges_iff:
  "alc_parse mem len = None \<longleftrightarrow>
     (\<exists>pkt p n q r pkt'. parse_fixed mem len = Inr (pkt, p, n) \<and>
        ext_reach mem p n pkt q r pkt' \<and> r \<noteq> 0 \<and> stuck_at mem q)"
proof (cases "parse_fixed mem len")
  case (Inl e)
  then show ?thesis by (simp add: alc_parse_def)
next
  case (Inr f)
  obtain pkt p n where f: "f = (pkt, p, n)" by (cases f)
  with Inr have "compact_packet pkt" using parse_fixed_compact by blast
  then have "parse_ext mem p n pkt = None \<longleftrightarrow>
      (\<exists>q r pkt'. ext_reach mem p n pkt q r pkt' \<and> r \<noteq> 0 \<and> stuck_at mem q)"
    using parse_ext_returns [of mem p n pkt] parse_ext_stuck [of mem p n pkt] by fastforce
  with Inr f show ?thesis by (simp add: alc_parse_def)
qed

section \<open>Accesses of the parser\<close>

text \<open>The length in words that the header flags ask for.\<close>

definition expected_words :: "lct_header \<Rightarrow> nat" where
  "expected_words h =
     2 + unat (congestion_control_flag h) + unat (half_word_flag h) + unat (tsi_flag h) +
     unat (toi_flag h)"

lemma reads_defined:
  "p < length mem \<Longrightarrow> read_byte mem p \<noteq> Inl e"
  "p + 2 \<le> length mem \<Longrightarrow> read16 mem p \<noteq> Inl e"
  "p + 4 \<le> length mem \<Longrightarrow> read32 mem p \<noteq> Inl e"
  by (simp_all add: read_byte_def read16_def read32_def read_bytes_def)

lemma flag_bounds:
  "unat (half_word_flag (lct_header_of bs)) \<le> 1" "unat (tsi_flag (lct_header_of bs)) \<le> 1"
  "unat (toi_flag (lct_header_of bs)) \<le> 3" "unat (congestion_control_flag (lct_header_of bs)) \<le> 3"
proof -
  have one: "unat (b AND 1) \<le> 1" and three: "unat (b AND 3) \<le> 3" for b :: byte
    using word_and_le1 [of b 1] word_and_le1 [of b 3] by (simp_all add: word_le_nat_alt)
  show "unat (half_word_flag (lct_header_of bs)) \<le> 1" "unat (toi_flag (lct_header_of bs)) \<le> 3"
    "unat (congestion_control_flag (lct_header_of bs)) \<le> 3"
    unfolding lct_header_of_def lct_header.simps by (rule one three)+
  have "unat (bs ! 1) div 2 ^ 7 < 2"
    using unat_bound [of "bs ! 1"] by (simp add: less_mult_imp_div_less)
  then show "unat (tsi_flag (lct_header_of bs)) \<le> 1"
    by (simp add: lct_header_of_def drop_bit_eq_div unat_div_distrib)
qed

lemma unat_le_1: "unat (b :: byte) \<le> 1 \<Longrightarrow> b = 0 \<or> b = 1"
  by (metis One_nat_def le_Suc_eq le_zero_eq unat_1 unat_eq_zero unsigned_word_eqI)

lemma parse_tsi_end:
  assumes "parse_tsi h mem p = Inr (tsi, p')" and "unat (half_word_flag h) \<le> 1" "unat (tsi_flag h) \<le> 1"
  shows "p' = p + 2 * unat (half_word_flag h) + 4 * unat (tsi_flag h)"
proof -
  have "half_word_flag h = 0 \<or> half_word_flag h = 1" "tsi_flag h = 0 \<or> tsi_flag h = 1"
    using assms(2,3) by (simp_all add: unat_le_1)
  with assms(1) show ?thesis
    by (auto simp: parse_tsi_def rbind_eq_Inr_iff)
qed

lemma parse_toi_end:
  assumes "parse_toi h mem p = Inr (toi, p')" and "unat (half_word_flag h) \<le> 1" "unat (toi_flag h) \<le> 3"
  shows "p' = p + 2 * unat (half_word_flag h) + 4 * unat (toi_flag h)"
proof -
  have "half_word_flag h = 0 \<or> half_word_flag h = 1"
    using assms(2) by (simp_all add: unat_le_1)
  with assms(1) show ?thesis
    by (auto simp: parse_toi_def rbind_eq_Inr_iff split: if_splits)
qed

text \<open>The extensions start where the flags say, and their length is the difference to the header
  length, modulo the width of \<^verbatim>\<open>size_t\<close>.\<close>

lemma parse_fixed_end:
  assumes "parse_fixed mem len = Inr (pkt, p, n)"
  shows "p = 4 * expected_words (alc_lct_header pkt)"
    "n = of_int (4 * (int (unat (lct_header_len (alc_lct_header pkt))) -
        int (expected_words (alc_lct_header pkt))))"
    "alc_lct_header pkt = lct_header_of (take 4 mem)"
proof -
  from assms obtain tsi p1 toi where h: "alc_lct_header pkt = lct_header_of (take 4 mem)"
    and tsi: "parse_tsi (alc_lct_header pkt) mem 8 = Inr (tsi, p1)"
    and toi: "parse_toi (alc_lct_header pkt) mem p1 = Inr (toi, p)"
    and cc: "congestion_control_flag (alc_lct_header pkt) = 0"
    and n: "n = of_int ((uint (lct_header_len (alc_lct_header pkt)) -
      (2 + uint (congestion_control_flag (alc_lct_header pkt)) + uint (half_word_flag (alc_lct_header pkt)) +
       uint (tsi_flag (alc_lct_header pkt)) + uint (toi_flag (alc_lct_header pkt)))) * 4)"
    by (auto simp: parse_fixed_def Let_def rbind_eq_Inr_iff read_bytes_def split: if_splits)
  show "alc_lct_header pkt = lct_header_of (take 4 mem)" by (rule h)
  show "p = 4 * expected_words (alc_lct_header pkt)"
    using parse_tsi_end [OF tsi] parse_toi_end [OF toi] flag_bounds [of "take 4 mem"]
    by (simp add: h [symmetric] expected_words_def cc)
  show "n = of_int (4 * (int (unat (lct_header_len (alc_lct_header pkt))) -
        int (expected_words (alc_lct_header pkt))))"
    unfolding n expected_words_def by (intro arg_cong [where f = of_int]) simp
qed

lemma parse_fixed_defined:
  assumes "24 \<le> length mem"
  shows "parse_fixed mem len \<noteq> Inl (Undefined w)"
proof
  assume "parse_fixed mem len = Inl (Undefined w)"
  moreover have "read_bytes mem 0 4 = Inr (take 4 mem)"
    using assms by (simp add: read_bytes_def)
  moreover define h where "h = lct_header_of (take 4 mem)"
  ultimately have "parse_tsi h mem 8 = Inl (Undefined w) \<or>
      (\<exists>tsi p. parse_tsi h mem 8 = Inr (tsi, p) \<and> parse_toi h mem p = Inl (Undefined w))"
    by (auto simp: parse_fixed_def Let_def rbind_eq_Inl_iff split: if_splits)
  moreover have "parse_tsi h mem 8 \<noteq> Inl (Undefined w)"
    using assms by (auto simp: parse_tsi_def rbind_eq_Inl_iff rbind_eq_Inr_iff reads_defined split: if_splits)
  moreover have "p \<le> 14" if "parse_tsi h mem 8 = Inr (tsi, p)" for tsi p
    using parse_tsi_end [OF that] flag_bounds [of "take 4 mem"] by (simp add: h_def)
  moreover have "parse_toi h mem p \<noteq> Inl (Undefined w)" if "p \<le> 14" for p
    using assms that
    by (auto simp: parse_toi_def rbind_eq_Inl_iff rbind_eq_Inr_iff reads_defined split: if_splits)
  ultimately show False by metis
qed

lemma ext_step_defined:
  assumes "p + unat remaining < length mem" and "remaining \<noteq> 0"
  shows "ext_step mem p remaining pkt \<noteq> Inl (Undefined w)"
proof -
  have "0 < unat remaining" using assms(2) by (simp add: unat_gt_0)
  then have p1: "p + 1 < length mem" using assms(1) by simp
  then obtain het hel where het: "read_byte mem p = Inr het" and hel: "read_byte mem (p + 1) = Inr hel"
    by (auto simp: read_byte_def)
  show ?thesis
  proof (cases "het \<le> 127")
    case False
    have "p + 4 < length mem" if "4 \<le> remaining"
      using assms(1) that by (simp add: word_le_nat_alt)
    with het p1 False show ?thesis
      by (auto simp: ext_step_short not_le not_less rbind_eq_Inl_iff parse_fdt_ext_def parse_cenc_def
          reads_defined split: if_splits)
  next
    case True
    have "p + 16 < length mem" if "ucast (4 :: byte) * 4 \<le> remaining"
      using assms(1) that by (simp add: word_le_nat_alt)
    with het hel True show ?thesis
      by (auto simp: ext_step_long not_less rbind_eq_Inl_iff parse_fti_def reads_defined
          split: if_splits)
  qed
qed

lemma parse_ext_defined:
  assumes "parse_ext mem p remaining pkt = Some y" and "p + unat remaining < length mem"
  shows "y \<noteq> Inl (Undefined w)"
proof -
  have "p + unat remaining < length mem \<longrightarrow> y \<noteq> Inl (Undefined w)"
  proof (rule parse_ext.raw_induct [where P = "\<lambda>mem p remaining pkt y.
      p + unat remaining < length mem \<longrightarrow> y \<noteq> Inl (Undefined w)", OF _ assms(1)])
    fix parse_ext' mem p remaining pkt y
    assume IH: "\<And>mem p remaining pkt y. parse_ext' mem p remaining pkt = Some y \<Longrightarrow>
        p + unat remaining < length mem \<longrightarrow> y \<noteq> Inl (Undefined w)"
      and body: "(if remaining = 0 then Some (Inr pkt)
        else case ext_step mem p remaining pkt of
               Inl e \<Rightarrow> Some (Inl e)
             | Inr (ext_len, pkt') \<Rightarrow>
                 parse_ext' mem (p + unat ext_len) (remaining - ext_len) pkt') = Some y"
    show "p + unat remaining < length mem \<longrightarrow> y \<noteq> Inl (Undefined w)"
    proof
      assume room: "p + unat remaining < length mem"
      show "y \<noteq> Inl (Undefined w)"
      proof (cases "\<exists>l pkt'. remaining \<noteq> 0 \<and> ext_step mem p remaining pkt = Inr (l, pkt')")
        case True
        then obtain l pkt' where step: "ext_step mem p remaining pkt = Inr (l, pkt')"
          and rest: "parse_ext' mem (p + unat l) (remaining - l) pkt' = Some y"
          using body by auto
        have "unat l \<le> unat remaining" "unat (remaining - l) = unat remaining - unat l"
          using ext_step_le [OF step] by (simp_all add: word_le_nat_alt unat_sub)
        then have "p + unat l + unat (remaining - l) < length mem"
          using room by simp
        with IH [OF rest] show ?thesis by simp
      next
        case False
        with body show ?thesis
          using ext_step_defined [OF room]
          by (cases "ext_step mem p remaining pkt") (auto split: if_splits)
      qed
    qed
  qed
  with assms(2) show ?thesis by simp
qed

text \<open>(C22) When the header length field is at least what the flags ask for, the parser stays inside
  a buffer of the receiver's 2048 bytes, whatever the datagram contains.\<close>
theorem alc_parse_defined:
  assumes "2048 \<le> length mem" and "expected_words (lct_header_of (take 4 mem)) \<le> unat (mem ! 2)"
  shows "alc_parse mem len \<noteq> Some (Inl (Undefined w))"
proof (cases "parse_fixed mem len")
  case (Inl e)
  with assms(1) show ?thesis
    using parse_fixed_defined [of mem len w] by (simp add: alc_parse_def)
next
  case (Inr f)
  obtain pkt p n where f: "f = (pkt, p, n)" by (cases f)
  let ?h = "lct_header_of (take 4 mem)"
  have len: "unat (lct_header_len ?h) = unat (mem ! 2)" and "unat (mem ! 2) < 256"
    using unat_bound [of "mem ! 2"] by (simp_all add: lct_header_of_def)
  note fe = parse_fixed_end [OF Inr [unfolded f]]
  have "n = of_nat (4 * (unat (mem ! 2) - expected_words ?h))"
    using assms(2) fe(2,3) len by (simp add: of_nat_diff)
  then have "unat n = 4 * (unat (mem ! 2) - expected_words ?h)"
    using \<open>unat (mem ! 2) < 256\<close> by (simp only:) (rule unat_of_nat64, simp)
  then have "p + unat n < length mem"
    using fe(1,3) assms \<open>unat (mem ! 2) < 256\<close> by simp
  then show ?thesis
    using parse_ext_defined [of mem p n pkt] Inr f by (auto simp: alc_parse_def)
qed

text \<open>The datagram of the witness: a FLUTE header of three words followed by zero bytes.\<close>

theorem alc_parse_defined_witness:
  "alc_parse ([0x10, 0x10, 3, 0] @ replicate 2044 0) 16 \<noteq> Some (Inl (Undefined ''read''))"
  by (rule alc_parse_defined) (simp_all add: expected_words_def lct_header_of_def)







section \<open>What an accepted packet satisfies\<close>

definition same_header :: "alc_packet \<Rightarrow> alc_packet \<Rightarrow> bool" where
  "same_header pkt pkt' \<longleftrightarrow>
     alc_tsi pkt' = alc_tsi pkt \<and> alc_toi pkt' = alc_toi pkt \<and>
     alc_lct_header pkt' = alc_lct_header pkt"

definition fdt_id_ok :: "alc_packet \<Rightarrow> bool" where
  "fdt_id_ok pkt \<longleftrightarrow> unat (alc_fdt_instance_id pkt) < 2 ^ 20"

lemma fdt_id_bound: "unat (push_bit 16 (ucast (b AND 0x0F :: byte)) OR ucast (w :: u16) :: u32) < 2 ^ 20"
proof (rule unat_or_less)
  have "unat (b AND 0x0F) \<le> 15"
    using word_and_le1 [of b 15] by (simp add: word_le_nat_alt)
  then show "unat (push_bit 16 (ucast (b AND 0x0F)) :: u32) < 2 ^ 20"
    by (simp add: push_bit_eq_mult unat_word_ariths)
  show "unat (ucast w :: u32) < 2 ^ 20" using u16_bound [of w] by simp
qed

lemma parse_ext_bodies_keep:
  "parse_fti mem p hel pkt = Inr pkt' \<Longrightarrow> same_header pkt pkt' \<and> (fdt_id_ok pkt \<longrightarrow> fdt_id_ok pkt')"
  "parse_fdt_ext mem p pkt = Inr pkt' \<Longrightarrow> same_header pkt pkt' \<and> (fdt_id_ok pkt \<longrightarrow> fdt_id_ok pkt')"
  "parse_cenc mem p pkt = Inr pkt' \<Longrightarrow> same_header pkt pkt' \<and> (fdt_id_ok pkt \<longrightarrow> fdt_id_ok pkt')"
  using fdt_id_bound
  by (auto simp: parse_fti_def parse_fdt_ext_def parse_cenc_def same_header_def fdt_id_ok_def
      rbind_eq_Inr_iff split: if_splits)

lemma ext_step_keeps:
  assumes "ext_step mem p remaining pkt = Inr (l, pkt')"
  shows "same_header pkt pkt' \<and> (fdt_id_ok pkt \<longrightarrow> fdt_id_ok pkt')"
proof -
  have "same_header pkt pkt" by (simp add: same_header_def)
  with assms show ?thesis
    by (cases rule: ext_step_cases) (auto split: if_splits dest: parse_ext_bodies_keep)
qed

lemma ext_step_error: "ext_step mem p remaining pkt = Inl e \<Longrightarrow> \<not> caught_as_std_exception e"
  by (auto simp: ext_step_def parse_fti_def parse_fdt_ext_def parse_cenc_def rbind_eq_Inl_iff
      read_byte_def read16_def read32_def read_bytes_def split: if_splits)

definition parse_ext_result :: "alc_packet \<Rightarrow> alc_packet result \<Rightarrow> bool" where
  "parse_ext_result pkt y \<longleftrightarrow>
     (case y of Inl e \<Rightarrow> \<not> caught_as_std_exception e
      | Inr pkt' \<Rightarrow> same_header pkt pkt' \<and> (fdt_id_ok pkt \<longrightarrow> fdt_id_ok pkt'))"

lemma parse_ext_keeps:
  assumes "parse_ext mem p remaining pkt = Some y"
  shows "parse_ext_result pkt y"
proof (rule parse_ext.raw_induct [where P = "\<lambda>mem p remaining pkt y. parse_ext_result pkt y", OF _ assms])
  fix parse_ext' mem p remaining pkt y
  assume IH: "\<And>mem p remaining pkt y. parse_ext' mem p remaining pkt = Some y \<Longrightarrow> parse_ext_result pkt y"
    and body: "(if remaining = 0 then Some (Inr pkt)
      else case ext_step mem p remaining pkt of
             Inl e \<Rightarrow> Some (Inl e)
           | Inr (ext_len, pkt') \<Rightarrow>
               parse_ext' mem (p + unat ext_len) (remaining - ext_len) pkt') = Some y"
  show "parse_ext_result pkt y"
  proof (cases "ext_step mem p remaining pkt")
    case (Inl e)
    with body ext_step_error [OF this] show ?thesis
      by (auto simp: parse_ext_result_def same_header_def split: if_splits)
  next
    case (Inr a)
    obtain l pkt' where a: "a = (l, pkt')" by (cases a)
    show ?thesis
    proof (cases "remaining = 0")
      case True
      with body show ?thesis by (auto simp: parse_ext_result_def same_header_def)
    next
      case False
      with body Inr a have "parse_ext_result pkt' y" by (auto intro: IH)
      with ext_step_keeps [OF Inr [unfolded a]] show ?thesis
        by (auto simp: parse_ext_result_def same_header_def split: sum.splits)
    qed
  qed
qed

lemma parse_tsi_bound:
  assumes "parse_tsi h mem p = Inr (tsi, p')"
  shows "unat tsi < 2 ^ 32"
proof -
  have "unat (ucast (w :: u16) OR ucast (x :: u32) :: u64) < 2 ^ 32" for w x
    using u16_bound [of w] u32_bound [of x] by (intro unat_or_less) simp_all
  moreover have "unat (ucast (w :: u16) :: u64) < 2 ^ 32" "unat (ucast (x :: u32) :: u64) < 2 ^ 32" for w x
    using u16_bound [of w] u32_bound [of x] by simp_all
  ultimately show ?thesis
    using assms by (auto simp: parse_tsi_def rbind_eq_Inr_iff split: if_splits)
qed

lemma parse_fixed_accepts:
  assumes "parse_fixed mem len = Inr (pkt, p, n)"
  shows "4 \<le> len" "version (alc_lct_header pkt) = 1" "congestion_control_flag (alc_lct_header pkt) = 0"
    "codepoint (alc_lct_header pkt) = 0" "alc_lct_header pkt = lct_header_of (take 4 mem)"
    "half_word_flag (alc_lct_header pkt) \<noteq> 0 \<or> tsi_flag (alc_lct_header pkt) \<noteq> 0"
    "toi_flag (alc_lct_header pkt) = 0 \<or> toi_flag (alc_lct_header pkt) = 1 \<or>
     toi_flag (alc_lct_header pkt) = 2 \<and> half_word_flag (alc_lct_header pkt) \<noteq> 1"
    "fdt_id_ok pkt"
  using assms
  by (auto simp: parse_fixed_def Let_def rbind_eq_Inr_iff read_bytes_def fdt_id_ok_def
        parse_tsi_def [of _ mem 8] parse_toi_def split: if_splits)

lemma parse_fixed_tsi: "parse_fixed mem len = Inr (pkt, p, n) \<Longrightarrow> unat (alc_tsi pkt) < 2 ^ 32"
proof -
  assume "parse_fixed mem len = Inr (pkt, p, n)"
  then obtain h p1 where "parse_tsi h mem 8 = Inr (alc_tsi pkt, p1)"
    by (auto simp: parse_fixed_def Let_def rbind_eq_Inr_iff split: if_splits)
  then show ?thesis by (rule parse_tsi_bound)
qed

lemma parse_fixed_error: "parse_fixed mem len = Inl e \<Longrightarrow> \<not> caught_as_std_exception e"
  by (auto simp: parse_fixed_def parse_tsi_def parse_toi_def Let_def rbind_eq_Inl_iff
      read16_def read32_def read_bytes_def split: if_splits)

text \<open>What the parser accepts: LCT version 1, a congestion control field of one word, codepoint 0
  (compact no-code), a session identifier, an object identifier of at most 64 bits, a FLUTE instance
  identifier of 20 bits. The session identifier is always below \<open>2 ^ 32\<close>: of one of 48 bits, which
  the header allows, the word is shifted within 32 bits and loses its upper half.\<close>
theorem alc_parse_accepts:
  assumes "alc_parse mem len = Some (Inr pkt)"
  shows "4 \<le> len \<and> alc_lct_header pkt = lct_header_of (take 4 mem) \<and>
    version (alc_lct_header pkt) = 1 \<and> congestion_control_flag (alc_lct_header pkt) = 0 \<and>
    codepoint (alc_lct_header pkt) = 0 \<and>
    (half_word_flag (alc_lct_header pkt) \<noteq> 0 \<or> tsi_flag (alc_lct_header pkt) \<noteq> 0) \<and>
    (toi_flag (alc_lct_header pkt) = 0 \<or> toi_flag (alc_lct_header pkt) = 1 \<or>
     toi_flag (alc_lct_header pkt) = 2 \<and> half_word_flag (alc_lct_header pkt) \<noteq> 1) \<and>
    unat (alc_tsi pkt) < 2 ^ 32 \<and> unat (alc_fdt_instance_id pkt) < 2 ^ 20"
proof -
  from assms obtain pkt0 p n where fixed: "parse_fixed mem len = Inr (pkt0, p, n)"
    and ext: "parse_ext mem p n pkt0 = Some (Inr pkt)"
    by (auto simp: alc_parse_def split: sum.splits)
  have "same_header pkt0 pkt" "fdt_id_ok pkt"
    using parse_ext_keeps [OF ext] parse_fixed_accepts(8) [OF fixed] by (auto simp: parse_ext_result_def)
  with parse_fixed_accepts [OF fixed] parse_fixed_tsi [OF fixed] show ?thesis
    by (simp add: same_header_def fdt_id_ok_def)
qed

text \<open>A session identifier 0x5566 7788 1122 on the wire, of which 0x5566 is lost.\<close>
theorem alc_parse_accepts_witness:
  "\<exists>pkt. alc_parse ([0x10, 0x90, 4, 0, 0, 0, 0, 0, 0x11, 0x22, 0x55, 0x66, 0x77, 0x88, 0, 7]) 16 =
       Some (Inr pkt) \<and>
     alc_tsi pkt = 0x77881122 \<and> alc_toi pkt = 7 \<and>
     unat (alc_tsi pkt) < 2 ^ 32 \<and> codepoint (alc_lct_header pkt) = 0"
proof -
  let ?mem = "[0x10, 0x90, 4, 0, 0, 0, 0, 0, 0x11, 0x22, 0x55, 0x66, 0x77, 0x88, 0, 7]"
  have "lct_header_of (take 4 ?mem) =
      \<lparr>version = 1, congestion_control_flag = 0, source_packet_indicator = 0, close_object_flag = 0,
       close_session_flag = 0, half_word_flag = 1, toi_flag = 0, tsi_flag = 1, lct_header_len = 4,
       codepoint = 0\<rparr>"
    by (simp add: lct_header_of_def)
  moreover have "read16 ?mem 8 = Inr 0x1122" "read32 ?mem 10 = Inr 0x55667788" "read16 ?mem 14 = Inr 7"
    by (simp_all add: read16_def read32_def read_bytes_def be16_dec_def be32_dec_def)
  ultimately obtain pkt where pkt: "alc_parse ?mem 16 = Some (Inr pkt)" "alc_tsi pkt = 0x77881122"
    "alc_toi pkt = 7"
    by (simp add: alc_parse_def parse_fixed_def read_bytes_def parse_tsi_def parse_toi_def parse_ext.simps)
  then show ?thesis using alc_parse_accepts [OF pkt(1)] by blast
qed

lemma alc_parse_error:
  assumes "alc_parse mem len = Some (Inl e)"
  shows "\<not> caught_as_std_exception e"
proof (cases "parse_fixed mem len")
  case (Inl e')
  with assms parse_fixed_error [OF this] show ?thesis by (simp add: alc_parse_def)
next
  case (Inr f)
  with assms obtain pkt p n where "parse_ext mem p n pkt = Some (Inl e)"
    by (cases f) (auto simp: alc_parse_def)
  from parse_ext_keeps [OF this] show ?thesis by (simp add: parse_ext_result_def)
qed

text \<open>Whatever makes the parser fail, no handler for \<^verbatim>\<open>std::exception\<close> catches it: it throws
  string literals.\<close>
theorem alc_parse_error_uncaught:
  assumes "alc_parse mem len = Some (Inl e)"
  shows "\<not> caught_as_std_exception e"
  using assms by (rule alc_parse_error)

theorem alc_parse_error_uncaught_witness:
  "alc_parse [0x20, 0x10, 3, 0] 4 = Some (Inl (CStr ''Unsupported LCT version'')) \<and>
   \<not> caught_as_std_exception (CStr ''Unsupported LCT version'')"
proof -
  have "alc_parse [0x20, 0x10, 3, 0] 4 = Some (Inl (CStr ''Unsupported LCT version''))"
    by (simp add: alc_parse_def parse_fixed_def read_bytes_def lct_header_of_def)
  with alc_parse_error_uncaught [OF this] show ?thesis by blast
qed

end
