(* ===== verification/File_Delivery_Table.thy ===== *)
theory File_Delivery_Table
  imports Flute_Types Ordered_Map C_Numbers "HOL-Library.List_Lexorder" "HOL-Library.Char_ord"
begin

text \<open>
  \<^verbatim>\<open>src/FileDeliveryTable.cpp\<close>: the file delivery table (FDT), its XML form and its instance
  identifiers. The XML library (tinyxml2) is not part of the sources: parsing text into a document
  and printing a document are parameters (\<open>xml_parse\<close>, \<open>xml_print\<close>) of the definitions that use them.
  The document itself is what the code sees of it: for an element its name, its attributes in
  order, its text (what \<^verbatim>\<open>GetText\<close> returns, \<open>None\<close> for a null pointer) and its child elements.
\<close>

datatype xml = Element (xml_name: string) (xml_attrs: "(string \<times> string) list")
  (xml_text: "string option") (xml_children: "xml list")

section \<open>Namespaces\<close>

record xml_namespaces =
  default_ns :: string
  prefix_to_ns_map :: "(string, string) omap"

definition no_namespaces :: xml_namespaces where
  "no_namespaces = \<lparr>default_ns = '''', prefix_to_ns_map = []\<rparr>"

text \<open>The declarations of one element on top of those of its parent. \<^verbatim>\<open>std::map::insert\<close> leaves a
  prefix that is already there as it is.\<close>

definition declare_ns :: "xml_namespaces \<Rightarrow> string \<times> string \<Rightarrow> xml_namespaces" where
  "declare_ns nss attr =
     (if fst attr = ''xmlns'' then nss\<lparr>default_ns := snd attr\<rparr>
      else if take 6 (fst attr) = ''xmlns:''
      then nss\<lparr>prefix_to_ns_map := om_insert (drop 6 (fst attr)) (snd attr) (prefix_to_ns_map nss)\<rparr>
      else nss)"

definition element_namespaces :: "xml \<Rightarrow> xml_namespaces \<Rightarrow> xml_namespaces" where
  "element_namespaces e parent_ns = foldl declare_ns parent_ns (xml_attrs e)"

text \<open>\<^verbatim>\<open>find_first_of(':')\<close> and the two parts of the name.\<close>

definition split_prefix :: "string \<Rightarrow> (string \<times> string) option" where
  "split_prefix s =
     (if CHR '':'' \<in> set s
      then Some (takeWhile (\<lambda>c. c \<noteq> CHR '':'') s, drop 1 (dropWhile (\<lambda>c. c \<noteq> CHR '':'') s))
      else None)"

definition matches :: "xml_namespaces \<Rightarrow> string \<Rightarrow> string \<Rightarrow> string \<Rightarrow> bool" where
  "matches nss prefixed_name name ns =
     (let (match_ns, match_name) =
            (case split_prefix prefixed_name of
               None \<Rightarrow> (default_ns nss, prefixed_name)
             | Some (prefix, rest) \<Rightarrow>
                 (case om_get (prefix_to_ns_map nss) prefix of
                    Some uri \<Rightarrow> (uri, rest)
                  | None \<Rightarrow> (prefix, rest)))
      in name = match_name \<and> ns = match_ns)"

definition element_namespace :: "xml_namespaces \<Rightarrow> xml \<Rightarrow> string" where
  "element_namespace nss e =
     (case split_prefix (xml_name e) of
        None \<Rightarrow> default_ns nss
      | Some (prefix, _) \<Rightarrow>
          (case om_get (prefix_to_ns_map nss) prefix of
             Some uri \<Rightarrow> uri
           | None \<Rightarrow> ''<Unknown>''))"

text \<open>A pointer to a child element is the list of the elements from it on to its last sibling; the
  null pointer is the empty list.\<close>

fun find_from :: "xml_namespaces \<Rightarrow> xml list \<Rightarrow> string \<Rightarrow> string \<Rightarrow> xml list" where
  "find_from nss [] name ns = []"
| "find_from nss (e # es) name ns =
     (if matches (element_namespaces e nss) (xml_name e) name ns then e # es
      else find_from nss es name ns)"

definition find_sibling_element :: "xml_namespaces \<Rightarrow> xml list \<Rightarrow> string \<Rightarrow> string \<Rightarrow> xml list" where
  "find_sibling_element nss p name ns = (case p of [] \<Rightarrow> [] | _ # es \<Rightarrow> find_from nss es name ns)"

definition find_child_element :: "xml_namespaces \<Rightarrow> xml \<Rightarrow> string \<Rightarrow> string \<Rightarrow> xml list" where
  "find_child_element nss e name ns =
     (case xml_children e of
        [] \<Rightarrow> []
      | c # cs \<Rightarrow>
          if matches (element_namespaces c nss) (xml_name c) name ns then c # cs
          else find_sibling_element nss (c # cs) name ns)"

definition find_attribute :: "xml_namespaces \<Rightarrow> xml \<Rightarrow> string \<Rightarrow> string \<Rightarrow> string option" where
  "find_attribute nss e name ns =
     (let attr_ns = nss\<lparr>default_ns := element_namespace nss e\<rparr>
      in map_option snd (find (\<lambda>attr. matches attr_ns (fst attr) name ns) (xml_attrs e)))"

section \<open>The table\<close>

datatype fdt_namespace = FDT_NS_NONE | FDT_NS_RFC3926 | FDT_NS_DRAFT_2005 | FDT_NS_3GPP_CONSOLIDATED_V2

record cache_control =
  no_cache :: bool
  cache_expires :: "u64 option"

record file_entry =
  fe_toi :: u32
  content_location :: string
  content_length :: u32
  content_md5 :: string
  content_type :: string
  fe_expires :: u64
  fe_fec_oti :: fec_oti
  fe_cache_control :: cache_control
  fe_content_encoding :: string
  etag :: string

definition file_entry_eq :: "file_entry \<Rightarrow> file_entry \<Rightarrow> bool" where
  "file_entry_eq a b \<longleftrightarrow>
     fe_toi a = fe_toi b \<and> content_length a = content_length b \<and> fe_expires a = fe_expires b \<and>
     no_cache (fe_cache_control a) = no_cache (fe_cache_control b) \<and>
     fec_oti_eq (fe_fec_oti a) (fe_fec_oti b) \<and>
     cache_expires (fe_cache_control a) = cache_expires (fe_cache_control b) \<and>
     content_location a = content_location b \<and> content_md5 a = content_md5 b \<and>
     content_type a = content_type b \<and> fe_content_encoding a = fe_content_encoding b \<and>
     etag a = etag b"

record fdt =
  instance_id :: u32
  instance_id_sent :: u32
  fdt_file_entries :: "file_entry list"
  global_fec_oti :: fec_oti
  fdt_expires :: u64
  fdt_ns :: fdt_namespace

text \<open>The constructor does not initialise \<^verbatim>\<open>_expires\<close>: \<open>uninit\<close> is what the memory holds.\<close>

definition fdt_new :: "u32 \<Rightarrow> fec_oti \<Rightarrow> fdt_namespace \<Rightarrow> u64 \<Rightarrow> fdt" where
  "fdt_new inst oti ns uninit =
     \<lparr>instance_id = inst, instance_id_sent = inst - 1, fdt_file_entries = [], global_fec_oti = oti,
      fdt_expires = uninit, fdt_ns = ns\<rparr>"

definition fdt_set_expires :: "u64 \<Rightarrow> fdt \<Rightarrow> fdt" where
  "fdt_set_expires e t = t\<lparr>fdt_expires := e\<rparr>"

definition fdt_bump :: "fdt \<Rightarrow> fdt" where
  "fdt_bump t = (if instance_id t = instance_id_sent t then t\<lparr>instance_id := instance_id t + 1\<rparr> else t)"

definition fdt_add :: "file_entry \<Rightarrow> fdt \<Rightarrow> fdt" where
  "fdt_add fe t = (let t' = fdt_bump t in t'\<lparr>fdt_file_entries := fdt_file_entries t' @ [fe]\<rparr>)"

definition fdt_remove :: "u32 \<Rightarrow> fdt \<Rightarrow> fdt" where
  "fdt_remove toi t =
     fdt_bump (t\<lparr>fdt_file_entries := filter (\<lambda>fe. fe_toi fe \<noteq> toi) (fdt_file_entries t)\<rparr>)"

definition fdt_sent :: "fdt \<Rightarrow> fdt" where
  "fdt_sent t = t\<lparr>instance_id_sent := instance_id t\<rparr>"

section \<open>Writing\<close>

definition mbms2007_ns :: string where "mbms2007_ns = ''urn:3GPP:metadata:2007:MBMS:FLUTE:FDT''"

definition mbms2012_ns :: string where "mbms2012_ns = ''urn:3GPP:metadata:2012:MBMS:FLUTE:FDT''"

definition ns_attribute :: "fdt_namespace \<Rightarrow> (string \<times> string) list" where
  "ns_attribute ns =
     (case ns of
        FDT_NS_RFC3926 \<Rightarrow> [(''xmlns'', ''http://www.example.com/flute'')]
      | FDT_NS_DRAFT_2005 \<Rightarrow> [(''xmlns'', ''urn:IETF:metadata:2005:FLUTE:FDT'')]
      | FDT_NS_3GPP_CONSOLIDATED_V2 \<Rightarrow> [(''xmlns'', ''urn:3GPP:metadata:2022:FLUTE:FDT'')]
      | _ \<Rightarrow> [])"

text \<open>\<^verbatim>\<open>c_str()\<close> handed to a function that reads up to the terminating zero.\<close>

definition c_str :: "string \<Rightarrow> string" where
  "c_str s = takeWhile (\<lambda>c. c \<noteq> CHR 0x00) s"

abbreviation dec32 :: "u32 \<Rightarrow> string" where
  "dec32 w \<equiv> dec_string (unat w)"

abbreviation (input) attr_if :: "bool \<Rightarrow> string \<Rightarrow> string \<Rightarrow> (string \<times> string) list" where
  "attr_if b name val \<equiv> if b then [(name, val)] else []"

definition file_attributes :: "fec_oti \<Rightarrow> file_entry \<Rightarrow> (string \<times> string) list" where
  "file_attributes global file =
     (let oti = fe_fec_oti file in
      [(''TOI'', dec32 (fe_toi file)),
       (''Content-Location'', c_str (content_location file)),
       (''Content-Length'', dec32 (content_length file))] @
      attr_if (transfer_length oti \<noteq> 0) ''Transfer-Length'' (dec_string (unat (transfer_length oti))) @
      attr_if (content_md5 file \<noteq> []) ''Content-MD5'' (c_str (content_md5 file)) @
      attr_if (fe_content_encoding file \<noteq> []) ''Content-Encoding'' (c_str (fe_content_encoding file)) @
      attr_if (content_type file \<noteq> []) ''Content-Type'' (c_str (content_type file)) @
      attr_if (encoding_id oti \<noteq> encoding_id global) ''FEC-OTI-FEC-Encoding-ID'' (dec32 (encoding_id oti)) @
      attr_if (oti_instance_id oti \<noteq> 0 \<and> oti_instance_id oti \<noteq> oti_instance_id global)
        ''FEC-OTI-FEC-Instance-ID'' (dec32 (oti_instance_id oti)) @
      attr_if (max_source_block_length oti \<noteq> 0 \<and>
               max_source_block_length oti \<noteq> max_source_block_length global)
        ''FEC-OTI-Maximum-Source-Block-Length'' (dec32 (max_source_block_length oti)) @
      attr_if (encoding_symbol_length oti \<noteq> 0 \<and>
               encoding_symbol_length oti \<noteq> encoding_symbol_length global)
        ''FEC-OTI-Encoding-Symbol-Length'' (dec32 (encoding_symbol_length oti)) @
      attr_if (etag file \<noteq> []) ''mbms2012:File-ETag'' (c_str (etag file)))"

definition cache_control_elements :: "file_entry \<Rightarrow> xml list" where
  "cache_control_elements file =
     (if no_cache (fe_cache_control file) \<or> cache_expires (fe_cache_control file) \<noteq> None
      then [Element ''mbms2007:Cache-Control'' [] None
             [if no_cache (fe_cache_control file)
              then Element ''mbms2007:no-cache'' [] (Some ''true'') []
              else Element ''mbms2007:Expires'' [] (Some (std_to_string (fe_expires file))) []]]
      else [])"

definition file_element :: "fec_oti \<Rightarrow> file_entry \<Rightarrow> xml" where
  "file_element global file =
     Element ''File'' (file_attributes global file) None (cache_control_elements file)"

definition root_attributes :: "fdt \<Rightarrow> (string \<times> string) list" where
  "root_attributes t =
     (let global = global_fec_oti t in
      ns_attribute (fdt_ns t) @
      [(''Expires'', std_to_string (fdt_expires t)),
       (''FEC-OTI-FEC-Encoding-ID'', dec32 (encoding_id global))] @
      attr_if (oti_instance_id global \<noteq> 0) ''FEC-OTI-FEC-Instance-ID'' (dec32 (oti_instance_id global)) @
      [(''FEC-OTI-Maximum-Source-Block-Length'', dec32 (max_source_block_length global)),
       (''FEC-OTI-Encoding-Symbol-Length'', dec32 (encoding_symbol_length global)),
       (''xmlns:mbms2007'', mbms2007_ns),
       (''xmlns:mbms2012'', mbms2012_ns)])"

definition fdt_root :: "fdt \<Rightarrow> xml" where
  "fdt_root t =
     Element ''FDT-Instance'' (root_attributes t) None
       (map (file_element (global_fec_oti t)) (fdt_file_entries t))"

definition fdt_to_string :: "(xml \<Rightarrow> byte list) \<Rightarrow> fdt \<Rightarrow> byte list" where
  "fdt_to_string xml_print t = xml_print (fdt_root t)"

section \<open>Reading\<close>

text \<open>\<^verbatim>\<open>strtoul(..., nullptr, 0)\<close> stored in a 32-bit member when the attribute is there.\<close>

definition attr32 :: "string option \<Rightarrow> u32 \<Rightarrow> u32" where
  "attr32 val dflt = (case val of None \<Rightarrow> dflt | Some s \<Rightarrow> ucast (c_strtoull s))"

definition attr_str :: "string option \<Rightarrow> string" where
  "attr_str val = (case val of None \<Rightarrow> '''' | Some s \<Rightarrow> s)"

definition parse_cache_control :: "xml_namespaces \<Rightarrow> xml \<Rightarrow> cache_control result" where
  "parse_cache_control file_ns file =
     (case find_child_element file_ns file ''Cache-Control'' mbms2007_ns of
        [] \<Rightarrow> Inr \<lparr>no_cache = False, cache_expires = None\<rparr>
      | cc # _ \<Rightarrow>
          let cc_ns = element_namespaces cc file_ns;
              nc = (find_child_element cc_ns cc ''no-cache'' mbms2007_ns \<noteq> [])
          in (case find_child_element cc_ns cc ''Expires'' mbms2007_ns of
                [] \<Rightarrow> Inr \<lparr>no_cache = nc, cache_expires = None\<rparr>
              | e # _ \<Rightarrow>
                  (case xml_text e of
                     None \<Rightarrow> Inl (Undefined ''strtoul of a null pointer'')
                   | Some s \<Rightarrow> Inr \<lparr>no_cache = nc, cache_expires = Some (c_strtoull s)\<rparr>)))"

definition parse_file :: "xml_namespaces \<Rightarrow> string \<Rightarrow> fec_oti \<Rightarrow> xml \<Rightarrow> file_entry result" where
  "parse_file root_ns ns global file =
     (let file_ns = element_namespaces file root_ns;
          attr = (\<lambda>name. find_attribute file_ns file name ns)
      in case attr ''TOI'' of
           None \<Rightarrow> Inl (CStr ''Missing TOI attribute on File element'')
         | Some toi \<Rightarrow>
             (case attr ''Content-Location'' of
                None \<Rightarrow> Inl (CStr ''Missing Content-Location attribute on File element'')
              | Some location \<Rightarrow>
                  let len = attr32 (attr ''Content-Length'') 0;
                      transfer = attr32 (attr ''Transfer-Length'') len
                  in rbind (parse_cache_control file_ns file) (\<lambda>cc.
                     Inr \<lparr>fe_toi = ucast (c_strtoull toi),
                          content_location = location,
                          content_length = len,
                          content_md5 = attr_str (attr ''Content-MD5''),
                          content_type = attr_str (attr ''Content-Type''),
                          fe_expires = (case cache_expires cc of None \<Rightarrow> 0 | Some e \<Rightarrow> e),
                          fe_fec_oti =
                            \<lparr>encoding_id = attr32 (attr ''FEC-OTI-FEC-Encoding-ID'') (encoding_id global),
                             oti_instance_id = attr32 (attr ''FEC-OTI-FEC-Instance-ID'') (oti_instance_id global),
                             transfer_length = ucast transfer,
                             encoding_symbol_length =
                               attr32 (attr ''FEC-OTI-Encoding-Symbol-Length'') (encoding_symbol_length global),
                             max_source_block_length =
                               attr32 (attr ''FEC-OTI-Maximum-Source-Block-Length'') (max_source_block_length global),
                             max_number_of_encoding_symbols =
                               attr32 (attr ''FEC-OTI-Max-Number-of-Encoding-Symbols'')
                                 (max_number_of_encoding_symbols global)\<rparr>,
                          fe_cache_control = cc,
                          fe_content_encoding = attr_str (attr ''Content-Encoding''),
                          etag = attr_str (find_attribute file_ns file ''File-ETag'' mbms2012_ns)\<rparr>)))"

lemma find_from_length: "length (find_from nss es name ns) \<le> length es"
  by (induction nss es name ns rule: find_from.induct) auto

text \<open>The loop over the \<^verbatim>\<open>File\<close> elements, from a pointer to the first.\<close>

function parse_files :: "xml_namespaces \<Rightarrow> string \<Rightarrow> fec_oti \<Rightarrow> xml list \<Rightarrow> file_entry list result" where
  "parse_files root_ns ns global [] = Inr []"
| "parse_files root_ns ns global (file # siblings) =
     rbind (parse_file root_ns ns global file) (\<lambda>fe.
     rbind (parse_files root_ns ns global (find_sibling_element root_ns (file # siblings) ''File'' ns)) (\<lambda>fes.
     Inr (fe # fes)))"
  by pat_completeness auto

termination
  by (relation "measure (\<lambda>(_, _, _, p). length p)")
    (auto simp: find_sibling_element_def find_from_length less_Suc_eq_le)

definition fdt_namespace_of :: "string \<Rightarrow> fdt_namespace option" where
  "fdt_namespace_of ns =
     (if ns = '''' then Some FDT_NS_NONE
      else if ns = ''http://www.example.com/flute'' then Some FDT_NS_RFC3926
      else if ns = ''urn:IETF:metadata:2005:FLUTE:FDT'' then Some FDT_NS_DRAFT_2005
      else if ns = ''urn:3GPP:metadata:2022:FLUTE:FDT'' then Some FDT_NS_3GPP_CONSOLIDATED_V2
      else None)"

text \<open>The parsing constructor, from the root element on (\<open>None\<close>: the document has none, which is what
  the library reports for text that is not well formed).\<close>

definition fdt_of_root :: "u32 \<Rightarrow> xml option \<Rightarrow> fdt result" where
  "fdt_of_root inst root_element =
     (case root_element of
        None \<Rightarrow> Inl (Undefined ''name of a null element'')
      | Some root \<Rightarrow>
          let root_ns = element_namespaces root no_namespaces;
              ns = element_namespace root_ns root;
              attr = (\<lambda>name. find_attribute root_ns root name ns)
          in if \<not> matches root_ns (xml_name root) ''FDT-Instance'' ns
             then Inl (CStr ''Root element is not FDT-Instance'')
             else
               (case fdt_namespace_of ns of
                  None \<Rightarrow> Inl (CStr ''FDT namespace not recognised'')
                | Some nsv \<Rightarrow>
                    (case attr ''Expires'' of
                       None \<Rightarrow> Inl (Undefined ''value of a null attribute'')
                     | Some expires_str \<Rightarrow>
                         rbind (std_stoull expires_str) (\<lambda>expires.
                         let global =
                               \<lparr>encoding_id = attr32 (attr ''FEC-OTI-FEC-Encoding-ID'') 0,
                                oti_instance_id = attr32 (attr ''FEC-OTI-FEC-Instance-ID'') 0,
                                transfer_length = 0,
                                encoding_symbol_length = attr32 (attr ''FEC-OTI-Encoding-Symbol-Length'') 0,
                                max_source_block_length =
                                  attr32 (attr ''FEC-OTI-Maximum-Source-Block-Length'') 0,
                                max_number_of_encoding_symbols =
                                  attr32 (attr ''FEC-OTI-Max-Number-of-Encoding-Symbols'') 0\<rparr>
                         in rbind (parse_files root_ns ns global
                                     (find_child_element root_ns root ''File'' ns)) (\<lambda>fes.
                            Inr \<lparr>instance_id = inst, instance_id_sent = inst - 1,
                                 fdt_file_entries = fes, global_fec_oti = global,
                                 fdt_expires = expires, fdt_ns = nsv\<rparr>)))))"

definition fdt_parse :: "(byte list \<Rightarrow> xml option) \<Rightarrow> u32 \<Rightarrow> byte list \<Rightarrow> fdt result" where
  "fdt_parse xml_parse inst buffer = fdt_of_root inst (xml_parse buffer)"

section \<open>Instance identifiers\<close>

datatype fdt_op = Add file_entry | Remove u32 | Set_Expires u64 | Sent

fun fdt_apply :: "fdt_op \<Rightarrow> fdt \<Rightarrow> fdt" where
  "fdt_apply (Add fe) t = fdt_add fe t"
| "fdt_apply (Remove toi) t = fdt_remove toi t"
| "fdt_apply (Set_Expires e) t = fdt_set_expires e t"
| "fdt_apply Sent t = fdt_sent t"

definition fdt_run :: "fdt_op list \<Rightarrow> fdt \<Rightarrow> fdt" where
  "fdt_run ops t = foldl (\<lambda>t op. fdt_apply op t) t ops"

fun changes_entries :: "fdt_op \<Rightarrow> bool" where
  "changes_entries (Add _) = True"
| "changes_entries (Remove _) = True"
| "changes_entries _ = False"

lemmas fdt_op_defs = fdt_add_def fdt_remove_def fdt_bump_def fdt_set_expires_def fdt_sent_def Let_def

lemma fdt_apply_pending:
  "op \<noteq> Sent \<Longrightarrow> instance_id_sent (fdt_apply op t) = instance_id_sent t"
  by (cases op) (auto simp: fdt_op_defs)

lemma fdt_apply_fresh:
  "instance_id t \<noteq> instance_id_sent t \<Longrightarrow> op \<noteq> Sent \<Longrightarrow> instance_id (fdt_apply op t) = instance_id t"
  by (cases op) (auto simp: fdt_op_defs)

lemma fdt_run_simps [simp]: "fdt_run [] t = t" "fdt_run (op # ops) t = fdt_run ops (fdt_apply op t)"
  by (simp_all add: fdt_run_def)

lemma fdt_run_fresh:
  "Sent \<notin> set ops \<Longrightarrow> instance_id t \<noteq> instance_id_sent t \<Longrightarrow>
     instance_id (fdt_run ops t) = instance_id t \<and> instance_id_sent (fdt_run ops t) = instance_id_sent t"
proof (induction ops arbitrary: t)
  case (Cons op ops)
  then have "instance_id (fdt_apply op t) \<noteq> instance_id_sent (fdt_apply op t)"
    using fdt_apply_fresh [of t op] fdt_apply_pending [of op t] by auto
  with Cons fdt_apply_fresh [of t op] fdt_apply_pending [of op t] show ?case by auto
qed simp

lemma fdt_apply_entries:
  "\<not> changes_entries op \<Longrightarrow> fdt_file_entries (fdt_apply op t) = fdt_file_entries t"
  by (cases op) (simp_all add: fdt_op_defs)

text \<open>(C21) Between two sendings of the table its instance identifier moves on by one if an entry was
  added or removed, however many, and stays if none was; while it stays, the entries are those sent.
  So no two consecutively sent tables with different entries share an identifier. Setting the expiry
  time alone does not change the identifier.\<close>
theorem fdt_instance_per_change:
  assumes "Sent \<notin> set ops"
  shows "instance_id (fdt_run ops (fdt_sent t)) =
      (if \<exists>op \<in> set ops. changes_entries op then instance_id t + 1 else instance_id t) \<and>
    instance_id_sent (fdt_run ops (fdt_sent t)) = instance_id t \<and>
    (instance_id (fdt_run ops (fdt_sent t)) = instance_id t \<longrightarrow>
      fdt_file_entries (fdt_run ops (fdt_sent t)) = fdt_file_entries t)"
proof -
  have "instance_id (fdt_run ops t) =
      (if \<exists>op \<in> set ops. changes_entries op then instance_id t + 1 else instance_id t) \<and>
    instance_id_sent (fdt_run ops t) = instance_id_sent t \<and>
    (instance_id (fdt_run ops t) = instance_id t \<longrightarrow>
      fdt_file_entries (fdt_run ops t) = fdt_file_entries t)"
    if "instance_id t = instance_id_sent t" for t
    using assms that
  proof (induction ops arbitrary: t)
    case (Cons op ops)
    show ?case
    proof (cases "changes_entries op")
      case False
      then have "instance_id (fdt_apply op t) = instance_id t"
        "instance_id_sent (fdt_apply op t) = instance_id_sent t"
        using Cons.prems by (cases op; simp add: fdt_op_defs)+
      with Cons False fdt_apply_entries [OF False] show ?thesis by simp
    next
      case True
      then have "instance_id (fdt_apply op t) = instance_id t + 1"
        "instance_id_sent (fdt_apply op t) = instance_id_sent t"
        using Cons.prems by (cases op; simp add: fdt_op_defs)+
      with fdt_run_fresh [of ops "fdt_apply op t"] Cons.prems True show ?thesis by simp
    qed
  qed simp
  from this [of "fdt_sent t"] show ?thesis by (simp add: fdt_sent_def)
qed

definition example_entry :: file_entry where
  "example_entry =
     \<lparr>fe_toi = 1, content_location = ''a.mpd'', content_length = 5, content_md5 = '''',
      content_type = ''text/plain'', fe_expires = 0,
      fe_fec_oti = fec_oti_zero\<lparr>transfer_length := 5, encoding_symbol_length := 1400,
        max_source_block_length := 64\<rparr>,
      fe_cache_control = \<lparr>no_cache = False, cache_expires = None\<rparr>, fe_content_encoding = '''', etag = ''''\<rparr>"

definition example_fdt :: fdt where
  "example_fdt = (fdt_new 7 (fec_oti_zero\<lparr>encoding_symbol_length := 1400, max_source_block_length := 64\<rparr>)
     FDT_NS_DRAFT_2005 0)\<lparr>fdt_file_entries := [example_entry]\<rparr>"

theorem fdt_instance_per_change_witness:
  "instance_id (fdt_run [Set_Expires 9, Remove 1, Add example_entry] (fdt_sent example_fdt)) = 8"
  using fdt_instance_per_change [of "[Set_Expires 9, Remove 1, Add example_entry]" example_fdt]
  by (simp add: example_fdt_def fdt_new_def)

section \<open>Reading what was written\<close>

lemma matches_plain:
  "CHR '':'' \<notin> set n \<Longrightarrow> matches nss n name ns \<longleftrightarrow> name = n \<and> ns = default_ns nss"
  by (simp add: matches_def split_prefix_def)

lemma find_append: "find P (xs @ ys) = (case find P xs of None \<Rightarrow> find P ys | Some x \<Rightarrow> Some x)"
  by (induction xs) auto

definition uri_of :: "fdt_namespace \<Rightarrow> string" where
  "uri_of ns = (case ns_attribute ns of [] \<Rightarrow> '''' | (_, uri) # _ \<Rightarrow> uri)"

lemma fdt_namespace_of_uri: "fdt_namespace_of (uri_of ns) = Some ns"
  by (cases ns) (simp_all add: uri_of_def ns_attribute_def fdt_namespace_of_def)

definition sent_namespaces :: "fdt_namespace \<Rightarrow> xml_namespaces" where
  "sent_namespaces ns =
     \<lparr>default_ns = uri_of ns,
      prefix_to_ns_map = [(''mbms2007'', mbms2007_ns), (''mbms2012'', mbms2012_ns)]\<rparr>"

lemma mbms_prefix_order: "\<not> ''mbms2012'' < ''mbms2007''" "''mbms2007'' < ''mbms2012''"
  by (simp_all add: Cons_less_Cons less_char_def)

lemma declare_plain:
  "n \<noteq> ''xmlns'' \<Longrightarrow> take 6 n \<noteq> ''xmlns:'' \<Longrightarrow> declare_ns nss (n, v) = nss"
  by (simp add: declare_ns_def)

lemma root_namespaces:
  "element_namespaces (fdt_root t) no_namespaces = sent_namespaces (fdt_ns t)"
proof -
  have ns: "foldl declare_ns no_namespaces (ns_attribute ns) = no_namespaces\<lparr>default_ns := uri_of ns\<rparr>" for ns
    by (cases ns) (simp_all add: ns_attribute_def declare_ns_def no_namespaces_def uri_of_def)
  show ?thesis
    by (simp add: element_namespaces_def fdt_root_def root_attributes_def Let_def ns declare_plain)
      (simp add: declare_ns_def no_namespaces_def sent_namespaces_def om_insert_def mbms_prefix_order)
qed

lemma file_namespaces:
  "element_namespaces (file_element global e) nss = nss"
  by (simp add: element_namespaces_def file_element_def file_attributes_def Let_def declare_plain)

text \<open>Attributes without a prefix belong to the namespace of their element.\<close>

lemma find_attribute_plain:
  assumes "CHR '':'' \<notin> set (xml_name e)" and "CHR '':'' \<notin> set name"
    and "\<forall>(n, v) \<in> set (xml_attrs e). CHR '':'' \<in> set n \<longrightarrow> \<not> matches nss n name (default_ns nss)"
  shows "find_attribute nss e name (default_ns nss) = map_of (xml_attrs e) name"
proof -
  have d: "element_namespace nss e = default_ns nss"
    using assms(1) by (simp add: element_namespace_def split_prefix_def)
  have same: "nss\<lparr>default_ns := default_ns nss\<rparr> = nss" by simp
  have "map_option snd (find (\<lambda>attr. matches nss (fst attr) name (default_ns nss)) attrs) = map_of attrs name"
    if "\<forall>(n, v) \<in> set attrs. CHR '':'' \<in> set n \<longrightarrow> \<not> matches nss n name (default_ns nss)" for attrs
    using that
  proof (induction attrs)
    case (Cons a attrs)
    obtain n v where a: "a = (n, v)" by (cases a)
    show ?case
    proof (cases "CHR '':'' \<in> set n")
      case True
      with assms(2) have "n \<noteq> name" by auto
      with Cons True a show ?thesis by simp
    next
      case False
      with Cons a show ?thesis by (simp add: matches_plain)
    qed
  qed simp
  with assms(3) show ?thesis
    by (simp add: find_attribute_def d same)
qed

lemma map_of_split: "map_of (xs @ ys) n = (case map_of xs n of None \<Rightarrow> map_of ys n | Some v \<Rightarrow> Some v)"
  by (simp add: map_add_def split: option.split)

lemma attr_if_simps:
  "map_of (if b then [(n, v)] else []) m = (if b \<and> m = n then Some v else None)"
  "find P (if b then [x] else []) = (if b \<and> P x then Some x else None)"
  by auto

lemma ucast_down_up: "ucast (ucast (w :: u32) :: u64) = w"
  by (rule bit_word_eqI) (simp add: bit_simps)

lemma attr32_dec [simp]: "attr32 (Some (dec32 w)) d = w" "attr32 None d = d"
proof -
  have "unat w < 2 ^ 64" using u32_bound [of w] by simp
  then show "attr32 (Some (dec32 w)) d = w"
    by (simp add: attr32_def strtoull_dec_string ucast_down_up)
qed (simp add: attr32_def)

definition opt_str :: "string \<Rightarrow> string option" where
  "opt_str s = (if s = [] then None else Some (c_str s))"

lemma attr_str_opt [simp]: "attr_str (opt_str s) = c_str s"
  by (simp add: attr_str_def opt_str_def c_str_def)

lemma file_lookup:
  fixes e global
  defines "oti \<equiv> fe_fec_oti e"
  shows
    "map_of (file_attributes global e) ''TOI'' = Some (dec32 (fe_toi e))"
    "map_of (file_attributes global e) ''Content-Location'' = Some (c_str (content_location e))"
    "map_of (file_attributes global e) ''Content-Length'' = Some (dec32 (content_length e))"
    "map_of (file_attributes global e) ''Transfer-Length'' =
       (if transfer_length oti = 0 then None else Some (dec_string (unat (transfer_length oti))))"
    "map_of (file_attributes global e) ''Content-MD5'' = opt_str (content_md5 e)"
    "map_of (file_attributes global e) ''Content-Encoding'' = opt_str (fe_content_encoding e)"
    "map_of (file_attributes global e) ''Content-Type'' = opt_str (content_type e)"
    "map_of (file_attributes global e) ''FEC-OTI-FEC-Encoding-ID'' =
       (if encoding_id oti = encoding_id global then None else Some (dec32 (encoding_id oti)))"
    "map_of (file_attributes global e) ''FEC-OTI-FEC-Instance-ID'' =
       (if oti_instance_id oti = 0 \<or> oti_instance_id oti = oti_instance_id global then None
        else Some (dec32 (oti_instance_id oti)))"
    "map_of (file_attributes global e) ''FEC-OTI-Maximum-Source-Block-Length'' =
       (if max_source_block_length oti = 0 \<or>
           max_source_block_length oti = max_source_block_length global then None
        else Some (dec32 (max_source_block_length oti)))"
    "map_of (file_attributes global e) ''FEC-OTI-Encoding-Symbol-Length'' =
       (if encoding_symbol_length oti = 0 \<or>
           encoding_symbol_length oti = encoding_symbol_length global then None
        else Some (dec32 (encoding_symbol_length oti)))"
    "map_of (file_attributes global e) ''FEC-OTI-Max-Number-of-Encoding-Symbols'' = None"
  by (simp_all add: oti_def file_attributes_def Let_def map_of_split attr_if_simps opt_str_def
      del: map_of_append)

lemma sent_default [simp]: "default_ns (sent_namespaces ns) = uri_of ns"
  by (simp add: sent_namespaces_def)

lemma uri_not_mbms: "uri_of ns \<noteq> mbms2012_ns" "uri_of ns \<noteq> mbms2007_ns" "uri_of ns \<noteq> ''xmlns''"
  by (cases ns; simp add: uri_of_def ns_attribute_def mbms2012_ns_def mbms2007_ns_def)+

lemma matches_prefixed:
  "matches (sent_namespaces ns) ''mbms2012:File-ETag'' name u \<longleftrightarrow> name = ''File-ETag'' \<and> u = mbms2012_ns"
  "matches (sent_namespaces ns) ''mbms2007:Cache-Control'' name u \<longleftrightarrow>
     name = ''Cache-Control'' \<and> u = mbms2007_ns"
  "matches (sent_namespaces ns) ''mbms2007:no-cache'' name u \<longleftrightarrow> name = ''no-cache'' \<and> u = mbms2007_ns"
  "matches (sent_namespaces ns) ''mbms2007:Expires'' name u \<longleftrightarrow> name = ''Expires'' \<and> u = mbms2007_ns"
  "matches (sent_namespaces ns) ''xmlns:mbms2007'' name u \<longleftrightarrow> name = ''mbms2007'' \<and> u = ''xmlns''"
  "matches (sent_namespaces ns) ''xmlns:mbms2012'' name u \<longleftrightarrow> name = ''mbms2012'' \<and> u = ''xmlns''"
  by (simp_all add: matches_def split_prefix_def sent_namespaces_def)

lemma file_attribute_plain:
  assumes "CHR '':'' \<notin> set name"
  shows "find_attribute (sent_namespaces ns) (file_element global e) name (uri_of ns) =
    map_of (file_attributes global e) name"
proof -
  have attrs: "xml_attrs (file_element global e) = file_attributes global e"
    by (simp add: file_element_def)
  have "find_attribute (sent_namespaces ns) (file_element global e) name
      (default_ns (sent_namespaces ns)) = map_of (xml_attrs (file_element global e)) name"
    using assms
  proof (rule find_attribute_plain [rotated])
    show "CHR '':'' \<notin> set (xml_name (file_element global e))"
      by (simp add: file_element_def)
    show "\<forall>(n, v) \<in> set (xml_attrs (file_element global e)).
        CHR '':'' \<in> set n \<longrightarrow> \<not> matches (sent_namespaces ns) n name (default_ns (sent_namespaces ns))"
      unfolding attrs by (auto simp: file_attributes_def Let_def matches_prefixed uri_not_mbms)
  qed
  then show ?thesis by (simp add: attrs)
qed

lemma file_etag:
  "find_attribute (sent_namespaces ns) (file_element global e) ''File-ETag'' mbms2012_ns = opt_str (etag e)"
proof -
  have same: "sent_namespaces ns\<lparr>default_ns := uri_of ns\<rparr> = sent_namespaces ns"
    by (simp add: sent_namespaces_def)
  have "element_namespace (sent_namespaces ns) (file_element global e) = uri_of ns"
    by (simp add: element_namespace_def split_prefix_def file_element_def)
  then show ?thesis
    by (simp add: find_attribute_def same)
      (simp add: file_element_def file_attributes_def Let_def find_append attr_if_simps matches_plain
        matches_prefixed opt_str_def)
qed

lemma cache_control_found:
  "find_child_element (sent_namespaces ns) (file_element global e) ''Cache-Control'' mbms2007_ns =
     cache_control_elements e"
  by (simp add: find_child_element_def file_element_def cache_control_elements_def matches_prefixed
      element_namespaces_def)

definition received_cache_control :: "file_entry \<Rightarrow> cache_control" where
  "received_cache_control e =
     (if no_cache (fe_cache_control e) then \<lparr>no_cache = True, cache_expires = None\<rparr>
      else \<lparr>no_cache = False,
            cache_expires = (case cache_expires (fe_cache_control e) of
                               None \<Rightarrow> None | Some _ \<Rightarrow> Some (fe_expires e))\<rparr>)"

lemma parse_cache_control_sent:
  "parse_cache_control (sent_namespaces ns) (file_element global e) = Inr (received_cache_control e)"
  unfolding parse_cache_control_def cache_control_found
  by (auto simp: cache_control_elements_def received_cache_control_def find_child_element_def
      find_sibling_element_def matches_prefixed element_namespaces_def Let_def strtoull_to_string
      split: option.split)

definition default32 :: "u32 \<Rightarrow> u32 \<Rightarrow> u32" where
  "default32 w global = (if w = 0 then global else w)"

definition received_entry :: "fec_oti \<Rightarrow> file_entry \<Rightarrow> file_entry" where
  "received_entry global e =
     (let oti = fe_fec_oti e; cc = received_cache_control e in
      \<lparr>fe_toi = fe_toi e, content_location = c_str (content_location e), content_length = content_length e,
       content_md5 = c_str (content_md5 e), content_type = c_str (content_type e),
       fe_expires = (case cache_expires cc of None \<Rightarrow> 0 | Some x \<Rightarrow> x),
       fe_fec_oti =
         \<lparr>encoding_id = encoding_id oti,
          oti_instance_id = default32 (oti_instance_id oti) (oti_instance_id global),
          transfer_length =
            (if transfer_length oti = 0 then ucast (content_length e)
             else transfer_length oti AND 0xFFFFFFFF),
          encoding_symbol_length =
            default32 (encoding_symbol_length oti) (encoding_symbol_length global),
          max_source_block_length =
            default32 (max_source_block_length oti) (max_source_block_length global),
          max_number_of_encoding_symbols = max_number_of_encoding_symbols global\<rparr>,
       fe_cache_control = cc, fe_content_encoding = c_str (fe_content_encoding e), etag = c_str (etag e)\<rparr>)"

lemma ucast_low32: "ucast (ucast (w :: u64) :: u32) = w AND 0xFFFFFFFF"
proof -
  have m: "(0xFFFFFFFF :: u64) = mask 32" by (simp add: mask_numeral)
  show ?thesis unfolding m by (rule bit_word_eqI) (auto simp: bit_simps)
qed

lemma strtoull_dec64: "c_strtoull (dec_string (unat (w :: u64))) = w"
  using strtoull_to_string [of w] by (simp add: std_to_string_def)

lemma strtoull_dec32: "c_strtoull (dec32 w) = ucast w"
proof -
  have "unat w < 2 ^ 64" using u32_bound [of w] by simp
  then show ?thesis by (simp add: strtoull_dec_string)
qed

lemma parse_file_sent:
  "parse_file (sent_namespaces ns) (uri_of ns) global (file_element global' e) =
     Inr (received_entry global e)"
  if g: "encoding_id global = encoding_id global'" "oti_instance_id global = oti_instance_id global'"
    "max_source_block_length global = max_source_block_length global'"
    "encoding_symbol_length global = encoding_symbol_length global'"
proof -
  have low: "(ucast (attr32 (if transfer_length oti = 0 then None
        else Some (dec_string (unat (transfer_length oti)))) len) :: u64) =
      (if transfer_length oti = 0 then ucast len else transfer_length oti AND 0xFFFFFFFF)" for oti len
    by (simp add: attr32_def strtoull_dec64 ucast_low32)
  have d: "attr32 (if w = 0 \<or> w = x then None else Some (dec32 w)) x = default32 w x" for w x
    by (auto simp: default32_def)
  have i: "attr32 (if w = x then None else Some (dec32 w)) x = w" for w x
    by auto
  show ?thesis
    unfolding parse_file_def Let_def file_namespaces
    by (simp add: file_attribute_plain file_lookup parse_cache_control_sent file_etag received_entry_def
        Let_def low d i g strtoull_dec32 ucast_down_up)
qed

lemma parse_files_sent:
  assumes "encoding_id global = encoding_id global'" "oti_instance_id global = oti_instance_id global'"
    "max_source_block_length global = max_source_block_length global'"
    "encoding_symbol_length global = encoding_symbol_length global'"
  shows "parse_files (sent_namespaces ns) (uri_of ns) global (map (file_element global') es) =
    Inr (map (received_entry global) es)"
proof (induction es)
  case (Cons e es)
  have "find_sibling_element (sent_namespaces ns) (map (file_element global') (e # es)) ''File'' (uri_of ns) =
      map (file_element global') es"
  proof (cases es)
    case (Cons e2 es2)
    have "matches (sent_namespaces ns) (xml_name (file_element global' e2)) ''File'' (uri_of ns)"
      by (simp add: file_element_def matches_plain)
    with Cons show ?thesis
      by (simp add: find_sibling_element_def file_namespaces)
  qed (simp add: find_sibling_element_def)
  with Cons.IH show ?case
    by (simp add: parse_file_sent [OF assms])
qed simp

text \<open>The OTI that the receiver takes for the defaults of the table.\<close>

definition received_global :: "fec_oti \<Rightarrow> fec_oti" where
  "received_global oti = oti\<lparr>transfer_length := 0, max_number_of_encoding_symbols := 0\<rparr>"

lemma root_attribute:
  assumes "CHR '':'' \<notin> set name"
  shows "find_attribute (sent_namespaces (fdt_ns t)) (fdt_root t) name (uri_of (fdt_ns t)) =
    map_of (root_attributes t) name"
proof -
  let ?nss = "sent_namespaces (fdt_ns t)"
  have attrs: "xml_attrs (fdt_root t) = root_attributes t"
    by (simp add: fdt_root_def)
  have plain: "\<forall>(n, v) \<in> set (ns_attribute ns). CHR '':'' \<notin> set n" for ns
    by (cases ns) (simp_all add: ns_attribute_def)
  have "find_attribute ?nss (fdt_root t) name (default_ns ?nss) = map_of (xml_attrs (fdt_root t)) name"
    using assms
  proof (rule find_attribute_plain [rotated])
    show "CHR '':'' \<notin> set (xml_name (fdt_root t))"
      by (simp add: fdt_root_def)
    show "\<forall>(n, v) \<in> set (xml_attrs (fdt_root t)). CHR '':'' \<in> set n \<longrightarrow> \<not> matches ?nss n name (default_ns ?nss)"
      unfolding attrs using plain [of "fdt_ns t"]
      by (auto simp: root_attributes_def Let_def matches_prefixed uri_not_mbms)
  qed
  then show ?thesis by (simp add: attrs)
qed

lemma root_lookup:
  fixes t
  defines "oti \<equiv> global_fec_oti t"
  shows
    "map_of (root_attributes t) ''Expires'' = Some (std_to_string (fdt_expires t))"
    "map_of (root_attributes t) ''FEC-OTI-FEC-Encoding-ID'' = Some (dec32 (encoding_id oti))"
    "map_of (root_attributes t) ''FEC-OTI-FEC-Instance-ID'' =
       (if oti_instance_id oti = 0 then None else Some (dec32 (oti_instance_id oti)))"
    "map_of (root_attributes t) ''FEC-OTI-Maximum-Source-Block-Length'' =
       Some (dec32 (max_source_block_length oti))"
    "map_of (root_attributes t) ''FEC-OTI-Encoding-Symbol-Length'' = Some (dec32 (encoding_symbol_length oti))"
    "map_of (root_attributes t) ''FEC-OTI-Max-Number-of-Encoding-Symbols'' = None"
proof -
  have ns: "map_of (ns_attribute ns) n = None" if "n \<noteq> ''xmlns''" for ns n
    using that by (cases ns) (simp_all add: ns_attribute_def)
  show
    "map_of (root_attributes t) ''Expires'' = Some (std_to_string (fdt_expires t))"
    "map_of (root_attributes t) ''FEC-OTI-FEC-Encoding-ID'' = Some (dec32 (encoding_id oti))"
    "map_of (root_attributes t) ''FEC-OTI-FEC-Instance-ID'' =
       (if oti_instance_id oti = 0 then None else Some (dec32 (oti_instance_id oti)))"
    "map_of (root_attributes t) ''FEC-OTI-Maximum-Source-Block-Length'' =
       Some (dec32 (max_source_block_length oti))"
    "map_of (root_attributes t) ''FEC-OTI-Encoding-Symbol-Length'' = Some (dec32 (encoding_symbol_length oti))"
    "map_of (root_attributes t) ''FEC-OTI-Max-Number-of-Encoding-Symbols'' = None"
    by (simp_all add: oti_def root_attributes_def Let_def map_of_split ns attr_if_simps del: map_of_append)
qed

lemma first_file_found:
  "find_child_element (sent_namespaces (fdt_ns t)) (fdt_root t) ''File'' (uri_of (fdt_ns t)) =
     map (file_element (global_fec_oti t)) (fdt_file_entries t)"
proof (cases "fdt_file_entries t")
  case (Cons e es)
  have "matches (sent_namespaces (fdt_ns t)) (xml_name (file_element (global_fec_oti t) e)) ''File'' (uri_of (fdt_ns t))"
    by (simp add: file_element_def matches_plain)
  with Cons show ?thesis
    by (simp add: find_child_element_def fdt_root_def file_namespaces)
qed (simp add: find_child_element_def fdt_root_def)

lemma fdt_of_sent_root:
  "fdt_of_root inst (Some (fdt_root t)) =
     Inr \<lparr>instance_id = inst, instance_id_sent = inst - 1,
          fdt_file_entries = map (received_entry (received_global (global_fec_oti t))) (fdt_file_entries t),
          global_fec_oti = received_global (global_fec_oti t),
          fdt_expires = fdt_expires t, fdt_ns = fdt_ns t\<rparr>"
proof -
  let ?nss = "sent_namespaces (fdt_ns t)"
  have name: "xml_name (fdt_root t) = ''FDT-Instance''" by (simp add: fdt_root_def)
  have ns: "element_namespace ?nss (fdt_root t) = uri_of (fdt_ns t)"
    by (simp add: element_namespace_def split_prefix_def name)
  have m: "matches ?nss ''FDT-Instance'' ''FDT-Instance'' (uri_of (fdt_ns t))"
    by (simp add: matches_plain)
  have zero: "attr32 (if w = 0 then None else Some (dec32 w)) 0 = w" for w
    by simp
  have g: "\<lparr>encoding_id = encoding_id o', oti_instance_id = oti_instance_id o', transfer_length = 0,
      encoding_symbol_length = encoding_symbol_length o',
      max_source_block_length = max_source_block_length o', max_number_of_encoding_symbols = 0\<rparr> =
    received_global o'" for o'
    by (cases o') (simp add: received_global_def)
  have files: "parse_files ?nss (uri_of (fdt_ns t)) (received_global (global_fec_oti t))
      (map (file_element (global_fec_oti t)) (fdt_file_entries t)) =
    Inr (map (received_entry (received_global (global_fec_oti t))) (fdt_file_entries t))"
    by (rule parse_files_sent) (simp_all add: received_global_def)
  show ?thesis
    unfolding fdt_of_root_def option.case Let_def root_namespaces ns name
    by (simp add: m fdt_namespace_of_uri root_attribute root_lookup stoull_to_string zero
        first_file_found files g)
qed

section \<open>Properties of the announcement\<close>

text \<open>An entry the announcement keeps as it is: no string with a zero character, a transfer length
  of 32 bits that is there when the content has bytes, no FEC parameter left at 0 while the table has
  a default for it, no maximum number of encoding symbols (which is not written), and an expiry
  time that is the one of the cache control element.\<close>

definition announced_exactly :: "fec_oti \<Rightarrow> file_entry \<Rightarrow> bool" where
  "announced_exactly global e \<longleftrightarrow>
     CHR 0x00 \<notin> set (content_location e) \<union> set (content_md5 e) \<union> set (content_type e) \<union>
       set (fe_content_encoding e) \<union> set (etag e) \<and>
     unat (transfer_length (fe_fec_oti e)) < 2 ^ 32 \<and>
     (transfer_length (fe_fec_oti e) = 0 \<longrightarrow> content_length e = 0) \<and>
     (oti_instance_id (fe_fec_oti e) = 0 \<longrightarrow> oti_instance_id global = 0) \<and>
     (encoding_symbol_length (fe_fec_oti e) = 0 \<longrightarrow> encoding_symbol_length global = 0) \<and>
     (max_source_block_length (fe_fec_oti e) = 0 \<longrightarrow> max_source_block_length global = 0) \<and>
     max_number_of_encoding_symbols (fe_fec_oti e) = 0 \<and>
     (case cache_expires (fe_cache_control e) of
        None \<Rightarrow> fe_expires e = 0
      | Some x \<Rightarrow> fe_expires e = x \<and> \<not> no_cache (fe_cache_control e))"

lemma c_str_id: "CHR 0x00 \<notin> set s \<Longrightarrow> c_str s = s"
  by (auto simp: c_str_def takeWhile_eq_all_conv)

lemma and_low32_id: "unat (w :: u64) < 2 ^ 32 \<Longrightarrow> w AND 0xFFFFFFFF = w"
proof -
  assume "unat w < 2 ^ 32"
  then have "take_bit 32 w = w"
    by (metis take_bit_nat_eq_self unsigned_take_bit_eq unsigned_word_eqI)
  moreover have "(0xFFFFFFFF :: u64) = mask 32" by (simp add: mask_numeral)
  ultimately show ?thesis by (simp add: take_bit_eq_mask)
qed

lemma received_entry_exact:
  assumes "announced_exactly global e"
  shows "received_entry (received_global global) e = e"
proof -
  obtain cc where cc: "fe_cache_control e = cc" by simp
  have "received_cache_control e = fe_cache_control e"
    using assms cc by (cases cc) (auto simp: received_cache_control_def announced_exactly_def split: option.splits)
  with assms show ?thesis
    by (cases e, cases "fe_fec_oti e")
      (auto simp: received_entry_def announced_exactly_def Let_def c_str_id default32_def
        received_global_def and_low32_id split: option.splits)
qed

text \<open>(C6) A file delivery table that is written and read back has the same namespace, expiry time,
  defaults and, entry by entry, the same files, when every entry is one the announcement can express.
  The printer and the parser of the XML library are only asked to be inverse to each other on this
  document.\<close>
theorem fdt_announcement_roundtrip:
  assumes "xml_parse (xml_print (fdt_root t)) = Some (fdt_root t)"
    and "\<forall>e \<in> set (fdt_file_entries t). announced_exactly (global_fec_oti t) e"
  shows "\<exists>t'. fdt_parse xml_parse inst (fdt_to_string xml_print t) = Inr t' \<and>
    instance_id t' = inst \<and> fdt_file_entries t' = fdt_file_entries t \<and>
    fdt_expires t' = fdt_expires t \<and> fdt_ns t' = fdt_ns t \<and>
    global_fec_oti t' = (global_fec_oti t)\<lparr>transfer_length := 0, max_number_of_encoding_symbols := 0\<rparr>"
proof -
  have "map (received_entry (received_global (global_fec_oti t))) (fdt_file_entries t) = fdt_file_entries t"
    using assms(2) by (simp add: map_idI received_entry_exact)
  with assms(1) show ?thesis
    by (simp add: fdt_parse_def fdt_to_string_def fdt_of_sent_root received_global_def)
qed

text \<open>A stand-in for the XML library that knows one document.\<close>

definition one_document_print :: "xml \<Rightarrow> byte list" where
  "one_document_print root = [60]"

definition one_document_parse :: "byte list \<Rightarrow> xml option" where
  "one_document_parse text = (if text = [60] then Some (fdt_root example_fdt) else None)"

theorem fdt_announcement_roundtrip_witness:
  "\<exists>t'. fdt_parse one_document_parse 3 (fdt_to_string one_document_print example_fdt) = Inr t' \<and>
     instance_id t' = 3 \<and> fdt_file_entries t' = [example_entry] \<and> fdt_ns t' = FDT_NS_DRAFT_2005"
proof -
  have p: "one_document_parse (one_document_print (fdt_root example_fdt)) = Some (fdt_root example_fdt)"
    by (simp add: one_document_parse_def one_document_print_def)
  have "\<forall>e \<in> set (fdt_file_entries example_fdt). announced_exactly (global_fec_oti example_fdt) e"
    by (simp add: example_fdt_def example_entry_def announced_exactly_def fdt_new_def fec_oti_zero_def)
  from fdt_announcement_roundtrip [where xml_parse = one_document_parse and xml_print = one_document_print and t = example_fdt and inst = 3,
    OF p this] show ?thesis
    by (auto simp: example_fdt_def fdt_new_def)
qed

text \<open>What the receiver gets of any entry: the transfer length loses everything above 32 bits
  although both ends keep it in 64, and a file that is not to be cached loses its expiry time.\<close>
theorem fdt_announcement_loses:
  assumes "xml_parse (xml_print (fdt_root t)) = Some (fdt_root t)"
    and "fdt_parse xml_parse inst (fdt_to_string xml_print t) = Inr t'"
    and "i < length (fdt_file_entries t)"
  shows "length (fdt_file_entries t') = length (fdt_file_entries t) \<and>
    fe_toi (fdt_file_entries t' ! i) = fe_toi (fdt_file_entries t ! i) \<and>
    (transfer_length (fe_fec_oti (fdt_file_entries t ! i)) \<noteq> 0 \<longrightarrow>
      transfer_length (fe_fec_oti (fdt_file_entries t' ! i)) =
        transfer_length (fe_fec_oti (fdt_file_entries t ! i)) AND 0xFFFFFFFF) \<and>
    (no_cache (fe_cache_control (fdt_file_entries t ! i)) \<longrightarrow>
      fe_expires (fdt_file_entries t' ! i) = 0 \<and>
      cache_expires (fe_cache_control (fdt_file_entries t' ! i)) = None)"
proof -
  have "fdt_file_entries t' =
      map (received_entry (received_global (global_fec_oti t))) (fdt_file_entries t)"
    using assms(1,2) by (auto simp: fdt_parse_def fdt_to_string_def fdt_of_sent_root)
  with assms(3) show ?thesis
    by (simp add: received_entry_def received_cache_control_def Let_def)
qed

theorem fdt_announcement_loses_witness:
  "\<exists>t'. fdt_parse one_document_parse 3 (fdt_to_string one_document_print example_fdt) = Inr t' \<and>
     fe_toi (fdt_file_entries t' ! 0) = 1 \<and>
     transfer_length (fe_fec_oti (fdt_file_entries t' ! 0)) = 5"
proof -
  have p: "one_document_parse (one_document_print (fdt_root example_fdt)) = Some (fdt_root example_fdt)"
    by (simp add: one_document_parse_def one_document_print_def)
  then obtain t' where t': "fdt_parse one_document_parse 3 (fdt_to_string one_document_print example_fdt) = Inr t'"
    by (simp add: fdt_parse_def fdt_to_string_def fdt_of_sent_root)
  from fdt_announcement_loses [where xml_parse = one_document_parse and xml_print = one_document_print and t = example_fdt and inst = 3 and i = 0,
    OF p this] have
    "fe_toi (fdt_file_entries t' ! 0) = 1 \<and> transfer_length (fe_fec_oti (fdt_file_entries t' ! 0)) = 5"
    by (simp add: example_fdt_def fdt_new_def example_entry_def fec_oti_zero_def)
  with t' show ?thesis by blast
qed

text \<open>The namespace that the attributes of the root element make the default.\<close>

definition declared_default :: "(string \<times> string) list \<Rightarrow> string" where
  "declared_default attrs = (case map_of (rev attrs) ''xmlns'' of None \<Rightarrow> '''' | Some uri \<Rightarrow> uri)"

lemma default_ns_declared:
  "default_ns (foldl declare_ns nss attrs) = (case map_of (rev attrs) ''xmlns'' of None \<Rightarrow> default_ns nss | Some uri \<Rightarrow> uri)"
  by (induction attrs rule: rev_induct) (auto simp: declare_ns_def)

lemma split_prefix_joined: "split_prefix n = Some (pre, rest) \<Longrightarrow> n = pre @ CHR '':'' # rest"
proof -
  assume s: "split_prefix n = Some (pre, rest)"
  then have "CHR '':'' \<in> set n" "pre = takeWhile (\<lambda>c. c \<noteq> CHR '':'') n" "rest = drop 1 (dropWhile (\<lambda>c. c \<noteq> CHR '':'') n)"
    by (auto simp: split_prefix_def split: if_splits)
  then have d: "dropWhile (\<lambda>c. c \<noteq> CHR '':'') n = CHR '':'' # rest"
    by (cases "dropWhile (\<lambda>c. c \<noteq> CHR '':'') n") (auto simp: dropWhile_eq_Cons_conv dest: hd_dropWhile)
  show ?thesis using takeWhile_dropWhile_id [of "\<lambda>c. c \<noteq> CHR '':''" n] unfolding d \<open>pre = _\<close> [symmetric] by simp
qed

lemma matches_joined: "matches nss n name ns \<Longrightarrow> CHR '':'' \<in> set n \<Longrightarrow> \<exists>pre. n = pre @ CHR '':'' # name"
  by (auto simp: matches_def split: option.splits prod.splits dest!: split_prefix_joined) (simp add: split_prefix_def)

text \<open>(C24) The parser dereferences what the announcement may leave out: text without a root element is
  undefined behaviour, and so is a root element without an \<^verbatim>\<open>Expires\<close> attribute; an expiry time that is
  not a number is an exception derived from \<^verbatim>\<open>std::exception\<close>, which the caller can catch. The root
  element is an \<^verbatim>\<open>FDT-Instance\<close> written without prefix, in any namespace the parser knows, with any
  attributes and declarations of prefixes, except that no attribute \<^verbatim>\<open>Expires\<close> has a prefix.\<close>
theorem fdt_parse_expires:
  assumes "xml_parse buf = Some (Element ''FDT-Instance'' attrs txt children)"
    and "fdt_namespace_of (declared_default attrs) \<noteq> None"
    and "\<forall>pre. pre @ '':Expires'' \<notin> fst ` set attrs"
  shows "(xml_parse rootless = None \<longrightarrow> fdt_parse xml_parse inst rootless = Inl (Undefined ''name of a null element'')) \<and>
    (''Expires'' \<notin> fst ` set attrs \<longrightarrow>
      fdt_parse xml_parse inst buf = Inl (Undefined ''value of a null attribute'')) \<and>
    (\<forall>s. map_of attrs ''Expires'' = Some s \<and> digits_of 10 (snd (split_sign (dropWhile c_isspace s))) = [] \<longrightarrow>
      fdt_parse xml_parse inst buf = Inl (StdExc ''invalid_argument''))"
proof -
  let ?root = "Element ''FDT-Instance'' attrs txt children"
  let ?nss = "element_namespaces ?root no_namespaces" and ?d = "declared_default attrs"
  have d: "default_ns ?nss = ?d"
    by (simp add: element_namespaces_def default_ns_declared declared_default_def no_namespaces_def split: option.split)
  have ns: "element_namespace ?nss ?root = ?d"
    by (simp add: element_namespace_def split_prefix_def d)
  have "\<not> matches ?nss n ''Expires'' (default_ns ?nss)" if "(n, v) \<in> set attrs" "CHR '':'' \<in> set n" for n v
  proof
    assume "matches ?nss n ''Expires'' (default_ns ?nss)"
    from matches_joined [OF this that(2)] obtain pre where "n = pre @ '':Expires''" by auto
    then have "pre @ '':Expires'' \<in> fst ` set attrs" using image_eqI [of _ fst, OF _ that(1)] by simp
    with assms(3) show False by blast
  qed
  then have attr: "find_attribute ?nss ?root ''Expires'' ?d = map_of attrs ''Expires''"
    using find_attribute_plain [of ?root "''Expires''" ?nss] by (auto simp: d)
  have m: "matches ?nss ''FDT-Instance'' ''FDT-Instance'' ?d"
    by (simp add: matches_plain d)
  obtain v where v: "fdt_namespace_of ?d = Some v" using assms(2) by auto
  have "''Expires'' \<notin> fst ` set attrs \<longleftrightarrow> map_of attrs ''Expires'' = None" by (simp add: map_of_eq_None_iff)
  then show ?thesis
    using assms(1) by (auto simp: fdt_parse_def fdt_of_root_def Let_def ns attr m v std_stoull_def split: prod.splits)
qed

text \<open>A root element in a namespace with a prefix declared, without an expiry time, and one with a word.\<close>
theorem fdt_parse_expires_witness:
  "fdt_parse (\<lambda>text. if text = [] then None else Some (Element ''FDT-Instance''
       [(''xmlns'', ''urn:IETF:metadata:2005:FLUTE:FDT''), (''xmlns:m'', ''urn:m''), (''Expires'', ''soon'')] None [])) 1 [60] =
     Inl (StdExc ''invalid_argument'') \<and>
   fdt_parse (\<lambda>text. if text = [] then None else Some (Element ''FDT-Instance''
       [(''xmlns'', ''urn:IETF:metadata:2005:FLUTE:FDT''), (''xmlns:m'', ''urn:m'')] None [])) 1 [60] =
     Inl (Undefined ''value of a null attribute'') \<and>
   fdt_parse (\<lambda>text. if text = [] then None else Some (Element ''FDT-Instance''
       [(''xmlns'', ''urn:IETF:metadata:2005:FLUTE:FDT''), (''xmlns:m'', ''urn:m'')] None [])) 1 [] =
     Inl (Undefined ''name of a null element'')"
proof -
  let ?a = "[(''xmlns'', ''urn:IETF:metadata:2005:FLUTE:FDT''), (''xmlns:m'', ''urn:m'')]"
  let ?b = "[(''xmlns'', ''urn:IETF:metadata:2005:FLUTE:FDT''), (''xmlns:m'', ''urn:m''), (''Expires'', ''soon'')]"
  let ?p = "\<lambda>attrs text. if text = [] then None else Some (Element ''FDT-Instance'' attrs None [])"
  have known: "fdt_namespace_of (declared_default ?a) \<noteq> None" "fdt_namespace_of (declared_default ?b) \<noteq> None"
    by (simp_all add: declared_default_def fdt_namespace_of_def)
  have "drop (length n - 8) n \<noteq> '':Expires''" if "n \<in> fst ` set ?b" for n
    using that by auto
  moreover have "drop (length (pre @ '':Expires'') - 8) (pre @ '':Expires'') = '':Expires''" for pre by simp
  ultimately have plain: "\<forall>pre. pre @ '':Expires'' \<notin> fst ` set ?b" by blast
  then have plain': "\<forall>pre. pre @ '':Expires'' \<notin> fst ` set ?a" by auto
  have soon: "digits_of 10 (snd (split_sign (dropWhile c_isspace ''soon''))) = []"
    by (simp add: digits_of_def c_isspace_def digit_val_def)
  have p: "?p ?a [60] = Some (Element ''FDT-Instance'' ?a None [])" "?p ?b [60] = Some (Element ''FDT-Instance'' ?b None [])"
    by simp_all
  from fdt_parse_expires [where xml_parse = "?p ?b" and inst = 1, OF p(2) known(2) plain, of "[]"] soon
  have "fdt_parse (?p ?b) 1 [60] = Inl (StdExc ''invalid_argument'')" by simp
  moreover from fdt_parse_expires [where xml_parse = "?p ?a" and inst = 1, OF p(1) known(1) plain', of "[]"]
  have "fdt_parse (?p ?a) 1 [60] = Inl (Undefined ''value of a null attribute'')"
    "fdt_parse (?p ?a) 1 [] = Inl (Undefined ''name of a null element'')" by simp_all
  ultimately show ?thesis by blast
qed

text \<open>Prefixes are inherited, but an element cannot redeclare one: what its ancestors bound
  stays bound, against the scoping of XML namespaces. The default namespace can be redeclared.\<close>
theorem namespace_prefix_kept:
  assumes "om_ok (prefix_to_ns_map parent_ns)" and "om_get (prefix_to_ns_map parent_ns) p = Some uri"
  shows "om_get (prefix_to_ns_map (element_namespaces (Element n attrs txt children) parent_ns)) p = Some uri \<and>
    (\<forall>d. map_of (rev attrs) ''xmlns'' = Some d \<longrightarrow>
      default_ns (element_namespaces (Element n attrs txt children) parent_ns) = d)"
proof -
  have "om_ok (prefix_to_ns_map (foldl declare_ns parent_ns attrs)) \<and>
      om_get (prefix_to_ns_map (foldl declare_ns parent_ns attrs)) p = Some uri" for attrs
  proof (induction attrs rule: rev_induct)
    case (snoc a attrs)
    then show ?case by (simp add: declare_ns_def om.emplace_keeps om.ok_emplace)
  qed (simp add: assms)
  moreover have "\<forall>d. map_of (rev attrs) ''xmlns'' = Some d \<longrightarrow> default_ns (foldl declare_ns parent_ns attrs) = d"
    for attrs
    by (induction attrs rule: rev_induct) (auto simp: declare_ns_def)
  ultimately show ?thesis by (simp add: element_namespaces_def)
qed

theorem namespace_prefix_kept_witness:
  "om_get (prefix_to_ns_map (element_namespaces
     (Element ''File'' [(''xmlns:m'', ''urn:new''), (''xmlns'', ''urn:default'')] None [])
     \<lparr>default_ns = '''', prefix_to_ns_map = [(''m'', ''urn:old'')]\<rparr>)) ''m'' = Some ''urn:old''"
  using namespace_prefix_kept [of "\<lparr>default_ns = '''', prefix_to_ns_map = [(''m'', ''urn:old'')]\<rparr>" "''m''"
      "''urn:old''" "''File''" "[(''xmlns:m'', ''urn:new''), (''xmlns'', ''urn:default'')]" None "[]"]
  by (simp add: om_ok_Cons)

end
