(* ===== verification/Flute_File.thy ===== *)
theory Flute_File
  imports Encoding_Symbol Alc_Packet File_Delivery_Table Base64
begin

text \<open>
  \<^verbatim>\<open>include/File.h\<close> and \<^verbatim>\<open>src/File.cpp\<close>: a file being received or sent, its buffer, its source
  blocks and encoding symbols. The blocks hold pointers into the buffer, and decoding replaces the
  buffer: the store \<open>fl_heap\<close> is explicit, a pointer is the index of an allocation and an offset, and
  a freed allocation is \<open>None\<close>. MD5 and zlib are parameters.
\<close>

section \<open>State\<close>

type_synonym heap = "byte list option list"

type_synonym pointer = "nat \<times> nat"

record symbol_slot =
  sl_data :: "pointer option"
  sl_length :: u64
  sl_complete :: bool
  sl_queued :: bool

definition null_slot :: symbol_slot where
  "null_slot = \<lparr>sl_data = None, sl_length = 0, sl_complete = False, sl_queued = False\<rparr>"

record source_block =
  sb_complete :: bool
  sb_symbols :: "(u16, symbol_slot) omap"

definition empty_block :: source_block where
  "empty_block = \<lparr>sb_complete = False, sb_symbols = []\<rparr>"

record flute_file =
  fl_source_blocks :: "(u16, source_block) omap"
  fl_complete :: bool
  fl_nof_source_symbols :: u32
  fl_nof_source_blocks :: u32
  fl_nof_large_source_blocks :: u32
  fl_large_source_block_length :: u32
  fl_small_source_block_length :: u32
  fl_buffer :: "nat option"
  fl_own_buffer :: bool
  fl_been_encoded :: bool
  fl_been_decoded :: bool
  fl_meta :: file_entry
  fl_received_at :: u64
  fl_access_count :: u32
  fl_fdt_instance_id :: u16
  fl_description :: "nat option"
  fl_heap :: heap

definition heap_at :: "heap \<Rightarrow> nat \<Rightarrow> byte list option" where
  "heap_at h i = (if i < length h then h ! i else None)"

definition heap_free :: "nat \<Rightarrow> heap \<Rightarrow> heap" where
  "heap_free i h = h[i := None]"

text \<open>The bytes readable through a pointer; none through a dangling or null one.\<close>

definition heap_from :: "heap \<Rightarrow> pointer option \<Rightarrow> byte list" where
  "heap_from h p =
     (case p of None \<Rightarrow> []
      | Some (i, off) \<Rightarrow> (case heap_at h i of None \<Rightarrow> [] | Some mem \<Rightarrow> drop off mem))"

text \<open>\<^verbatim>\<open>memcpy\<close> to a pointer; copying no bytes has no effect.\<close>

definition heap_store :: "heap \<Rightarrow> pointer option \<Rightarrow> byte list \<Rightarrow> heap result" where
  "heap_store h p bs =
     (if bs = [] then Inr h
      else case p of
             None \<Rightarrow> Inl (Undefined ''write through a null pointer'')
           | Some (i, off) \<Rightarrow>
               (case heap_at h i of
                  None \<Rightarrow> Inl (Undefined ''write to freed memory'')
                | Some mem \<Rightarrow> rbind (write_bytes mem off bs) (\<lambda>mem'. Inr (h[i := Some mem']))))"

abbreviation fl_oti :: "flute_file \<Rightarrow> fec_oti" where
  "fl_oti f \<equiv> fe_fec_oti (fl_meta f)"

text \<open>\<^verbatim>\<open>length()\<close>\<close>

definition file_length :: "flute_file \<Rightarrow> u64" where
  "file_length f =
     (if fl_been_decoded f then ucast (content_length (fl_meta f)) else transfer_length (fl_oti f))"

text \<open>What is read at \<^verbatim>\<open>buffer()\<close> for \<open>n\<close> bytes.\<close>

definition buffer_bytes :: "flute_file \<Rightarrow> nat \<Rightarrow> byte list result" where
  "buffer_bytes f n =
     (if n = 0 then Inr []
      else case fl_buffer f of
             None \<Rightarrow> Inl (Undefined ''read through a null pointer'')
           | Some i \<Rightarrow>
               (case heap_at (fl_heap f) i of
                  None \<Rightarrow> Inl (Undefined ''read of freed memory'')
                | Some mem \<Rightarrow> read_bytes mem 0 n))"

definition is_encoded :: "flute_file \<Rightarrow> bool" where
  "is_encoded f \<longleftrightarrow> fl_been_encoded f \<or> \<not> fl_been_decoded f"

definition log_access :: "flute_file \<Rightarrow> flute_file" where
  "log_access f = f\<lparr>fl_access_count := fl_access_count f + 1\<rparr>"

definition set_fdt_instance_id :: "u16 \<Rightarrow> flute_file \<Rightarrow> flute_file" where
  "set_fdt_instance_id i f = f\<lparr>fl_fdt_instance_id := i\<rparr>"

section \<open>Partitioning\<close>

text \<open>The quotients are computed in double precision and stored in 32 bits.\<close>

definition calculate_partitioning :: "flute_file \<Rightarrow> flute_file result" where
  "calculate_partitioning f =
     (let oti = fl_oti f in
      rbind (rbind (fp_ceil_div 53 (unat (transfer_length oti)) (unat (encoding_symbol_length oti))) to_u32)
        (\<lambda>nof_symbols.
      rbind (rbind (fp_ceil_div 53 (unat nof_symbols) (unat (max_source_block_length oti))) to_u32)
        (\<lambda>nof_blocks.
      rbind (rbind (fp_ceil_div 53 (unat nof_symbols) (unat nof_blocks)) to_u32) (\<lambda>large.
      rbind (rbind (fp_floor_div 53 (unat nof_symbols) (unat nof_blocks)) to_u32) (\<lambda>small.
      Inr (f\<lparr>fl_nof_source_symbols := nof_symbols, fl_nof_source_blocks := nof_blocks,
             fl_large_source_block_length := large, fl_small_source_block_length := small,
             fl_nof_large_source_blocks := nof_symbols - small * nof_blocks\<rparr>))))))"

text \<open>The symbols of one block: from the symbol identifier, the position in the buffer and the size
  that remains, to those behind the block.\<close>

fun block_symbols ::
  "nat \<Rightarrow> nat \<Rightarrow> fec_oti \<Rightarrow> u64 \<Rightarrow> nat \<Rightarrow> u64 \<Rightarrow> (u16, symbol_slot) omap \<Rightarrow>
     ((u16, symbol_slot) omap \<times> nat \<times> u64) result" where
  "block_symbols 0 buf oti symbol_id off remaining syms = Inr (syms, off, remaining)"
| "block_symbols (Suc n) buf oti symbol_id off remaining syms =
     (let symbol_length = min remaining (ucast (encoding_symbol_length oti));
          slot = \<lparr>sl_data = Some (buf, off), sl_length = symbol_length, sl_complete = False, sl_queued = False\<rparr>;
          syms' = om_set (ucast symbol_id) slot syms;
          remaining' = remaining - symbol_length
      in if off + unat symbol_length \<le> unat (transfer_length oti)
         then if remaining' = 0 then Inr (syms', off + unat symbol_length, remaining')
              else block_symbols n buf oti (symbol_id + 1) (off + unat symbol_length) remaining' syms'
         else Inl AssertFail)"

text \<open>The loop over the blocks does not end when a block has no symbols.\<close>

partial_function (option) block_loop ::
  "nat \<Rightarrow> fec_oti \<Rightarrow> u32 \<Rightarrow> u32 \<Rightarrow> u32 \<Rightarrow> u32 \<Rightarrow> nat \<Rightarrow> u64 \<Rightarrow> (u16, source_block) omap \<Rightarrow>
     (u16, source_block) omap result option" where
  "block_loop buf oti nof_large large small number off remaining blocks =
     (if remaining = 0 then Some (Inr blocks)
      else case block_symbols (unat (if number < nof_large then large else small)) buf oti 0 off remaining [] of
             Inl e \<Rightarrow> Some (Inl e)
           | Inr (syms, off', remaining') \<Rightarrow>
               block_loop buf oti nof_large large small (number + 1) off' remaining'
                 (om_set (ucast number) \<lparr>sb_complete = False, sb_symbols = syms\<rparr> blocks))"

definition create_blocks :: "nat \<Rightarrow> flute_file \<Rightarrow> flute_file result option" where
  "create_blocks buf f =
     map_option (\<lambda>r. rbind r (\<lambda>blocks. Inr (f\<lparr>fl_source_blocks := blocks\<rparr>)))
       (block_loop buf (fl_oti f) (fl_nof_large_source_blocks f) (fl_large_source_block_length f)
          (fl_small_source_block_length f) 0 0 (transfer_length (fl_oti f)) (fl_source_blocks f))"

definition partition_and_create :: "nat \<Rightarrow> flute_file \<Rightarrow> flute_file result option" where
  "partition_and_create buf f =
     (case calculate_partitioning f of
        Inl e \<Rightarrow> Some (Inl e)
      | Inr f' \<Rightarrow> create_blocks buf f')"

section \<open>Storing symbols\<close>

text \<open>\<^verbatim>\<open>operator[]\<close> of a map makes an entry that is not there.\<close>

definition om_index :: "'k::linorder \<Rightarrow> 'v \<Rightarrow> ('k, 'v) omap \<Rightarrow> 'v \<times> ('k, 'v) omap" where
  "om_index k dflt m = (case om_get m k of Some v \<Rightarrow> (v, m) | None \<Rightarrow> (dflt, om_set k dflt m))"

definition check_source_block_completion :: "source_block \<Rightarrow> source_block" where
  "check_source_block_completion b =
     b\<lparr>sb_complete := list_all (\<lambda>(_, s). sl_complete s) (sb_symbols b)\<rparr>"

text \<open>All symbols of all blocks are missing again.\<close>

definition reset_block :: "source_block \<Rightarrow> source_block" where
  "reset_block b = b\<lparr>sb_complete := False, sb_symbols := map (\<lambda>(k, s). (k, s\<lparr>sl_complete := False\<rparr>)) (sb_symbols b)\<rparr>"

definition reset_blocks :: "flute_file \<Rightarrow> flute_file" where
  "reset_blocks f =
     f\<lparr>fl_source_blocks := map (\<lambda>(k, b). (k, reset_block b)) (fl_source_blocks f), fl_complete := False\<rparr>"

text \<open>\<^verbatim>\<open>memcmp\<close> of the digest with the \<^verbatim>\<open>c_str()\<close> of the decoded string, its final zero included.\<close>

definition digest_matches :: "byte list \<Rightarrow> byte list \<Rightarrow> bool result" where
  "digest_matches digest expected =
     rbind (read_bytes (expected @ [0]) 0 16) (\<lambda>bs. Inr (bs = take 16 digest))"

definition md5_agrees :: "(byte list \<Rightarrow> byte list) \<Rightarrow> flute_file \<Rightarrow> bool result" where
  "md5_agrees md5 f =
     rbind (buffer_bytes f (unat (file_length f))) (\<lambda>bs.
     rbind (base64_decode (content_md5 (fl_meta f)) False) (\<lambda>expected.
     digest_matches (md5 bs) expected))"

definition verify_md5 :: "(byte list \<Rightarrow> byte list) \<Rightarrow> flute_file \<Rightarrow> flute_file outcome" where
  "verify_md5 md5 f =
     (case md5_agrees md5 f of
        Inl e \<Rightarrow> (Inl e, f)
      | Inr True \<Rightarrow> (Inr (), f)
      | Inr False \<Rightarrow> (Inr (), reset_blocks f))"

definition check_file_completion :: "(byte list \<Rightarrow> byte list) \<Rightarrow> flute_file \<Rightarrow> flute_file outcome" where
  "check_file_completion md5 f =
     (let f1 = f\<lparr>fl_complete := list_all (\<lambda>(_, b). sb_complete b) (fl_source_blocks f)\<rparr> in
      if fl_complete f1 \<and> content_md5 (fl_meta f) \<noteq> [] \<and> fe_content_encoding (fl_meta f) = []
      then verify_md5 md5 f1
      else (Inr (), f1))"

definition put_symbol ::
  "(byte list \<Rightarrow> byte list) \<Rightarrow> encoding_symbol \<Rightarrow> flute_file \<Rightarrow> flute_file outcome" where
  "put_symbol md5 s f =
     (if unat (es_source_block_number s) > length (fl_source_blocks f)
      then (Inl (CStr ''Source Block number too high''), f)
      else
        let sbn = ucast (es_source_block_number s) :: u16;
            esi = ucast (es_id s) :: u16;
            (block, blocks1) = om_index sbn empty_block (fl_source_blocks f);
            f1 = f\<lparr>fl_source_blocks := blocks1\<rparr>
        in if unat (es_id s) > length (sb_symbols block)
           then (Inl (CStr ''Encoding Symbol ID too high''), f1)
           else
             let (slot, syms) = om_index esi null_slot (sb_symbols block);
                 f2 = f\<lparr>fl_source_blocks := om_set sbn (block\<lparr>sb_symbols := syms\<rparr>) blocks1\<rparr>
             in if sl_complete slot then (Inr (), f2)
                else
                  (case rbind (decode_to s (sl_length slot)) (heap_store (fl_heap f) (sl_data slot)) of
                     Inl e \<Rightarrow> (Inl e, f2)
                   | Inr heap' \<Rightarrow>
                       let block' = check_source_block_completion
                             (block\<lparr>sb_symbols := om_set esi (slot\<lparr>sl_complete := True\<rparr>) syms\<rparr>)
                       in check_file_completion md5
                            (f\<lparr>fl_source_blocks := om_set sbn block' blocks1, fl_heap := heap'\<rparr>)))"

section \<open>Sending symbols\<close>

definition symbol_of_slot :: "flute_file \<Rightarrow> u16 \<Rightarrow> u16 \<Rightarrow> symbol_slot \<Rightarrow> encoding_symbol" where
  "symbol_of_slot f sbn esi s =
     \<lparr>es_id = ucast esi, es_source_block_number = ucast sbn, es_fec_scheme = encoding_id (fl_oti f),
      es_mem = heap_from (fl_heap f) (sl_data s), es_len = sl_length s\<rparr>"

text \<open>The inner loop: the symbols taken, the slots after it and the count so far.\<close>

fun take_slots ::
  "flute_file \<Rightarrow> int \<Rightarrow> u16 \<Rightarrow> int \<Rightarrow> (u16, symbol_slot) omap \<Rightarrow>
     encoding_symbol list \<times> (u16, symbol_slot) omap \<times> int" where
  "take_slots f nof sbn cnt [] = ([], [], cnt)"
| "take_slots f nof sbn cnt ((esi, s) # rest) =
     (if cnt \<ge> nof then ([], (esi, s) # rest, cnt)
      else if \<not> sl_complete s \<and> \<not> sl_queued s then
        let (syms, rest', cnt') = take_slots f nof sbn (cnt + 1) rest
        in (symbol_of_slot f sbn esi s # syms, (esi, s\<lparr>sl_queued := True\<rparr>) # rest', cnt')
      else
        let (syms, rest', cnt') = take_slots f nof sbn cnt rest
        in (syms, (esi, s) # rest', cnt'))"

fun take_blocks ::
  "flute_file \<Rightarrow> int \<Rightarrow> int \<Rightarrow> (u16, source_block) omap \<Rightarrow> encoding_symbol list \<times> (u16, source_block) omap" where
  "take_blocks f nof cnt [] = ([], [])"
| "take_blocks f nof cnt ((sbn, b) # rest) =
     (if cnt \<ge> nof then ([], (sbn, b) # rest)
      else if \<not> sb_complete b then
        let (syms, slots, cnt') = take_slots f nof sbn cnt (sb_symbols b);
            (syms', rest') = take_blocks f nof cnt' rest
        in (syms @ syms', (sbn, b\<lparr>sb_symbols := slots\<rparr>) # rest')
      else
        let (syms', rest') = take_blocks f nof cnt rest
        in (syms', (sbn, b) # rest'))"

definition get_next_symbols :: "u64 \<Rightarrow> flute_file \<Rightarrow> (encoding_symbol list \<times> flute_file) result" where
  "get_next_symbols max_size f =
     rbind (rbind (fp_ceil_div 24 (unat (max_size - 4)) (unat (encoding_symbol_length (fl_oti f)))) to_int32)
       (\<lambda>nof.
     let (syms, blocks) = take_blocks f nof 0 (fl_source_blocks f)
     in Inr (syms, f\<lparr>fl_source_blocks := blocks\<rparr>))"

text \<open>One symbol of \<^verbatim>\<open>mark_completed\<close>; \<^verbatim>\<open>find\<close> converts its argument to the 16 bits of the key.\<close>

definition mark_symbol ::
  "(byte list \<Rightarrow> byte list) \<Rightarrow> bool \<Rightarrow> encoding_symbol \<Rightarrow> flute_file \<Rightarrow> flute_file outcome" where
  "mark_symbol md5 success s f =
     (let sbn = ucast (es_source_block_number s) :: u16; esi = ucast (es_id s) :: u16 in
      case om_get (fl_source_blocks f) sbn of
        None \<Rightarrow> (Inr (), f)
      | Some block \<Rightarrow>
          let block1 =
                (case om_get (sb_symbols block) esi of
                   None \<Rightarrow> block
                 | Some slot \<Rightarrow>
                     block\<lparr>sb_symbols := om_set esi (slot\<lparr>sl_queued := False, sl_complete := success\<rparr>)
                                          (sb_symbols block)\<rparr>)
          in check_file_completion md5
               (f\<lparr>fl_source_blocks := om_set sbn (check_source_block_completion block1) (fl_source_blocks f)\<rparr>))"

definition mark_completed ::
  "(byte list \<Rightarrow> byte list) \<Rightarrow> encoding_symbol list \<Rightarrow> bool \<Rightarrow> flute_file \<Rightarrow> flute_file outcome" where
  "mark_completed md5 symbols success = for_each (mark_symbol md5 success) symbols"

section \<open>Content encoding\<close>

text \<open>
  zlib as the code calls it: \<^verbatim>\<open>deflateInit2\<close> and \<^verbatim>\<open>inflateInit2\<close> take the window bits and the input and
  give a stream state; \<^verbatim>\<open>deflate\<close> and \<^verbatim>\<open>inflate\<close> with \<^verbatim>\<open>Z_FINISH\<close> give a status and the bytes written to
  the output buffer of 16384 bytes. A full buffer is \<^verbatim>\<open>Z_OK\<close> from \<^verbatim>\<open>deflate\<close> and \<^verbatim>\<open>Z_BUF_ERROR\<close> from
  \<^verbatim>\<open>inflate\<close>; \<open>Z_ERROR\<close> stands for the other error codes (\<^verbatim>\<open>Z_DATA_ERROR\<close>, \<^verbatim>\<open>Z_STREAM_ERROR\<close>), which the
  code does not tell apart either.
\<close>

datatype zstatus = Z_OK | Z_STREAM_END | Z_BUF_ERROR | Z_ERROR

record 'z zlib =
  deflate_init :: "nat \<Rightarrow> byte list \<Rightarrow> 'z option"
  deflate_finish :: "'z \<Rightarrow> zstatus \<times> byte list \<times> 'z"
  inflate_init :: "nat \<Rightarrow> byte list \<Rightarrow> 'z"
  inflate_finish :: "'z \<Rightarrow> zstatus \<times> byte list \<times> 'z"

text \<open>\<^verbatim>\<open>realloc\<close> and \<^verbatim>\<open>memcpy\<close> behind what is there; the buffer is null at first.\<close>

definition append_out :: "byte list option \<Rightarrow> byte list \<Rightarrow> byte list option" where
  "append_out out chunk = Some ((case out of None \<Rightarrow> [] | Some bs \<Rightarrow> bs) @ chunk)"

text \<open>The loop both functions run while the status is \<^verbatim>\<open>Z_OK\<close>.\<close>

partial_function (option) zlib_loop ::
  "('z \<Rightarrow> zstatus \<times> byte list \<times> 'z) \<Rightarrow> zstatus \<Rightarrow> byte list \<Rightarrow> 'z \<Rightarrow> byte list option \<Rightarrow>
     (zstatus \<times> byte list \<times> byte list option) option" where
  "zlib_loop step zstate chunk z out =
     (if zstate = Z_OK
      then (case step z of (zstate', chunk', z') \<Rightarrow> zlib_loop step zstate' chunk' z' (append_out out chunk))
      else Some (zstate, chunk, out))"

text \<open>The buffer becomes a new allocation, or null.\<close>

definition install_buffer :: "byte list option \<Rightarrow> flute_file \<Rightarrow> flute_file" where
  "install_buffer out f =
     (case out of
        None \<Rightarrow> f\<lparr>fl_buffer := None\<rparr>
      | Some bs \<Rightarrow> f\<lparr>fl_buffer := Some (length (fl_heap f)), fl_own_buffer := True,
                     fl_heap := fl_heap f @ [Some bs]\<rparr>)"

definition free_old :: "bool \<Rightarrow> nat option \<Rightarrow> flute_file \<Rightarrow> flute_file" where
  "free_old own old f =
     (case old of Some i \<Rightarrow> if own then f\<lparr>fl_heap := heap_free i (fl_heap f)\<rparr> else f | None \<Rightarrow> f)"

definition set_transfer_length :: "u64 \<Rightarrow> file_entry \<Rightarrow> file_entry" where
  "set_transfer_length n m = m\<lparr>fe_fec_oti := (fe_fec_oti m)\<lparr>transfer_length := n\<rparr>\<rparr>"

definition encode :: "'z zlib \<Rightarrow> flute_file \<Rightarrow> flute_file outcome option" where
  "encode z f =
     (let enc = fe_content_encoding (fl_meta f);
          done = (\<lambda>f. Some (Inr (), f\<lparr>fl_been_encoded := True, fl_been_decoded := False\<rparr>))
      in if fl_been_encoded f \<or> enc = [] then Some (Inr (), f)
         else if enc \<noteq> ''gzip'' \<and> enc \<noteq> ''deflate''
         then Some (Inl (CStr ''Content-Encoding not known''), f)
         else case buffer_bytes f (unat (content_length (fl_meta f))) of
                Inl e \<Rightarrow> Some (Inl e, f)
              | Inr input \<Rightarrow>
                  (case deflate_init z (15 OR 16) input of
                     None \<Rightarrow> done f
                   | Some z0 \<Rightarrow>
                       (case deflate_finish z z0 of (zstate, chunk, z1) \<Rightarrow>
                        case zlib_loop (inflate_finish z) zstate chunk z1 None of
                          None \<Rightarrow> None
                        | Some (zstate', chunk', out) \<Rightarrow>
                            if zstate' = Z_STREAM_END then
                              (let out' = (if chunk' = [] then out else append_out out chunk');
                                   total = (case out' of None \<Rightarrow> 0 | Some bs \<Rightarrow> length bs);
                                   f' = install_buffer out' f
                               in done (free_old (fl_own_buffer f) (fl_buffer f)
                                    (f'\<lparr>fl_meta := set_transfer_length (of_nat total) (fl_meta f')\<rparr>)))
                            else Some (Inl (CStr ''zlib message''), install_buffer out f))))"

text \<open>After \<^verbatim>\<open>decode\<close> the symbols still point into the buffer it replaced. A length that differs from
  the content length is only logged.\<close>

definition decode :: "'z zlib \<Rightarrow> (byte list \<Rightarrow> byte list) \<Rightarrow> flute_file \<Rightarrow> flute_file outcome option" where
  "decode z md5 f =
     (let enc = fe_content_encoding (fl_meta f) in
      if fl_been_decoded f \<or> enc = [] then Some (Inr (), f)
      else if enc \<noteq> ''gzip'' \<and> enc \<noteq> ''deflate''
      then Some (Inl (CStr ''Content-Encoding not known''), f)
      else case buffer_bytes f (unat (ucast (transfer_length (fl_oti f)) :: u32)) of
             Inl e \<Rightarrow> Some (Inl e, f)
           | Inr input \<Rightarrow>
               (case inflate_finish z (inflate_init z (15 OR (if enc = ''gzip'' then 16 else 0)) input) of
                  (zstate, chunk, z1) \<Rightarrow>
                case zlib_loop (inflate_finish z) zstate chunk z1 None of
                  None \<Rightarrow> None
                | Some (zstate', chunk', out) \<Rightarrow>
                    if zstate' = Z_STREAM_END then
                      (let out' = (if chunk' = [] then out else append_out out chunk');
                           total = (case out' of None \<Rightarrow> 0 | Some bs \<Rightarrow> length bs);
                           f1 = install_buffer out' f;
                           f2 = (if content_length (fl_meta f) = 0
                                 then f1\<lparr>fl_meta := (fl_meta f1)\<lparr>content_length := of_nat total\<rparr>\<rparr> else f1);
                           f3 = (free_old (fl_own_buffer f) (fl_buffer f) f2)
                                  \<lparr>fl_been_decoded := True, fl_been_encoded := False\<rparr>
                       in Some (if content_md5 (fl_meta f) \<noteq> [] then verify_md5 md5 f3 else (Inr (), f3)))
                    else Some (Inl (CStr ''zlib message''), install_buffer out f)))"

section \<open>Constructors and destructor\<close>

text \<open>\<open>malloc n\<close> is what an allocation of \<open>n\<close> bytes holds, \<open>None\<close> when it fails.\<close>

definition file_with ::
  "file_entry \<Rightarrow> bool \<Rightarrow> byte list \<Rightarrow> u64 \<Rightarrow> nat option \<Rightarrow> flute_file" where
  "file_with meta own buf received_at description =
     \<lparr>fl_source_blocks = [], fl_complete = False, fl_nof_source_symbols = 0, fl_nof_source_blocks = 0,
      fl_nof_large_source_blocks = 0, fl_large_source_block_length = 0,
      fl_small_source_block_length = 0, fl_buffer = Some 0, fl_own_buffer = own,
      fl_been_encoded = False, fl_been_decoded = False, fl_meta = meta, fl_received_at = received_at,
      fl_access_count = 0, fl_fdt_instance_id = 0, fl_description = description, fl_heap = [Some buf]\<rparr>"

definition file_destroy :: "flute_file \<Rightarrow> flute_file" where
  "file_destroy f =
     (case fl_buffer f of
        Some i \<Rightarrow> if fl_own_buffer f then f\<lparr>fl_heap := heap_free i (fl_heap f)\<rparr> else f
      | None \<Rightarrow> f)"

definition file_of_entry ::
  "(nat \<Rightarrow> byte list option) \<Rightarrow> u64 \<Rightarrow> file_entry \<Rightarrow> flute_file result option" where
  "file_of_entry malloc now entry =
     (case malloc (unat (transfer_length (fe_fec_oti entry))) of
        None \<Rightarrow> Some (Inl (CStr ''Failed to allocate file buffer''))
      | Some buf \<Rightarrow> partition_and_create 0 (file_with entry True buf now None))"

text \<open>The file of a description, whose data and entry are given; \<open>uninit\<close> is the uninitialised
  reception time.\<close>

definition file_of_description ::
  "(nat \<Rightarrow> byte list option) \<Rightarrow> 'z zlib \<Rightarrow> u64 \<Rightarrow> nat \<Rightarrow> byte list \<Rightarrow> file_entry \<Rightarrow> flute_file result option" where
  "file_of_description malloc z uninit description data entry =
     (case malloc (length data) of
        None \<Rightarrow> Some (Inl (CStr ''No data allocated''))
      | Some buf \<Rightarrow>
          (case write_bytes buf 0 data of
             Inl e \<Rightarrow> Some (Inl e)
           | Inr buf' \<Rightarrow>
               if encoding_id (fe_fec_oti entry) \<noteq> CompactNoCode
               then Some (Inl (CStr ''Unsupported FEC scheme''))
               else
                 (case encode z (file_with (set_transfer_length (of_nat (length data)) entry) True buf' uninit
                                   (Some description)) of
                    None \<Rightarrow> None
                  | Some (Inl e, f) \<Rightarrow> Some (Inl e)
                  | Some (Inr _, f) \<Rightarrow>
                      (case fl_buffer f of
                         None \<Rightarrow> Some (Inl (Undefined ''null buffer''))
                       | Some b \<Rightarrow> partition_and_create b f))))"

definition file_of_data ::
  "(nat \<Rightarrow> byte list option) \<Rightarrow> (byte list \<Rightarrow> byte list) \<Rightarrow> u64 \<Rightarrow> u32 \<Rightarrow> fec_oti \<Rightarrow> string \<Rightarrow> string \<Rightarrow>
     u64 \<Rightarrow> byte list \<Rightarrow> bool \<Rightarrow> flute_file result option" where
  "file_of_data malloc md5 uninit toi oti location ctype expires data copy_data =
     (let meta =
            \<lparr>fe_toi = toi, content_location = location, content_length = of_nat (length data),
             content_md5 = base64_encode (take 16 (md5 data)) False, content_type = ctype,
             fe_expires = expires, fe_fec_oti = oti,
             fe_cache_control = \<lparr>no_cache = False, cache_expires = None\<rparr>,
             fe_content_encoding = '''', etag = ''''\<rparr>;
          build = (\<lambda>buf own.
            if encoding_id oti \<noteq> CompactNoCode then Some (Inl (CStr ''Unsupported FEC scheme''))
            else partition_and_create 0
                   (file_with (set_transfer_length (of_nat (length data)) meta) own buf uninit None))
      in if copy_data then
           (case malloc (length data) of
              None \<Rightarrow> Some (Inl (CStr ''Failed to allocate file buffer''))
            | Some buf \<Rightarrow>
                (case write_bytes buf 0 data of Inl e \<Rightarrow> Some (Inl e) | Inr buf' \<Rightarrow> build buf' True))
         else build data False)"

end
