(* ===== verification/File_Partition.thy ===== *)
theory File_Partition
  imports Flute_File
begin

text \<open>
  The partition of a file into source blocks and encoding symbols: the code's arithmetic in double
  precision against the integer algorithm of RFC 5052 (9.1), and the blocks that \<^verbatim>\<open>create_blocks\<close>
  makes from it.
\<close>

section \<open>The partition of RFC 5052\<close>

abbreviation tlen :: "fec_oti \<Rightarrow> nat" where "tlen oti \<equiv> unat (transfer_length oti)"

abbreviation slen :: "fec_oti \<Rightarrow> nat" where "slen oti \<equiv> unat (encoding_symbol_length oti)"

definition total_symbols :: "fec_oti \<Rightarrow> nat" where
  "total_symbols oti = ceil_div (tlen oti) (slen oti)"

definition total_blocks :: "fec_oti \<Rightarrow> nat" where
  "total_blocks oti = ceil_div (total_symbols oti) (unat (max_source_block_length oti))"

definition small_length :: "fec_oti \<Rightarrow> nat" where
  "small_length oti = total_symbols oti div total_blocks oti"

definition large_blocks :: "fec_oti \<Rightarrow> nat" where
  "large_blocks oti = total_symbols oti mod total_blocks oti"

definition block_len :: "fec_oti \<Rightarrow> nat \<Rightarrow> nat" where
  "block_len oti i = small_length oti + (if i < large_blocks oti then 1 else 0)"

definition block_start :: "fec_oti \<Rightarrow> nat \<Rightarrow> nat" where
  "block_start oti i = i * small_length oti + min i (large_blocks oti)"

text \<open>The files the code can partition: not empty, parameters not 0, numbers of symbols and blocks
  within the types, and block and symbol numbers within the 16 bits of the maps' keys.\<close>

definition partition_ok :: "fec_oti \<Rightarrow> bool" where
  "partition_ok oti \<longleftrightarrow>
     0 < tlen oti \<and> 0 < slen oti \<and> 0 < max_source_block_length oti \<and> tlen oti < 2 ^ 53 \<and>
     total_symbols oti < 2 ^ 32 \<and> unat (max_source_block_length oti) \<le> 65536 \<and> total_blocks oti \<le> 65536"

lemma total_symbols_pos: "partition_ok oti \<Longrightarrow> 0 < total_symbols oti"
  by (simp add: partition_ok_def total_symbols_def ceil_div_pos)

lemma max_block_pos: "partition_ok oti \<Longrightarrow> 0 < unat (max_source_block_length oti)"
  by (simp add: partition_ok_def word_less_nat_alt)

lemma total_blocks_pos: "partition_ok oti \<Longrightarrow> 0 < total_blocks oti"
  by (simp add: total_blocks_def ceil_div_pos total_symbols_pos max_block_pos)

lemma total_blocks_le: "partition_ok oti \<Longrightarrow> total_blocks oti \<le> total_symbols oti"
  unfolding total_blocks_def by (rule ceil_div_bounds(3)) (rule max_block_pos)

lemma small_length_pos: "partition_ok oti \<Longrightarrow> 0 < small_length oti"
  using total_blocks_pos [of oti] total_blocks_le [of oti] by (simp add: small_length_def div_greater_zero_iff)

lemma block_start_Suc: "block_start oti (Suc i) = block_start oti i + block_len oti i"
  by (auto simp: block_start_def block_len_def min_def)

lemma block_start_0 [simp]: "block_start oti 0 = 0"
  by (simp add: block_start_def)

lemma block_start_total: "partition_ok oti \<Longrightarrow> block_start oti (total_blocks oti) = total_symbols oti"
  using total_blocks_pos [of oti]
  by (simp add: block_start_def small_length_def large_blocks_def min_absorb2 less_imp_le)

lemma block_start_mono: "i \<le> j \<Longrightarrow> block_start oti i \<le> block_start oti j"
  by (simp add: block_start_def add_mono min.coboundedI1 min.mono)

lemma block_end_le:
  assumes "partition_ok oti" and "i < total_blocks oti"
  shows "block_start oti i + block_len oti i \<le> total_symbols oti"
  using block_start_mono [of "Suc i" "total_blocks oti" oti] assms
  by (simp add: block_start_Suc block_start_total)

lemma large_length:
  assumes "partition_ok oti"
  shows "ceil_div (total_symbols oti) (total_blocks oti) =
    small_length oti + (if large_blocks oti = 0 then 0 else 1)"
proof -
  let ?n = "total_symbols oti" and ?b = "total_blocks oti"
  have b: "0 < ?b" using assms by (rule total_blocks_pos)
  have n: "?n = ?n div ?b * ?b + ?n mod ?b" by simp
  show ?thesis
  proof (cases "?n mod ?b = 0")
    case True
    with n ceil_div_mult [OF b, of "?n div ?b"] show ?thesis
      by (simp add: small_length_def large_blocks_def)
  next
    case False
    with n ceil_div_step [of "?n mod ?b" ?b "?n div ?b"] b show ?thesis
      by (simp add: small_length_def large_blocks_def less_imp_le)
  qed
qed

lemma block_len_le:
  assumes "partition_ok oti"
  shows "block_len oti i \<le> unat (max_source_block_length oti)"
proof -
  let ?n = "total_symbols oti" and ?b = "total_blocks oti" and ?m = "unat (max_source_block_length oti)"
  have "?n \<le> ?m * ?b"
    unfolding total_blocks_def using max_block_pos [OF assms] by (rule ceil_div_bounds(1))
  then have "ceil_div ?n ?b \<le> ceil_div (?m * ?b) ?b"
    unfolding ceil_div_def by (intro div_le_mono) simp
  also have "\<dots> = ?m" using total_blocks_pos [OF assms] by (rule ceil_div_mult)
  finally show ?thesis
    using large_length [OF assms] by (auto simp: block_len_def split: if_splits)
qed

text \<open>The code's numbers.\<close>

definition partition_fields :: "fec_oti \<Rightarrow> flute_file \<Rightarrow> flute_file" where
  "partition_fields oti f =
     f\<lparr>fl_nof_source_symbols := of_nat (total_symbols oti), fl_nof_source_blocks := of_nat (total_blocks oti),
       fl_large_source_block_length := of_nat (ceil_div (total_symbols oti) (total_blocks oti)),
       fl_small_source_block_length := of_nat (small_length oti),
       fl_nof_large_source_blocks := of_nat (large_blocks oti)\<rparr>"

lemma to_u32_nat [simp]: "n < 2 ^ 32 \<Longrightarrow> to_u32 (int n) = Inr (of_nat n)"
  by (simp add: to_u32_def)

lemma unat_of_nat32: "n < 2 ^ 32 \<Longrightarrow> unat (of_nat n :: u32) = n"
  by (simp add: unat_of_nat take_bit_nat_eq_self)

lemma calculate_partitioning_eq:
  assumes ok: "partition_ok (fl_oti f)"
  shows "calculate_partitioning f = Inr (partition_fields (fl_oti f) f)"
proof -
  let ?oti = "fl_oti f"
  let ?n = "total_symbols ?oti" and ?b = "total_blocks ?oti"
  have n: "?n < 2 ^ 32" and tl: "tlen ?oti < 2 ^ 53" and e: "0 < slen ?oti"
    using ok by (simp_all add: partition_ok_def)
  have es: "slen ?oti < 2 ^ 53" using u32_bound [of "encoding_symbol_length ?oti"] by simp
  have ms: "unat (max_source_block_length ?oti) < 2 ^ 53"
    using u32_bound [of "max_source_block_length ?oti"] by simp
  have b: "?b < 2 ^ 32" "0 < ?b" using total_blocks_le [OF ok] n total_blocks_pos [OF ok] by simp_all
  have l: "ceil_div ?n ?b < 2 ^ 32"
    using ceil_div_bounds(3) [OF b(2), of ?n] n by simp
  have s: "?n div ?b < 2 ^ 32" using n by (meson div_le_dividend le_less_trans)
  have 1: "fp_ceil_div 53 (tlen ?oti) (slen ?oti) = Inr (int ?n)"
    unfolding total_symbols_def using tl es e by (rule fp_ceil_div_exact)
  have 2: "fp_ceil_div 53 ?n (unat (max_source_block_length ?oti)) = Inr (int ?b)"
    unfolding total_blocks_def using n ms max_block_pos [OF ok] by (intro fp_ceil_div_exact) simp_all
  have 3: "fp_ceil_div 53 ?n ?b = Inr (int (ceil_div ?n ?b))"
    using n b by (intro fp_ceil_div_exact) simp_all
  have 4: "fp_floor_div 53 ?n ?b = Inr (int (?n div ?b))"
    using n b by (intro fp_floor_div_exact) simp_all
  have large: "of_nat ?n - of_nat (?n div ?b) * of_nat ?b = (of_nat (large_blocks ?oti) :: u32)"
  proof -
    have "?n = ?n div ?b * ?b + large_blocks ?oti" by (simp add: large_blocks_def)
    then have "(of_nat ?n :: u32) = of_nat (?n div ?b) * of_nat ?b + of_nat (large_blocks ?oti)"
      by (metis of_nat_add of_nat_mult)
    then show ?thesis by simp
  qed
  show ?thesis
    unfolding calculate_partitioning_def Let_def 1 rbind_Inr to_u32_nat [OF n] unat_of_nat32 [OF n] 2
      to_u32_nat [OF b(1)] unat_of_nat32 [OF b(1)] 3 4 to_u32_nat [OF l] to_u32_nat [OF s] large
    by (simp add: partition_fields_def small_length_def)
qed

section \<open>The blocks\<close>

text \<open>The slot of the \<open>k\<close>th symbol of the file and the blocks as a list of them.\<close>

definition slot_at :: "nat \<Rightarrow> fec_oti \<Rightarrow> nat \<Rightarrow> symbol_slot" where
  "slot_at buf oti k =
     \<lparr>sl_data = Some (buf, k * slen oti), sl_length = of_nat (min (slen oti) (tlen oti - k * slen oti)),
      sl_complete = False, sl_queued = False\<rparr>"

definition block_slots :: "nat \<Rightarrow> fec_oti \<Rightarrow> nat \<Rightarrow> nat \<Rightarrow> (u16, symbol_slot) omap" where
  "block_slots buf oti start n = map (\<lambda>j. (of_nat j, slot_at buf oti (start + j))) [0..<n]"

definition file_blocks :: "nat \<Rightarrow> fec_oti \<Rightarrow> nat \<Rightarrow> (u16, source_block) omap" where
  "file_blocks buf oti n =
     map (\<lambda>i. (of_nat i, \<lparr>sb_complete = False,
       sb_symbols = block_slots buf oti (block_start oti i) (block_len oti i)\<rparr>)) [0..<n]"

lemma of_nat16_less: "i < j \<Longrightarrow> j < 65536 \<Longrightarrow> (of_nat i :: u16) < of_nat j"
  by (simp add: word_less_nat_alt unat_of_nat take_bit_nat_eq_self)

lemma ucast_of_nat: "ucast (of_nat n :: u64) = (of_nat n :: u16)" "ucast (of_nat n :: u32) = (of_nat n :: u16)"
  by (simp_all add: unsigned_of_nat word_of_nat_eq_iff take_bit_take_bit)

lemma om_set_indexed:
  assumes "n < 65536"
  shows "om_set (of_nat n :: u16) v (map (\<lambda>i. (of_nat i, g i)) [0..<n]) =
    map (\<lambda>i. (of_nat i, g i)) [0..<n] @ [(of_nat n, v)]"
  using assms by (intro om_set_last) (auto simp: om_keys_def of_nat16_less)

lemma symbol_before_end:
  assumes "partition_ok oti" and "k < total_symbols oti"
  shows "k * slen oti < tlen oti"
proof -
  have "0 < slen oti" "0 < tlen oti" using assms(1) by (simp_all add: partition_ok_def)
  then have "slen oti * (total_symbols oti - 1) < tlen oti"
    unfolding total_symbols_def by (intro ceil_div_bounds(2))
  moreover have "k * slen oti \<le> slen oti * (total_symbols oti - 1)"
    using assms(2) by (subst mult.commute) (intro mult_le_mono2, simp)
  ultimately show ?thesis by (rule le_less_trans [rotated])
qed

lemma symbols_cover: "partition_ok oti \<Longrightarrow> tlen oti \<le> total_symbols oti * slen oti"
  unfolding total_symbols_def using ceil_div_bounds(1) [of "slen oti" "tlen oti"]
  by (simp add: partition_ok_def mult.commute)

lemma slot_step:
  assumes ok: "partition_ok oti" and k: "k < total_symbols oti"
  shows "min (of_nat (tlen oti - k * slen oti)) (ucast (encoding_symbol_length oti)) =
      (of_nat (min (slen oti) (tlen oti - k * slen oti)) :: u64)"
    and "unat (of_nat (min (slen oti) (tlen oti - k * slen oti)) :: u64) = min (slen oti) (tlen oti - k * slen oti)"
    and "k * slen oti + min (slen oti) (tlen oti - k * slen oti) = min (tlen oti) (Suc k * slen oti)"
    and "of_nat (tlen oti - k * slen oti) - of_nat (min (slen oti) (tlen oti - k * slen oti)) =
      (of_nat (tlen oti - Suc k * slen oti) :: u64)"
    and "(of_nat (tlen oti - Suc k * slen oti) :: u64) = 0 \<longleftrightarrow> Suc k = total_symbols oti"
proof -
  have lt: "k * slen oti < tlen oti" using symbol_before_end [OF assms] .
  have small: "unat (of_nat m :: u64) = m" if "m \<le> tlen oti" for m
    using that u64_bound [of "transfer_length oti"] by (intro unat_of_nat64) simp
  have r: "unat (of_nat (tlen oti - k * slen oti) :: u64) = tlen oti - k * slen oti" by (rule small) simp
  show m: "unat (of_nat (min (slen oti) (tlen oti - k * slen oti)) :: u64) =
      min (slen oti) (tlen oti - k * slen oti)"
    by (rule small) simp
  show "min (of_nat (tlen oti - k * slen oti)) (ucast (encoding_symbol_length oti)) =
      (of_nat (min (slen oti) (tlen oti - k * slen oti)) :: u64)"
    unfolding word_unat_eq_iff m using r by (simp add: min_def word_le_nat_alt)
  show "k * slen oti + min (slen oti) (tlen oti - k * slen oti) = min (tlen oti) (Suc k * slen oti)"
    using lt by simp
  have "tlen oti - Suc k * slen oti = (tlen oti - k * slen oti) - min (slen oti) (tlen oti - k * slen oti)"
    by simp
  then show "of_nat (tlen oti - k * slen oti) - of_nat (min (slen oti) (tlen oti - k * slen oti)) =
      (of_nat (tlen oti - Suc k * slen oti) :: u64)"
    by (simp only: of_nat_diff min.cobounded2)
  have "(of_nat (tlen oti - Suc k * slen oti) :: u64) = 0 \<longleftrightarrow> tlen oti - Suc k * slen oti = 0"
    unfolding unat_eq_0 [symmetric] using small [of "tlen oti - Suc k * slen oti"] by (simp only: diff_le_self)
  also have "\<dots> \<longleftrightarrow> Suc k = total_symbols oti"
  proof
    assume "Suc k = total_symbols oti"
    then show "tlen oti - Suc k * slen oti = 0" using symbols_cover [OF ok] by simp
  next
    assume "tlen oti - Suc k * slen oti = 0"
    then have "\<not> Suc k < total_symbols oti" using symbol_before_end [OF ok, of "Suc k"] by auto
    with k show "Suc k = total_symbols oti" by simp
  qed
  finally show "(of_nat (tlen oti - Suc k * slen oti) :: u64) = 0 \<longleftrightarrow> Suc k = total_symbols oti" .
qed

lemma block_symbols_eq:
  assumes ok: "partition_ok oti" and "start + j + c \<le> total_symbols oti" and "j + c \<le> 65536" and "0 < c"
  shows "block_symbols c buf oti (of_nat j) ((start + j) * slen oti)
      (of_nat (tlen oti - (start + j) * slen oti)) (block_slots buf oti start j) =
    Inr (block_slots buf oti start (j + c), min (tlen oti) ((start + j + c) * slen oti),
      of_nat (tlen oti - (start + j + c) * slen oti))"
  using assms(2-4)
proof (induction c arbitrary: j)
  case (Suc c)
  let ?k = "start + j"
  have k: "?k < total_symbols oti" using Suc.prems by simp
  note step = slot_step [OF ok k]
  have app: "om_set (of_nat j) (slot_at buf oti ?k) (block_slots buf oti start j) = block_slots buf oti start (Suc j)"
    using Suc.prems by (simp add: block_slots_def om_set_indexed)
  have slot: "\<lparr>sl_data = Some (buf, ?k * slen oti),
      sl_length = of_nat (min (slen oti) (tlen oti - ?k * slen oti)), sl_complete = False, sl_queued = False\<rparr> =
    slot_at buf oti ?k"
    by (simp add: slot_at_def)
  have unfold: "block_symbols (Suc c) buf oti (of_nat j) (?k * slen oti) (of_nat (tlen oti - ?k * slen oti))
      (block_slots buf oti start j) =
    (if Suc ?k = total_symbols oti
     then Inr (block_slots buf oti start (Suc j), min (tlen oti) (Suc ?k * slen oti),
            of_nat (tlen oti - Suc ?k * slen oti))
     else block_symbols c buf oti (of_nat (Suc j)) (min (tlen oti) (Suc ?k * slen oti))
            (of_nat (tlen oti - Suc ?k * slen oti)) (block_slots buf oti start (Suc j)))"
    unfolding block_symbols.simps Let_def step(1,2,3,4,5) slot ucast_of_nat app
    by (simp add: add.commute)
  show ?case
  proof (cases "Suc ?k = total_symbols oti")
    case True
    with Suc.prems have "c = 0" by simp
    with unfold True show ?thesis by simp
  next
    case False
    show ?thesis
    proof (cases "c = 0")
      case True
      with unfold False show ?thesis by simp
    next
      case c: False
      have "min (tlen oti) (Suc ?k * slen oti) = Suc ?k * slen oti"
        using symbol_before_end [OF ok, of "Suc ?k"] False k by simp
      then have "block_symbols (Suc c) buf oti (of_nat j) (?k * slen oti) (of_nat (tlen oti - ?k * slen oti))
          (block_slots buf oti start j) =
        block_symbols c buf oti (of_nat (Suc j)) ((start + Suc j) * slen oti)
          (of_nat (tlen oti - (start + Suc j) * slen oti)) (block_slots buf oti start (Suc j))"
        using unfold False by simp
      with Suc.IH [of "Suc j"] Suc.prems c show ?thesis by simp
    qed
  qed
qed simp

lemma block_number_large:
  assumes "partition_ok oti" and "i < total_blocks oti"
  shows "unat (if (of_nat i :: u32) < of_nat (large_blocks oti)
      then of_nat (ceil_div (total_symbols oti) (total_blocks oti)) else of_nat (small_length oti) :: u32) =
    block_len oti i"
proof -
  have n: "total_symbols oti < 2 ^ 32" using assms(1) by (simp add: partition_ok_def)
  have b: "total_blocks oti < 2 ^ 32" using total_blocks_le [OF assms(1)] n by simp
  have "large_blocks oti < total_blocks oti"
    unfolding large_blocks_def using total_blocks_pos [OF assms(1)] by (rule mod_less_divisor)
  then have i: "unat (of_nat i :: u32) = i" "unat (of_nat (large_blocks oti) :: u32) = large_blocks oti"
    using assms(2) b by (simp_all add: unat_of_nat32)
  have "small_length oti \<le> total_symbols oti" by (simp add: small_length_def)
  moreover have "ceil_div (total_symbols oti) (total_blocks oti) \<le> total_symbols oti"
    using total_blocks_pos [OF assms(1)] by (rule ceil_div_bounds(3))
  ultimately have s: "unat (of_nat (small_length oti) :: u32) = small_length oti"
    "unat (of_nat (ceil_div (total_symbols oti) (total_blocks oti)) :: u32) =
      ceil_div (total_symbols oti) (total_blocks oti)"
    using n by (simp_all add: unat_of_nat32)
  show ?thesis
  proof (cases "i < large_blocks oti")
    case True
    then have "unat (if (of_nat i :: u32) < of_nat (large_blocks oti)
        then of_nat (ceil_div (total_symbols oti) (total_blocks oti)) else of_nat (small_length oti) :: u32) =
      ceil_div (total_symbols oti) (total_blocks oti)"
      by (simp only: word_less_nat_alt i s if_True)
    with True large_length [OF assms(1)] show ?thesis by (simp add: block_len_def)
  next
    case False
    then show ?thesis by (simp only: word_less_nat_alt i s if_False block_len_def add_0_right)
  qed
qed

lemma block_loop_eq:
  assumes ok: "partition_ok oti" and "i \<le> total_blocks oti"
  shows "block_loop buf oti (of_nat (large_blocks oti))
      (of_nat (ceil_div (total_symbols oti) (total_blocks oti))) (of_nat (small_length oti)) (of_nat i)
      (min (tlen oti) (block_start oti i * slen oti)) (of_nat (tlen oti - block_start oti i * slen oti))
      (file_blocks buf oti i) =
    Some (Inr (file_blocks buf oti (total_blocks oti)))"
  using assms(2)
proof (induction "total_blocks oti - i" arbitrary: i)
  case 0
  then have i: "i = total_blocks oti" by simp
  have "tlen oti - block_start oti i * slen oti = 0"
    using symbols_cover [OF ok] by (simp add: i block_start_total [OF ok])
  then show ?case by (subst block_loop.simps) (simp add: i)
next
  case (Suc d)
  then have i: "i < total_blocks oti" by simp
  let ?s = "block_start oti i" and ?l = "block_len oti i"
  have l: "0 < ?l" using small_length_pos [OF ok] by (simp add: block_len_def)
  have le: "?s + ?l \<le> total_symbols oti" using block_end_le [OF ok i] .
  then have lt: "?s * slen oti < tlen oti" using l by (intro symbol_before_end [OF ok]) simp
  have "?l \<le> 65536" using block_len_le [OF ok, of i] ok by (simp add: partition_ok_def)
  have syms: "block_symbols ?l buf oti 0 (?s * slen oti) (of_nat (tlen oti - ?s * slen oti)) [] =
      Inr (block_slots buf oti ?s ?l, min (tlen oti) (block_start oti (Suc i) * slen oti),
        of_nat (tlen oti - block_start oti (Suc i) * slen oti))"
    using block_symbols_eq [OF ok, of ?s 0 ?l buf] le \<open>?l \<le> 65536\<close> l
    by (simp add: block_slots_def block_start_Suc)
  have "unat (of_nat (tlen oti - ?s * slen oti) :: u64) = tlen oti - ?s * slen oti"
    using u64_bound [of "transfer_length oti"] by (intro unat_of_nat64) simp
  then have nz: "(of_nat (tlen oti - ?s * slen oti) :: u64) \<noteq> 0"
    unfolding unat_eq_0 [symmetric] using lt by simp
  have "total_blocks oti \<le> 65536" using ok by (simp add: partition_ok_def)
  then have add: "om_set (of_nat i) \<lparr>sb_complete = False, sb_symbols = block_slots buf oti ?s ?l\<rparr>
      (file_blocks buf oti i) = file_blocks buf oti (Suc i)"
    using i by (simp add: file_blocks_def om_set_indexed)
  have min: "min (tlen oti) (?s * slen oti) = ?s * slen oti" using lt by simp
  have step: "block_loop buf oti (of_nat (large_blocks oti))
      (of_nat (ceil_div (total_symbols oti) (total_blocks oti))) (of_nat (small_length oti)) (of_nat i)
      (min (tlen oti) (?s * slen oti)) (of_nat (tlen oti - ?s * slen oti)) (file_blocks buf oti i) =
    block_loop buf oti (of_nat (large_blocks oti))
      (of_nat (ceil_div (total_symbols oti) (total_blocks oti))) (of_nat (small_length oti)) (of_nat (Suc i))
      (min (tlen oti) (block_start oti (Suc i) * slen oti)) (of_nat (tlen oti - block_start oti (Suc i) * slen oti))
      (file_blocks buf oti (Suc i))"
    by (subst block_loop.simps)
      (simp only: nz if_False block_number_large [OF ok i] min syms sum.case prod.case ucast_of_nat add of_nat_Suc add.commute [of 1])
  show ?case
    unfolding step using Suc.hyps(1) [of "Suc i"] Suc.hyps(2) i by simp
qed

definition created_file :: "nat \<Rightarrow> flute_file \<Rightarrow> flute_file" where
  "created_file buf f =
     (partition_fields (fl_oti f) f)\<lparr>fl_source_blocks := file_blocks buf (fl_oti f) (total_blocks (fl_oti f))\<rparr>"

lemma partition_and_create_eq:
  assumes "partition_ok (fl_oti f)" and "fl_source_blocks f = []"
  shows "partition_and_create buf f = Some (Inr (created_file buf f))"
proof -
  have "file_blocks buf (fl_oti f) 0 = []" by (simp add: file_blocks_def)
  with block_loop_eq [OF assms(1), of 0 buf] assms show ?thesis
    by (simp add: partition_and_create_def calculate_partitioning_eq create_blocks_def partition_fields_def
        created_file_def)
qed

section \<open>Looking blocks and symbols up\<close>

lemma om_get_indexed:
  assumes "n \<le> 65536"
  shows "om_get (map (\<lambda>i. (of_nat i :: u16, g i)) [0..<n]) k = (if unat k < n then Some (g (unat k)) else None)"
proof -
  have u: "unat (of_nat i :: u16) = i" if "i < n" for i
    using that assms by (simp add: unat_of_nat take_bit_nat_eq_self)
  have "om_ok (map (\<lambda>i. (of_nat i :: u16, g i)) [0..<n])"
    using assms by (auto simp: om_ok_def om_keys_def sorted_wrt_iff_nth_less of_nat16_less)
  moreover have "(k, g (unat k)) \<in> set (map (\<lambda>i. (of_nat i :: u16, g i)) [0..<n])" if "unat k < n"
    using that by (auto intro!: image_eqI [of _ _ "unat k"])
  moreover have "k \<notin> set (om_keys (map (\<lambda>i. (of_nat i :: u16, g i)) [0..<n]))" if "\<not> unat k < n"
    using that by (auto simp: om_keys_def u)
  ultimately show ?thesis
    by (simp add: om_in_set_get om_get_None_iff)
qed

lemma om_ok_indexed: "n \<le> 65536 \<Longrightarrow> om_ok (map (\<lambda>i. (of_nat i :: u16, g i)) [0..<n])"
  by (auto simp: om_ok_def om_keys_def sorted_wrt_iff_nth_less of_nat16_less)

text \<open>The slot of a file with a source block number and a symbol identifier.\<close>

definition slot_of :: "flute_file \<Rightarrow> u16 \<Rightarrow> u16 \<Rightarrow> symbol_slot option" where
  "slot_of f sbn esi =
     (case om_get (fl_source_blocks f) sbn of None \<Rightarrow> None | Some b \<Rightarrow> om_get (sb_symbols b) esi)"

lemma slot_of_created:
  assumes "partition_ok (fl_oti f)"
  shows "slot_of (created_file buf f) sbn esi =
    (if unat sbn < total_blocks (fl_oti f) \<and> unat esi < block_len (fl_oti f) (unat sbn)
     then Some (slot_at buf (fl_oti f) (block_start (fl_oti f) (unat sbn) + unat esi)) else None)"
proof -
  have n: "total_blocks (fl_oti f) \<le> 65536" "block_len (fl_oti f) i \<le> 65536" for i
    using assms block_len_le [OF assms, of i] by (simp_all add: partition_ok_def)
  show ?thesis
    by (simp add: slot_of_def created_file_def file_blocks_def block_slots_def om_get_indexed n)
qed

text \<open>Every symbol of the file is in exactly one block.\<close>

lemma block_of_symbol:
  assumes ok: "partition_ok oti" and "k < total_symbols oti"
  shows "\<exists>!i. i < total_blocks oti \<and> block_start oti i \<le> k \<and> k < block_start oti i + block_len oti i"
proof -
  have "\<exists>i < N. block_start oti i \<le> k \<and> k < block_start oti (Suc i)" if "k < block_start oti N" for N
    using that
  proof (induction N)
    case (Suc N)
    then show ?case by (cases "k < block_start oti N") (auto simp: not_less less_Suc_eq)
  qed simp
  from this [of "total_blocks oti"] assms(2)
  have "\<exists>i < total_blocks oti. block_start oti i \<le> k \<and> k < block_start oti (Suc i)"
    unfolding block_start_total [OF ok] by blast
  moreover have "i = j" if "block_start oti i \<le> k" "k < block_start oti (Suc i)"
    "block_start oti j \<le> k" "k < block_start oti (Suc j)" for i j
    using that block_start_mono [of "Suc i" j oti] block_start_mono [of "Suc j" i oti]
    by (cases i j rule: linorder_cases) auto
  ultimately show ?thesis by (auto simp: block_start_Suc)
qed

text \<open>(C4) A file that is announced with a nonempty content and usable parameters is set up: the
  arithmetic in double precision gives the partition of RFC 5052, the loop over the blocks ends, block
  \<open>i\<close> has its \<open>block_len\<close> symbols (the first ones one symbol more than the others), symbol \<open>j\<close> of it is
  the symbol \<open>block_start + j\<close> of the file with its place in the buffer, and there are no others.\<close>
theorem file_partition_rfc5052:
  assumes "malloc (tlen (fe_fec_oti entry)) = Some buf" and "partition_ok (fe_fec_oti entry)"
  shows "\<exists>f. file_of_entry malloc now entry = Some (Inr f) \<and>
    unat (fl_nof_source_symbols f) = total_symbols (fe_fec_oti entry) \<and>
    unat (fl_nof_source_blocks f) = total_blocks (fe_fec_oti entry) \<and>
    (\<forall>sbn esi. slot_of f sbn esi =
      (if unat sbn < total_blocks (fe_fec_oti entry) \<and> unat esi < block_len (fe_fec_oti entry) (unat sbn)
       then Some (slot_at 0 (fe_fec_oti entry) (block_start (fe_fec_oti entry) (unat sbn) + unat esi))
       else None)) \<and>
    block_start (fe_fec_oti entry) (total_blocks (fe_fec_oti entry)) = total_symbols (fe_fec_oti entry) \<and>
    (\<forall>i. block_len (fe_fec_oti entry) i \<le> unat (max_source_block_length (fe_fec_oti entry)))"
proof -
  let ?f = "file_with entry True buf now None"
  have ok: "partition_ok (fl_oti ?f)" using assms(2) by (simp add: file_with_def)
  have f: "file_of_entry malloc now entry = Some (Inr (created_file 0 ?f))"
    using assms(1) partition_and_create_eq [OF ok, of 0] by (simp add: file_of_entry_def) (simp add: file_with_def)
  have n: "total_symbols (fe_fec_oti entry) < 2 ^ 32" using assms(2) by (simp add: partition_ok_def)
  have b: "total_blocks (fe_fec_oti entry) < 2 ^ 32" using total_blocks_le [OF assms(2)] n by simp
  have "unat (fl_nof_source_symbols (created_file 0 ?f)) = total_symbols (fe_fec_oti entry)"
    "unat (fl_nof_source_blocks (created_file 0 ?f)) = total_blocks (fe_fec_oti entry)"
    using n b by (simp_all add: created_file_def partition_fields_def file_with_def unat_of_nat32)
  with f slot_of_created [OF ok, of 0] block_start_total [OF assms(2)] block_len_le [OF assms(2)]
  show ?thesis by (simp add: file_with_def)
qed

definition example_file_entry :: file_entry where
  "example_file_entry =
     example_entry\<lparr>fe_fec_oti := fec_oti_zero\<lparr>transfer_length := 10, encoding_symbol_length := 4,
       max_source_block_length := 2\<rparr>, content_length := 10\<rparr>"

lemma example_partition:
  "partition_ok (fe_fec_oti example_file_entry)" "total_symbols (fe_fec_oti example_file_entry) = 3"
  "total_blocks (fe_fec_oti example_file_entry) = 2" "small_length (fe_fec_oti example_file_entry) = 1"
  "large_blocks (fe_fec_oti example_file_entry) = 1"
  by (simp_all add: partition_ok_def total_symbols_def total_blocks_def small_length_def large_blocks_def
      ceil_div_def example_file_entry_def word_less_nat_alt)

text \<open>Ten bytes in symbols of four, two to a block: blocks of two symbols and of one of two bytes.\<close>
theorem file_partition_rfc5052_witness:
  "\<exists>f. file_of_entry (\<lambda>n. Some (replicate n 0)) 0 example_file_entry = Some (Inr f) \<and>
     unat (fl_nof_source_blocks f) = 2 \<and> slot_of f 0 1 = Some (slot_at 0 (fe_fec_oti example_file_entry) 1) \<and>
     slot_of f 1 0 = Some (slot_at 0 (fe_fec_oti example_file_entry) 2) \<and> slot_of f 1 1 = None"
proof -
  note p = example_partition
  from file_partition_rfc5052 [OF _ p(1), of "\<lambda>n. Some (replicate n 0)" "replicate 10 0" 0]
  obtain f where f: "file_of_entry (\<lambda>n. Some (replicate n 0)) 0 example_file_entry = Some (Inr f)"
    "unat (fl_nof_source_blocks f) = total_blocks (fe_fec_oti example_file_entry)"
    and s: "\<forall>sbn esi. slot_of f sbn esi =
      (if unat sbn < total_blocks (fe_fec_oti example_file_entry) \<and>
          unat esi < block_len (fe_fec_oti example_file_entry) (unat sbn)
       then Some (slot_at 0 (fe_fec_oti example_file_entry)
              (block_start (fe_fec_oti example_file_entry) (unat sbn) + unat esi))
       else None)"
    by (auto simp: example_file_entry_def)
  have "slot_of f 0 1 = Some (slot_at 0 (fe_fec_oti example_file_entry) 1)"
    "slot_of f 1 0 = Some (slot_at 0 (fe_fec_oti example_file_entry) 2)" "slot_of f 1 1 = None"
    using s by (simp_all add: p block_len_def block_start_def numeral_2_eq_2)
  with f p show ?thesis by auto
qed

text \<open>(C18) The symbols tile the buffer: every byte of the transfer object lies in the slot of exactly one
  symbol, and no slot reaches beyond the object.\<close>
theorem symbols_tile_buffer:
  assumes "malloc (tlen (fe_fec_oti entry)) = Some buf" and "partition_ok (fe_fec_oti entry)"
    and "file_of_entry malloc now entry = Some (Inr f)" and "k < tlen (fe_fec_oti entry)"
  shows "\<exists>!ids. \<exists>s off. slot_of f (fst ids) (snd ids) = Some s \<and> sl_data s = Some (0, off) \<and>
    off + unat (sl_length s) \<le> tlen (fe_fec_oti entry) \<and> off \<le> k \<and> k < off + unat (sl_length s)"
proof -
  let ?oti = "fe_fec_oti entry"
  let ?s = "slen ?oti"
  let ?in = "\<lambda>ids. \<exists>s off. slot_of f (fst ids) (snd ids) = Some s \<and> sl_data s = Some (0, off) \<and>
    off + unat (sl_length s) \<le> tlen ?oti \<and> off \<le> k \<and> k < off + unat (sl_length s)"
  note ok = assms(2)
  have e: "0 < ?s" using ok by (simp add: partition_ok_def)
  from file_partition_rfc5052 [where malloc = malloc and entry = entry and buf = buf and now = now,
      OF assms(1,2)] assms(3)
  have slot: "slot_of f sbn esi =
      (if unat sbn < total_blocks ?oti \<and> unat esi < block_len ?oti (unat sbn)
       then Some (slot_at 0 ?oti (block_start ?oti (unat sbn) + unat esi)) else None)" for sbn esi
    by simp
  have inside: "q * ?s + unat (sl_length (slot_at 0 ?oti q)) \<le> tlen ?oti"
    and extent: "q * ?s \<le> k \<and> k < q * ?s + unat (sl_length (slot_at 0 ?oti q)) \<longleftrightarrow> q = k div ?s"
    if q: "q < total_symbols ?oti" for q
  proof -
    have l: "unat (sl_length (slot_at 0 ?oti q)) = min ?s (tlen ?oti - q * ?s)"
      using slot_step(2) [OF ok q] by (simp add: slot_at_def)
    show "q * ?s + unat (sl_length (slot_at 0 ?oti q)) \<le> tlen ?oti"
      using symbol_before_end [OF ok q] by (simp add: l)
    have "q * ?s \<le> k \<and> k < q * ?s + ?s \<longleftrightarrow> q = k div ?s"
      using e by (metis add.commute div_nat_eqI div_times_less_eq_dividend dividend_less_div_times mult.commute mult_Suc)
    then show "q * ?s \<le> k \<and> k < q * ?s + unat (sl_length (slot_at 0 ?oti q)) \<longleftrightarrow> q = k div ?s"
      unfolding l using assms(4) by auto
  qed
  let ?q = "k div ?s"
  have "k < total_symbols ?oti * ?s" using symbols_cover [OF ok] assms(4) by simp
  then have q: "?q < total_symbols ?oti" using e by (simp add: less_mult_imp_div_less)
  from block_of_symbol [OF ok this] obtain i where i: "i < total_blocks ?oti" "block_start ?oti i \<le> ?q"
    "?q < block_start ?oti i + block_len ?oti i"
    and uniq: "\<And>i'. i' < total_blocks ?oti \<Longrightarrow> block_start ?oti i' \<le> ?q \<Longrightarrow>
      ?q < block_start ?oti i' + block_len ?oti i' \<Longrightarrow> i' = i"
    by blast
  define j where "j = ?q - block_start ?oti i"
  have j: "block_start ?oti i + j = ?q" "j < block_len ?oti i" using i by (simp_all add: j_def)
  have "i < 65536" "j < 65536"
    using i j block_len_le [OF ok, of i] ok by (simp_all add: partition_ok_def)
  then have u: "unat (of_nat i :: u16) = i" "unat (of_nat j :: u16) = j"
    by (simp_all add: unat_of_nat take_bit_nat_eq_self)
  show ?thesis
  proof (rule ex1I [of _ "(of_nat i, of_nat j)"])
    show "?in (of_nat i, of_nat j)"
      using slot [of "of_nat i" "of_nat j"] i(1) j inside [OF q] extent [OF q]
      by (auto simp: u slot_at_def)
  next
    fix ids :: "u16 \<times> u16"
    assume "?in ids"
    then obtain s off where s: "slot_of f (fst ids) (snd ids) = Some s" "sl_data s = Some (0, off)"
      "off \<le> k" "k < off + unat (sl_length s)" by blast
    let ?r = "block_start ?oti (unat (fst ids)) + unat (snd ids)"
    have b: "unat (fst ids) < total_blocks ?oti" "unat (snd ids) < block_len ?oti (unat (fst ids))"
      and sl: "s = slot_at 0 ?oti ?r"
      using s(1) by (simp_all add: slot split: if_splits)
    then have "?r < total_symbols ?oti" using block_end_le [OF ok b(1)] by simp
    then have r: "?r = ?q" using s sl extent by (auto simp: slot_at_def)
    then have "unat (fst ids) = i" using uniq [OF b(1)] b(2) by simp
    with r j(1) have "unat (snd ids) = j" by simp
    with \<open>unat (fst ids) = i\<close> show "ids = (of_nat i, of_nat j)"
      by (metis of_nat_unat prod.collapse ucast_id)
  qed
qed

text \<open>Byte 9 of the example is in the only symbol of the second block.\<close>
theorem symbols_tile_buffer_witness:
  "\<exists>f. file_of_entry (\<lambda>n. Some (replicate n 0)) 0 example_file_entry = Some (Inr f) \<and>
     (\<exists>!ids. \<exists>s off. slot_of f (fst ids) (snd ids) = Some s \<and> sl_data s = Some (0, off) \<and>
       off + unat (sl_length s) \<le> 10 \<and> off \<le> 9 \<and> 9 < off + unat (sl_length s))"
proof -
  have m: "(\<lambda>n. Some (replicate n (0 :: byte))) (tlen (fe_fec_oti example_file_entry)) = Some (replicate 10 0)"
    and t: "tlen (fe_fec_oti example_file_entry) = 10"
    by (simp_all add: example_file_entry_def)
  from file_partition_rfc5052 [where malloc = "\<lambda>n. Some (replicate n 0)" and now = 0, OF m example_partition(1)]
  obtain f where f: "file_of_entry (\<lambda>n. Some (replicate n 0)) 0 example_file_entry = Some (Inr f)" by blast
  from symbols_tile_buffer [where malloc = "\<lambda>n. Some (replicate n 0)" and now = 0 and k = 9,
      OF m example_partition(1) f] t f show ?thesis by auto
qed

text \<open>An announced file that is empty, or for which the table gives a symbol length or a maximum
  source block length of 0, makes the constructor convert a quotient by zero to an integer, which is
  undefined: none of the three is checked before the division.\<close>
theorem partition_division_by_zero:
  assumes "malloc (tlen (fe_fec_oti entry)) = Some buf"
    and "transfer_length (fe_fec_oti entry) = 0 \<or> encoding_symbol_length (fe_fec_oti entry) = 0 \<or>
      max_source_block_length (fe_fec_oti entry) = 0 \<and> tlen (fe_fec_oti entry) < 2 ^ 32"
  shows "file_of_entry malloc now entry = Some (Inl (Undefined ''float conversion''))"
proof -
  let ?f = "file_with entry True buf now None" and ?oti = "fe_fec_oti entry"
  have oti: "fl_oti ?f = ?oti" by (simp add: file_with_def)
  have small: "slen ?oti < 2 ^ 53" "unat (max_source_block_length ?oti) < 2 ^ 53"
    using u32_bound [of "encoding_symbol_length ?oti"] u32_bound [of "max_source_block_length ?oti"] by simp_all
  have "calculate_partitioning ?f = Inl (Undefined ''float conversion'')"
  proof (cases "encoding_symbol_length ?oti = 0")
    case True
    then show ?thesis
      unfolding calculate_partitioning_def oti by (simp add: fp_ceil_div_zero)
  next
    case esl: False
    then have e: "0 < slen ?oti" by (simp add: unat_gt_0)
    let ?n = "ceil_div (tlen ?oti) (slen ?oti)"
    have t: "tlen ?oti < 2 ^ 32" using assms(2) esl by auto
    then have n: "?n < 2 ^ 32" using ceil_div_bounds(3) [OF e, of "tlen ?oti"] by simp
    have 1: "fp_ceil_div 53 (tlen ?oti) (slen ?oti) = Inr (int ?n)"
      using t small(1) e by (intro fp_ceil_div_exact) simp_all
    show ?thesis
    proof (cases "max_source_block_length ?oti = 0")
      case True
      then show ?thesis
        unfolding calculate_partitioning_def oti Let_def 1 rbind_Inr to_u32_nat [OF n]
        by (simp add: fp_ceil_div_zero)
    next
      case False
      with assms(2) esl have tl: "tlen ?oti = 0" by simp
      then have z: "?n = 0" using e by (simp add: ceil_div_def)
      have m: "0 < unat (max_source_block_length ?oti)" using False by (simp add: unat_gt_0)
      have 2: "fp_ceil_div 53 0 (unat (max_source_block_length ?oti)) = Inr (int 0)"
        using fp_ceil_div_exact [of 0 53 "unat (max_source_block_length ?oti)"] small(2) m by (simp add: ceil_div_def)
      have z32: "to_u32 (int 0) = Inr 0" by (simp add: to_u32_def)
      show ?thesis
        unfolding calculate_partitioning_def oti Let_def 1 z z32 rbind_Inr unat_0 2
        by (simp add: fp_ceil_div_zero)
    qed
  qed
  with assms(1) show ?thesis by (simp add: file_of_entry_def partition_and_create_def)
qed

theorem partition_division_by_zero_witness:
  "file_of_entry (\<lambda>n. Some (replicate n 0)) 0
     (example_entry\<lparr>fe_fec_oti := fec_oti_zero\<lparr>encoding_symbol_length := 1400, max_source_block_length := 64\<rparr>\<rparr>) =
   Some (Inl (Undefined ''float conversion''))"
  by (rule partition_division_by_zero [of _ _ "[]"]) (simp_all add: fec_oti_zero_def)

end
