(* ===== verification/File_Reassembly.thy ===== *)
theory File_Reassembly
  imports File_Partition
begin

text \<open>
  Receiving a file: \<^verbatim>\<open>put_symbol\<close> stores symbols in any order and any number of times; once each symbol
  has come the file is complete and its buffer is the transfer object. Then what symbols that the
  sender of the file did not send do to it.
\<close>

section \<open>The state after some symbols\<close>

text \<open>A set \<open>R\<close> of received symbols, as pairs of source block number and symbol identifier.\<close>

definition symbol_index :: "fec_oti \<Rightarrow> nat \<times> nat \<Rightarrow> nat" where
  "symbol_index oti ij = block_start oti (fst ij) + snd ij"

definition symbol_pairs :: "fec_oti \<Rightarrow> (nat \<times> nat) set" where
  "symbol_pairs oti = {(i, j). i < total_blocks oti \<and> j < block_len oti i}"

definition recv_slot :: "fec_oti \<Rightarrow> (nat \<times> nat) set \<Rightarrow> nat \<Rightarrow> nat \<Rightarrow> symbol_slot" where
  "recv_slot oti R i j = (slot_at 0 oti (block_start oti i + j))\<lparr>sl_complete := (i, j) \<in> R\<rparr>"

definition recv_block :: "fec_oti \<Rightarrow> (nat \<times> nat) set \<Rightarrow> nat \<Rightarrow> source_block" where
  "recv_block oti R i =
     \<lparr>sb_complete = (\<forall>j < block_len oti i. (i, j) \<in> R),
      sb_symbols = map (\<lambda>j. (of_nat j, recv_slot oti R i j)) [0..<block_len oti i]\<rparr>"

definition recv_blocks :: "fec_oti \<Rightarrow> (nat \<times> nat) set \<Rightarrow> (u16, source_block) omap" where
  "recv_blocks oti R = map (\<lambda>i. (of_nat i, recv_block oti R i)) [0..<total_blocks oti]"

definition bytes_agree :: "fec_oti \<Rightarrow> (nat \<times> nat) set \<Rightarrow> byte list \<Rightarrow> byte list \<Rightarrow> bool" where
  "bytes_agree oti R data buf \<longleftrightarrow>
     (\<forall>b < tlen oti. (\<exists>ij \<in> R \<inter> symbol_pairs oti. b div slen oti = symbol_index oti ij) \<longrightarrow> buf ! b = data ! b)"

definition receiving :: "fec_oti \<Rightarrow> byte list \<Rightarrow> (nat \<times> nat) set \<Rightarrow> flute_file \<Rightarrow> bool" where
  "receiving oti data R f \<longleftrightarrow>
     fl_oti f = oti \<and> fl_source_blocks f = recv_blocks oti R \<and>
     (fl_complete f \<longleftrightarrow> symbol_pairs oti \<subseteq> R) \<and> fl_buffer f = Some 0 \<and> \<not> fl_been_decoded f \<and>
     (\<exists>buf. fl_heap f = [Some buf] \<and> length buf = tlen oti \<and> bytes_agree oti R data buf)"

lemma om_set_index:
  assumes "i < n" and "n \<le> 65536"
  shows "om_set (of_nat i :: u16) v (map (\<lambda>i. (of_nat i, g i)) [0..<n]) =
    map (\<lambda>k. (of_nat k, if k = i then v else g k)) [0..<n]"
proof -
  have split: "[0..<n] = [0..<i] @ i # [Suc i..<n]"
    using assms(1) by (metis le_add1 le_add_same_cancel1 less_imp_add_positive upt_add_eq_append upt_conv_Cons less_imp_le_nat)
  have skip: "om_set k v (xs @ (k, w) # ys) = xs @ (k, v) # ys" if "\<forall>x \<in> set xs. fst x < k" for k :: u16 and w xs ys
    using that
  proof (induction xs)
    case (Cons x xs)
    obtain a b where x: "x = (a, b)" by (cases x)
    with Cons.prems have "\<not> k < a" "k \<noteq> a" by auto
    with Cons x show ?case by simp
  qed simp
  have "om_set (of_nat i) v (map (\<lambda>i. (of_nat i :: u16, g i)) [0..<n]) =
      map (\<lambda>i. (of_nat i, g i)) [0..<i] @ (of_nat i, v) # map (\<lambda>i. (of_nat i, g i)) [Suc i..<n]"
    unfolding split list.map map_append
    by (rule skip) (use assms in \<open>auto simp: of_nat16_less\<close>)
  also have "\<dots> = map (\<lambda>k. (of_nat k, if k = i then v else g k)) [0..<n]"
    unfolding split list.map map_append by auto
  finally show ?thesis .
qed

lemma partition_bounds:
  assumes "partition_ok oti"
  shows "total_blocks oti \<le> 65536" "block_len oti i \<le> 65536"
  using assms block_len_le [OF assms, of i] by (simp_all add: partition_ok_def)

lemma symbol_index_less:
  "partition_ok oti \<Longrightarrow> ij \<in> symbol_pairs oti \<Longrightarrow> symbol_index oti ij < total_symbols oti"
  using block_end_le [of oti "fst ij"] by (force simp: symbol_pairs_def symbol_index_def)

lemma symbol_of_byte:
  assumes ok: "partition_ok oti" and "b < tlen oti"
  shows "\<exists>ij \<in> symbol_pairs oti. b div slen oti = symbol_index oti ij"
proof -
  have "b < total_symbols oti * slen oti" using symbols_cover [OF ok] assms(2) by simp
  then have "b div slen oti < total_symbols oti" by (simp add: less_mult_imp_div_less)
  from block_of_symbol [OF ok this] obtain i where i: "i < total_blocks oti"
    "block_start oti i \<le> b div slen oti" "b div slen oti < block_start oti i + block_len oti i" by blast
  then have "(i, b div slen oti - block_start oti i) \<in> symbol_pairs oti"
    "b div slen oti = symbol_index oti (i, b div slen oti - block_start oti i)"
    by (auto simp: symbol_pairs_def symbol_index_def)
  then show ?thesis by blast
qed

lemma symbol_extent:
  assumes "partition_ok oti" and "b < tlen oti"
  shows "b div slen oti = k \<longleftrightarrow> k * slen oti \<le> b \<and> b < k * slen oti + min (slen oti) (tlen oti - k * slen oti)"
proof -
  have e: "0 < slen oti" using assms(1) by (simp add: partition_ok_def)
  have "b div slen oti = k \<longleftrightarrow> k * slen oti \<le> b \<and> b < k * slen oti + slen oti"
  proof
    assume "b div slen oti = k"
    then have "b = k * slen oti + b mod slen oti" by (metis div_mult_mod_eq)
    with e show "k * slen oti \<le> b \<and> b < k * slen oti + slen oti"
      by (metis le_add1 mod_less_divisor nat_add_left_cancel_less)
  next
    assume "k * slen oti \<le> b \<and> b < k * slen oti + slen oti"
    then show "b div slen oti = k" by (intro div_nat_eqI) (simp_all add: mult.commute)
  qed
  with assms(2) show ?thesis by auto
qed

lemma bytes_agree_all:
  assumes "partition_ok oti" and "bytes_agree oti R data buf" and "symbol_pairs oti \<subseteq> R"
    and "length buf = tlen oti" and "length data = tlen oti"
  shows "buf = data"
proof (rule nth_equalityI)
  fix b assume "b < length buf"
  with assms symbol_of_byte [OF assms(1), of b] show "buf ! b = data ! b"
    by (auto simp: bytes_agree_def)
qed (simp add: assms)

lemma bytes_agree_store:
  assumes ok: "partition_ok oti" and agree: "bytes_agree oti R data buf" and ij: "ij \<in> symbol_pairs oti"
    and len: "length buf = tlen oti" "length data = tlen oti"
  defines "off \<equiv> symbol_index oti ij * slen oti"
    and "n \<equiv> min (slen oti) (tlen oti - symbol_index oti ij * slen oti)"
  shows "\<exists>buf'. write_bytes buf off (take n (drop off data)) = Inr buf' \<and> length buf' = tlen oti \<and>
    bytes_agree oti (insert ij R) data buf'"
proof -
  let ?bs = "take n (drop off data)"
  have "off < tlen oti"
    unfolding off_def using symbol_before_end [OF ok symbol_index_less [OF ok ij]] .
  then have n: "off + n \<le> tlen oti" by (simp add: n_def off_def)
  have l: "length ?bs = n" using n len by simp
  have w: "write_bytes buf off ?bs = Inr (take off buf @ ?bs @ drop (off + n) buf)"
    using n len by (simp add: write_bytes_def l)
  have "(take off buf @ ?bs @ drop (off + n) buf) ! b =
      (if b div slen oti = symbol_index oti ij then data ! b else buf ! b)" if b: "b < tlen oti" for b
  proof -
    have "b div slen oti = symbol_index oti ij \<longleftrightarrow> off \<le> b \<and> b < off + n"
      unfolding off_def n_def by (rule symbol_extent [OF ok b])
    with n len l b show ?thesis by (auto simp: nth_append)
  qed
  then have "bytes_agree oti (insert ij R) data (take off buf @ ?bs @ drop (off + n) buf)"
    using agree by (auto simp: bytes_agree_def)
  moreover have "length (take off buf @ ?bs @ drop (off + n) buf) = tlen oti"
    using n len l by simp
  ultimately show ?thesis using w by blast
qed

section \<open>Receiving a symbol of the file\<close>

text \<open>A symbol as the sender of \<open>data\<close> makes it.\<close>

definition genuine :: "fec_oti \<Rightarrow> byte list \<Rightarrow> nat \<times> nat \<Rightarrow> encoding_symbol \<Rightarrow> bool" where
  "genuine oti data ij s \<longleftrightarrow>
     ij \<in> symbol_pairs oti \<and> unat (es_source_block_number s) = fst ij \<and> unat (es_id s) = snd ij \<and>
     es_fec_scheme s = CompactNoCode \<and>
     unat (es_len s) = min (slen oti) (tlen oti - symbol_index oti ij * slen oti) \<and>
     symbol_bytes s = Inr (take (unat (es_len s)) (drop (symbol_index oti ij * slen oti) data))"

text \<open>What the completed file has to be checked against, if anything.\<close>

definition md5_ok :: "(byte list \<Rightarrow> byte list) \<Rightarrow> byte list \<Rightarrow> file_entry \<Rightarrow> bool" where
  "md5_ok md5 data m \<longleftrightarrow>
     content_md5 m = [] \<or> fe_content_encoding m \<noteq> [] \<or>
     length (md5 data) = 16 \<and> content_md5 m = base64_encode (md5 data) False"

lemma verify_md5_ok:
  assumes "buffer_bytes f (unat (file_length f)) = Inr data" and "length (md5 data) = 16"
    and "content_md5 (fl_meta f) = base64_encode (md5 data) False"
  shows "verify_md5 md5 f = (Inr (), f)"
  using assms
  by (simp add: verify_md5_def md5_agrees_def base64_decode_encode digest_matches_def read_bytes_def)

lemma receiving_content:
  assumes "partition_ok oti" and "receiving oti data R f" and "symbol_pairs oti \<subseteq> R" and "length data = tlen oti"
  shows "buffer_bytes f (tlen oti) = Inr data" and "unat (file_length f) = tlen oti"
proof -
  from assms(2) obtain buf where buf: "fl_heap f = [Some buf]" "length buf = tlen oti"
    "bytes_agree oti R data buf" and f: "fl_buffer f = Some 0" "\<not> fl_been_decoded f" "fl_oti f = oti"
    by (auto simp: receiving_def)
  then have "buf = data" using bytes_agree_all assms by blast
  with buf f show "buffer_bytes f (tlen oti) = Inr data"
    by (auto simp: buffer_bytes_def heap_at_def read_bytes_def)
  show "unat (file_length f) = tlen oti" using f by (simp add: file_length_def)
qed

lemma recv_all_complete:
  "list_all (\<lambda>(_, b). sb_complete b) (recv_blocks oti R) \<longleftrightarrow> symbol_pairs oti \<subseteq> R"
  by (auto simp: recv_blocks_def recv_block_def list_all_iff symbol_pairs_def)

lemma check_file_completion_receiving:
  assumes ok: "partition_ok oti" and "length data = tlen oti" and "md5_ok md5 data (fl_meta f)"
    and "receiving oti data R (f\<lparr>fl_complete := symbol_pairs oti \<subseteq> R\<rparr>)"
  shows "check_file_completion md5 f = (Inr (), f\<lparr>fl_complete := symbol_pairs oti \<subseteq> R\<rparr>)"
proof -
  let ?f = "f\<lparr>fl_complete := symbol_pairs oti \<subseteq> R\<rparr>"
  have all: "list_all (\<lambda>(_, b). sb_complete b) (fl_source_blocks f) = (symbol_pairs oti \<subseteq> R)"
    using assms(4) by (simp add: receiving_def recv_all_complete)
  show ?thesis
  proof (cases "symbol_pairs oti \<subseteq> R \<and> content_md5 (fl_meta f) \<noteq> [] \<and> fe_content_encoding (fl_meta f) = []")
    case True
    then have "verify_md5 md5 ?f = (Inr (), ?f)"
      using receiving_content [OF ok assms(4) _ assms(2)] assms(3)
      by (intro verify_md5_ok) (simp_all add: md5_ok_def)
    with True all show ?thesis
      unfolding check_file_completion_def Let_def all by simp
  next
    case False
    then show ?thesis
      unfolding check_file_completion_def Let_def all by auto
  qed
qed

lemma recv_block_update:
  assumes "partition_ok oti" and "j < block_len oti i"
  shows "om_set (of_nat j) ((recv_slot oti R i j)\<lparr>sl_complete := True\<rparr>) (sb_symbols (recv_block oti R i)) =
    sb_symbols (recv_block oti (insert (i, j) R) i)"
  unfolding recv_block_def source_block.simps
  by (subst om_set_index [OF assms(2) partition_bounds(2) [OF assms(1)]])
    (auto simp: recv_slot_def slot_at_def)

lemma recv_blocks_update:
  assumes "partition_ok oti" and "i < total_blocks oti"
  shows "om_set (of_nat i) (recv_block oti (insert (i, j) R) i) (recv_blocks oti R) =
    recv_blocks oti (insert (i, j) R)"
  unfolding recv_blocks_def
  by (subst om_set_index [OF assms(2) partition_bounds(1) [OF assms(1)]])
    (auto simp: recv_block_def recv_slot_def)

lemma recv_blocks_same:
  assumes "partition_ok oti" and "i < total_blocks oti"
  shows "om_set (of_nat i) (recv_block oti R i) (recv_blocks oti R) = recv_blocks oti R"
  unfolding recv_blocks_def
  by (subst om_set_index [OF assms(2) partition_bounds(1) [OF assms(1)]]) auto

lemma recv_lookup:
  assumes "partition_ok oti" and "(i, j) \<in> symbol_pairs oti"
  shows "om_index (of_nat i :: u16) empty_block (recv_blocks oti R) = (recv_block oti R i, recv_blocks oti R)"
    and "om_index (of_nat j :: u16) null_slot (sb_symbols (recv_block oti R i)) =
      (recv_slot oti R i j, sb_symbols (recv_block oti R i))"
proof -
  have "i < total_blocks oti" "j < block_len oti i" using assms(2) by (simp_all add: symbol_pairs_def)
  moreover from this have "unat (of_nat i :: u16) = i" "unat (of_nat j :: u16) = j"
    using partition_bounds(1) [OF assms(1)] partition_bounds(2) [OF assms(1), of i] by (simp_all add: unat_of_nat take_bit_nat_eq_self)
  ultimately show "om_index (of_nat i :: u16) empty_block (recv_blocks oti R) = (recv_block oti R i, recv_blocks oti R)"
    "om_index (of_nat j :: u16) null_slot (sb_symbols (recv_block oti R i)) =
      (recv_slot oti R i j, sb_symbols (recv_block oti R i))"
    by (simp_all add: om_index_def recv_blocks_def recv_block_def om_get_indexed
        partition_bounds [OF assms(1)])
qed

lemma ucast_via_nat: "ucast (w :: u32) = (of_nat (unat w) :: u16)"
  by simp

lemma check_block_recv:
  assumes "partition_ok oti" and "j < block_len oti i"
  shows "check_source_block_completion ((recv_block oti R i)
      \<lparr>sb_symbols := om_set (of_nat j) ((recv_slot oti R i j)\<lparr>sl_complete := True\<rparr>) (sb_symbols (recv_block oti R i))\<rparr>) =
    recv_block oti (insert (i, j) R) i"
  unfolding recv_block_update [OF assms]
  by (auto simp: check_source_block_completion_def recv_block_def list_all_iff recv_slot_def)

lemma put_symbol_genuine:
  assumes ok: "partition_ok oti" and len: "length data = tlen oti" and md5: "md5_ok md5 data (fl_meta f)"
    and recv: "receiving oti data R f" and gen: "genuine oti data ij s"
  shows "\<exists>f'. put_symbol md5 s f = (Inr (), f') \<and> receiving oti data (insert ij R) f' \<and> fl_meta f' = fl_meta f"
proof -
  obtain i j where ij: "ij = (i, j)" by (cases ij)
  have mem: "(i, j) \<in> symbol_pairs oti" and ids: "unat (es_source_block_number s) = i" "unat (es_id s) = j"
    using gen by (simp_all add: genuine_def ij)
  then have i: "i < total_blocks oti" and j: "j < block_len oti i" by (simp_all add: symbol_pairs_def)
  note look = recv_lookup [OF ok mem, of R]
  have blocks: "fl_source_blocks f = recv_blocks oti R" using recv by (simp add: receiving_def)
  have key: "ucast (es_source_block_number s) = (of_nat i :: u16)" "ucast (es_id s) = (of_nat j :: u16)"
    by (simp_all add: ids [symmetric])
  have small: "\<not> length (fl_source_blocks f) < unat (es_source_block_number s)"
    "\<not> length (sb_symbols (recv_block oti R i)) < unat (es_id s)"
    using i j by (simp_all add: blocks ids recv_blocks_def recv_block_def)
  have self: "(recv_block oti R i)\<lparr>sb_symbols := sb_symbols (recv_block oti R i)\<rparr> = recv_block oti R i" by simp
  show ?thesis
  proof (cases "ij \<in> R")
    case True
    then have "put_symbol md5 s f = (Inr (), f\<lparr>fl_source_blocks := recv_blocks oti R\<rparr>)"
      unfolding put_symbol_def Let_def key blocks look prod.case
      using small by (simp add: blocks recv_slot_def ij recv_blocks_same [OF ok i])
    moreover have "insert ij R = R" using True by auto
    moreover have "f\<lparr>fl_source_blocks := recv_blocks oti R\<rparr> = f" using blocks by simp
    ultimately show ?thesis using recv by auto
  next
    case False
    from recv obtain buf where buf: "fl_heap f = [Some buf]" "length buf = tlen oti" "bytes_agree oti R data buf"
      by (auto simp: receiving_def)
    let ?off = "symbol_index oti ij * slen oti"
    let ?n = "min (slen oti) (tlen oti - ?off)"
    have idx: "symbol_index oti ij < total_symbols oti"
      using symbol_index_less [OF ok] mem ij by blast
    obtain buf' where buf': "write_bytes buf ?off (take ?n (drop ?off data)) = Inr buf'" "length buf' = tlen oti"
      "bytes_agree oti (insert ij R) data buf'"
      using bytes_agree_store [OF ok buf(3) _ buf(2) len, of ij] mem ij by blast
    have slot: "sl_data (recv_slot oti R i j) = Some (0, ?off)" "unat (sl_length (recv_slot oti R i j)) = ?n"
      "\<not> sl_complete (recv_slot oti R i j)"
      using slot_step(2) [OF ok idx] False by (simp_all add: recv_slot_def slot_at_def symbol_index_def ij)
    have "es_len s = sl_length (recv_slot oti R i j)"
      using gen slot(2) by (simp add: genuine_def word_unat_eq_iff)
    then have bytes: "decode_to s (sl_length (recv_slot oti R i j)) = Inr (take ?n (drop ?off data))"
      using gen by (simp add: decode_to_def genuine_def)
    have nonempty: "take ?n (drop ?off data) \<noteq> []"
      using symbol_before_end [OF ok idx] len ok by (simp add: partition_ok_def)
    have store: "heap_store (fl_heap f) (sl_data (recv_slot oti R i j)) (take ?n (drop ?off data)) = Inr [Some buf']"
    proof -
      have "heap_store [Some buf] (Some (0, ?off)) bs = Inr [Some buf']"
        if "bs \<noteq> []" "write_bytes buf ?off bs = Inr buf'" for bs
        using that by (simp add: heap_store_def heap_at_def)
      then show ?thesis unfolding buf(1) slot(1) using nonempty buf'(1) by blast
    qed
    let ?g = "f\<lparr>fl_source_blocks := recv_blocks oti (insert ij R), fl_heap := [Some buf']\<rparr>"
    have put: "put_symbol md5 s f = check_file_completion md5 ?g"
      unfolding put_symbol_def Let_def key blocks look prod.case self
      using small slot(3)
      by (simp add: blocks bytes store [unfolded ij] check_block_recv [OF ok j] recv_blocks_update [OF ok i] ij)
    have "receiving oti data (insert ij R) (?g\<lparr>fl_complete := symbol_pairs oti \<subseteq> insert ij R\<rparr>)"
      using recv buf'(2,3) by (simp add: receiving_def)
    moreover from this have "check_file_completion md5 ?g =
        (Inr (), ?g\<lparr>fl_complete := symbol_pairs oti \<subseteq> insert ij R\<rparr>)"
      using md5 by (intro check_file_completion_receiving [OF ok len]) simp_all
    ultimately show ?thesis by (simp add: put)
  qed
qed

lemma put_symbols_genuine:
  assumes "partition_ok oti" and "length data = tlen oti" and "md5_ok md5 data (fl_meta f)"
    and "receiving oti data R f" and "list_all2 (genuine oti data) ijs ss"
  shows "\<exists>f'. for_each (put_symbol md5) ss f = (Inr (), f') \<and> receiving oti data (set ijs \<union> R) f' \<and>
    fl_meta f' = fl_meta f"
  using assms(5,3,4)
proof (induction ijs ss arbitrary: f R rule: list_all2_induct)
  case Nil
  then show ?case by auto
next
  case (Cons ij ijs s ss)
  from put_symbol_genuine [OF assms(1,2) Cons.prems Cons.hyps(1)] obtain f1 where
    f1: "put_symbol md5 s f = (Inr (), f1)" "receiving oti data (insert ij R) f1" "fl_meta f1 = fl_meta f"
    by blast
  with Cons.IH [of f1 "insert ij R"] Cons.prems show ?case by auto
qed

lemma created_receiving:
  assumes "partition_ok (fe_fec_oti entry)" and "length buf = tlen (fe_fec_oti entry)"
  shows "receiving (fe_fec_oti entry) data {} (created_file 0 (file_with entry True buf now None))"
proof -
  let ?oti = "fe_fec_oti entry"
  have l: "0 < block_len ?oti i" for i
    using small_length_pos [OF assms(1)] by (simp add: block_len_def)
  have "(0, 0) \<in> symbol_pairs ?oti"
    using total_blocks_pos [OF assms(1)] l by (simp add: symbol_pairs_def)
  moreover have "file_blocks 0 ?oti (total_blocks ?oti) = recv_blocks ?oti {}"
    using l by (auto simp: file_blocks_def recv_blocks_def recv_block_def block_slots_def recv_slot_def slot_at_def)
  ultimately show ?thesis
    using assms(2)
    by (auto simp: receiving_def created_file_def partition_fields_def file_with_def bytes_agree_def)
qed

text \<open>(C3) Reassembly. Whatever the order and repetition in which the symbols of a transfer object
  arrive, storing them never fails; the file is complete exactly when each symbol has arrived at least
  once, and then its buffer is the transfer object. A digest in the table is checked on completion and
  does not stop the file when it is the one of the object.\<close>
theorem file_reassembly:
  assumes "malloc (tlen (fe_fec_oti entry)) = Some buf" and "length buf = tlen (fe_fec_oti entry)"
    and "partition_ok (fe_fec_oti entry)" and "length data = tlen (fe_fec_oti entry)"
    and "md5_ok md5 data entry" and "list_all2 (genuine (fe_fec_oti entry) data) ijs ss"
  shows "\<exists>f f'. file_of_entry malloc now entry = Some (Inr f) \<and>
    for_each (put_symbol md5) ss f = (Inr (), f') \<and>
    (fl_complete f' \<longleftrightarrow> symbol_pairs (fe_fec_oti entry) \<subseteq> set ijs) \<and>
    (fl_complete f' \<longrightarrow> buffer_bytes f' (unat (file_length f')) = Inr data)"
proof -
  let ?oti = "fe_fec_oti entry" and ?f = "file_with entry True buf now None"
  have ok: "partition_ok (fl_oti ?f)" using assms(3) by (simp add: file_with_def)
  have f: "file_of_entry malloc now entry = Some (Inr (created_file 0 ?f))"
    using assms(1) partition_and_create_eq [OF ok, of 0] by (simp add: file_of_entry_def) (simp add: file_with_def)
  have m: "fl_meta (created_file 0 ?f) = entry"
    by (simp add: created_file_def partition_fields_def file_with_def)
  from put_symbols_genuine [OF assms(3,4) _ created_receiving [OF assms(3,2)] assms(6), of md5 now]
  obtain f' where f': "for_each (put_symbol md5) ss (created_file 0 ?f) = (Inr (), f')"
    and recv: "receiving ?oti data (set ijs) f'"
    using assms(5) m by auto
  have "fl_complete f' \<longleftrightarrow> symbol_pairs ?oti \<subseteq> set ijs" using recv by (simp add: receiving_def)
  with f f' receiving_content [OF assms(3) recv _ assms(4)] show ?thesis by auto
qed

definition sym :: "u32 \<Rightarrow> u32 \<Rightarrow> byte list \<Rightarrow> encoding_symbol" where
  "sym sbn esi bs = \<lparr>es_id = esi, es_source_block_number = sbn, es_fec_scheme = CompactNoCode, es_mem = bs,
     es_len = of_nat (length bs)\<rparr>"

lemma sym_simps [simp]:
  "es_id (sym sbn esi bs) = esi" "es_source_block_number (sym sbn esi bs) = sbn"
  "es_fec_scheme (sym sbn esi bs) = CompactNoCode" "es_len (sym sbn esi bs) = of_nat (length bs)"
  "length bs < 2 ^ 64 \<Longrightarrow> symbol_bytes (sym sbn esi bs) = Inr bs"
  by (simp_all add: sym_def symbol_bytes_def read_bytes_def unat_of_nat take_bit_nat_eq_self)

lemma example_pairs: "symbol_pairs (fe_fec_oti example_file_entry) = {(0, 0), (0, 1), (1, 0)}"
  by (auto simp: symbol_pairs_def example_partition block_len_def less_Suc_eq numeral_2_eq_2 split: if_splits)

lemma example_genuine:
  "list_all2 (genuine (fe_fec_oti example_file_entry) [1, 2, 3, 4, 5, 6, 7, 8, 9, 10])
     [(1, 0), (0, 1), (0, 1), (0, 0)] [sym 1 0 [9, 10], sym 0 1 [5, 6, 7, 8], sym 0 1 [5, 6, 7, 8], sym 0 0 [1, 2, 3, 4]]"
proof -
  have t: "tlen (fe_fec_oti example_file_entry) = 10" "slen (fe_fec_oti example_file_entry) = 4"
    by (simp_all add: example_file_entry_def)
  show ?thesis
    by (simp add: genuine_def example_pairs symbol_index_def block_start_def example_partition t)
qed

text \<open>Out of order and with a repetition, checked against a digest.\<close>
theorem file_reassembly_witness:
  "\<exists>f f'. file_of_entry (\<lambda>n. Some (replicate n 0)) 0
       (example_file_entry\<lparr>content_md5 := base64_encode (replicate 16 7) False\<rparr>) = Some (Inr f) \<and>
     for_each (put_symbol (\<lambda>bs. replicate 16 7))
       [sym 1 0 [9, 10], sym 0 1 [5, 6, 7, 8], sym 0 1 [5, 6, 7, 8], sym 0 0 [1, 2, 3, 4]] f = (Inr (), f') \<and>
     fl_complete f' \<and> buffer_bytes f' (unat (file_length f')) = Inr [1, 2, 3, 4, 5, 6, 7, 8, 9, 10]"
proof -
  let ?e = "example_file_entry\<lparr>content_md5 := base64_encode (replicate 16 7) False\<rparr>"
  have o: "fe_fec_oti ?e = fe_fec_oti example_file_entry" by simp
  have t: "tlen (fe_fec_oti example_file_entry) = 10" by (simp add: example_file_entry_def)
  have m: "md5_ok (\<lambda>bs. replicate 16 7) [1, 2, 3, 4, 5, 6, 7, 8, 9, 10] ?e" by (simp add: md5_ok_def)
  from file_reassembly [where malloc = "\<lambda>n. Some (replicate n 0)" and buf = "replicate 10 0" and entry = ?e
      and now = 0, unfolded o t, OF refl _ example_partition(1) _ m example_genuine]
  show ?thesis by (auto simp: example_pairs)
qed

section \<open>Symbols the sender of the file did not send\<close>

text \<open>What \<^verbatim>\<open>put_symbol\<close> does to a slot that is there, on a file without a digest.\<close>

lemma put_symbol_slot:
  assumes "unat (es_source_block_number s) \<le> length (fl_source_blocks f)"
    and block: "om_get (fl_source_blocks f) (ucast (es_source_block_number s)) = Some block"
    and "unat (es_id s) \<le> length (sb_symbols block)"
    and slot: "om_get (sb_symbols block) (ucast (es_id s)) = Some slot" and "\<not> sl_complete slot"
    and store: "rbind (decode_to s (sl_length slot)) (heap_store (fl_heap f) (sl_data slot)) = Inr heap'"
    and "content_md5 (fl_meta f) = []"
  shows "\<exists>complete block'. put_symbol md5 s f =
    (Inr (), f\<lparr>fl_source_blocks := om_set (ucast (es_source_block_number s)) block' (fl_source_blocks f),
               fl_heap := heap', fl_complete := complete\<rparr>) \<and>
    sb_symbols block' = om_set (ucast (es_id s)) (slot\<lparr>sl_complete := True\<rparr>) (sb_symbols block)"
proof -
  define block' where "block' = check_source_block_completion
    (block\<lparr>sb_symbols := om_set (ucast (es_id s)) (slot\<lparr>sl_complete := True\<rparr>) (sb_symbols block)\<rparr>)"
  let ?f = "f\<lparr>fl_source_blocks := om_set (ucast (es_source_block_number s)) block' (fl_source_blocks f), fl_heap := heap'\<rparr>"
  have "sb_symbols block' = om_set (ucast (es_id s)) (slot\<lparr>sl_complete := True\<rparr>) (sb_symbols block)"
    by (simp add: block'_def check_source_block_completion_def)
  moreover have put: "put_symbol md5 s f = check_file_completion md5 ?f"
    using assms by (simp add: put_symbol_def om_index_def Let_def block'_def)
  moreover have "check_file_completion md5 ?f =
      (Inr (), ?f\<lparr>fl_complete := list_all (\<lambda>(_, b). sb_complete b) (fl_source_blocks ?f)\<rparr>)"
    using assms(7) by (simp add: check_file_completion_def Let_def)
  ultimately show ?thesis
    by (intro exI [of _ "list_all (\<lambda>(_, b). sb_complete b) (fl_source_blocks ?f)"] exI [of _ block'] conjI)
      (simp_all only: )
qed

text \<open>A symbol that is longer than its place in the file is not stored, but its place counts as
  filled: the file can become complete with bytes that never arrived. The symbols the library itself
  parses out of a payload have the wrong length for the last, shorter symbol of a file.\<close>
theorem overlong_symbol_marks_complete:
  assumes "om_ok (fl_source_blocks f)" and "om_ok (sb_symbols block)"
    and "unat (es_source_block_number s) \<le> length (fl_source_blocks f)"
    and "om_get (fl_source_blocks f) (ucast (es_source_block_number s)) = Some block"
    and "unat (es_id s) \<le> length (sb_symbols block)"
    and "om_get (sb_symbols block) (ucast (es_id s)) = Some slot" and "\<not> sl_complete slot"
    and "sl_length slot < es_len s" and "content_md5 (fl_meta f) = []"
  shows "\<exists>f'. put_symbol md5 s f = (Inr (), f') \<and> fl_heap f' = fl_heap f \<and>
    slot_of f' (ucast (es_source_block_number s)) (ucast (es_id s)) = Some (slot\<lparr>sl_complete := True\<rparr>)"
proof -
  have "rbind (decode_to s (sl_length slot)) (heap_store (fl_heap f) (sl_data slot)) = Inr (fl_heap f)"
  proof -
    have "\<not> es_len s \<le> sl_length slot" using assms(8) by simp
    then show ?thesis by (simp only: decode_to_def heap_store_def if_False if_cancel rbind_Inr) simp
  qed
  from put_symbol_slot [OF assms(3-7) this assms(9)] obtain complete block' where
    put: "put_symbol md5 s f =
      (Inr (), f\<lparr>fl_source_blocks := om_set (ucast (es_source_block_number s)) block' (fl_source_blocks f),
                 fl_heap := fl_heap f, fl_complete := complete\<rparr>)"
    and block': "sb_symbols block' = om_set (ucast (es_id s)) (slot\<lparr>sl_complete := True\<rparr>) (sb_symbols block)"
    by blast
  then show ?thesis
    using assms(1,2) by (simp add: slot_of_def om.get_assign)
qed

definition example_file :: flute_file where
  "example_file = created_file 0 (file_with example_file_entry True (replicate 10 0) 0 None)"

lemma example_file_blocks:
  "fl_source_blocks example_file =
     [(0, \<lparr>sb_complete = False, sb_symbols =
            [(0, slot_at 0 (fe_fec_oti example_file_entry) 0), (1, slot_at 0 (fe_fec_oti example_file_entry) 1)]\<rparr>),
      (1, \<lparr>sb_complete = False, sb_symbols = [(0, slot_at 0 (fe_fec_oti example_file_entry) 2)]\<rparr>)]"
  by (simp add: example_file_def created_file_def file_with_def file_blocks_def block_slots_def
      example_partition block_len_def block_start_def upt_rec numeral_2_eq_2)

text \<open>The last symbol of the example has two bytes; four are sent and none is stored.\<close>
theorem overlong_symbol_marks_complete_witness:
  "\<exists>f'. put_symbol (\<lambda>bs. []) (sym 1 0 [1, 2, 3, 4]) example_file = (Inr (), f') \<and>
     fl_heap f' = [Some (replicate 10 0)] \<and> map_option sl_complete (slot_of f' 1 0) = Some True"
proof -
  let ?b = "\<lparr>sb_complete = False, sb_symbols = [(0, slot_at 0 (fe_fec_oti example_file_entry) 2)]\<rparr>"
  let ?slot = "slot_at 0 (fe_fec_oti example_file_entry) 2"
  have "sl_length ?slot < 4" "\<not> sl_complete ?slot"
    by (simp_all add: slot_at_def example_file_entry_def)
  moreover have "content_md5 (fl_meta example_file) = []" "fl_heap example_file = [Some (replicate 10 0)]"
    by (simp_all add: example_file_def created_file_def partition_fields_def file_with_def
        example_file_entry_def example_entry_def)
  ultimately show ?thesis
    using overlong_symbol_marks_complete [of example_file ?b "sym 1 0 [1, 2, 3, 4]" ?slot "\<lambda>bs. []"]
    by (auto simp: example_file_blocks om_ok_Cons)
qed

text \<open>A source block that a stray symbol made: it has no symbols and is not complete.\<close>

definition phantom :: "u16 \<Rightarrow> flute_file \<Rightarrow> bool" where
  "phantom k f \<longleftrightarrow>
     om_ok (fl_source_blocks f) \<and> \<not> fl_complete f \<and>
     (\<exists>b. om_get (fl_source_blocks f) k = Some b \<and> \<not> sb_complete b)"

lemma phantom_incomplete:
  "om_get m k = Some b \<Longrightarrow> \<not> sb_complete b \<Longrightarrow> \<not> list_all (\<lambda>(_, b). sb_complete b) m"
  by (auto simp: list_all_iff dest: om_get_in_set)

lemma phantom_check:
  assumes "om_ok (fl_source_blocks f)" "om_get (fl_source_blocks f) k = Some b" "\<not> sb_complete b"
  shows "phantom k (snd (check_file_completion md5 f))"
  using assms phantom_incomplete [OF assms(2,3)]
  by (simp add: check_file_completion_def Let_def phantom_def)

lemma phantom_put:
  assumes "phantom k f" and "ucast (es_source_block_number s) \<noteq> k"
  shows "phantom k (snd (put_symbol md5 s f))"
proof -
  let ?sbn = "ucast (es_source_block_number s) :: u16"
  from assms(1) obtain b where b: "om_ok (fl_source_blocks f)" "\<not> fl_complete f"
    "om_get (fl_source_blocks f) k = Some b" "\<not> sb_complete b" by (auto simp: phantom_def)
  obtain block blocks1 where idx: "om_index ?sbn empty_block (fl_source_blocks f) = (block, blocks1)"
    by (cases "om_index ?sbn empty_block (fl_source_blocks f)")
  then have b1: "om_ok blocks1" "om_get blocks1 k = Some b"
    using b assms(2) by (auto simp: om_index_def om.ok_assign om.get_assign split: option.splits)
  then have b2: "om_ok (om_set ?sbn v blocks1)" "om_get (om_set ?sbn v blocks1) k = Some b" for v
    using assms(2) by (auto simp: om.ok_assign om.get_assign)
  have keep: "phantom k (f\<lparr>fl_source_blocks := m, fl_heap := h\<rparr>)" "phantom k (f\<lparr>fl_source_blocks := m\<rparr>)"
    if "om_ok m" "om_get m k = Some b" for m h
    using that b by (auto simp: phantom_def)
  show ?thesis
    using assms(1) b b1 b2
    by (auto simp: put_symbol_def idx Let_def keep split: prod.splits sum.splits
        intro!: phantom_check [where b = b])
qed

text \<open>(C20) One symbol with the number of blocks as its source block number and an identifier other than
  0 is rejected with an exception, but it leaves an empty block behind that nothing completes: from
  then on the file never becomes complete, whatever symbols of its own blocks arrive. The range checks
  compare with \<open>>\<close> where \<open>\<ge>\<close> is needed.\<close>
theorem phantom_block_blocks_completion:
  assumes "om_ok (fl_source_blocks f)" and "\<not> fl_complete f"
    and "unat (es_source_block_number s) = length (fl_source_blocks f)"
    and "om_get (fl_source_blocks f) (ucast (es_source_block_number s)) = None"
    and "es_id s \<noteq> 0"
    and "\<forall>t \<in> set ss. (ucast (es_source_block_number t) :: u16) \<noteq> ucast (es_source_block_number s)"
  shows "fst (put_symbol md5 s f) = Inl (CStr ''Encoding Symbol ID too high'') \<and>
    \<not> fl_complete (snd (for_each (put_symbol md5) ss (snd (put_symbol md5 s f))))"
proof -
  let ?k = "ucast (es_source_block_number s) :: u16"
  have "unat (es_id s) \<noteq> 0" using assms(5) by (simp add: unat_eq_0)
  then have put: "put_symbol md5 s f =
      (Inl (CStr ''Encoding Symbol ID too high''), f\<lparr>fl_source_blocks := om_set ?k empty_block (fl_source_blocks f)\<rparr>)"
    using assms(3,4) by (simp add: put_symbol_def om_index_def Let_def empty_block_def)
  then have "phantom ?k (snd (put_symbol md5 s f))"
    using assms(1,2) by (simp add: phantom_def om.ok_assign om.get_assign empty_block_def)
  then have "phantom ?k (snd (for_each (put_symbol md5) ss (snd (put_symbol md5 s f))))"
    by (rule for_each_invariant [rotated]) (use assms(6) phantom_put in blast)
  then show ?thesis by (simp add: put phantom_def)
qed

theorem phantom_block_blocks_completion_witness:
  "\<not> fl_complete (snd (for_each (put_symbol (\<lambda>bs. [])) [sym 0 0 [1, 2, 3, 4], sym 0 1 [5, 6, 7, 8], sym 1 0 [9, 10]]
     (snd (put_symbol (\<lambda>bs. []) (sym 2 1 [0]) example_file))))"
proof -
  have "\<not> fl_complete example_file"
    by (simp add: example_file_def created_file_def partition_fields_def file_with_def)
  then show ?thesis
    using phantom_block_blocks_completion [of example_file "sym 2 1 [0]"
        "[sym 0 0 [1, 2, 3, 4], sym 0 1 [5, 6, 7, 8], sym 1 0 [9, 10]]" "\<lambda>bs. []"]
    by (simp add: example_file_blocks om_ok_Cons)
qed

end
