(* ===== verification/Receiver.thy ===== *)
theory Receiver
  imports File_Reassembly
begin

text \<open>
  \<^verbatim>\<open>src/Receiver.cpp\<close>: the handler of one received datagram and the functions of the application on
  the list of files. The handler runs to its end, throws or (in the packet parser) does not return;
  \<open>rc_armed\<close> says whether the next reception has been started, \<open>rc_delivered\<close> collects the files handed
  to the completion callback. The operating system, MD5, zlib and the XML library are in the
  environment \<open>env\<close>.
\<close>

section \<open>State\<close>

record 'z env =
  env_malloc :: "nat \<Rightarrow> byte list option"
  env_md5 :: "byte list \<Rightarrow> byte list"
  env_zlib :: "'z zlib"
  env_xml_parse :: "byte list \<Rightarrow> xml option"

record receiver =
  rc_running :: bool
  rc_armed :: bool
  rc_tsi :: u64
  rc_data :: "byte list"
  rc_fdt :: "fdt option"
  rc_files :: "(u64, flute_file) omap"
  rc_callback :: bool
  rc_delivered :: "flute_file list"

definition max_length :: nat where
  "max_length = 2048"

text \<open>The constructor: bound, joined, and waiting for the first datagram. \<open>uninit\<close> is what the buffer
  holds.\<close>

definition receiver_new :: "u64 \<Rightarrow> byte list \<Rightarrow> receiver" where
  "receiver_new tsi uninit =
     \<lparr>rc_running = True, rc_armed = True, rc_tsi = tsi, rc_data = uninit, rc_fdt = None, rc_files = [],
      rc_callback = False, rc_delivered = []\<rparr>"

definition register_completion_callback :: "receiver \<Rightarrow> receiver" where
  "register_completion_callback r = r\<lparr>rc_callback := True\<rparr>"

definition receiver_stop :: "receiver \<Rightarrow> receiver" where
  "receiver_stop r = r\<lparr>rc_running := False\<rparr>"

text \<open>A computation that may not return or throw, one after another.\<close>

definition bind_outcome :: "'s outcome option \<Rightarrow> ('s \<Rightarrow> 's outcome option) \<Rightarrow> 's outcome option" where
  "bind_outcome m k =
     (case m of None \<Rightarrow> None | Some (Inl e, s) \<Rightarrow> Some (Inl e, s) | Some (Inr _, s) \<Rightarrow> k s)"

lemma bind_outcome_simps [simp]:
  "bind_outcome None k = None" "bind_outcome (Some (Inl e, s)) k = Some (Inl e, s)"
  "bind_outcome (Some (Inr u, s)) k = k s"
  by (simp_all add: bind_outcome_def)

section \<open>Handling a datagram\<close>

text \<open>The entry made up for the FDT itself.\<close>

definition fdt_object_entry :: "alc_packet \<Rightarrow> file_entry" where
  "fdt_object_entry alc =
     \<lparr>fe_toi = 0, content_location = '''', content_length = ucast (transfer_length (alc_fec_oti alc)),
      content_md5 = '''', content_type = '''', fe_expires = 0, fe_fec_oti = alc_fec_oti alc,
      fe_cache_control = \<lparr>no_cache = False, cache_expires = None\<rparr>, fe_content_encoding = '''', etag = ''''\<rparr>"

text \<open>A new file under a TOI; \<^verbatim>\<open>emplace\<close> does nothing when there is one.\<close>

definition start_file :: "'z env \<Rightarrow> u64 \<Rightarrow> u64 \<Rightarrow> file_entry \<Rightarrow> receiver \<Rightarrow> receiver outcome option" where
  "start_file env now toi entry r =
     (case om_get (rc_files r) toi of
        Some _ \<Rightarrow> Some (Inr (), r)
      | None \<Rightarrow>
          (case file_of_entry (env_malloc env) now entry of
             None \<Rightarrow> None
           | Some (Inl e) \<Rightarrow> Some (Inl e, r)
           | Some (Inr f) \<Rightarrow> Some (Inr (), r\<lparr>rc_files := om_insert toi f (rc_files r)\<rparr>)))"

definition start_fdt_object :: "'z env \<Rightarrow> u64 \<Rightarrow> alc_packet \<Rightarrow> receiver \<Rightarrow> receiver outcome option" where
  "start_fdt_object env now alc r =
     (if alc_toi alc = 0 \<and>
         (case rc_fdt r of None \<Rightarrow> True | Some t \<Rightarrow> instance_id t \<noteq> alc_fdt_instance_id alc)
      then start_file env now 0 (fdt_object_entry alc) r
      else Some (Inr (), r))"

definition set_file :: "u64 \<Rightarrow> flute_file \<Rightarrow> receiver \<Rightarrow> receiver" where
  "set_file toi f r = r\<lparr>rc_files := om_set toi f (rc_files r)\<rparr>"

text \<open>The symbols of the payload behind the header; the difference of the sizes is unsigned.\<close>

definition payload_symbols_of ::
  "receiver \<Rightarrow> alc_packet \<Rightarrow> u64 \<Rightarrow> flute_file \<Rightarrow> encoding_symbol list result" where
  "payload_symbols_of r alc bytes_recvd f =
     from_payload (drop (header_length alc) (rc_data r)) (bytes_recvd - of_nat (header_length alc))
       (fl_oti f) (alc_content_encoding alc)"

text \<open>Other files with the same location are dropped when a file is complete.\<close>

definition replace_files :: "u64 \<Rightarrow> flute_file \<Rightarrow> receiver \<Rightarrow> receiver" where
  "replace_files toi f r =
     r\<lparr>rc_files := om_erase_if (\<lambda>k g. k \<noteq> toi \<and>
        content_location (fl_meta g) = content_location (fl_meta f)) (rc_files r)\<rparr>"

definition deliver :: "u64 \<Rightarrow> flute_file \<Rightarrow> receiver \<Rightarrow> receiver" where
  "deliver toi f r =
     (if toi \<noteq> 0 \<and> rc_callback r
      then r\<lparr>rc_delivered := rc_delivered r @ [f], rc_files := om_erase toi (rc_files r)\<rparr>
      else r)"

fun start_files :: "'z env \<Rightarrow> u64 \<Rightarrow> file_entry list \<Rightarrow> receiver \<Rightarrow> receiver outcome option" where
  "start_files env now [] r = Some (Inr (), r)"
| "start_files env now (e # es) r =
     bind_outcome (start_file env now (ucast (fe_toi e)) e r) (start_files env now es)"

definition install_fdt :: "'z env \<Rightarrow> u64 \<Rightarrow> alc_packet \<Rightarrow> flute_file \<Rightarrow> receiver \<Rightarrow> receiver outcome option" where
  "install_fdt env now alc f r =
     (case rbind (buffer_bytes f (unat (file_length f)))
             (fdt_parse (env_xml_parse env) (alc_fdt_instance_id alc)) of
        Inl e \<Rightarrow> Some (Inl e, r)
      | Inr t \<Rightarrow>
          start_files env now (fdt_file_entries t)
            (r\<lparr>rc_fdt := Some t, rc_files := om_erase 0 (rc_files r)\<rparr>))"

definition finish_file :: "'z env \<Rightarrow> u64 \<Rightarrow> alc_packet \<Rightarrow> flute_file \<Rightarrow> receiver \<Rightarrow> receiver outcome option" where
  "finish_file env now alc f r =
     (let toi = alc_toi alc; r1 = replace_files toi f r in
      case decode (env_zlib env) (env_md5 env) f of
        None \<Rightarrow> None
      | Some (Inl e, f') \<Rightarrow> Some (Inl e, set_file toi f' r1)
      | Some (Inr _, f') \<Rightarrow>
          let r2 = deliver toi f' (set_file toi f' r1)
          in if toi = 0 then install_fdt env now alc f' r2 else Some (Inr (), r2))"

definition receive_object :: "'z env \<Rightarrow> u64 \<Rightarrow> alc_packet \<Rightarrow> u64 \<Rightarrow> receiver \<Rightarrow> receiver outcome option" where
  "receive_object env now alc bytes_recvd r =
     bind_outcome (start_fdt_object env now alc r) (\<lambda>r.
     case om_get (rc_files r) (alc_toi alc) of
       None \<Rightarrow> Some (Inr (), r)
     | Some f \<Rightarrow>
         if fl_complete f then Some (Inr (), r)
         else case payload_symbols_of r alc bytes_recvd f of
                Inl e \<Rightarrow> Some (Inl e, r)
              | Inr symbols \<Rightarrow>
                  (case for_each (put_symbol (env_md5 env)) symbols f of
                     (Inl e, f') \<Rightarrow> Some (Inl e, set_file (alc_toi alc) f' r)
                   | (Inr _, f') \<Rightarrow>
                       let r' = set_file (alc_toi alc) f' r
                       in if fl_complete f' then finish_file env now alc f' r' else Some (Inr (), r')))"

definition process_packet :: "'z env \<Rightarrow> u64 \<Rightarrow> nat \<Rightarrow> receiver \<Rightarrow> receiver outcome option" where
  "process_packet env now bytes_recvd r =
     (case alc_parse (rc_data r) bytes_recvd of
        None \<Rightarrow> None
      | Some (Inl e) \<Rightarrow> Some (Inl e, r)
      | Some (Inr alc) \<Rightarrow>
          if alc_tsi alc = rc_tsi r then receive_object env now alc (of_nat bytes_recvd) r
          else Some (Inr (), r))"

text \<open>The socket writes a datagram, cut to the buffer, over the start of the buffer.\<close>

definition receive_datagram :: "byte list \<Rightarrow> receiver \<Rightarrow> receiver" where
  "receive_datagram d r =
     r\<lparr>rc_data := take max_length d @ drop (length (take max_length d)) (rc_data r), rc_armed := False\<rparr>"

text \<open>The handler for a datagram (\<open>None\<close>: an error of the socket). Exceptions derived from
  \<^verbatim>\<open>std::exception\<close> are logged and the next reception is started; any other leaves the handler.\<close>

definition handle_receive_from ::
  "'z env \<Rightarrow> u64 \<Rightarrow> byte list option \<Rightarrow> receiver \<Rightarrow> receiver outcome option" where
  "handle_receive_from env now datagram r =
     (case datagram of
        None \<Rightarrow> Some (Inr (), r\<lparr>rc_armed := False\<rparr>)
      | Some d \<Rightarrow>
          let r1 = receive_datagram d r in
          if \<not> rc_running r then Some (Inr (), r1)
          else case process_packet env now (length (take max_length d)) r1 of
                 None \<Rightarrow> None
               | Some (Inl e, r2) \<Rightarrow>
                   if caught_as_std_exception e then Some (Inr (), r2\<lparr>rc_armed := True\<rparr>)
                   else Some (Inl e, r2)
               | Some (Inr _, r2) \<Rightarrow> Some (Inr (), r2\<lparr>rc_armed := True\<rparr>))"

section \<open>The list of files\<close>

definition file_list :: "receiver \<Rightarrow> flute_file list" where
  "file_list r = map snd (rc_files r)"

definition remove_expired_files :: "u64 \<Rightarrow> u32 \<Rightarrow> receiver \<Rightarrow> receiver" where
  "remove_expired_files now max_age r =
     r\<lparr>rc_files := om_erase_if (\<lambda>_ f. content_location (fl_meta f) \<noteq> ''bootstrap.multipart'' \<and>
        now - fl_received_at f > ucast max_age) (rc_files r)\<rparr>"

definition remove_file_with_content_location :: "string \<Rightarrow> receiver \<Rightarrow> receiver" where
  "remove_file_with_content_location cl r =
     r\<lparr>rc_files := om_erase_if (\<lambda>_ f. content_location (fl_meta f) = cl) (rc_files r)\<rparr>"

end
