(* ===== verification/Event_Machine.thy ===== *)
theory Event_Machine
  imports Main
begin

text \<open>
  Components that react to events (datagrams, timers, calls of the application): the states they can
  reach, and the contract of an invariant. The receiver and the transmitter interpret it.
\<close>

inductive reachable :: "('s \<Rightarrow> bool) \<Rightarrow> ('s \<Rightarrow> 's \<Rightarrow> bool) \<Rightarrow> 's \<Rightarrow> bool" for init step where
  reach_init: "init s \<Longrightarrow> reachable init step s"
| reach_step: "reachable init step s \<Longrightarrow> step s s' \<Longrightarrow> reachable init step s'"

lemma reachable_run: "reachable init step s \<Longrightarrow> step\<^sup>*\<^sup>* s s' \<Longrightarrow> reachable init step s'"
  by (rotate_tac, induction rule: rtranclp_induct) (auto intro: reach_step)

text \<open>A predicate that holds at the start and that every step keeps.\<close>

locale inductive_invariant =
  fixes init :: "'s \<Rightarrow> bool" and step :: "'s \<Rightarrow> 's \<Rightarrow> bool" and inv :: "'s \<Rightarrow> bool"
  assumes inv_init: "init s \<Longrightarrow> inv s"
    and inv_step: "inv s \<Longrightarrow> step s s' \<Longrightarrow> inv s'"
begin

lemma inv_reachable: "reachable init step s \<Longrightarrow> inv s"
  by (induction rule: reachable.induct) (auto intro: inv_init inv_step)

lemma inv_run: "step\<^sup>*\<^sup>* s s' \<Longrightarrow> inv s \<Longrightarrow> inv s'"
  by (induction rule: rtranclp_induct) (auto intro: inv_step)

end

text \<open>A predicate that no step leaves, whatever the start: a state a component is stuck in.\<close>

locale absorbing =
  fixes step :: "'s \<Rightarrow> 's \<Rightarrow> bool" and stuck :: "'s \<Rightarrow> bool"
  assumes stuck_step: "stuck s \<Longrightarrow> step s s' \<Longrightarrow> stuck s'"

sublocale absorbing \<subseteq> inductive_invariant stuck step stuck
  by unfold_locales (auto intro: stuck_step)

context absorbing
begin

lemma stuck_for_ever: "stuck s \<Longrightarrow> step\<^sup>*\<^sup>* s s' \<Longrightarrow> stuck s'"
  by (rule inv_run)

end

text \<open>
  A machine that implements a specification: \<open>rel\<close> relates the states, and each operation the environment
  may do succeeds and keeps it.
\<close>

primrec run_steps :: "('op \<Rightarrow> 'c \<Rightarrow> 'c option) \<Rightarrow> 'op list \<Rightarrow> 'c \<Rightarrow> 'c option" where
  "run_steps step [] c = Some c"
| "run_steps step (op # ops) c = Option.bind (step op c) (run_steps step ops)"

locale forward_simulation =
  fixes step :: "'op \<Rightarrow> 'c \<Rightarrow> 'c option" and spec :: "'op \<Rightarrow> 'a \<Rightarrow> 'a" and rel :: "'a \<Rightarrow> 'c \<Rightarrow> bool"
    and permitted :: "'op \<Rightarrow> bool"
  assumes sim_step: "rel a c \<Longrightarrow> permitted op \<Longrightarrow> \<exists>c'. step op c = Some c' \<and> rel (spec op a) c'"
begin

lemma sim_run:
  "rel a c \<Longrightarrow> \<forall>op \<in> set ops. permitted op \<Longrightarrow> \<exists>c'. run_steps step ops c = Some c' \<and> rel (fold spec ops a) c'"
proof (induction ops arbitrary: a c)
  case (Cons op ops)
  from sim_step [OF Cons.prems(1), of op] Cons.prems(2) obtain c1 where "step op c = Some c1" "rel (spec op a) c1" by auto
  with Cons.IH [of "spec op a" c1] Cons.prems(2) show ?case by simp
qed simp

end

end
