(* ===== verification/Receiver_Safety.thy ===== *)
theory Receiver_Safety
  imports Receiver Event_Machine
begin

text \<open>
  The receiver as a machine driven by datagrams and by calls of the application: what it hands to the
  application is verified, and the states in which it no longer receives.
\<close>

section \<open>Verified files\<close>

text \<open>A file with a digest and without a content encoding has the content of the digest.\<close>

definition verified :: "(byte list \<Rightarrow> byte list) \<Rightarrow> flute_file \<Rightarrow> bool" where
  "verified md5 f \<longleftrightarrow>
     (content_md5 (fl_meta f) \<noteq> [] \<and> fe_content_encoding (fl_meta f) = [] \<longrightarrow> md5_agrees md5 f = Inr True)"

lemma md5_agrees_blocks [simp]:
  "md5_agrees md5 (f\<lparr>fl_complete := c\<rparr>) = md5_agrees md5 f"
  "md5_agrees md5 (f\<lparr>fl_source_blocks := m\<rparr>) = md5_agrees md5 f"
  by (simp_all add: md5_agrees_def buffer_bytes_def file_length_def split: option.split)

lemma verified_blocks [simp]:
  "verified md5 (f\<lparr>fl_complete := c\<rparr>) = verified md5 f"
  "verified md5 (f\<lparr>fl_source_blocks := m\<rparr>) = verified md5 f"
  by (simp_all add: verified_def)

lemma verify_md5_verified:
  "verify_md5 md5 f = (Inr (), f') \<Longrightarrow> fl_complete f' \<Longrightarrow> md5_agrees md5 f = Inr True \<and> f' = f"
  by (auto simp: verify_md5_def reset_blocks_def split: sum.splits bool.splits)

lemma check_file_completion_verified:
  assumes "check_file_completion md5 f = (Inr (), f')" and "fl_complete f'"
  shows "verified md5 f'"
proof (cases "content_md5 (fl_meta f) \<noteq> [] \<and> fe_content_encoding (fl_meta f) = []")
  case True
  let ?f1 = "f\<lparr>fl_complete := list_all (\<lambda>(_, b). sb_complete b) (fl_source_blocks f)\<rparr>"
  have "fl_complete ?f1" using assms True
    by (rule_tac ccontr) (auto simp: check_file_completion_def Let_def)
  then have "verify_md5 md5 ?f1 = (Inr (), f')"
    using assms(1) True by (simp add: check_file_completion_def Let_def)
  from verify_md5_verified [OF this assms(2)] show ?thesis
    by (auto simp: verified_def)
next
  case False
  with assms show ?thesis by (auto simp: check_file_completion_def Let_def verified_def)
qed

lemma put_symbol_verified:
  assumes "put_symbol md5 s f = (Inr (), f')" and "fl_complete f \<longrightarrow> verified md5 f" and "fl_complete f'"
  shows "verified md5 f'"
  using assms
  by (auto simp: put_symbol_def Let_def check_file_completion_verified split: if_splits prod.splits sum.splits)

lemma put_symbols_verified:
  "for_each (put_symbol md5) ss f = (Inr (), f') \<Longrightarrow> fl_complete f \<longrightarrow> verified md5 f \<Longrightarrow>
     fl_complete f' \<Longrightarrow> verified md5 f'"
proof (induction ss arbitrary: f)
  case (Cons s ss)
  obtain r f1 where one: "put_symbol md5 s f = (r, f1)" by (cases "put_symbol md5 s f")
  with Cons.prems(1) have r: "r = Inr ()" "for_each (put_symbol md5) ss f1 = (Inr (), f')"
    by (cases r; simp)+
  with Cons.IH [of f1] Cons.prems put_symbol_verified [of md5 s f f1] one show ?case by blast
qed simp

text \<open>Decoding does nothing to a file without a content encoding.\<close>

lemma decode_plain: "fe_content_encoding (fl_meta f) = [] \<Longrightarrow> decode z md5 f = Some (Inr (), f)"
  by (simp add: decode_def)

section \<open>The machine\<close>

inductive rc_event :: "'z env \<Rightarrow> receiver \<Rightarrow> receiver \<Rightarrow> bool" for env where
  datagram: "rc_armed r \<Longrightarrow> handle_receive_from env now d r = Some (res, r') \<Longrightarrow> rc_event env r r'"
| expire: "rc_event env r (remove_expired_files now max_age r)"
| remove_location: "rc_event env r (remove_file_with_content_location cl r)"
| register: "rc_event env r (register_completion_callback r)"
| stop: "rc_event env r (receiver_stop r)"

inductive rc_init :: "receiver \<Rightarrow> bool" where
  "length uninit = max_length \<Longrightarrow> rc_init (receiver_new tsi uninit)"

text \<open>What every operation keeps: the files are in the order of a map, the buffer has its size, and
  what has been delivered is verified.\<close>

definition rc_inv :: "'z env \<Rightarrow> receiver \<Rightarrow> bool" where
  "rc_inv env r \<longleftrightarrow>
     om_ok (rc_files r) \<and> length (rc_data r) = max_length \<and>
     (\<forall>f \<in> set (rc_delivered r). verified (env_md5 env) f)"

lemma om_ok_insert: "om_ok m \<Longrightarrow> om_ok (om_insert k v m)"
  by (rule om.ok_emplace)

lemmas rc_ops = start_file_def start_fdt_object_def set_file_def replace_files_def

lemma rc_inv_files:
  "rc_inv env r \<Longrightarrow> om_ok m \<Longrightarrow> rc_inv env (r\<lparr>rc_files := m\<rparr>)"
  "rc_inv env r \<Longrightarrow> rc_inv env (r\<lparr>rc_fdt := t\<rparr>)"
  "rc_inv env r \<Longrightarrow> rc_inv env (r\<lparr>rc_armed := b\<rparr>)"
  by (simp_all add: rc_inv_def)

lemma rc_inv_ok: "rc_inv env r \<Longrightarrow> om_ok (rc_files r)"
  by (simp add: rc_inv_def)

text \<open>Nothing but \<open>deliver\<close> touches the delivered files.\<close>

lemma start_file_inv:
  "start_file env now toi e r = Some (res, r') \<Longrightarrow> rc_inv env r \<Longrightarrow> rc_inv env r'"
  by (auto simp: start_file_def rc_inv_files rc_inv_ok om_ok_insert split: option.splits sum.splits)

lemma bind_outcome_inv:
  assumes "bind_outcome m k = Some (res, r')" and "\<And>res r. m = Some (res, r) \<Longrightarrow> P r"
    and "\<And>r. m = Some (Inr (), r) \<Longrightarrow> P r \<Longrightarrow> k r = Some (res, r') \<Longrightarrow> P r'"
  shows "P r'"
  using assms by (auto simp: bind_outcome_def split: option.splits sum.splits)

lemma start_files_inv:
  "start_files env now es r = Some (res, r') \<Longrightarrow> rc_inv env r \<Longrightarrow> rc_inv env r'"
proof (induction es arbitrary: r)
  case (Cons e es)
  from Cons.prems(1) show ?case
    unfolding start_files.simps
    by (rule bind_outcome_inv) (auto intro: start_file_inv Cons)
qed simp

lemma install_fdt_inv:
  "install_fdt env now alc f r = Some (res, r') \<Longrightarrow> rc_inv env r \<Longrightarrow> rc_inv env r'"
  by (auto simp: install_fdt_def rc_inv_files rc_inv_ok om_ok_erase split: sum.splits
      elim!: start_files_inv)

lemma deliver_inv:
  "rc_inv env r \<Longrightarrow> verified (env_md5 env) f \<Longrightarrow> rc_inv env (deliver toi f r)"
  by (auto simp: deliver_def rc_inv_def om_ok_erase)

lemma set_file_inv: "rc_inv env r \<Longrightarrow> rc_inv env (set_file toi f r)"
  by (simp add: set_file_def rc_inv_files rc_inv_ok om_ok_set)

lemma replace_files_inv: "rc_inv env r \<Longrightarrow> rc_inv env (replace_files toi f r)"
  by (simp add: replace_files_def rc_inv_files rc_inv_ok om_ok_erase_if)

lemma decode_verified:
  assumes "decode z md5 f = Some (Inr (), f')" and "verified md5 f"
  shows "verified md5 f'"
proof (cases "fe_content_encoding (fl_meta f) = []")
  case True
  with assms decode_plain [of f z md5] show ?thesis by simp
next
  case False
  have "fe_content_encoding (fl_meta f') = fe_content_encoding (fl_meta f)"
    using assms(1)
    by (auto simp: decode_def Let_def verify_md5_def install_buffer_def free_old_def reset_blocks_def
        split: if_splits sum.splits option.splits prod.splits bool.splits)
  with False show ?thesis by (simp add: verified_def)
qed

lemma finish_file_inv:
  assumes "finish_file env now alc f r = Some (res, r')" and "rc_inv env r" and "verified (env_md5 env) f"
  shows "rc_inv env r'"
proof -
  let ?toi = "alc_toi alc"
  have r1: "rc_inv env (set_file ?toi f' (replace_files ?toi f r))" for f'
    using assms(2) by (simp add: set_file_inv replace_files_inv)
  show ?thesis
  proof (cases "decode (env_zlib env) (env_md5 env) f")
    case None
    with assms(1) show ?thesis by (simp add: finish_file_def Let_def)
  next
    case (Some p)
    obtain d f' where p: "p = (d, f')" by (cases p)
    show ?thesis
    proof (cases d)
      case (Inl e)
      with assms(1) Some p r1 show ?thesis by (simp add: finish_file_def Let_def) blast
    next
      case (Inr u)
      then have "verified (env_md5 env) f'"
        using decode_verified Some p assms(3) by simp
      then have "rc_inv env (deliver ?toi f' (set_file ?toi f' (replace_files ?toi f r)))"
        using r1 by (rule deliver_inv [rotated])
      with assms(1) Some p Inr install_fdt_inv show ?thesis
        by (auto simp: finish_file_def Let_def split: if_splits)
    qed
  qed
qed

lemma receive_object_inv:
  assumes "receive_object env now alc n r = Some (res, r')" and "rc_inv env r"
  shows "rc_inv env r'"
  using assms(1) unfolding receive_object_def
proof (rule bind_outcome_inv)
  fix res1 r1
  assume "start_fdt_object env now alc r = Some (res1, r1)"
  with assms(2) show "rc_inv env r1"
    by (auto simp: start_fdt_object_def split: if_splits dest: start_file_inv)
next
  fix r1
  assume inv: "rc_inv env r1" and "(case om_get (rc_files r1) (alc_toi alc) of
       None \<Rightarrow> Some (Inr (), r1)
     | Some f \<Rightarrow>
         if fl_complete f then Some (Inr (), r1)
         else case payload_symbols_of r1 alc n f of
                Inl e \<Rightarrow> Some (Inl e, r1)
              | Inr symbols \<Rightarrow>
                  (case for_each (put_symbol (env_md5 env)) symbols f of
                     (Inl e, f') \<Rightarrow> Some (Inl e, set_file (alc_toi alc) f' r1)
                   | (Inr _, f') \<Rightarrow>
                       let r' = set_file (alc_toi alc) f' r1
                       in if fl_complete f' then finish_file env now alc f' r' else Some (Inr (), r'))) =
     Some (res, r')"
  then show "rc_inv env r'"
    by (auto simp: Let_def set_file_inv split: option.splits if_splits sum.splits prod.splits
        elim!: finish_file_inv intro: put_symbols_verified)
qed

lemma handle_receive_from_inv:
  assumes "handle_receive_from env now d r = Some (res, r')" and "rc_inv env r"
  shows "rc_inv env r'"
proof -
  have data: "rc_inv env (receive_datagram d r)" for d
    using assms(2) by (simp add: receive_datagram_def rc_inv_def)
  have "rc_inv env r2" if "process_packet env now n (receive_datagram d r) = Some (res', r2)" for d n res' r2
    using that data [of d]
    by (auto simp: process_packet_def split: option.splits sum.splits if_splits elim: receive_object_inv)
  with data assms show ?thesis
    by (auto simp: handle_receive_from_def Let_def rc_inv_files(3) split: option.splits if_splits sum.splits prod.splits)
qed

interpretation rcv: inductive_invariant rc_init "rc_event env" "rc_inv env" for env
proof unfold_locales
  show "rc_inv env r" if "rc_init r" for r
    using that by (auto simp: rc_init.simps receiver_new_def rc_inv_def)
  show "rc_inv env r'" if "rc_inv env r" "rc_event env r r'" for r r'
    using that(2,1)
  proof cases
    case (datagram now d res)
    with that show ?thesis by (auto intro: handle_receive_from_inv)
  qed (use that(1) in \<open>auto simp: rc_inv_def remove_expired_files_def remove_file_with_content_location_def
      register_completion_callback_def receiver_stop_def om_ok_erase_if\<close>)
qed

section \<open>What handling a packet leaves alone\<close>

definition rc_static :: "receiver \<Rightarrow> bool \<times> bool \<times> bool \<times> u64 \<times> byte list" where
  "rc_static r = (rc_running r, rc_armed r, rc_callback r, rc_tsi r, rc_data r)"

lemma rc_static_simps [simp]:
  "rc_static (r\<lparr>rc_files := m\<rparr>) = rc_static r" "rc_static (r\<lparr>rc_fdt := t\<rparr>) = rc_static r"
  "rc_static (r\<lparr>rc_delivered := fs\<rparr>) = rc_static r"
  "rc_static (set_file toi f r) = rc_static r" "rc_static (replace_files toi f r) = rc_static r"
  "rc_static (deliver toi f r) = rc_static r"
  by (simp_all add: rc_static_def set_file_def replace_files_def deliver_def)

lemma start_file_static: "start_file env now toi e r = Some (res, r') \<Longrightarrow> rc_static r' = rc_static r"
  by (auto simp: start_file_def split: option.splits sum.splits)

lemma start_files_static: "start_files env now es r = Some (res, r') \<Longrightarrow> rc_static r' = rc_static r"
proof (induction es arbitrary: r)
  case (Cons e es)
  from Cons.prems show ?case
    unfolding start_files.simps
    by (rule bind_outcome_inv) (auto dest: start_file_static Cons.IH)
qed simp

lemma install_fdt_static: "install_fdt env now alc f r = Some (res, r') \<Longrightarrow> rc_static r' = rc_static r"
  by (auto simp: install_fdt_def split: sum.splits dest: start_files_static)

lemma finish_file_static: "finish_file env now alc f r = Some (res, r') \<Longrightarrow> rc_static r' = rc_static r"
  by (auto simp: finish_file_def Let_def split: option.splits prod.splits sum.splits if_splits dest: install_fdt_static)

lemma receive_object_static:
  assumes "receive_object env now alc n r = Some (res, r')"
  shows "rc_static r' = rc_static r"
  using assms unfolding receive_object_def
  by (rule bind_outcome_inv)
    (auto simp: start_fdt_object_def Let_def split: option.splits if_splits sum.splits prod.splits
      dest: start_file_static finish_file_static)

lemma process_packet_static: "process_packet env now n r = Some (res, r') \<Longrightarrow> rc_static r' = rc_static r"
  by (auto simp: process_packet_def split: option.splits sum.splits if_splits dest: receive_object_static)

text \<open>A datagram that is handled to the end leaves the receiver waiting for the next.\<close>

lemma handled_running:
  assumes "handle_receive_from env now (Some d) r = Some (Inr (), r')" and "rc_running r"
  shows "rc_armed r' \<and> rc_running r'"
proof -
  have "rc_running r2" if "process_packet env now n (receive_datagram d r) = Some (res, r2)" for n res r2
    using process_packet_static [OF that] assms(2) by (simp add: rc_static_def receive_datagram_def)
  with assms show ?thesis
    by (auto simp: handle_receive_from_def Let_def receive_datagram_def split: option.splits sum.splits prod.splits if_splits)
qed

end
