(* ===== verification/File_Coding.thy ===== *)
theory File_Coding
  imports File_Reassembly Receiver
begin

text \<open>
  Content encodings: what \<^verbatim>\<open>File::encode\<close> makes of the contents the receiver's \<^verbatim>\<open>decode\<close> turns back into
  them, under what zlib documents; the encodings for which one of the two throws; a coded file whose digest
  is wrong is delivered all the same.
\<close>

section \<open>Inflating\<close>

text \<open>The call of \<^verbatim>\<open>inflate\<close> with \<^verbatim>\<open>Z_FINISH\<close> on a stream state writes \<open>bs\<close>, which fit the output buffer of 16384
  bytes, and ends the stream.\<close>

definition inflates :: "'z zlib \<Rightarrow> 'z \<Rightarrow> byte list \<Rightarrow> bool" where
  "inflates z s bs \<longleftrightarrow> length bs \<le> 16384 \<and> (\<exists>s'. inflate_finish z s = (Z_STREAM_END, bs, s'))"

lemma inflates_unique: "inflates z s bs \<Longrightarrow> inflates z s cs \<Longrightarrow> cs = bs"
  by (auto simp: inflates_def)

definition out_bytes :: "byte list option \<Rightarrow> byte list" where
  "out_bytes out = (case out of None \<Rightarrow> [] | Some bs \<Rightarrow> bs)"

lemma out_bytes_simps [simp]: "out_bytes None = []" "out_bytes (Some bs) = bs" "out_bytes (append_out out chunk) = out_bytes out @ chunk"
  by (simp_all add: out_bytes_def append_out_def split: option.split)

lemma inflates_loop:
  assumes "inflates z s bs"
  shows "(case inflate_finish z s of (zstate, chunk, s1) \<Rightarrow> zlib_loop (inflate_finish z) zstate chunk s1 out) =
      Some (Z_STREAM_END, bs, out)"
  using assms by (auto simp: inflates_def zlib_loop.simps)

section \<open>The new buffer\<close>

lemma install_buffer_simps [simp]:
  "fl_meta (install_buffer out f) = fl_meta f" "fl_been_decoded (install_buffer out f) = fl_been_decoded f"
  "fl_complete (install_buffer out f) = fl_complete f" "fl_source_blocks (install_buffer out f) = fl_source_blocks f"
  by (simp_all add: install_buffer_def split: option.split)

lemma free_old_simps [simp]:
  "fl_meta (free_old own old f) = fl_meta f" "fl_buffer (free_old own old f) = fl_buffer f"
  "fl_complete (free_old own old f) = fl_complete f" "fl_been_decoded (free_old own old f) = fl_been_decoded f"
  by (simp_all add: free_old_def split: option.split)

lemma installed_bytes:
  assumes "fl_buffer f = Some i" and "i < length (fl_heap f)"
    and "fl_heap g = fl_heap (install_buffer out f)" and "fl_buffer g = fl_buffer (install_buffer out f)"
  shows "buffer_bytes (free_old own (Some i) g) (length (out_bytes out)) = Inr (out_bytes out)"
  using assms
  by (cases out) (auto simp: buffer_bytes_def free_old_def install_buffer_def heap_free_def heap_at_def read_bytes_def nth_append)

lemma buffer_bytes_cong:
  "fl_heap g = fl_heap f \<Longrightarrow> fl_buffer g = fl_buffer f \<Longrightarrow> buffer_bytes g n = buffer_bytes f n"
  by (simp add: buffer_bytes_def split: option.split)

lemma buffer_exists:
  "buffer_bytes f n = Inr bs \<Longrightarrow> n \<noteq> 0 \<Longrightarrow> \<exists>i. fl_buffer f = Some i \<and> i < length (fl_heap f)"
  by (auto simp: buffer_bytes_def heap_at_def split: option.splits if_splits)

section \<open>Decoding\<close>

text \<open>A file whose buffer holds a stream that inflates to \<open>data\<close>.\<close>

definition window_bits :: "string \<Rightarrow> nat" where
  "window_bits enc = (15 OR (if enc = ''gzip'' then 16 else 0))"

definition holds_stream :: "'z zlib \<Rightarrow> byte list \<Rightarrow> byte list \<Rightarrow> flute_file \<Rightarrow> bool" where
  "holds_stream z stream data f \<longleftrightarrow>
     \<not> fl_been_decoded f \<and> fe_content_encoding (fl_meta f) \<in> {''gzip'', ''deflate''} \<and> stream \<noteq> [] \<and>
     unat (ucast (transfer_length (fl_oti f)) :: u32) = length stream \<and> buffer_bytes f (length stream) = Inr stream \<and>
     inflates z (inflate_init z (window_bits (fe_content_encoding (fl_meta f))) stream) data \<and>
     length data < 2 ^ 32 \<and> unat (content_length (fl_meta f)) \<in> {0, length data}"

text \<open>The entry of the decoded file: a content length of 0 counts as missing.\<close>

definition decoded_entry :: "byte list \<Rightarrow> file_entry \<Rightarrow> file_entry" where
  "decoded_entry data e = (if content_length e = 0 then e\<lparr>content_length := of_nat (length data)\<rparr> else e)"

lemma decoded_entry_simps [simp]:
  "content_md5 (decoded_entry data e) = content_md5 e" "content_location (decoded_entry data e) = content_location e"
  "fe_toi (decoded_entry data e) = fe_toi e" "fe_fec_oti (decoded_entry data e) = fe_fec_oti e"
  "fe_content_encoding (decoded_entry data e) = fe_content_encoding e"
  by (simp_all add: decoded_entry_def)

text \<open>The file before its digest is looked at.\<close>

definition decoded_as :: "byte list \<Rightarrow> flute_file \<Rightarrow> flute_file \<Rightarrow> bool" where
  "decoded_as data f g \<longleftrightarrow>
     fl_been_decoded g \<and> fl_complete g = fl_complete f \<and> fl_meta g = decoded_entry data (fl_meta f) \<and>
     unat (file_length g) = length data \<and> buffer_bytes g (length data) = Inr data"

lemma decode_stream:
  assumes "holds_stream z stream data f"
  obtains g where "decoded_as data f g"
    and "decode z md5 f = Some (if content_md5 (fl_meta f) \<noteq> [] then verify_md5 md5 g else (Inr (), g))"
proof -
  let ?m = "fl_meta f"
  have f: "\<not> fl_been_decoded f" "fe_content_encoding ?m = ''gzip'' \<or> fe_content_encoding ?m = ''deflate''"
    "unat (ucast (transfer_length (fl_oti f)) :: u32) = length stream" "buffer_bytes f (length stream) = Inr stream"
    "unat (content_length ?m) = 0 \<or> unat (content_length ?m) = length data" "length data < 2 ^ 32"
    using assms by (auto simp: holds_stream_def)
  let ?s = "inflate_init z (window_bits (fe_content_encoding ?m)) stream"
  have "inflates z ?s data" using assms by (simp add: holds_stream_def)
  from inflates_loop [OF this, of None] have loop:
    "(case inflate_finish z ?s of (zstate, chunk, s1) \<Rightarrow> zlib_loop (inflate_finish z) zstate chunk s1 None) =
      Some (Z_STREAM_END, data, None)" .
  obtain zstate chunk1 s1 where s1: "inflate_finish z ?s = (zstate, chunk1, s1)" by (cases "inflate_finish z ?s")
  with loop have loop1: "zlib_loop (inflate_finish z) zstate chunk1 s1 None = Some (Z_STREAM_END, data, None)" by simp
  define out where "out = (if data = [] then None else append_out None data)"
  have data: "out_bytes out = data" by (simp add: out_def)
  have total: "(case out of None \<Rightarrow> 0 | Some bs \<Rightarrow> length bs) = length data"
    using data by (cases out) auto
  define f2 where "f2 = (if content_length ?m = 0 then (install_buffer out f)\<lparr>fl_meta := ?m\<lparr>content_length := of_nat (length data)\<rparr>\<rparr>
    else install_buffer out f)"
  define g where "g = (free_old (fl_own_buffer f) (fl_buffer f) f2)\<lparr>fl_been_decoded := True, fl_been_encoded := False\<rparr>"
  have "stream \<noteq> []" using assms by (simp add: holds_stream_def)
  with buffer_exists [OF f(4)] obtain i where i: "fl_buffer f = Some i" "i < length (fl_heap f)" by auto
  have "buffer_bytes (free_old (fl_own_buffer f) (Some i) f2) (length data) = Inr data"
    using installed_bytes [OF i, of f2 out] by (simp add: data f2_def)
  then have bytes: "buffer_bytes g (length data) = Inr data"
    unfolding g_def i(1) by (subst buffer_bytes_cong [where f = "free_old (fl_own_buffer f) (Some i) f2"]) simp_all
  have meta: "fl_meta g = (if content_length ?m = 0 then ?m\<lparr>content_length := of_nat (length data)\<rparr> else ?m)"
    by (simp add: g_def f2_def)
  have l: "unat (of_nat (length data) :: u32) = length data" using f(6) by (simp add: unat_of_nat take_bit_nat_eq_self)
  have "unat (content_length (fl_meta g)) = length data" using f(5) l by (auto simp: meta unat_eq_0)
  then have "unat (file_length g) = length data" by (simp add: file_length_def g_def)
  then have "decoded_as data f g" using bytes by (simp add: decoded_as_def meta decoded_entry_def) (simp add: g_def f2_def)
  moreover have "decode z md5 f = Some (if content_md5 ?m \<noteq> [] then verify_md5 md5 g else (Inr (), g))"
    using f(1,2) s1 loop1
    by (auto simp: decode_def Let_def f(3,4) window_bits_def out_def [symmetric] total g_def f2_def)
  ultimately show ?thesis by (rule that)
qed

lemma decode_verified_stream:
  assumes "holds_stream z stream data f"
    and "content_md5 (fl_meta f) = [] \<or> length (md5 data) = 16 \<and> content_md5 (fl_meta f) = base64_encode (md5 data) False"
  obtains g where "decoded_as data f g" and "decode z md5 f = Some (Inr (), g)"
proof -
  obtain g where g: "decoded_as data f g"
    "decode z md5 f = Some (if content_md5 (fl_meta f) \<noteq> [] then verify_md5 md5 g else (Inr (), g))"
    by (rule decode_stream [OF assms(1)])
  have "buffer_bytes g (unat (file_length g)) = Inr data" using g(1) by (simp add: decoded_as_def)
  then have "verify_md5 md5 g = (Inr (), g)" if "content_md5 (fl_meta f) \<noteq> []"
    using that assms(2) g(1) by (intro verify_md5_ok) (auto simp: decoded_as_def)
  with g(2) have "decode z md5 f = Some (Inr (), g)" by auto
  with g(1) show ?thesis by (rule that)
qed

section \<open>Round trip\<close>

text \<open>What zlib documents, with \<open>gz data\<close> the gzip stream of the data: \<^verbatim>\<open>deflate\<close> with 15 + 16 window bits
  and \<^verbatim>\<open>Z_FINISH\<close> writes the stream in one call when it fits the output buffer of 16384 bytes, fills the
  buffer and returns \<^verbatim>\<open>Z_OK\<close> when it does not; \<^verbatim>\<open>inflate\<close> refuses the stream state of \<^verbatim>\<open>deflate\<close>
  (\<^verbatim>\<open>Z_STREAM_ERROR\<close>). \<^verbatim>\<open>inflate\<close> with the same window bits and \<^verbatim>\<open>Z_FINISH\<close> gives the data back when they fit
  the output buffer, and returns \<^verbatim>\<open>Z_BUF_ERROR\<close> when they do not; with 15 window bits it expects the
  header of zlib's own format and finds that of gzip (\<^verbatim>\<open>Z_DATA_ERROR\<close>).\<close>

definition gzip_codec :: "'z zlib \<Rightarrow> (byte list \<Rightarrow> byte list) \<Rightarrow> bool" where
  "gzip_codec z gz \<longleftrightarrow>
     (\<forall>data. gz data \<noteq> [] \<and>
        (length (gz data) \<le> 16384 \<longrightarrow>
           (\<exists>s s'. deflate_init z 31 data = Some s \<and> deflate_finish z s = (Z_STREAM_END, gz data, s'))) \<and>
        (16384 < length (gz data) \<longrightarrow>
           (\<exists>s s'. deflate_init z 31 data = Some s \<and> deflate_finish z s = (Z_OK, take 16384 (gz data), s') \<and>
              fst (inflate_finish z s') = Z_ERROR)) \<and>
        (length data \<le> 16384 \<longrightarrow> inflates z (inflate_init z 31 (gz data)) data) \<and>
        (16384 < length data \<longrightarrow> fst (inflate_finish z (inflate_init z 31 (gz data))) = Z_BUF_ERROR) \<and>
        fst (inflate_finish z (inflate_init z 15 (gz data))) = Z_ERROR)"

lemma gzip_codecD:
  assumes "gzip_codec z gz"
  shows "gz data \<noteq> []"
    and "length (gz data) \<le> 16384 \<Longrightarrow> \<exists>s s'. deflate_init z 31 data = Some s \<and> deflate_finish z s = (Z_STREAM_END, gz data, s')"
    and "16384 < length (gz data) \<Longrightarrow> \<exists>s s'. deflate_init z 31 data = Some s \<and>
      deflate_finish z s = (Z_OK, take 16384 (gz data), s') \<and> fst (inflate_finish z s') = Z_ERROR"
    and "length data \<le> 16384 \<Longrightarrow> inflates z (inflate_init z 31 (gz data)) data"
    and "16384 < length data \<Longrightarrow> fst (inflate_finish z (inflate_init z 31 (gz data))) = Z_BUF_ERROR"
    and "fst (inflate_finish z (inflate_init z 15 (gz data))) = Z_ERROR"
  using assms unfolding gzip_codec_def by blast+

lemma encode_gzip:
  assumes "gzip_codec z gz" and "length (gz data) \<le> 16384" and "length data < 2 ^ 32"
    and "content_length entry = of_nat (length data)" and "fe_content_encoding entry \<in> {''gzip'', ''deflate''}"
  obtains f where "encode z (file_with entry True data uninit description) = Some (Inr (), f)"
    and "transfer_length (fl_oti f) = of_nat (length (gz data))" and "\<not> fl_been_decoded f"
    and "fl_meta f = set_transfer_length (of_nat (length (gz data))) entry"
    and "buffer_bytes f (length (gz data)) = Inr (gz data)" and "fl_buffer f = Some 1" "heap_at (fl_heap f) 1 = Some (gz data)"
proof -
  let ?f = "file_with entry True data uninit description"
  obtain s s' where z: "deflate_init z 31 data = Some s" "deflate_finish z s = (Z_STREAM_END, gz data, s')" "gz data \<noteq> []"
    using gzip_codecD(1,2) [OF assms(1)] assms(2) by blast
  have "unat (content_length entry) = length data" using assms(3,4) by (simp add: unat_of_nat take_bit_nat_eq_self)
  then have bytes: "buffer_bytes ?f (unat (content_length (fl_meta ?f))) = Inr data"
    by (simp add: buffer_bytes_def file_with_def heap_at_def read_bytes_def)
  have fields: "\<not> fl_been_encoded ?f" "fl_meta ?f = entry" "fl_own_buffer ?f" "fl_buffer ?f = Some 0" "length (fl_heap ?f) = 1"
    "\<not> fl_been_decoded ?f"
    by (simp_all add: file_with_def)
  let ?g = "install_buffer (Some (gz data)) ?f"
  define h where "h = ?g\<lparr>fl_meta := set_transfer_length (of_nat (length (gz data))) entry\<rparr>"
  define f where "f = (free_old True (Some 0) h)\<lparr>fl_been_encoded := True, fl_been_decoded := False\<rparr>"
  have "encode z ?f = Some (Inr (), f)"
    using assms(5) z fields
    by (auto simp: encode_def Let_def bytes [unfolded fields(2)] zlib_loop.simps append_out_def f_def h_def)
  moreover have "buffer_bytes (free_old True (Some 0) h) (length (gz data)) = Inr (gz data)"
    using installed_bytes [of ?f 0 h "Some (gz data)" True] fields by (simp add: h_def)
  then have "buffer_bytes f (length (gz data)) = Inr (gz data)"
    unfolding f_def by (subst buffer_bytes_cong [where f = "free_old True (Some 0) h"]) simp_all
  moreover have "fl_meta f = set_transfer_length (of_nat (length (gz data))) entry" by (simp add: f_def h_def)
  moreover have "fl_buffer f = Some 1" "heap_at (fl_heap f) 1 = Some (gz data)"
    using fields by (simp_all add: f_def h_def install_buffer_def free_old_def heap_free_def heap_at_def nth_append)
  ultimately show ?thesis by (intro that [of f]) (simp_all add: set_transfer_length_def f_def)
qed

text \<open>What \<^verbatim>\<open>handle_receive_from\<close> does with a file that has become complete, when it is not the FDT.\<close>

lemma finish_delivers:
  assumes "decode (env_zlib env) (env_md5 env) f = Some (Inr (), g)" and "alc_toi alc \<noteq> 0" and "rc_callback r"
  obtains r' where "finish_file env now alc f r = Some (Inr (), r')" and "rc_delivered r' = rc_delivered r @ [g]"
  using assms by (simp add: finish_file_def deliver_def replace_files_def set_file_def Let_def)

text \<open>(C36) A file with content encoding gzip whose contents and whose compressed form have at most 16384
  bytes each: \<^verbatim>\<open>encode\<close> makes its buffer the gzip stream and the transfer length the length of the stream.
  A receiver that has got the stream decodes it when the file is complete and delivers the contents, if
  the digest of the entry is the contents' (or is missing).\<close>
theorem gzip_roundtrip:
  assumes "gzip_codec z gz" and "length (gz data) \<le> 16384" and "length data \<le> 16384"
    and "content_length entry = of_nat (length data)" and "fe_content_encoding entry = ''gzip''"
    and "env_zlib env = z" and "length (env_md5 env data) = 16"
    and "content_md5 entry \<in> {'''', base64_encode (env_md5 env data) False}"
    and "encode z (file_with entry True data uninit description) = Some (Inr (), f)"
    and "fl_meta g = fl_meta f" and "\<not> fl_been_decoded g"
    and "buffer_bytes g (unat (file_length g)) = buffer_bytes f (unat (file_length f))"
    and "alc_toi alc \<noteq> 0" and "rc_callback r"
  shows "unat (transfer_length (fl_oti f)) = length (gz data) \<and> buffer_bytes f (unat (file_length f)) = Inr (gz data) \<and>
    (\<exists>r' g'. finish_file env now alc g r = Some (Inr (), r') \<and> rc_delivered r' = rc_delivered r @ [g'] \<and>
       fl_complete g' = fl_complete g \<and> buffer_bytes g' (unat (file_length g')) = Inr data)"
proof -
  obtain f' where f': "encode z (file_with entry True data uninit description) = Some (Inr (), f')"
    "transfer_length (fl_oti f') = of_nat (length (gz data))" "\<not> fl_been_decoded f'"
    "fl_meta f' = set_transfer_length (of_nat (length (gz data))) entry" "buffer_bytes f' (length (gz data)) = Inr (gz data)"
    by (rule encode_gzip [OF assms(1,2) _ assms(4)]) (use assms(3,5) in simp_all)
  then have f: "f' = f" using assms(9) by simp
  have l: "unat (of_nat (length (gz data)) :: u64) = length (gz data)" using assms(2) by (intro unat_of_nat64) simp
  have sent: "unat (transfer_length (fl_oti f)) = length (gz data)" "buffer_bytes f (unat (file_length f)) = Inr (gz data)"
    using f'(2,3,5) l by (simp_all add: f file_length_def)
  have oti: "fl_oti g = fl_oti f" using assms(10) by simp
  then have "unat (file_length g) = length (gz data)" using assms(11) sent(1) by (simp add: file_length_def)
  then have got: "buffer_bytes g (length (gz data)) = Inr (gz data)" using assms(12) sent(2) by simp
  have "unat (ucast (transfer_length (fl_oti g)) :: u32) = length (gz data)"
    using sent(1) assms(2) by (subst unat_ucast_small) (simp_all add: oti)
  moreover have "unat (content_length (fl_meta g)) = length data"
    using assms(3,4,10) f'(4) by (simp add: f set_transfer_length_def unat_of_nat take_bit_nat_eq_self)
  moreover have meta: "fe_content_encoding (fl_meta g) = ''gzip''" "content_md5 (fl_meta g) = content_md5 entry"
    using assms(5,10) f'(4) by (simp_all add: f set_transfer_length_def)
  ultimately have "holds_stream z (gz data) data g"
    using gzip_codecD(1,4) [OF assms(1)] assms(3,11) got by (simp add: holds_stream_def window_bits_def)
  moreover have "content_md5 (fl_meta g) = [] \<or> length (env_md5 env data) = 16 \<and> content_md5 (fl_meta g) = base64_encode (env_md5 env data) False"
    using assms(7,8) meta(2) by auto
  ultimately obtain g' where g': "decoded_as data g g'" "decode z (env_md5 env) g = Some (Inr (), g')"
    by (rule decode_verified_stream)
  have bytes: "buffer_bytes g' (unat (file_length g')) = Inr data" using g'(1) by (simp add: decoded_as_def)
  have "decode (env_zlib env) (env_md5 env) g = Some (Inr (), g')" using g'(2) assms(6) by simp
  then obtain r' where "finish_file env now alc g r = Some (Inr (), r')" "rc_delivered r' = rc_delivered r @ [g']"
    by (rule finish_delivers) (use assms(13,14) in simp_all)
  moreover have "fl_complete g' = fl_complete g" using g'(1) by (simp add: decoded_as_def)
  ultimately show ?thesis using sent bytes by blast
qed


text \<open>A codec for the examples: the stream is the data behind a byte 31; one data set, of 20000 equal bytes,
  compresses to a single byte 30.\<close>

definition long_data :: "byte list" where
  "long_data = replicate 20000 7"

lemma length_long_data [simp]: "length long_data = 20000"
  by (simp add: long_data_def)

definition example_gz :: "byte list \<Rightarrow> byte list" where
  "example_gz data = (if data = long_data then [30] else 31 # data)"

definition example_chunk :: "zstatus \<Rightarrow> bool \<times> byte list \<Rightarrow> zstatus \<times> byte list \<times> (bool \<times> byte list)" where
  "example_chunk full = (\<lambda>(b, s).
     if length s \<le> 16384 then (Z_STREAM_END, s, (b, [])) else (full, take 16384 s, (b, drop 16384 s)))"

definition example_codec :: "(bool \<times> byte list) zlib" where
  "example_codec =
     \<lparr>deflate_init = (\<lambda>w data. Some (False, example_gz data)), deflate_finish = example_chunk Z_OK,
      inflate_init = (\<lambda>w bs. (w = 31, if bs = [30] then long_data else drop 1 bs)),
      inflate_finish = (\<lambda>s. if fst s then example_chunk Z_BUF_ERROR s else (Z_ERROR, [], s))\<rparr>"

lemma example_gz_short: "length data < 20000 \<Longrightarrow> example_gz data = 31 # data"
  by (auto simp: example_gz_def)

lemma example_gzip: "gzip_codec example_codec example_gz"
proof -
  have "inflate_init example_codec 31 (example_gz data) = (True, data)" for data
    by (simp add: example_codec_def example_gz_def)
  then show ?thesis
    unfolding gzip_codec_def by (auto simp: example_codec_def example_chunk_def inflates_def example_gz_def)
qed

definition gzip_entry :: file_entry where
  "gzip_entry = \<lparr>fe_toi = 1, content_location = ''f'', content_length = 3, content_md5 = '''', content_type = '''',
     fe_expires = 0, fe_fec_oti = fec_oti_zero, fe_cache_control = \<lparr>no_cache = False, cache_expires = None\<rparr>,
     fe_content_encoding = ''gzip'', etag = ''''\<rparr>"

definition gzip_env :: "(bool \<times> byte list) env" where
  "gzip_env = \<lparr>env_malloc = (\<lambda>n. Some (replicate n 0)), env_md5 = (\<lambda>bs. replicate 16 7), env_zlib = example_codec,
     env_xml_parse = (\<lambda>x. None)\<rparr>"

definition gzip_receiver :: receiver where
  "gzip_receiver = \<lparr>rc_running = True, rc_armed = False, rc_tsi = 7, rc_data = [], rc_fdt = None, rc_files = [],
     rc_callback = True, rc_delivered = []\<rparr>"

definition gzip_packet :: alc_packet where
  "gzip_packet = \<lparr>alc_tsi = 7, alc_toi = 1, alc_fdt_instance_id = 0, alc_content_encoding = NONE,
     alc_fec_oti = fec_oti_zero, alc_lct_header = built_lct_header 1\<rparr>"

theorem gzip_roundtrip_witness:
  "\<exists>f r' g'. encode example_codec (file_with gzip_entry True [1, 2, 3] 0 None) = Some (Inr (), f) \<and>
     buffer_bytes f (unat (file_length f)) = Inr [31, 1, 2, 3] \<and>
     finish_file gzip_env 0 gzip_packet f gzip_receiver = Some (Inr (), r') \<and> rc_delivered r' = [g'] \<and>
     buffer_bytes g' (unat (file_length g')) = Inr [1, 2, 3]"
proof -
  have h: "length (example_gz [1, 2, 3]) \<le> 16384" "length [1, 2, 3 :: byte] \<le> 16384"
    "content_length gzip_entry = of_nat (length [1, 2, 3 :: byte])" "fe_content_encoding gzip_entry = ''gzip''"
    "env_zlib gzip_env = example_codec" "length (env_md5 gzip_env [1, 2, 3]) = 16"
    "content_md5 gzip_entry \<in> {'''', base64_encode (env_md5 gzip_env [1, 2, 3]) False}"
    "alc_toi gzip_packet \<noteq> 0" "rc_callback gzip_receiver" "rc_delivered gzip_receiver = []"
    by (simp_all add: gzip_entry_def gzip_env_def gzip_packet_def gzip_receiver_def example_gz_short)
  obtain f where f: "encode example_codec (file_with gzip_entry True [1, 2, 3] 0 None) = Some (Inr (), f)" "\<not> fl_been_decoded f"
    by (rule encode_gzip [OF example_gzip h(1) _ h(3)]) (use h(4) in simp_all)
  from gzip_roundtrip [OF example_gzip h(1-7) f(1) refl f(2) refl h(8,9), of 0] f(1) h(10) show ?thesis by (auto simp: example_gz_short)
qed

section \<open>A wrong digest\<close>

lemma decode_wrong_digest:
  assumes "holds_stream z stream data f" and "content_md5 (fl_meta f) = base64_encode digest False"
    and "length digest = 16" and "length (md5 data) = 16" and "md5 data \<noteq> digest"
  obtains g where "decoded_as data f g" and "decode z md5 f = Some (Inr (), reset_blocks g)" and "md5_agrees md5 g = Inr False"
proof -
  obtain g where g: "decoded_as data f g" "decode z md5 f = Some (if content_md5 (fl_meta f) \<noteq> [] then verify_md5 md5 g else (Inr (), g))"
    by (rule decode_stream [OF assms(1)])
  have bytes: "buffer_bytes g (unat (file_length g)) = Inr data" using g(1) by (simp add: decoded_as_def)
  have "content_md5 (fl_meta g) = base64_encode digest False" using g(1) assms(2) by (simp add: decoded_as_def)
  then have no: "md5_agrees md5 g = Inr False"
    using bytes assms(3-5) by (simp add: md5_agrees_def base64_decode_encode digest_matches_def read_bytes_def)
  have "length (content_md5 (fl_meta f)) = 24" unfolding assms(2) using assms(3) by (simp add: base64_encode_length)
  then have "decode z md5 f = Some (Inr (), reset_blocks g)" using g(2) no by (auto simp: verify_md5_def)
  with g(1) no show ?thesis by (intro that)
qed

text \<open>(C37) The digest of a coded file is compared after decoding, and the outcome has no effect: the file is
  delivered although its contents are not those of the entry.\<close>
theorem coded_file_not_verified:
  assumes "holds_stream (env_zlib env) stream data f" and "content_md5 (fl_meta f) = base64_encode digest False"
    and "length digest = 16" and "length (env_md5 env data) = 16" and "env_md5 env data \<noteq> digest"
    and "alc_toi alc \<noteq> 0" and "rc_callback r"
  shows "\<exists>r' g. finish_file env now alc f r = Some (Inr (), r') \<and> rc_delivered r' = rc_delivered r @ [g] \<and>
    buffer_bytes g (unat (file_length g)) = Inr data \<and> md5_agrees (env_md5 env) g = Inr False \<and> \<not> fl_complete g"
proof -
  obtain g where g: "decoded_as data f g" "decode (env_zlib env) (env_md5 env) f = Some (Inr (), reset_blocks g)"
    "md5_agrees (env_md5 env) g = Inr False"
    by (rule decode_wrong_digest [of _ stream data _ digest "env_md5 env", OF assms(1-5)])
  obtain r' where "finish_file env now alc f r = Some (Inr (), r')" "rc_delivered r' = rc_delivered r @ [reset_blocks g]"
    by (rule finish_delivers [OF g(2) assms(6,7)])
  moreover have "file_length (reset_blocks g) = file_length g" "buffer_bytes (reset_blocks g) n = buffer_bytes g n"
    "fl_meta (reset_blocks g) = fl_meta g" "\<not> fl_complete (reset_blocks g)" for n
    by (simp_all add: reset_blocks_def file_length_def buffer_bytes_def split: option.split)
  ultimately show ?thesis using g(1,3) by (intro exI [of _ r'] exI [of _ "reset_blocks g"]) (simp add: md5_agrees_def decoded_as_def)
qed


theorem coded_file_not_verified_witness:
  "\<exists>f r' g. content_md5 (fl_meta f) = base64_encode (replicate 16 9) False \<and>
     finish_file gzip_env 0 gzip_packet f gzip_receiver = Some (Inr (), r') \<and> rc_delivered r' = [g] \<and>
     buffer_bytes g (unat (file_length g)) = Inr [1, 2, 3] \<and> md5_agrees (env_md5 gzip_env) g = Inr False"
proof -
  let ?e = "gzip_entry\<lparr>content_md5 := base64_encode (replicate 16 9) False\<rparr>" and ?gz = "example_gz [1, 2, 3]"
  have h: "length ?gz \<le> 16384" "length [1, 2, 3 :: byte] < 2 ^ 32" "content_length ?e = of_nat (length [1, 2, 3 :: byte])"
    "fe_content_encoding ?e = ''gzip''" "length (replicate 16 9 :: byte list) = 16" "length (env_md5 gzip_env [1, 2, 3]) = 16"
    "alc_toi gzip_packet \<noteq> 0" "rc_callback gzip_receiver" "rc_delivered gzip_receiver = []"
    by (simp_all add: gzip_entry_def gzip_env_def gzip_packet_def gzip_receiver_def example_gz_short)
  have "(7 :: byte) \<noteq> 9" by simp
  then have ne: "env_md5 gzip_env [1, 2, 3] \<noteq> replicate 16 9" by (simp add: gzip_env_def)
  obtain f where f: "\<not> fl_been_decoded f" "fl_meta f = set_transfer_length (of_nat (length ?gz)) ?e" "buffer_bytes f (length ?gz) = Inr ?gz"
    by (rule encode_gzip [OF example_gzip h(1-3)]) (use h(4) in simp_all)
  have m: "content_md5 (fl_meta f) = base64_encode (replicate 16 9) False" "fe_content_encoding (fl_meta f) = ''gzip''"
    "transfer_length (fl_oti f) = 4" "content_length (fl_meta f) = 3"
    using f(2) by (simp_all add: set_transfer_length_def gzip_entry_def example_gz_short)
  have "inflates example_codec (inflate_init example_codec 31 ?gz) [1, 2, 3]"
    by (rule gzip_codecD(4) [OF example_gzip]) simp
  then have "holds_stream (env_zlib gzip_env) ?gz [1, 2, 3] f"
    using f(1,3) m(2-4) by (simp add: holds_stream_def window_bits_def gzip_env_def example_gz_short)
  from coded_file_not_verified [OF this m(1) h(5,6) ne h(7,8), of 0] m(1) h(9) show ?thesis by auto
qed

section \<open>Encodings that throw\<close>

lemma encode_overflow:
  assumes "gzip_codec z gz" and "16384 < length (gz data)" and "length data < 2 ^ 32"
    and "content_length entry = of_nat (length data)" and "fe_content_encoding entry \<in> {''gzip'', ''deflate''}"
  shows "\<exists>f. encode z (file_with entry True data uninit description) = Some (Inl (CStr ''zlib message''), f)"
proof -
  let ?f = "file_with entry True data uninit description"
  obtain s s' where z: "deflate_init z 31 data = Some s" "deflate_finish z s = (Z_OK, take 16384 (gz data), s')"
    "fst (inflate_finish z s') = Z_ERROR"
    using gzip_codecD(3) [OF assms(1,2)] by blast
  obtain c t where "inflate_finish z s' = (Z_ERROR, c, t)" using z(3) by (cases "inflate_finish z s'") simp
  moreover have "unat (content_length entry) = length data" using assms(3,4) by (simp add: unat_of_nat take_bit_nat_eq_self)
  then have "buffer_bytes ?f (unat (content_length entry)) = Inr data"
    by (simp add: buffer_bytes_def file_with_def heap_at_def read_bytes_def)
  moreover have "\<not> fl_been_encoded ?f" "fl_meta ?f = entry" by (simp_all add: file_with_def)
  ultimately show ?thesis using assms(5) z(1,2) by (auto simp: encode_def Let_def zlib_loop.simps)
qed

lemma decode_refused:
  assumes "fst (inflate_finish z (inflate_init z (window_bits (fe_content_encoding (fl_meta g))) stream)) \<in> {Z_BUF_ERROR, Z_ERROR}"
    and "fe_content_encoding (fl_meta g) \<in> {''gzip'', ''deflate''}" and "\<not> fl_been_decoded g"
    and "buffer_bytes g (unat (ucast (transfer_length (fl_oti g)) :: u32)) = Inr stream"
  shows "\<exists>g'. decode z md5 g = Some (Inl (CStr ''zlib message''), g')"
proof -
  let ?s = "inflate_init z (window_bits (fe_content_encoding (fl_meta g))) stream"
  obtain e c t where "inflate_finish z ?s = (e, c, t)" "e = Z_BUF_ERROR \<or> e = Z_ERROR"
    using assms(1) by (cases "inflate_finish z ?s") auto
  then show ?thesis using assms(2-4) by (auto simp: decode_def Let_def zlib_loop.simps window_bits_def)
qed

text \<open>A receiver's file that holds what the file \<open>f\<close> of the sender does, not decoded yet.\<close>

definition received_from :: "flute_file \<Rightarrow> flute_file \<Rightarrow> bool" where
  "received_from f g \<longleftrightarrow> fl_meta g = fl_meta f \<and> \<not> fl_been_decoded g \<and>
     buffer_bytes g (unat (file_length g)) = buffer_bytes f (unat (file_length f))"

lemma received_stream:
  assumes "received_from f g" and "transfer_length (fl_oti f) = of_nat (length stream)" and "\<not> fl_been_decoded f"
    and "buffer_bytes f (length stream) = Inr stream" and "length stream \<le> 16384"
  shows "buffer_bytes g (unat (ucast (transfer_length (fl_oti g)) :: u32)) = Inr stream"
proof -
  have l: "unat (of_nat (length stream) :: u64) = length stream" using assms(5) by (intro unat_of_nat64) simp
  have g: "fl_oti g = fl_oti f" "\<not> fl_been_decoded g"
    "buffer_bytes g (unat (file_length g)) = buffer_bytes f (unat (file_length f))"
    using assms(1) by (simp_all add: received_from_def)
  have "unat (file_length g) = length stream" "unat (file_length f) = length stream"
    using assms(2,3) g(1,2) l by (simp_all add: file_length_def)
  moreover have "unat (ucast (transfer_length (fl_oti g)) :: u32) = length stream"
    using l assms(2,5) by (subst unat_ucast_small) (simp_all add: g(1))
  ultimately show ?thesis using assms(4) g(3) by simp
qed

text \<open>(C38) What the encoder does with every coded file, and the receiver with what the encoder made of it.
  Contents whose compressed form does not fit the output buffer of 16384 bytes cannot be sent: after the
  first 16384 bytes the encoder calls \<^verbatim>\<open>inflate\<close> on the stream of \<^verbatim>\<open>deflate\<close>, which zlib refuses, and throws.
  All other contents are encoded, but the decoder throws what the receiver does not catch, and delivers
  nothing, when the encoding is deflate (the encoder makes a gzip stream of it, the decoder does not
  expect one) and when the contents have more than 16384 bytes (the decoder asks \<^verbatim>\<open>inflate\<close> to finish, and
  takes the full output buffer for an error).\<close>
theorem coding_failures:
  assumes "gzip_codec z gz" and "env_zlib env = z" and "length data < 2 ^ 32"
    and "content_length entry = of_nat (length data)" and "fe_content_encoding entry \<in> {''gzip'', ''deflate''}"
  shows "if 16384 < length (gz data)
    then \<exists>f. encode z (file_with entry True data uninit description) = Some (Inl (CStr ''zlib message''), f)
    else \<exists>f. encode z (file_with entry True data uninit description) = Some (Inr (), f) \<and>
      (fe_content_encoding entry = ''deflate'' \<or> 16384 < length data \<longrightarrow>
        (\<forall>g. received_from f g \<longrightarrow>
          (\<exists>e r'. finish_file env now alc g r = Some (Inl e, r') \<and> rc_delivered r' = rc_delivered r \<and>
             \<not> caught_as_std_exception e)))"
proof (cases "16384 < length (gz data)")
  case True
  then show ?thesis using encode_overflow [OF assms(1) True assms(3-5)] by simp
next
  case False
  obtain f where f: "encode z (file_with entry True data uninit description) = Some (Inr (), f)"
    "transfer_length (fl_oti f) = of_nat (length (gz data))" "\<not> fl_been_decoded f"
    "fl_meta f = set_transfer_length (of_nat (length (gz data))) entry"
    "buffer_bytes f (length (gz data)) = Inr (gz data)"
    by (rule encode_gzip [OF assms(1) _ assms(3-5)]) (use False in simp)
  have "\<exists>e r'. finish_file env now alc g r = Some (Inl e, r') \<and> rc_delivered r' = rc_delivered r \<and> \<not> caught_as_std_exception e"
    if bad: "fe_content_encoding entry = ''deflate'' \<or> 16384 < length data" and g: "received_from f g" for g
  proof -
    have enc: "fe_content_encoding (fl_meta g) = fe_content_encoding entry" "\<not> fl_been_decoded g"
      using g f(4) by (simp_all add: received_from_def set_transfer_length_def)
    have "fst (inflate_finish z (inflate_init z (window_bits (fe_content_encoding (fl_meta g))) (gz data))) \<in> {Z_BUF_ERROR, Z_ERROR}"
      using bad assms(5) gzip_codecD(5,6) [OF assms(1), of data] by (auto simp: enc(1) window_bits_def)
    moreover have "fe_content_encoding (fl_meta g) \<in> {''gzip'', ''deflate''}" using enc(1) assms(5) by simp
    moreover have "buffer_bytes g (unat (ucast (transfer_length (fl_oti g)) :: u32)) = Inr (gz data)"
      by (rule received_stream [OF g f(2,3,5)]) (use False in simp)
    ultimately obtain g' where "decode z (env_md5 env) g = Some (Inl (CStr ''zlib message''), g')"
      using decode_refused [OF _ _ enc(2)] by blast
    then show ?thesis using assms(2) by (auto simp: finish_file_def Let_def set_file_def replace_files_def)
  qed
  then show ?thesis using f(1) False by auto
qed

definition coding_entry :: "byte list \<Rightarrow> string \<Rightarrow> file_entry" where
  "coding_entry data enc = gzip_entry\<lparr>content_length := of_nat (length data), fe_content_encoding := enc\<rparr>"

text \<open>20000 bytes that do not compress, three bytes with encoding deflate, and 20000 bytes that compress to one.\<close>
theorem coding_failures_witness:
  "(\<exists>f. encode example_codec (file_with (coding_entry (replicate 20000 5) ''gzip'') True (replicate 20000 5) 0 None) =
      Some (Inl (CStr ''zlib message''), f)) \<and>
   (\<exists>f e r'. encode example_codec (file_with (coding_entry [1, 2, 3] ''deflate'') True [1, 2, 3] 0 None) = Some (Inr (), f) \<and>
      finish_file gzip_env 0 gzip_packet f gzip_receiver = Some (Inl e, r') \<and> \<not> caught_as_std_exception e) \<and>
   (\<exists>f e r'. encode example_codec (file_with (coding_entry long_data ''gzip'') True long_data 0 None) = Some (Inr (), f) \<and>
      finish_file gzip_env 0 gzip_packet f gzip_receiver = Some (Inl e, r') \<and> \<not> caught_as_std_exception e)"
proof -
  have env: "env_zlib gzip_env = example_codec" by (simp add: gzip_env_def)
  have entry: "content_length (coding_entry data enc) = of_nat (length data)" "fe_content_encoding (coding_entry data enc) = enc" for data enc
    by (simp_all add: coding_entry_def)
  have sizes: "16384 < length (example_gz (replicate 20000 5))" "\<not> 16384 < length (example_gz [1, 2, 3])"
    "\<not> 16384 < length (example_gz long_data)"
    by (auto simp: example_gz_def long_data_def replicate_eq_replicate)
  have self: "received_from f f" if that0: "encode example_codec (file_with (coding_entry data enc) True data 0 None) = Some (Inr (), f)"
    "length data < 2 ^ 32" "\<not> 16384 < length (example_gz data)" "enc \<in> {''gzip'', ''deflate''}" for data enc f
  proof -
    obtain f' where "encode example_codec (file_with (coding_entry data enc) True data 0 None) = Some (Inr (), f')" "\<not> fl_been_decoded f'"
      by (rule encode_gzip [OF example_gzip, of data "coding_entry data enc" 0 None]) (use that0(2-4) entry in simp_all)
    with that0(1) show ?thesis by (simp add: received_from_def)
  qed
  have w: "length (replicate 20000 (5 :: byte)) < 2 ^ 32" "length [1, 2, 3 :: byte] < 2 ^ 32" "length long_data < 2 ^ 32" by simp_all
  have e: "fe_content_encoding (coding_entry data ''gzip'') \<in> {''gzip'', ''deflate''}"
    "fe_content_encoding (coding_entry data ''deflate'') \<in> {''gzip'', ''deflate''}" for data by (simp_all add: entry)
  note a = coding_failures [OF example_gzip env w(1) entry(1) e(1), of 0 None 0 gzip_packet gzip_receiver]
    and b = coding_failures [OF example_gzip env w(2) entry(1) e(2), of 0 None 0 gzip_packet gzip_receiver]
    and c = coding_failures [OF example_gzip env w(3) entry(1) e(1), of 0 None 0 gzip_packet gzip_receiver]
  have "\<exists>f. encode example_codec (file_with (coding_entry (replicate 20000 5) ''gzip'') True (replicate 20000 5) 0 None) =
      Some (Inl (CStr ''zlib message''), f)"
    using a sizes(1) by (simp only: if_True)
  moreover have "\<exists>f e r'. encode example_codec (file_with (coding_entry [1, 2, 3] ''deflate'') True [1, 2, 3] 0 None) = Some (Inr (), f) \<and>
      finish_file gzip_env 0 gzip_packet f gzip_receiver = Some (Inl e, r') \<and> \<not> caught_as_std_exception e"
    using b self [of "[1, 2, 3]" "''deflate''"] sizes(2) unfolding if_not_P [OF sizes(2)] entry by auto
  moreover have "\<exists>f e r'. encode example_codec (file_with (coding_entry long_data ''gzip'') True long_data 0 None) = Some (Inr (), f) \<and>
      finish_file gzip_env 0 gzip_packet f gzip_receiver = Some (Inl e, r') \<and> \<not> caught_as_std_exception e"
    using c self [of long_data "''gzip''"] sizes(3) unfolding if_not_P [OF sizes(3)] entry by auto
  ultimately show ?thesis by blast
qed

end
