(* ===== verification/Delivery.thy ===== *)
theory Delivery
  imports Receiver_Safety File_Coding
begin

text \<open>
  From packets to files: what the receiver's handler does with the packets a sender of the session
  builds. A packet extends the set of received symbols of its file; the completed file is delivered,
  the completed FDT starts the reception of the files it announces.
\<close>

section \<open>The packets of an object\<close>

text \<open>\<open>header_oti\<close> is what the sender puts in the header, \<open>oti\<close> partitions the object. The symbols are a
  run the payload format can express, of the object \<open>data\<close>, at the places \<open>ijs\<close>.\<close>

definition packet_of ::
  "u16 \<Rightarrow> u16 \<Rightarrow> u32 \<Rightarrow> fec_oti \<Rightarrow> fec_oti \<Rightarrow> byte list \<Rightarrow> (nat \<times> nat) list \<Rightarrow> byte list \<Rightarrow> bool" where
  "packet_of tsi toi fid header_oti oti data ijs d \<longleftrightarrow>
     (\<exists>ss max_size out. list_all2 (genuine oti data) ijs ss \<and> symbol_run (encoding_symbol_length oti) ss \<and>
        length (payload_data ss) \<le> unat max_size \<and> unat max_size < 2 ^ 63 \<and>
        alc_build tsi toi header_oti ss max_size fid = Inr out \<and> d = wire out \<and> length d \<le> max_length)"

lemma genuine_same_content:
  assumes "genuine oti data ij s" and "es_id p = es_id s" and "es_source_block_number p = es_source_block_number s"
    and "symbol_bytes p = symbol_bytes s" and "es_fec_scheme p = CompactNoCode"
  shows "genuine oti data ij p"
proof -
  have "symbol_bytes s = Inr bs \<Longrightarrow> unat (es_len s) = length bs" for s bs
    by (simp add: symbol_bytes_def read_bytes_take)
  with assms have "unat (es_len p) = unat (es_len s)"
    unfolding genuine_def by metis
  with assms show ?thesis by (simp add: genuine_def)
qed

lemma parsed_genuine:
  assumes "list_all2 (genuine oti data) ijs ss"
    and "map es_id ps = map es_id ss" "map es_source_block_number ps = map es_source_block_number ss"
    and "map symbol_bytes ps = map symbol_bytes ss" and "\<forall>p \<in> set ps. es_fec_scheme p = CompactNoCode"
  shows "list_all2 (genuine oti data) ijs ps"
proof -
  have l: "length ps = length ss" using assms(2) map_eq_imp_length_eq by blast
  have "genuine oti data (ijs ! k) (ps ! k)" if k: "k < length ps" for k
  proof (rule genuine_same_content)
    show "genuine oti data (ijs ! k) (ss ! k)" using assms(1) k l by (simp add: list_all2_conv_all_nth)
    show "es_id (ps ! k) = es_id (ss ! k)" using arg_cong [OF assms(2), of "\<lambda>x. x ! k"] k l by simp
    show "es_source_block_number (ps ! k) = es_source_block_number (ss ! k)"
      using arg_cong [OF assms(3), of "\<lambda>x. x ! k"] k l by simp
    show "symbol_bytes (ps ! k) = symbol_bytes (ss ! k)" using arg_cong [OF assms(4), of "\<lambda>x. x ! k"] k l by simp
    show "es_fec_scheme (ps ! k) = CompactNoCode" using assms(5) k by simp
  qed
  then show ?thesis using assms(1) l by (simp add: list_all2_conv_all_nth)
qed

text \<open>What a receiver's buffer with a packet at its start parses to.\<close>

lemma packet_parsed:
  assumes "packet_of tsi toi fid header_oti oti data ijs d"
    and "encoding_id oti = CompactNoCode" "encoding_id header_oti = CompactNoCode" "encoding_symbol_length oti \<noteq> 0"
    and "slen oti < 2 ^ 24"
  shows "alc_parse (d @ rest) (length d) = Some (Inr (received_packet tsi toi header_oti fid))"
    and "\<exists>ps. from_payload (drop (4 * lct_words toi) (d @ rest)) (of_nat (length d) - of_nat (4 * lct_words toi))
        oti NONE = Inr ps \<and> list_all2 (genuine oti data) ijs ps"
    and "4 * lct_words toi \<le> length d" and "length d \<le> max_length"
proof -
  from assms(1) obtain ss max_size out where ss: "list_all2 (genuine oti data) ijs ss"
    "symbol_run (encoding_symbol_length oti) ss"
    and n: "length (payload_data ss) \<le> unat max_size" "unat max_size < 2 ^ 63"
    and build: "alc_build tsi toi header_oti ss max_size fid = Inr out" and d: "d = wire out" "length d \<le> max_length"
    by (auto simp: packet_of_def)
  define m where "m = length (payload_data ss)"
  have ok: "ss \<noteq> []" "\<forall>s \<in> set ss. symbol_ok s" using ss(2) by (simp_all add: symbol_run_def)
  have out: "out = \<lparr>out_buffer = header_image tsi toi header_oti fid @ payload_image ss @
      replicate (unat max_size - m) 0, out_len = of_nat (4 * lct_words toi + (4 + m))\<rparr>"
    using alc_build_image [OF ok assms(3) n, of tsi toi fid] build by (simp add: m_def)
  have w: "lct_words toi \<le> 8" by (simp add: lct_words_def)
  have "unat (of_nat (4 * lct_words toi + (4 + m)) :: u64) = 4 * lct_words toi + (4 + m)"
    by (rule unat_of_nat64) (use n w in \<open>simp add: m_def\<close>)
  then have image: "d = header_image tsi toi header_oti fid @ payload_image ss"
    by (simp only: d(1) out wire_def alc_out.simps) (simp add: m_def)
  then have len: "length d = 4 * lct_words toi + (4 + m)" by (simp add: m_def)
  show "alc_parse (d @ rest) (length d) = Some (Inr (received_packet tsi toi header_oti fid))"
    unfolding image append_assoc by (rule alc_parse_image) simp
  show "4 * lct_words toi \<le> length d" "length d \<le> max_length" using len d(2) by simp_all
  have m: "4 + m < 2 ^ 24" using len d(2) by (simp add: max_length_def)
  have "of_nat (length d) - of_nat (4 * lct_words toi) = (of_nat (4 + m) :: u64)"
    unfolding len by simp
  moreover have "drop (4 * lct_words toi) (d @ rest) = payload_image ss @ rest"
    by (simp add: image)
  moreover obtain ps where "from_payload (payload_image ss @ rest) (of_nat (4 + m)) oti NONE = Inr ps"
    "list_all2 (genuine oti data) ijs ps"
    using payload_parsed [OF ss(2) assms(2) _ assms(4,5), of NONE rest] m parsed_genuine [OF ss(1)]
    unfolding m_def by blast
  ultimately show "\<exists>ps. from_payload (drop (4 * lct_words toi) (d @ rest))
      (of_nat (length d) - of_nat (4 * lct_words toi)) oti NONE = Inr ps \<and> list_all2 (genuine oti data) ijs ps"
    by simp
qed

section \<open>Handling one packet\<close>

lemma received_packet_simps [simp]:
  "alc_tsi (received_packet tsi toi oti fid) = ucast tsi" "alc_toi (received_packet tsi toi oti fid) = ucast toi"
  "header_length (received_packet tsi toi oti fid) = 4 * lct_words toi"
  "alc_content_encoding (received_packet tsi toi oti fid) = NONE"
  by (simp_all add: received_packet_def built_packet_def header_length_def built_lct_header_def lct_words_def)

lemma received_fdt_packet_simps [simp]:
  "alc_fdt_instance_id (received_packet tsi 0 oti fid) = fid AND 0xFFFFF"
  "alc_fec_oti (received_packet tsi 0 oti fid) = received_oti oti"
  by (simp_all add: received_packet_def)

lemma receive_datagram_simps [simp]:
  "rc_files (receive_datagram d r) = rc_files r" "rc_fdt (receive_datagram d r) = rc_fdt r"
  "rc_tsi (receive_datagram d r) = rc_tsi r" "rc_running (receive_datagram d r) = rc_running r"
  "rc_callback (receive_datagram d r) = rc_callback r" "rc_delivered (receive_datagram d r) = rc_delivered r"
  "length d \<le> max_length \<Longrightarrow> rc_data (receive_datagram d r) = d @ drop (length d) (rc_data r)"
  by (simp_all add: receive_datagram_def)

lemma handle_packet:
  assumes "packet_of tsi toi fid header_oti oti data ijs d"
    and "encoding_id oti = CompactNoCode" "encoding_id header_oti = CompactNoCode" "encoding_symbol_length oti \<noteq> 0"
    and "slen oti < 2 ^ 24" and "rc_running r" and "rc_tsi r = ucast tsi"
    and "receive_object env now (received_packet tsi toi header_oti fid) (of_nat (length d)) (receive_datagram d r) =
      Some (Inr (), r')"
  shows "handle_receive_from env now (Some d) r = Some (Inr (), r'\<lparr>rc_armed := True\<rparr>)"
proof -
  note p = packet_parsed [OF assms(1-5)]
  have t: "take max_length d = d" using p(4) by simp
  show ?thesis
    using assms(6-8) p(1) by (simp add: handle_receive_from_def Let_def t process_packet_def p(4))
qed

text \<open>A packet of an object that is being received: its symbols are stored.\<close>

lemma object_packet:
  assumes pkt: "packet_of tsi toi fid header_oti oti data ijs d"
    and oti: "encoding_id oti = CompactNoCode" "encoding_id header_oti = CompactNoCode" "slen oti < 2 ^ 24"
    and ok: "partition_ok oti" "length data = tlen oti" "md5_ok (env_md5 env) data (fl_meta f)"
    and f: "om_get (rc_files r) (ucast toi) = Some f" "receiving oti data R f" "\<not> fl_complete f"
  defines "p \<equiv> received_packet tsi toi header_oti fid"
  shows "\<exists>f'. receiving oti data (set ijs \<union> R) f' \<and> fl_meta f' = fl_meta f \<and>
    receive_object env now p (of_nat (length d)) (receive_datagram d r) =
      (let r2 = set_file (ucast toi) f' (receive_datagram d r)
       in if fl_complete f' then finish_file env now p f' r2 else Some (Inr (), r2))"
proof -
  have e: "encoding_symbol_length oti \<noteq> 0" using ok(1) by (auto simp: partition_ok_def)
  note parsed = packet_parsed [OF pkt oti(1,2) e oti(3)]
  have foti: "fl_oti f = oti" using f(2) by (simp add: receiving_def)
  obtain ps where ps: "payload_symbols_of (receive_datagram d r) p (of_nat (length d)) f = Inr ps"
    "list_all2 (genuine oti data) ijs ps"
    using parsed(2) [of "drop (length d) (rc_data r)"] parsed(4)
    by (auto simp: payload_symbols_of_def p_def foti)
  from put_symbols_genuine [OF ok f(2) ps(2)] obtain f' where
    f': "for_each (put_symbol (env_md5 env)) ps f = (Inr (), f')" "receiving oti data (set ijs \<union> R) f'"
    "fl_meta f' = fl_meta f" by blast
  have "start_fdt_object env now p (receive_datagram d r) = Some (Inr (), receive_datagram d r)"
    using f(1) by (auto simp: start_fdt_object_def start_file_def p_def)
  then have "receive_object env now p (of_nat (length d)) (receive_datagram d r) =
      (let r2 = set_file (ucast toi) f' (receive_datagram d r)
       in if fl_complete f' then finish_file env now p f' r2 else Some (Inr (), r2))"
    using f(1,3) ps(1) f'(1) by (simp add: receive_object_def p_def Let_def)
  with f' show ?thesis by blast
qed

text \<open>A packet of an object that is not known is discarded.\<close>

lemma unknown_packet:
  assumes "packet_of tsi toi fid header_oti oti data ijs d" and "toi \<noteq> 0" and "om_get (rc_files r) (ucast toi) = None"
  shows "receive_object env now (received_packet tsi toi header_oti fid) n (receive_datagram d r) =
    Some (Inr (), receive_datagram d r)"
proof -
  have "(ucast toi :: u64) \<noteq> 0" using assms(2) by (metis unat_0 unat_eq_0 unat_ucast_16_64)
  with assms(3) show ?thesis by (simp add: receive_object_def start_fdt_object_def)
qed

section \<open>The files of a session\<close>

text \<open>The objects of a session, by their identifiers: the table entry and the bytes.\<close>

type_synonym objects = "u16 \<rightharpoonup> file_entry \<times> byte list"

text \<open>What an object carries: itself when its file has no content encoding, what it inflates to otherwise, at
  most 16384 bytes (\<open>inflates\<close>). The digest of the entry is that of the contents.\<close>

definition carries :: "'z env \<Rightarrow> file_entry \<Rightarrow> byte list \<Rightarrow> byte list \<Rightarrow> bool" where
  "carries env e data content \<longleftrightarrow>
     (content_md5 e = [] \<or> length (env_md5 env content) = 16 \<and> content_md5 e = base64_encode (env_md5 env content) False) \<and>
     (if fe_content_encoding e = [] then content = data
      else fe_content_encoding e \<in> {''gzip'', ''deflate''} \<and> length data < 2 ^ 32 \<and>
        inflates (env_zlib env) (inflate_init (env_zlib env) (window_bits (fe_content_encoding e)) data) content \<and>
        length content < 2 ^ 32 \<and> unat (content_length e) \<in> {0, length content})"

definition object_ok :: "'z env \<Rightarrow> file_entry \<Rightarrow> byte list \<Rightarrow> bool" where
  "object_ok env e data \<longleftrightarrow>
     encoding_id (fe_fec_oti e) = CompactNoCode \<and> slen (fe_fec_oti e) < 2 ^ 24 \<and> partition_ok (fe_fec_oti e) \<and>
     length data = tlen (fe_fec_oti e) \<and> (\<exists>content. carries env e data content)"

text \<open>The file an application gets.\<close>

definition delivered_as :: "'z env \<Rightarrow> file_entry \<Rightarrow> byte list \<Rightarrow> flute_file \<Rightarrow> bool" where
  "delivered_as env e data f \<longleftrightarrow>
     (\<exists>content. carries env e data content \<and> buffer_bytes f (unat (file_length f)) = Inr content \<and>
        fl_meta f = (if fe_content_encoding e = [] then e else decoded_entry content e))"

lemma carries_plain: "fe_content_encoding e = [] \<Longrightarrow> md5_ok (env_md5 env) data e \<Longrightarrow> carries env e data data"
  by (auto simp: carries_def md5_ok_def)

lemma carries_unique: "carries env e data c1 \<Longrightarrow> carries env e data c2 \<Longrightarrow> c1 = c2"
  using inflates_unique by (auto simp: carries_def split: if_splits)

lemma carries_digest: "carries env e data content \<Longrightarrow> md5_ok (env_md5 env) data e"
  by (auto simp: carries_def md5_ok_def split: if_splits)

lemma delivered_plain:
  "fe_content_encoding e = [] \<Longrightarrow> delivered_as env e data f \<Longrightarrow> fl_meta f = e \<and> buffer_bytes f (unat (file_length f)) = Inr data"
  by (auto simp: delivered_as_def carries_def)

text \<open>Identifier 0 is the FDT's, and no two files share a location: a file that completes drops the
  others with its location.\<close>

definition objects_ok :: "'z env \<Rightarrow> objects \<Rightarrow> bool" where
  "objects_ok env objs \<longleftrightarrow>
     objs 0 = None \<and> (\<forall>toi e data. objs toi = Some (e, data) \<longrightarrow> object_ok env e data) \<and>
     (\<forall>t1 t2 e1 e2 d1 d2. objs t1 = Some (e1, d1) \<longrightarrow> objs t2 = Some (e2, d2) \<longrightarrow> t1 \<noteq> t2 \<longrightarrow>
        content_location e1 \<noteq> content_location e2)"

definition obtained :: "objects \<Rightarrow> (u16 \<Rightarrow> (nat \<times> nat) set) \<Rightarrow> u16 \<Rightarrow> bool" where
  "obtained objs R toi \<longleftrightarrow> (\<exists>e data. objs toi = Some (e, data) \<and> symbol_pairs (fe_fec_oti e) \<subseteq> R toi)"

definition object_state ::
  "objects \<Rightarrow> (u16 \<Rightarrow> (nat \<times> nat) set) \<Rightarrow> (u64, flute_file) omap \<Rightarrow> u16 \<Rightarrow> file_entry \<Rightarrow> byte list \<Rightarrow> bool" where
  "object_state objs R files toi e data \<longleftrightarrow>
     (if obtained objs R toi then om_get files (ucast toi) = None
      else \<exists>f. om_get files (ucast toi) = Some f \<and> fl_meta f = e \<and> receiving (fe_fec_oti e) data (R toi) f)"

text \<open>The files \<open>fs\<close> are the obtained objects, each once.\<close>

definition deliveries :: "'z env \<Rightarrow> objects \<Rightarrow> (u16 \<Rightarrow> (nat \<times> nat) set) \<Rightarrow> flute_file list \<Rightarrow> bool" where
  "deliveries env objs R fs \<longleftrightarrow>
     (\<exists>tois. distinct tois \<and> set tois = {toi. obtained objs R toi} \<and>
        list_all2 (\<lambda>toi f. \<exists>e data. objs toi = Some (e, data) \<and> delivered_as env e data f) tois fs)"

text \<open>The receiver has files of the objects only, besides the FDT's.\<close>

definition only_objects :: "objects \<Rightarrow> receiver \<Rightarrow> bool" where
  "only_objects objs r \<longleftrightarrow>
     (\<forall>k. om_get (rc_files r) k \<noteq> None \<longrightarrow> k = 0 \<or> (\<exists>t. k = ucast t \<and> objs t \<noteq> None))"

definition session ::
  "'z env \<Rightarrow> u16 \<Rightarrow> fdt option \<Rightarrow> objects \<Rightarrow> flute_file list \<Rightarrow> (u16 \<Rightarrow> (nat \<times> nat) set) \<Rightarrow> receiver \<Rightarrow> bool" where
  "session env tsi table objs before R r \<longleftrightarrow>
     rc_running r \<and> rc_armed r \<and> rc_callback r \<and> rc_tsi r = ucast tsi \<and> rc_fdt r = table \<and>
     om_ok (rc_files r) \<and> om_get (rc_files r) 0 = None \<and> only_objects objs r \<and>
     (\<forall>toi e data. objs toi = Some (e, data) \<longrightarrow> object_state objs R (rc_files r) toi e data) \<and>
     (\<exists>fs. rc_delivered r = before @ fs \<and> deliveries env objs R fs)"

lemma ucast16_eq [simp]: "(ucast (a :: u16) :: u64) = ucast b \<longleftrightarrow> a = b"
  by (metis unat_ucast_16_64 word_unat_eq_iff)

lemma obtained_update:
  "obtained objs (R(toi := S)) t \<longleftrightarrow>
     (if t = toi then \<exists>e data. objs toi = Some (e, data) \<and> symbol_pairs (fe_fec_oti e) \<subseteq> S else obtained objs R t)"
  by (auto simp: obtained_def)

lemma deliveries_same:
  assumes "deliveries env objs R fs" and "\<And>t. obtained objs R' t = obtained objs R t"
  shows "deliveries env objs R' fs"
  using assms by (simp add: deliveries_def)

lemma deliveries_one:
  assumes "deliveries env objs R fs" and "\<not> obtained objs R toi" and "\<And>t. obtained objs R' t \<longleftrightarrow> t = toi \<or> obtained objs R t"
    and "objs toi = Some (e, data)" "delivered_as env e data f"
  shows "deliveries env objs R' (fs @ [f])"
proof -
  from assms(1) obtain tois where "distinct tois" "set tois = {toi. obtained objs R toi}"
    "list_all2 (\<lambda>toi f. \<exists>e data. objs toi = Some (e, data) \<and> delivered_as env e data f) tois fs" by (auto simp: deliveries_def)
  with assms(2-) show ?thesis
    unfolding deliveries_def by (intro exI [of _ "tois @ [toi]"]) (auto intro: list_all2_appendI)
qed

text \<open>A stranger: a datagram of any other session, or of an object that the session does not have. It parses,
  whatever is behind it in the buffer.\<close>

definition stranger :: "u16 \<Rightarrow> objects \<Rightarrow> byte list \<Rightarrow> bool" where
  "stranger tsi objs d \<longleftrightarrow>
     length d \<le> max_length \<and>
     (\<exists>pkt. (\<forall>rest. alc_parse (d @ rest) (length d) = Some (Inr pkt)) \<and>
        (alc_tsi pkt \<noteq> ucast tsi \<or> alc_toi pkt \<noteq> 0 \<and> (\<forall>t. objs t \<noteq> None \<longrightarrow> alc_toi pkt \<noteq> ucast t)))"

lemma stranger_ignored:
  assumes "stranger tsi objs d" and "rc_running r" and "rc_tsi r = ucast tsi" and "only_objects objs r"
  shows "handle_receive_from env now (Some d) r = Some (Inr (), (receive_datagram d r)\<lparr>rc_armed := True\<rparr>)"
proof -
  from assms(1) obtain pkt where d: "length d \<le> max_length"
    and parse: "alc_parse (d @ drop (length d) (rc_data r)) (length d) = Some (Inr pkt)"
    and other: "alc_tsi pkt \<noteq> ucast tsi \<or> alc_toi pkt \<noteq> 0 \<and> (\<forall>t. objs t \<noteq> None \<longrightarrow> alc_toi pkt \<noteq> ucast t)"
    by (auto simp: stranger_def)
  have t: "take max_length d = d" using d by simp
  have "receive_object env now pkt (of_nat (length d)) (receive_datagram d r) = Some (Inr (), receive_datagram d r)"
    if "alc_tsi pkt = ucast tsi"
  proof -
    have toi: "alc_toi pkt \<noteq> 0" "om_get (rc_files r) (alc_toi pkt) = None"
      using other that assms(4) unfolding only_objects_def by blast+
    then show ?thesis by (simp add: receive_object_def start_fdt_object_def)
  qed
  then show ?thesis
    using assms(2,3) parse d by (simp add: handle_receive_from_def Let_def t process_packet_def)
qed

lemma other_session_stranger:
  assumes "packet_of tsi' toi fid h oti data ijs d" and "encoding_id oti = CompactNoCode" "encoding_id h = CompactNoCode"
    and "encoding_symbol_length oti \<noteq> 0" "slen oti < 2 ^ 24" and "tsi' \<noteq> tsi \<or> toi \<noteq> 0 \<and> objs toi = None"
  shows "stranger tsi objs d"
proof -
  have "(ucast toi :: u64) \<noteq> 0 \<longleftrightarrow> toi \<noteq> 0" using ucast16_eq [of toi 0] by simp
  then have "alc_tsi (received_packet tsi' toi h fid) \<noteq> ucast tsi \<or> alc_toi (received_packet tsi' toi h fid) \<noteq> 0 \<and>
      (\<forall>t. objs t \<noteq> None \<longrightarrow> alc_toi (received_packet tsi' toi h fid) \<noteq> ucast t)"
    using assms(6) by auto
  moreover have "\<forall>rest. alc_parse (d @ rest) (length d) = Some (Inr (received_packet tsi' toi h fid))"
    using packet_parsed(1) [OF assms(1-5)] by simp
  ultimately show ?thesis using packet_parsed(4) [OF assms(1-5)] unfolding stranger_def by blast
qed

text \<open>A packet of one of the objects, one of the FDT the receiver has, or a stranger.\<close>

definition session_packet :: "u16 \<Rightarrow> fdt option \<Rightarrow> objects \<Rightarrow> u16 \<Rightarrow> (nat \<times> nat) list \<Rightarrow> byte list \<Rightarrow> bool" where
  "session_packet tsi table objs toi ijs d \<longleftrightarrow>
     ijs = [] \<and> stranger tsi objs d \<or>
     (\<exists>e data fid header_oti. objs toi = Some (e, data) \<and> encoding_id header_oti = CompactNoCode \<and>
        packet_of tsi toi fid header_oti (fe_fec_oti e) data ijs d) \<or>
     (\<exists>t data fid header_oti oti. toi = 0 \<and> table = Some t \<and> instance_id t = fid AND 0xFFFFF \<and>
        encoding_id header_oti = CompactNoCode \<and> partition_ok oti \<and> slen oti < 2 ^ 24 \<and>
        encoding_id oti = CompactNoCode \<and> packet_of tsi 0 fid header_oti oti data ijs d)"

text \<open>Completion of a file.\<close>

lemma finish_object:
  assumes "object_ok env e data" and "receiving (fe_fec_oti e) data R f" and "fl_meta f = e" and "fl_complete f"
    and "alc_toi p \<noteq> 0" and "rc_callback r"
  obtains g where "delivered_as env e data g" and "finish_file env now p f r = Some (Inr (), r\<lparr>rc_delivered := rc_delivered r @ [g],
    rc_files := om_erase (alc_toi p) (om_set (alc_toi p) g (rc_files (replace_files (alc_toi p) f r)))\<rparr>)"
proof -
  let ?oti = "fe_fec_oti e"
  have ok: "partition_ok ?oti" "length data = tlen ?oti" using assms(1) by (simp_all add: object_ok_def)
  obtain content where c: "carries env e data content" using assms(1) by (auto simp: object_ok_def)
  have data: "buffer_bytes f (unat (file_length f)) = Inr data"
    using receiving_content [OF ok(1) assms(2) _ ok(2)] assms(2,4) by (simp add: receiving_def)
  have "\<exists>g. delivered_as env e data g \<and> decode (env_zlib env) (env_md5 env) f = Some (Inr (), g)"
  proof (cases "fe_content_encoding e = []")
    case True
    then have "delivered_as env e data f" using c data assms(3) by (auto simp: delivered_as_def carries_def)
    then show ?thesis using True assms(3) by (auto simp: decode_plain)
  next
    case False
    have len: "unat (file_length f) = length data" using assms(2) ok(2) by (simp add: file_length_def receiving_def)
    have "0 < tlen ?oti" using ok(1) by (simp add: partition_ok_def)
    then have "data \<noteq> []" using ok(2) by auto
    moreover have "unat (ucast (transfer_length ?oti) :: u32) = length data"
      using c False ok(2) by (subst unat_ucast_small) (simp_all add: carries_def)
    ultimately have "holds_stream (env_zlib env) data content f"
      using c False assms(2,3) data len by (simp add: holds_stream_def carries_def receiving_def)
    moreover have "content_md5 (fl_meta f) = [] \<or>
        length (env_md5 env content) = 16 \<and> content_md5 (fl_meta f) = base64_encode (env_md5 env content) False"
      using c assms(3) by (simp add: carries_def)
    ultimately obtain g where g: "decoded_as content f g" "decode (env_zlib env) (env_md5 env) f = Some (Inr (), g)"
      by (rule decode_verified_stream)
    then have "delivered_as env e data g"
      using c False assms(3) unfolding delivered_as_def decoded_as_def by auto
    with g(2) show ?thesis by blast
  qed
  then obtain g where "delivered_as env e data g" "decode (env_zlib env) (env_md5 env) f = Some (Inr (), g)" by blast
  with assms(5,6) show ?thesis
    by (intro that [of g]) (simp_all add: finish_file_def Let_def deliver_def set_file_def replace_files_def)
qed

lemma replaced_other:
  assumes "om_ok (rc_files r)" and "om_get (rc_files r) k = Some g"
    and "content_location (fl_meta g) \<noteq> content_location (fl_meta f)"
  shows "om_get (rc_files (replace_files toi f r)) k = Some g"
  using assms by (simp add: replace_files_def om_get_erase_if)

lemma replaced_none:
  "om_ok (rc_files r) \<Longrightarrow> om_get (rc_files r) k = None \<Longrightarrow> om_get (rc_files (replace_files toi f r)) k = None"
  by (simp add: replace_files_def om_get_erase_if)

lemma replaced_ok: "om_ok (rc_files r) \<Longrightarrow> om_ok (rc_files (replace_files toi f r))"
  by (simp add: replace_files_def om_ok_erase_if)

text \<open>The other objects do not notice what a packet does to its own.\<close>

lemma object_state_frame:
  assumes "object_state objs R files t e data" and "obtained objs R' t = obtained objs R t" and "R' t = R t"
    and "\<And>f. om_get files (ucast t) = Some f \<Longrightarrow> fl_meta f = e \<Longrightarrow> om_get files' (ucast t) = Some f"
    and "om_get files (ucast t) = None \<Longrightarrow> om_get files' (ucast t) = None"
  shows "object_state objs R' files' t e data"
  using assms unfolding object_state_def by (auto split: if_splits)

lemma session_intro:
  assumes s: "session env tsi table objs before R r" and o: "objs toi = Some (e, data)"
    and frame: "rc_running r' = rc_running r" "rc_armed r'" "rc_callback r' = rc_callback r" "rc_tsi r' = rc_tsi r"
      "om_ok (rc_files r')" "rc_fdt r' = rc_fdt r" "om_get (rc_files r') 0 = None"
    and keys: "\<And>k. om_get (rc_files r') k \<noteq> None \<Longrightarrow> om_get (rc_files r) k \<noteq> None \<or> k = ucast toi"
    and R': "\<And>t. t \<noteq> toi \<Longrightarrow> R' t = R t"
    and own: "object_state objs R' (rc_files r') toi e data"
    and some: "\<And>t f e'. t \<noteq> toi \<Longrightarrow> om_get (rc_files r) (ucast t) = Some f \<Longrightarrow> objs t = Some (fl_meta f, e') \<Longrightarrow>
      om_get (rc_files r') (ucast t) = Some f"
    and none: "\<And>t. t \<noteq> toi \<Longrightarrow> om_get (rc_files r) (ucast t) = None \<Longrightarrow> om_get (rc_files r') (ucast t) = None"
    and dl: "\<exists>fs. rc_delivered r' = before @ fs \<and> deliveries env objs R' fs"
  shows "session env tsi table objs before R' r'"
proof -
  have "object_state objs R' (rc_files r') t e' data'" if t: "objs t = Some (e', data')" for t e' data'
  proof (cases "t = toi")
    case True
    with own o t show ?thesis by simp
  next
    case False
    from s t have "object_state objs R (rc_files r) t e' data'" by (simp add: session_def)
    moreover have "obtained objs R' t = obtained objs R t" using R' [OF False] by (simp add: obtained_def)
    ultimately show ?thesis
      using False t some none by (elim object_state_frame) (auto simp: R')
  qed
  moreover have "only_objects objs r'" using s o keys unfolding session_def only_objects_def by blast
  ultimately show ?thesis using s frame dl by (simp add: session_def)
qed

lemma object_step:
  assumes s: "session env tsi table objs before R r" and objs: "objects_ok env objs" and o: "objs toi = Some (e, data)"
    and h: "encoding_id header_oti = CompactNoCode" and pkt: "packet_of tsi toi fid header_oti (fe_fec_oti e) data ijs d"
  shows "\<exists>r'. handle_receive_from env now (Some d) r = Some (Inr (), r') \<and>
    session env tsi table objs before (R(toi := set ijs \<union> R toi)) r'"
proof -
  let ?R = "R(toi := set ijs \<union> R toi)"
  let ?oti = "fe_fec_oti e" and ?p = "received_packet tsi toi header_oti fid"
  have toi: "toi \<noteq> 0" using objs o by (auto simp: objects_ok_def)
  then have toi64: "(ucast toi :: u64) \<noteq> 0" using ucast16_eq [of toi 0] by simp
  from objs o have ok: "object_ok env e data" by (auto simp: objects_ok_def)
  then have oti: "encoding_id ?oti = CompactNoCode" "slen ?oti < 2 ^ 24" "partition_ok ?oti" "length data = tlen ?oti"
    "md5_ok (env_md5 env) data e" by (auto simp: object_ok_def intro: carries_digest)
  then have sl: "encoding_symbol_length ?oti \<noteq> 0" by (auto simp: partition_ok_def)
  have st: "object_state objs R (rc_files r) toi e data" "om_ok (rc_files r)" "rc_running r" "rc_callback r"
    "rc_tsi r = ucast tsi" "om_get (rc_files r) 0 = None" using s o by (auto simp: session_def)
  obtain fs where fs: "rc_delivered r = before @ fs" "deliveries env objs R fs" using s by (auto simp: session_def)
  note handle = handle_packet [OF pkt oti(1) h sl oti(2) st(3,5)]
  let ?r1 = "receive_datagram d r"
  show ?thesis
  proof (cases "obtained objs R toi")
    case True
    have ob: "obtained objs ?R t = obtained objs R t" for t
      using True by (auto simp: obtained_def)
    from True st(1) have none: "om_get (rc_files r) (ucast toi) = None" by (simp add: object_state_def)
    have "session env tsi table objs before ?R (?r1\<lparr>rc_armed := True\<rparr>)"
      by (rule session_intro [OF s o])
        (use st none True ob fs deliveries_same [OF fs(2) ob] in \<open>auto simp: object_state_def\<close>)
    with handle [OF unknown_packet [OF pkt toi none]] show ?thesis by blast
  next
    case False
    with st(1) obtain f where f: "om_get (rc_files r) (ucast toi) = Some f" "fl_meta f = e"
      "receiving ?oti data (R toi) f" by (auto simp: object_state_def)
    from False o f(3) have inc: "\<not> fl_complete f" by (auto simp: obtained_def receiving_def)
    from object_packet [OF pkt oti(1) h oti(2-4) _ f(1,3) inc, of env now] f(2) oti(5) obtain f' where
      f': "receiving ?oti data (set ijs \<union> R toi) f'" "fl_meta f' = e" and
      step: "receive_object env now ?p (of_nat (length d)) ?r1 =
        (let r2 = set_file (ucast toi) f' ?r1 in if fl_complete f' then finish_file env now ?p f' r2 else Some (Inr (), r2))"
      by auto
    let ?r2 = "set_file (ucast toi) f' ?r1"
    have r2: "rc_files ?r2 = om_set (ucast toi) f' (rc_files r)" "om_ok (rc_files ?r2)"
      using st(2) by (simp_all add: set_file_def om_ok_set)
    have done_iff: "fl_complete f' \<longleftrightarrow> obtained objs ?R toi"
      using f'(1) o by (auto simp: receiving_def obtained_def)
    show ?thesis
    proof (cases "fl_complete f'")
      case incomplete: False
      have ob: "obtained objs ?R t = obtained objs R t" for t
        using incomplete done_iff False by (cases "t = toi") (auto simp: obtained_def)
      have "session env tsi table objs before ?R (?r2\<lparr>rc_armed := True\<rparr>)"
        by (rule session_intro [OF s o])
          (use st toi64 f' r2 incomplete done_iff fs deliveries_same [OF fs(2) ob] in
            \<open>auto simp: object_state_def set_file_def om_get_set\<close>)
      with handle step incomplete show ?thesis by (auto simp: Let_def)
    next
      case complete: True
      have p: "alc_toi ?p \<noteq> 0" "rc_callback ?r2" "alc_toi ?p = ucast toi" using toi64 st(4) by (simp_all add: set_file_def)
      obtain g where g: "delivered_as env e data g" "finish_file env now ?p f' ?r2 =
          Some (Inr (), ?r2\<lparr>rc_delivered := rc_delivered ?r2 @ [g],
            rc_files := om_erase (ucast toi) (om_set (ucast toi) g (rc_files (replace_files (ucast toi) f' ?r2)))\<rparr>)"
        by (rule finish_object [OF ok f' complete p(1,2), unfolded p(3)])
      let ?m = "om_erase (ucast toi) (om_set (ucast toi) g (rc_files (replace_files (ucast toi) f' ?r2)))"
      let ?r3 = "?r2\<lparr>rc_delivered := rc_delivered ?r2 @ [g], rc_files := ?m\<rparr>"
      note fin = g(2)
      have ob: "obtained objs ?R t \<longleftrightarrow> t = toi \<or> obtained objs R t" for t
        using complete done_iff by (auto simp: obtained_def)
      have rok: "om_ok (rc_files (replace_files (ucast toi) f' ?r2))" by (rule replaced_ok [OF r2(2)])
      have "session env tsi table objs before ?R (?r3\<lparr>rc_armed := True\<rparr>)"
      proof (rule session_intro [OF s o])
        show "object_state objs ?R (rc_files (?r3\<lparr>rc_armed := True\<rparr>)) toi e data"
          using complete done_iff by (simp add: object_state_def om_get_erase)
        show "om_get (rc_files (?r3\<lparr>rc_armed := True\<rparr>)) (ucast t) = Some g"
          if "t \<noteq> toi" "om_get (rc_files r) (ucast t) = Some g" "objs t = Some (fl_meta g, d')" for t g d'
        proof -
          have "content_location (fl_meta g) \<noteq> content_location (fl_meta f')"
            using objs that(1,3) o f'(2) unfolding objects_ok_def by blast
          then have "om_get (rc_files (replace_files (ucast toi) f' ?r2)) (ucast t) = Some g"
            using that st(2) r2 by (intro replaced_other) (simp_all add: om_get_set)
          with that(1) rok show ?thesis by (simp add: om_get_erase om_get_set)
        qed
        show "om_get (rc_files (?r3\<lparr>rc_armed := True\<rparr>)) (ucast t) = None"
          if "t \<noteq> toi" "om_get (rc_files r) (ucast t) = None" for t
          using replaced_none [OF r2(2), of "ucast t"] that st(2) rok r2
          by (simp add: om_get_erase om_get_set)
        show "\<exists>fs. rc_delivered (?r3\<lparr>rc_armed := True\<rparr>) = before @ fs \<and> deliveries env objs ?R fs"
          using fs deliveries_one [OF fs(2) False ob o g(1)] by (simp add: set_file_def)
        show "om_get (rc_files r) k \<noteq> None \<or> k = ucast toi" if "om_get (rc_files (?r3\<lparr>rc_armed := True\<rparr>)) k \<noteq> None" for k
        proof (rule ccontr)
          assume k: "\<not> (om_get (rc_files r) k \<noteq> None \<or> k = ucast toi)"
          with replaced_none [OF r2(2), of k] st(2) r2
          have "om_get (rc_files (replace_files (ucast toi) f' ?r2)) k = None" by (simp add: om_get_set)
          with k that rok show False by (simp add: om_get_erase om_get_set)
        qed
        show "om_get (rc_files (?r3\<lparr>rc_armed := True\<rparr>)) 0 = None"
          using replaced_none [OF r2(2), of 0] toi64 st(2,6) rok r2 by (simp add: om_get_erase om_get_set)
      qed (use st rok in \<open>simp_all add: set_file_def om_ok_set om_ok_erase\<close>)
      with handle step complete fin show ?thesis by (auto simp: Let_def)
    qed
  qed
qed

lemma session_step:
  assumes s: "session env tsi table objs before R r" and objs: "objects_ok env objs"
    and p: "session_packet tsi table objs toi ijs d"
  shows "\<exists>r'. handle_receive_from env now (Some d) r = Some (Inr (), r') \<and>
    session env tsi table objs before (R(toi := set ijs \<union> R toi)) r'"
proof -
  from p consider (stranger) "ijs = []" "stranger tsi objs d"
    | (object) e data fid h where "objs toi = Some (e, data)" "encoding_id h = CompactNoCode"
      "packet_of tsi toi fid h (fe_fec_oti e) data ijs d"
    | (again) t fid h oti data where "toi = 0" "table = Some t" "instance_id t = fid AND 0xFFFFF"
      "encoding_id h = CompactNoCode" "partition_ok oti" "slen oti < 2 ^ 24" "encoding_id oti = CompactNoCode"
      "packet_of tsi 0 fid h oti data ijs d"
    by (auto simp: session_packet_def)
  then show ?thesis
  proof cases
    case stranger
    have r: "rc_running r" "rc_tsi r = ucast tsi" "only_objects objs r" using s by (simp_all add: session_def)
    have "session env tsi table objs before R ((receive_datagram d r)\<lparr>rc_armed := True\<rparr>)"
      using s by (simp add: session_def only_objects_def)
    moreover have "R(toi := set ijs \<union> R toi) = R" using stranger(1) by auto
    ultimately show ?thesis using stranger_ignored [OF stranger(2) r, of env now] by auto
  next
    case object
    from object_step [OF s objs this] show ?thesis .
  next
    case again
    have sl: "encoding_symbol_length oti \<noteq> 0" using again(5) by (auto simp: partition_ok_def)
    have st: "rc_running r" "rc_tsi r = ucast tsi" "rc_fdt r = Some t" "om_get (rc_files r) 0 = None"
      using s again(2) by (simp_all add: session_def)
    have "receive_object env now (received_packet tsi 0 h fid) (of_nat (length d)) (receive_datagram d r) =
        Some (Inr (), receive_datagram d r)"
      using st again(3) by (simp add: receive_object_def start_fdt_object_def)
    from handle_packet [OF again(8,7,4) sl again(6) st(1,2) this]
    have "handle_receive_from env now (Some d) r = Some (Inr (), (receive_datagram d r)\<lparr>rc_armed := True\<rparr>)" .
    moreover have "session env tsi table objs before (R(0 := S)) ((receive_datagram d r)\<lparr>rc_armed := True\<rparr>)" for S
    proof -
      have "objs 0 = None" using objs by (simp add: objects_ok_def)
      then have "obtained objs (R(0 := S)) t = obtained objs R t" for t
        by (auto simp: obtained_def)
      then show ?thesis using s \<open>objs 0 = None\<close>
        by (auto simp: session_def object_state_def deliveries_def only_objects_def split: if_splits)
    qed
    ultimately show ?thesis using again(1) by auto
  qed
qed

section \<open>Runs\<close>

text \<open>A packet of a run: its object, the symbols in it, the time of its arrival and its bytes.\<close>

type_synonym arrival = "u16 \<times> (nat \<times> nat) list \<times> u64 \<times> byte list"

fun handle_all :: "'z env \<Rightarrow> (u64 \<times> byte list) list \<Rightarrow> receiver \<Rightarrow> receiver outcome option" where
  "handle_all env [] r = Some (Inr (), r)"
| "handle_all env ((now, d) # ds) r =
     bind_outcome (handle_receive_from env now (Some d) r) (handle_all env ds)"

lemma handle_all_append:
  "handle_all env (ds @ ds') r = bind_outcome (handle_all env ds r) (handle_all env ds')"
proof (induction ds arbitrary: r)
  case (Cons p ds)
  obtain now d where p: "p = (now, d)" by (cases p)
  then show ?case
    using Cons by (auto simp: bind_outcome_def split: option.split sum.split)
qed simp

definition datagrams :: "arrival list \<Rightarrow> (u64 \<times> byte list) list" where
  "datagrams ps = map (\<lambda>(toi, ijs, now, d). (now, d)) ps"

lemma datagrams_simps [simp]:
  "datagrams [] = []" "datagrams ((toi, ijs, now, d) # ps) = (now, d) # datagrams ps"
  "datagrams (ps @ qs) = datagrams ps @ datagrams qs"
  by (simp_all add: datagrams_def)

text \<open>The symbols of an object that came.\<close>

fun arrived :: "arrival list \<Rightarrow> u16 \<Rightarrow> (nat \<times> nat) set" where
  "arrived [] t = {}"
| "arrived ((toi, ijs, now, d) # ps) t = (if t = toi then set ijs else {}) \<union> arrived ps t"

lemma session_run:
  assumes "session env tsi table objs before R r" and "objects_ok env objs"
    and "\<forall>(toi, ijs, now, d) \<in> set ps. session_packet tsi table objs toi ijs d"
  shows "\<exists>r'. handle_all env (datagrams ps) r = Some (Inr (), r') \<and>
    session env tsi table objs before (\<lambda>t. arrived ps t \<union> R t) r'"
  using assms
proof (induction ps arbitrary: R r)
  case Nil
  then show ?case by simp
next
  case (Cons p ps)
  obtain toi ijs now d where p: "p = (toi, ijs, now, d)" by (cases p)
  with Cons.prems session_step [OF Cons.prems(1,2), of toi ijs d now] obtain r1 where
    r1: "handle_receive_from env now (Some d) r = Some (Inr (), r1)"
    "session env tsi table objs before (R(toi := set ijs \<union> R toi)) r1" by auto
  from Cons.IH [OF r1(2) Cons.prems(2)] Cons.prems(3) obtain r' where
    r': "handle_all env (datagrams ps) r1 = Some (Inr (), r')"
    "session env tsi table objs before (\<lambda>t. arrived ps t \<union> (R(toi := set ijs \<union> R toi)) t) r'" by auto
  moreover have "(\<lambda>t. arrived ps t \<union> (R(toi := set ijs \<union> R toi)) t) = (\<lambda>t. arrived (p # ps) t \<union> R t)"
    by (rule ext) (auto simp: p)
  ultimately show ?case using p r1(1) by auto
qed

section \<open>Starting with the FDT\<close>

text \<open>Allocations succeed.\<close>

definition memory_suffices :: "'z env \<Rightarrow> bool" where
  "memory_suffices env \<longleftrightarrow> (\<forall>n. \<exists>buf. env_malloc env n = Some buf \<and> length buf = n)"

definition announces :: "file_entry list \<Rightarrow> objects \<Rightarrow> bool" where
  "announces es objs \<longleftrightarrow>
     distinct (map fe_toi es) \<and>
     (\<forall>e \<in> set es. \<exists>toi data. fe_toi e = ucast toi \<and> objs toi = Some (e, data)) \<and>
     (\<forall>toi e data. objs toi = Some (e, data) \<longrightarrow> e \<in> set es \<and> fe_toi e = ucast toi)"

text \<open>The file a table entry starts.\<close>

definition started :: "'z env \<Rightarrow> u64 \<Rightarrow> file_entry \<Rightarrow> flute_file" where
  "started env now e =
     created_file 0 (file_with e True (the (env_malloc env (tlen (fe_fec_oti e)))) now None)"

lemma start_file_started:
  assumes "memory_suffices env" and "partition_ok (fe_fec_oti e)" and "om_get (rc_files r) toi = None"
  shows "start_file env now toi e r =
    Some (Inr (), r\<lparr>rc_files := om_insert toi (started env now e) (rc_files r)\<rparr>)"
proof -
  from assms(1) obtain buf where buf: "env_malloc env (tlen (fe_fec_oti e)) = Some buf"
    by (auto simp: memory_suffices_def)
  have "partition_ok (fl_oti (file_with e True buf now None))" using assms(2) by (simp add: file_with_def)
  from partition_and_create_eq [OF this, of 0] show ?thesis
    using assms(3) buf by (simp add: start_file_def file_of_entry_def started_def) (simp add: file_with_def)
qed

lemma started_receiving:
  assumes "memory_suffices env" and "partition_ok (fe_fec_oti e)"
  shows "receiving (fe_fec_oti e) data {} (started env now e)" and "fl_meta (started env now e) = e"
proof -
  from assms(1) obtain buf where buf: "env_malloc env (tlen (fe_fec_oti e)) = Some buf" "length buf = tlen (fe_fec_oti e)"
    unfolding memory_suffices_def by blast
  then show "receiving (fe_fec_oti e) data {} (started env now e)"
    using created_receiving [OF assms(2)] by (simp add: started_def)
  show "fl_meta (started env now e) = e"
    by (simp add: started_def created_file_def partition_fields_def file_with_def)
qed

lemma start_files_all:
  assumes "memory_suffices env" and "\<forall>e \<in> set es. partition_ok (fe_fec_oti e)" and "distinct (map fe_toi es)"
    and "om_ok (rc_files r)" and "\<forall>e \<in> set es. om_get (rc_files r) (ucast (fe_toi e)) = None"
  shows "\<exists>m. start_files env now es r = Some (Inr (), r\<lparr>rc_files := m\<rparr>) \<and> om_ok m \<and>
    (\<forall>e \<in> set es. om_get m (ucast (fe_toi e)) = Some (started env now e)) \<and>
    (\<forall>k. (\<forall>e \<in> set es. k \<noteq> ucast (fe_toi e)) \<longrightarrow> om_get m k = om_get (rc_files r) k)"
  using assms
proof (induction es arbitrary: r)
  case Nil
  then show ?case by (intro exI [of _ "rc_files r"]) simp
next
  case (Cons e es)
  let ?m = "om_insert (ucast (fe_toi e)) (started env now e) (rc_files r)"
  have eq: "(ucast (a :: u32) :: u64) = ucast b \<longleftrightarrow> a = b" for a b
    by (metis unat_ucast_32_64 word_unat_eq_iff)
  have get: "om_get ?m k = (if k = ucast (fe_toi e) then Some (started env now e) else om_get (rc_files r) k)" for k
    using Cons.prems(4,5) by (auto simp: om.get_emplace)
  have ok: "om_ok ?m" by (rule om_ok_insert [OF Cons.prems(4)])
  have others: "\<forall>e' \<in> set es. (ucast (fe_toi e') :: u64) \<noteq> ucast (fe_toi e)"
    unfolding eq using Cons.prems(3) unfolding list.map distinct.simps set_map image_iff by metis
  have one: "start_file env now (ucast (fe_toi e)) e r = Some (Inr (), r\<lparr>rc_files := ?m\<rparr>)"
    using Cons.prems by (intro start_file_started) simp_all
  have "\<exists>m. start_files env now es (r\<lparr>rc_files := ?m\<rparr>) = Some (Inr (), (r\<lparr>rc_files := ?m\<rparr>)\<lparr>rc_files := m\<rparr>) \<and> om_ok m \<and>
    (\<forall>e \<in> set es. om_get m (ucast (fe_toi e)) = Some (started env now e)) \<and>
    (\<forall>k. (\<forall>e \<in> set es. k \<noteq> ucast (fe_toi e)) \<longrightarrow> om_get m k = om_get (rc_files (r\<lparr>rc_files := ?m\<rparr>)) k)"
    using Cons.prems ok others by (intro Cons.IH) (auto simp: get)
  then obtain m where m: "start_files env now es (r\<lparr>rc_files := ?m\<rparr>) = Some (Inr (), r\<lparr>rc_files := m\<rparr>)" "om_ok m"
    "\<forall>e \<in> set es. om_get m (ucast (fe_toi e)) = Some (started env now e)"
    "\<forall>k. (\<forall>e \<in> set es. k \<noteq> ucast (fe_toi e)) \<longrightarrow> om_get m k = om_get ?m k" by auto
  have "om_get m (ucast (fe_toi e)) = Some (started env now e)"
    using m(4) others get by (metis (no_types, lifting))
  with m one get show ?case by (intro exI [of _ m]) auto
qed

lemma ucast_16_32_64: "(ucast (ucast (t :: u16) :: u32) :: u64) = ucast t"
  by (rule word_unat_eq_iff [THEN iffD2]) simp

lemma no_symbols_obtained: "objects_ok env objs \<Longrightarrow> \<not> obtained objs (\<lambda>_. {}) toi"
proof
  assume objs: "objects_ok env objs" and "obtained objs (\<lambda>_. {}) toi"
  then obtain e data where e: "objs toi = Some (e, data)" "symbol_pairs (fe_fec_oti e) = {}" by (auto simp: obtained_def)
  with objs have "partition_ok (fe_fec_oti e)" by (auto simp: objects_ok_def object_ok_def)
  then have "(0, 0) \<in> symbol_pairs (fe_fec_oti e)"
    by (simp add: symbol_pairs_def total_blocks_pos block_len_def small_length_pos)
  with e show False by simp
qed

lemma install_session:
  assumes mem: "memory_suffices env" and objs: "objects_ok env objs" and an: "announces (fdt_file_entries t) objs"
    and parse: "buffer_bytes f (unat (file_length f)) = Inr content"
      "fdt_parse (env_xml_parse env) (alc_fdt_instance_id p) content = Inr t"
    and r: "rc_running r" "rc_callback r" "rc_tsi r = ucast tsi" "rc_files r = [(0, f)]"
  shows "\<exists>r'. install_fdt env now p f r = Some (Inr (), r') \<and>
    session env tsi (Some t) objs (rc_delivered r) (\<lambda>_. {}) (r'\<lparr>rc_armed := True\<rparr>)"
proof -
  let ?r = "r\<lparr>rc_fdt := Some t, rc_files := om_erase 0 (rc_files r)\<rparr>"
  have empty: "rc_files ?r = []" using r(4) by (simp add: om_erase_def)
  have es: "\<forall>e \<in> set (fdt_file_entries t). partition_ok (fe_fec_oti e)"
    using objs an by (fastforce simp: objects_ok_def object_ok_def announces_def)
  have dist: "distinct (map fe_toi (fdt_file_entries t))" using an by (simp add: announces_def)
  obtain m where m: "start_files env now (fdt_file_entries t) ?r = Some (Inr (), ?r\<lparr>rc_files := m\<rparr>)" "om_ok m"
    "\<forall>e \<in> set (fdt_file_entries t). om_get m (ucast (fe_toi e)) = Some (started env now e)"
    "\<forall>k. (\<forall>e \<in> set (fdt_file_entries t). k \<noteq> ucast (fe_toi e)) \<longrightarrow> om_get m k = om_get [] k"
    using start_files_all [OF mem es dist, of ?r now] unfolding empty by auto
  have toi0: "om_get m 0 = None"
  proof -
    have "(0 :: u64) \<noteq> ucast (fe_toi e)" if "e \<in> set (fdt_file_entries t)" for e
    proof -
      from an that obtain toi data where "fe_toi e = ucast toi" "objs toi = Some (e, data)"
        unfolding announces_def by blast
      with objs have "fe_toi e = ucast toi" "toi \<noteq> 0" by (auto simp: objects_ok_def)
      then show ?thesis using ucast16_eq [of 0 toi] by (simp add: ucast_16_32_64)
    qed
    with m(4) show ?thesis by simp
  qed
  have "object_state objs (\<lambda>_. {}) m toi e data" if o: "objs toi = Some (e, data)" for toi e data
  proof -
    from an o have e: "e \<in> set (fdt_file_entries t)" "fe_toi e = ucast toi" unfolding announces_def by blast+
    with m(3) have "om_get m (ucast toi) = Some (started env now e)" by (metis ucast_16_32_64)
    with started_receiving [OF mem] es e(1) show ?thesis
      by (simp add: object_state_def no_symbols_obtained [OF objs])
  qed
  moreover have "deliveries env objs (\<lambda>_. {}) []"
    by (simp add: deliveries_def no_symbols_obtained [OF objs])
  moreover have "only_objects objs (?r\<lparr>rc_files := m, rc_armed := True\<rparr>)"
    unfolding only_objects_def
  proof (intro allI impI disjI2)
    fix k assume "om_get (rc_files (?r\<lparr>rc_files := m, rc_armed := True\<rparr>)) k \<noteq> None"
    with m(4) obtain e where e: "e \<in> set (fdt_file_entries t)" "k = ucast (fe_toi e)" by fastforce
    with an obtain toi data where "fe_toi e = ucast toi" "objs toi = Some (e, data)" unfolding announces_def by blast
    with e(2) show "\<exists>t. k = ucast t \<and> objs t \<noteq> None" by (intro exI [of _ toi]) (simp add: ucast_16_32_64)
  qed
  ultimately have "session env tsi (Some t) objs (rc_delivered r) (\<lambda>_. {}) (?r\<lparr>rc_files := m, rc_armed := True\<rparr>)"
    using r m(2) toi0 by (simp add: session_def)
  with m(1) parse show ?thesis by (simp add: install_fdt_def)
qed

text \<open>The receiver before it has the table. \<open>R\<close> are the symbols of the FDT that came.\<close>

definition awaiting_fdt ::
  "'z env \<Rightarrow> u16 \<Rightarrow> u32 \<Rightarrow> fec_oti \<Rightarrow> byte list \<Rightarrow> (nat \<times> nat) set \<Rightarrow> receiver \<Rightarrow> bool" where
  "awaiting_fdt env tsi fid header_oti content R r \<longleftrightarrow>
     rc_running r \<and> rc_armed r \<and> rc_callback r \<and> rc_tsi r = ucast tsi \<and> rc_fdt r = None \<and> rc_delivered r = [] \<and>
     (if R = {} then rc_files r = []
      else \<exists>f. rc_files r = [(0, f)] \<and> fl_meta f = fdt_object_entry (received_packet tsi 0 header_oti fid) \<and>
             receiving (received_oti header_oti) content R f \<and> \<not> symbol_pairs (received_oti header_oti) \<subseteq> R)"

lemma fdt_object_entry_simps [simp]:
  "fe_fec_oti (fdt_object_entry p) = alc_fec_oti p" "content_md5 (fdt_object_entry p) = []"
  "fe_content_encoding (fdt_object_entry p) = []" "content_location (fdt_object_entry p) = []"
  by (simp_all add: fdt_object_entry_def)

text \<open>The first packet of the FDT creates its file; the handler then goes on as if it had been there.\<close>

lemma first_fdt_packet:
  fixes tsi :: u16 and fid :: u32
  assumes "memory_suffices env" and "partition_ok (received_oti h)" and "rc_fdt r = None" and "rc_files r = []"
  defines "p \<equiv> received_packet tsi 0 h fid"
  shows "receive_object env now p n (receive_datagram d r) =
    receive_object env now p n (receive_datagram d (r\<lparr>rc_files := [(0, started env now (fdt_object_entry p))]\<rparr>))"
proof -
  let ?e = "fdt_object_entry p"
  have "start_fdt_object env now p (receive_datagram d r) =
      Some (Inr (), (receive_datagram d r)\<lparr>rc_files := [(0, started env now ?e)]\<rparr>)"
    using start_file_started [OF assms(1), of ?e "receive_datagram d r" 0 now] assms(2-4)
    by (simp add: start_fdt_object_def p_def om_insert_def)
  moreover have "start_fdt_object env now p ((receive_datagram d r)\<lparr>rc_files := [(0, started env now ?e)]\<rparr>) =
      Some (Inr (), (receive_datagram d r)\<lparr>rc_files := [(0, started env now ?e)]\<rparr>)"
    by (simp add: start_fdt_object_def start_file_def)
  moreover have "receive_datagram d (r\<lparr>rc_files := m\<rparr>) = (receive_datagram d r)\<lparr>rc_files := m\<rparr>" for m
    by (cases r) (simp add: receive_datagram_def)
  ultimately show ?thesis by (simp only: receive_object_def)
qed

lemma slen_received_oti: "slen (received_oti h) < 2 ^ 24"
proof -
  have "encoding_symbol_length h AND 0xFFFF \<le> 0xFFFF" by (rule word_and_le1)
  then have "unat (encoding_symbol_length h AND 0xFFFF) \<le> unat (0xFFFF :: u32)" by (simp only: word_le_nat_alt)
  then show ?thesis by (simp add: received_oti_def)
qed

lemma encoding_received_oti [simp]: "encoding_id (received_oti h) = CompactNoCode"
  by (simp add: received_oti_def)

lemma packet_nonempty: "packet_of tsi toi fid h oti data ijs d \<Longrightarrow> ijs \<noteq> []"
  by (auto simp: packet_of_def symbol_run_def)

lemma fdt_step:
  assumes mem: "memory_suffices env" and objs: "objects_ok env objs" and an: "announces (fdt_file_entries t) objs"
    and parse: "fdt_parse (env_xml_parse env) (fid AND 0xFFFFF) content = Inr t"
    and h: "encoding_id h = CompactNoCode" "partition_ok (received_oti h)" "length content = tlen (received_oti h)"
    and a: "awaiting_fdt env tsi fid h content R r" and pkt: "packet_of tsi 0 fid h (received_oti h) content ijs d"
  shows "\<exists>r'. handle_receive_from env now (Some d) r = Some (Inr (), r') \<and>
    (if symbol_pairs (received_oti h) \<subseteq> set ijs \<union> R then session env tsi (Some t) objs [] (\<lambda>_. {}) r'
     else awaiting_fdt env tsi fid h content (set ijs \<union> R) r')"
proof -
  let ?p = "received_packet tsi 0 h fid" and ?o = "received_oti h"
  let ?e = "fdt_object_entry ?p"
  have r: "rc_running r" "rc_armed r" "rc_callback r" "rc_tsi r = ucast tsi" "rc_fdt r = None" "rc_delivered r = []"
    using a by (simp_all add: awaiting_fdt_def)
  have sl: "encoding_symbol_length ?o \<noteq> 0" using h(2) by (auto simp: partition_ok_def)
  obtain r0 f where r0: "rc_running r0" "rc_callback r0" "rc_tsi r0 = ucast tsi" "rc_fdt r0 = None" "rc_delivered r0 = []"
    "rc_files r0 = [(0, f)]"
    "fl_meta f = ?e" "receiving ?o content R f" "\<not> fl_complete f"
    and same: "receive_object env now ?p (of_nat (length d)) (receive_datagram d r) =
      receive_object env now ?p (of_nat (length d)) (receive_datagram d r0)"
  proof (cases "R = {}")
    case True
    with a have none: "rc_files r = []" by (simp add: awaiting_fdt_def)
    have e: "partition_ok (fe_fec_oti ?e)" using h(2) by simp
    have "\<not> symbol_pairs ?o \<subseteq> {}"
      using h(2) by (auto simp: symbol_pairs_def block_len_def intro!: exI [of _ 0] total_blocks_pos small_length_pos)
    then have "\<not> fl_complete (started env now ?e)"
      using started_receiving(1) [OF mem e, of content now] by (simp add: receiving_def)
    moreover have "receiving ?o content {} (started env now ?e)" "fl_meta (started env now ?e) = ?e"
      using started_receiving(1) [OF mem e, of content now] started_receiving(2) [OF mem e] by simp_all
    ultimately show ?thesis
      using that [of "r\<lparr>rc_files := [(0, started env now ?e)]\<rparr>" "started env now ?e"] True r
        first_fdt_packet [OF mem h(2) r(5) none] by simp
  next
    case False
    with a obtain f where "rc_files r = [(0, f)]" "fl_meta f = ?e" "receiving ?o content R f"
      "\<not> symbol_pairs ?o \<subseteq> R" by (auto simp: awaiting_fdt_def)
    with that [of r f] r show ?thesis by (simp add: receiving_def)
  qed
  have md5: "md5_ok (env_md5 env) content (fl_meta f)" using r0(7) by (simp add: md5_ok_def)
  have get: "om_get (rc_files r0) (ucast (0 :: u16)) = Some f" using r0(6) by simp
  obtain f' where f': "receiving ?o content (set ijs \<union> R) f'" "fl_meta f' = ?e"
    and step: "receive_object env now ?p (of_nat (length d)) (receive_datagram d r0) =
      (let r2 = set_file 0 f' (receive_datagram d r0)
       in if fl_complete f' then finish_file env now ?p f' r2 else Some (Inr (), r2))"
    using object_packet [where now = now, OF pkt encoding_received_oti h(1) slen_received_oti h(2,3) md5 get r0(8,9)] r0(7)
    by auto
  let ?r2 = "set_file 0 f' (receive_datagram d r0)"
  have files: "rc_files ?r2 = [(0, f')]" using r0(6) by (simp add: set_file_def)
  note handle = handle_packet [where env = env and now = now, OF pkt encoding_received_oti h(1) sl slen_received_oti
      r(1,4), unfolded same step]
  show ?thesis
  proof (cases "fl_complete f'")
    case False
    then have "\<not> symbol_pairs ?o \<subseteq> set ijs \<union> R" using f'(1) by (simp add: receiving_def)
    moreover from this have "awaiting_fdt env tsi fid h content (set ijs \<union> R) (?r2\<lparr>rc_armed := True\<rparr>)"
      using r0 f' files packet_nonempty [OF pkt] by (simp add: awaiting_fdt_def) (simp add: set_file_def)
    ultimately show ?thesis using handle False by (simp add: Let_def)
  next
    case True
    then have all: "symbol_pairs ?o \<subseteq> set ijs \<union> R" using f'(1) by (simp add: receiving_def)
    have content: "buffer_bytes f' (unat (file_length f')) = Inr content"
      using receiving_content [OF h(2) f'(1) all h(3)] by simp
    have rep: "rc_files (replace_files 0 f' ?r2) = [(0, f')]"
      by (simp add: replace_files_def om_erase_if_def files)
    let ?r3 = "set_file 0 f' (replace_files 0 f' ?r2)"
    have r3: "rc_running ?r3" "rc_callback ?r3" "rc_tsi ?r3 = ucast tsi" "rc_files ?r3 = [(0, f')]" "rc_delivered ?r3 = []"
      using r0 rep by (simp_all add: set_file_def replace_files_def)
    have fin: "finish_file env now ?p f' ?r2 = install_fdt env now ?p f' ?r3"
      using f'(2) by (simp add: finish_file_def Let_def decode_plain deliver_def)
    from install_session [where p = ?p and now = now, OF mem objs an content _ r3(1-4)] parse r3(5) obtain r' where
      "install_fdt env now ?p f' ?r3 = Some (Inr (), r')" "session env tsi (Some t) objs [] (\<lambda>_. {}) (r'\<lparr>rc_armed := True\<rparr>)"
      by auto
    with all True fin handle show ?thesis by (simp add: Let_def)
  qed
qed

section \<open>A whole session\<close>

text \<open>What comes in a session: the packets of its FDT and of the files, which the sender repeats, and
  strangers, which have no symbols of it.\<close>

definition carousel_packet ::
  "u16 \<Rightarrow> u32 \<Rightarrow> fec_oti \<Rightarrow> byte list \<Rightarrow> objects \<Rightarrow> arrival \<Rightarrow> bool" where
  "carousel_packet tsi fid header_oti content objs p \<longleftrightarrow>
     (case p of (toi, ijs, now, d) \<Rightarrow>
        ijs = [] \<and> stranger tsi objs d \<or>
        (if toi = 0 then packet_of tsi 0 fid header_oti (received_oti header_oti) content ijs d
         else \<exists>e data fid' h. objs toi = Some (e, data) \<and> encoding_id h = CompactNoCode \<and>
                packet_of tsi toi fid' h (fe_fec_oti e) data ijs d))"

lemma awaiting_stranger:
  assumes "awaiting_fdt env tsi fid h content R r" and "stranger tsi objs d"
  shows "handle_receive_from env now (Some d) r = Some (Inr (), (receive_datagram d r)\<lparr>rc_armed := True\<rparr>)"
    and "awaiting_fdt env tsi fid h content R ((receive_datagram d r)\<lparr>rc_armed := True\<rparr>)"
proof -
  have r: "rc_running r" "rc_tsi r = ucast tsi" "only_objects objs r"
    using assms(1) by (auto simp: awaiting_fdt_def only_objects_def split: if_splits)
  show "handle_receive_from env now (Some d) r = Some (Inr (), (receive_datagram d r)\<lparr>rc_armed := True\<rparr>)"
    by (rule stranger_ignored [OF assms(2) r])
  show "awaiting_fdt env tsi fid h content R ((receive_datagram d r)\<lparr>rc_armed := True\<rparr>)"
    using assms(1) by (simp add: awaiting_fdt_def)
qed

lemma awaiting_incomplete:
  assumes "awaiting_fdt env tsi fid h content R r" and "partition_ok (received_oti h)"
  shows "\<not> symbol_pairs (received_oti h) \<subseteq> R"
proof -
  have "(0, 0) \<in> symbol_pairs (received_oti h)"
    using assms(2) by (simp add: symbol_pairs_def total_blocks_pos block_len_def small_length_pos)
  with assms(1) show ?thesis by (auto simp: awaiting_fdt_def split: if_splits)
qed

text \<open>A packet of the FDT, or a stranger, before the table is there.\<close>

lemma awaiting_step:
  assumes "memory_suffices env" and "objects_ok env objs" and "announces (fdt_file_entries t) objs"
    and "fdt_parse (env_xml_parse env) (fid AND 0xFFFFF) content = Inr t"
    and h: "encoding_id h = CompactNoCode" "partition_ok (received_oti h)" "length content = tlen (received_oti h)"
    and a: "awaiting_fdt env tsi fid h content R r" and p: "carousel_packet tsi fid h content objs (0, ijs, now, d)"
  shows "\<exists>r'. handle_receive_from env now (Some d) r = Some (Inr (), r') \<and>
    (if symbol_pairs (received_oti h) \<subseteq> set ijs \<union> R then session env tsi (Some t) objs [] (\<lambda>_. {}) r'
     else awaiting_fdt env tsi fid h content (set ijs \<union> R) r')"
proof (cases "ijs = [] \<and> stranger tsi objs d")
  case True
  then show ?thesis using awaiting_stranger(1) [OF a, of objs d now] awaiting_stranger(2) [OF a, of objs d]
    awaiting_incomplete [OF a h(2)] by auto
next
  case False
  with p have "packet_of tsi 0 fid h (received_oti h) content ijs d" by (auto simp: carousel_packet_def)
  from fdt_step [OF assms(1-8) this] show ?thesis .
qed

lemma session_cong:
  assumes "session env tsi table objs before R r" and "objs 0 = None" and "\<And>t. t \<noteq> 0 \<Longrightarrow> R' t = R t"
  shows "session env tsi table objs before R' r"
proof -
  have "obtained objs R' t = obtained objs R t" for t
    using assms(2,3) by (cases "t = 0") (auto simp: obtained_def)
  moreover have "object_state objs R' files t e data = object_state objs R files t e data"
    if "objs t = Some (e, data)" for files t e data
    using that assms(2,3) calculation by (cases "t = 0") (simp_all add: object_state_def)
  ultimately show ?thesis using assms(1) by (simp add: session_def deliveries_def)
qed

lemma carousel_in_session:
  assumes "carousel_packet tsi fid h content objs (toi, ijs, now, d)" and "instance_id t = fid AND 0xFFFFF"
    and "encoding_id h = CompactNoCode" "partition_ok (received_oti h)"
  shows "session_packet tsi (Some t) objs toi ijs d"
proof (cases "toi = 0")
  case True
  with assms slen_received_oti [of h] encoding_received_oti [of h] show ?thesis
    unfolding session_packet_def carousel_packet_def by auto
next
  case False
  with assms show ?thesis unfolding session_packet_def carousel_packet_def by fastforce
qed

lemma fdt_run:
  assumes mem: "memory_suffices env" and objs: "objects_ok env objs" and an: "announces (fdt_file_entries t) objs"
    and parse: "fdt_parse (env_xml_parse env) (fid AND 0xFFFFF) content = Inr t" "instance_id t = fid AND 0xFFFFF"
    and h: "encoding_id h = CompactNoCode" "partition_ok (received_oti h)" "length content = tlen (received_oti h)"
    and "awaiting_fdt env tsi fid h content R r"
    and "\<forall>p \<in> set ps. fst p = 0 \<and> carousel_packet tsi fid h content objs p"
  shows "\<exists>r'. handle_all env (datagrams ps) r = Some (Inr (), r') \<and>
    (\<not> symbol_pairs (received_oti h) \<subseteq> R \<longrightarrow> symbol_pairs (received_oti h) \<subseteq> arrived ps 0 \<union> R \<longrightarrow>
       session env tsi (Some t) objs [] (\<lambda>_. {}) r')"
  using assms(9,10)
proof (induction ps arbitrary: R r)
  case Nil
  then show ?case by simp
next
  case (Cons p ps)
  obtain toi ijs now d where p: "p = (toi, ijs, now, d)" by (cases p)
  with Cons.prems(2) have toi: "toi = 0" and pkt: "carousel_packet tsi fid h content objs (0, ijs, now, d)"
    by auto
  from awaiting_step [OF mem objs an parse(1) h Cons.prems(1) pkt] obtain r1 where
    r1: "handle_receive_from env now (Some d) r = Some (Inr (), r1)" and
    st: "if symbol_pairs (received_oti h) \<subseteq> set ijs \<union> R then session env tsi (Some t) objs [] (\<lambda>_. {}) r1
      else awaiting_fdt env tsi fid h content (set ijs \<union> R) r1" by blast
  show ?case
  proof (cases "symbol_pairs (received_oti h) \<subseteq> set ijs \<union> R")
    case False
    with Cons.IH [of "set ijs \<union> R" r1] st Cons.prems(2) obtain r' where
      "handle_all env (datagrams ps) r1 = Some (Inr (), r')"
      "symbol_pairs (received_oti h) \<subseteq> arrived ps 0 \<union> (set ijs \<union> R) \<longrightarrow> session env tsi (Some t) objs [] (\<lambda>_. {}) r'"
      by auto
    moreover have "arrived (p # ps) 0 \<union> R = arrived ps 0 \<union> (set ijs \<union> R)" using p toi by auto
    ultimately show ?thesis using p r1 by auto
  next
    case True
    with st have "session env tsi (Some t) objs [] (\<lambda>_. {}) r1" by simp
    moreover have "\<forall>(toi, ijs, now, d) \<in> set ps. session_packet tsi (Some t) objs toi ijs d"
      using Cons.prems(2) carousel_in_session [OF _ parse(2) h(1,2)] by fastforce
    ultimately obtain r' where r': "handle_all env (datagrams ps) r1 = Some (Inr (), r')"
      "session env tsi (Some t) objs [] (\<lambda>t. arrived ps t \<union> {}) r'"
      using session_run [OF _ objs] by blast
    have "arrived ps t = {}" if "t \<noteq> 0" for t
      using Cons.prems(2) that by (induction ps) auto
    moreover have "objs 0 = None" using objs by (simp add: objects_ok_def)
    ultimately have "session env tsi (Some t) objs [] (\<lambda>_. {}) r'"
      using session_cong [OF r'(2), of "\<lambda>_. {}"] by simp
    with p r1 r'(1) show ?thesis by auto
  qed
qed

lemma session_delivers:
  assumes "memory_suffices env" and "objects_ok env objs" and "announces (fdt_file_entries table) objs"
    and "content = fdt_to_string xml_print table"
    and "env_xml_parse env (xml_print (fdt_root table)) = Some (fdt_root table)"
    and "\<forall>e \<in> set (fdt_file_entries table). announced_exactly (global_fec_oti table) e"
    and "encoding_id h = CompactNoCode" and "partition_ok (received_oti h)" and "length content = tlen (received_oti h)"
    and "\<forall>p \<in> set ps. fst p = 0 \<and> carousel_packet tsi fid h content objs p"
    and "symbol_pairs (received_oti h) \<subseteq> arrived ps 0"
    and "\<forall>p \<in> set qs. carousel_packet tsi fid h content objs p"
  shows "\<exists>r'. handle_all env (datagrams (ps @ qs)) (register_completion_callback (receiver_new (ucast tsi) uninit)) =
      Some (Inr (), r') \<and> rc_armed r' \<and> rc_running r' \<and>
    (\<exists>tois. distinct tois \<and>
       set tois = {toi. \<exists>e data. objs toi = Some (e, data) \<and> symbol_pairs (fe_fec_oti e) \<subseteq> arrived qs toi} \<and>
       list_all2 (\<lambda>toi f. \<exists>e data. objs toi = Some (e, data) \<and> delivered_as env e data f) tois (rc_delivered r'))"
proof -
  let ?r = "register_completion_callback (receiver_new (ucast tsi) uninit)"
  have "map (received_entry (received_global (global_fec_oti table))) (fdt_file_entries table) = fdt_file_entries table"
    using assms(6) by (simp add: map_idI received_entry_exact)
  then obtain t where t: "fdt_parse (env_xml_parse env) (fid AND 0xFFFFF) content = Inr t"
    "instance_id t = fid AND 0xFFFFF" "fdt_file_entries t = fdt_file_entries table"
    using assms(5) by (simp add: assms(4) fdt_parse_def fdt_to_string_def fdt_of_sent_root)
  have a: "awaiting_fdt env tsi fid h content {} ?r"
    by (simp add: awaiting_fdt_def register_completion_callback_def receiver_new_def)
  have ne: "\<not> symbol_pairs (received_oti h) \<subseteq> {}"
    using assms(8) by (auto simp: symbol_pairs_def block_len_def intro!: exI [of _ 0] total_blocks_pos small_length_pos)
  obtain r1 where r1: "handle_all env (datagrams ps) ?r = Some (Inr (), r1)" "session env tsi (Some t) objs [] (\<lambda>_. {}) r1"
    using fdt_run [OF assms(1,2) _ t(1,2) assms(7-9) a assms(10)] assms(3,11) ne t(3) by auto
  have "\<forall>(toi, ijs, now, d) \<in> set qs. session_packet tsi (Some t) objs toi ijs d"
    using assms(12) carousel_in_session [OF _ t(2) assms(7,8)] by fastforce
  from session_run [OF r1(2) assms(2) this] obtain r' where
    r': "handle_all env (datagrams qs) r1 = Some (Inr (), r')" "session env tsi (Some t) objs [] (arrived qs) r'" by auto
  with r1(1) have "handle_all env (datagrams (ps @ qs)) ?r = Some (Inr (), r')" by (simp add: handle_all_append)
  with r'(2) show ?thesis
    by (auto simp: session_def deliveries_def obtained_def)
qed

text \<open>(C1) A whole session. A fresh receiver first gets the packets of the FDT, in any order and with
  repetitions, until each symbol of the FDT has come; then any interleaving of packets of the announced
  files and of the same FDT, again with losses and repetitions. In between come any strangers: datagrams
  that parse and are of another session or of an object this one does not have. The handler never fails and keeps
  receiving, and what it hands to the application is exactly the files all of whose symbols came after
  the FDT: each once, with the entry that announced it and the bytes that were sent, inflated when the
  file has a content encoding. The contents of a file with a content encoding have at most 16384 bytes
  (\<open>objects_ok\<close>): larger ones the receiver cannot decode.\<close>
theorem session_delivers_files:
  assumes "memory_suffices env" and "objects_ok env objs" and "announces (fdt_file_entries table) objs"
    and "content = fdt_to_string xml_print table"
    and "env_xml_parse env (xml_print (fdt_root table)) = Some (fdt_root table)"
    and "\<forall>e \<in> set (fdt_file_entries table). announced_exactly (global_fec_oti table) e"
    and "encoding_id h = CompactNoCode" and "partition_ok (received_oti h)" and "length content = tlen (received_oti h)"
    and "\<forall>p \<in> set ps. fst p = 0 \<and> carousel_packet tsi fid h content objs p"
    and "symbol_pairs (received_oti h) \<subseteq> arrived ps 0"
    and "\<forall>p \<in> set qs. carousel_packet tsi fid h content objs p"
  shows "\<exists>r'. handle_all env (datagrams (ps @ qs)) (register_completion_callback (receiver_new (ucast tsi) uninit)) =
      Some (Inr (), r') \<and> rc_armed r' \<and> rc_running r' \<and>
    (\<exists>tois. distinct tois \<and>
       set tois = {toi. \<exists>e data. objs toi = Some (e, data) \<and> symbol_pairs (fe_fec_oti e) \<subseteq> arrived qs toi} \<and>
       list_all2 (\<lambda>toi f. \<exists>e data. objs toi = Some (e, data) \<and> delivered_as env e data f) tois (rc_delivered r'))"
  using assms by (rule session_delivers)

text \<open>An example session of one file, and one of two.\<close>

definition built :: "u16 \<Rightarrow> u16 \<Rightarrow> fec_oti \<Rightarrow> encoding_symbol list \<Rightarrow> byte list" where
  "built tsi toi oti ss = wire (projr (alc_build tsi toi oti ss 1400 5))"

lemma packet_built:
  assumes "list_all2 (genuine oti data) ijs ss" and "symbol_run (encoding_symbol_length oti) ss"
    and "length (payload_data ss) \<le> 1400" and "encoding_id h = CompactNoCode"
  shows "packet_of tsi toi 5 h oti data ijs (built tsi toi h ss)"
proof -
  let ?n = "length (payload_data ss)"
  have ok: "ss \<noteq> []" "\<forall>s \<in> set ss. symbol_ok s" using assms(2) by (simp_all add: symbol_run_def)
  have b: "?n \<le> unat (1400 :: u64)" "unat (1400 :: u64) < 2 ^ 63" using assms(3) by simp_all
  from alc_build_image [OF ok assms(4) b] obtain out where out: "alc_build tsi toi h ss 1400 5 = Inr out"
    "out_len out = of_nat (4 * lct_words toi + (4 + ?n))" by simp
  have w: "4 * lct_words toi \<le> 32" by (simp add: lct_words_def)
  with assms(3) have "unat (out_len out) \<le> max_length"
    unfolding out(2) by (subst unat_of_nat64) (simp_all add: max_length_def)
  then have "length (wire out) \<le> max_length" by (simp add: wire_def)
  with assms b out(1) show ?thesis
    unfolding packet_of_def built_def
    by (intro exI [of _ ss] exI [of _ 1400] exI [of _ out]) simp
qed

text \<open>The file of ten bytes, with a digest.\<close>

definition digest_entry :: file_entry where
  "digest_entry = example_file_entry\<lparr>content_md5 := ''BwcHBwcHBwcHBwcHBwcHBw==''\<rparr>"

lemma digest_entry_oti [simp]: "fe_fec_oti digest_entry = fe_fec_oti example_file_entry"
  by (simp add: digest_entry_def)

lemma digest_entry_md5: "md5_ok (\<lambda>bs. replicate 16 7) data digest_entry"
proof -
  have "base64_encode (replicate 16 7) False = ''BwcHBwcHBwcHBwcHBwcHBw==''" by code_simp
  then show ?thesis by (simp add: md5_ok_def digest_entry_def)
qed

lemma digest_entry_plain: "fe_content_encoding digest_entry = []"
  by (simp add: digest_entry_def example_file_entry_def example_entry_def)

lemmas digest_entry_defs = digest_entry_def example_file_entry_def example_entry_def

definition example_env :: "unit env" where
  "example_env =
     \<lparr>env_malloc = (\<lambda>n. Some (replicate n 0)), env_md5 = (\<lambda>bs. replicate 16 7),
      env_zlib = \<lparr>deflate_init = (\<lambda>_ _. None), deflate_finish = (\<lambda>s. (Z_ERROR, [], s)),
        inflate_init = (\<lambda>_ _. ()), inflate_finish = (\<lambda>s. (Z_ERROR, [], s))\<rparr>,
      env_xml_parse = (\<lambda>bs. if bs = [60]
        then Some (fdt_root (example_fdt\<lparr>fdt_file_entries := [digest_entry]\<rparr>)) else None)\<rparr>"

definition example_header_oti :: fec_oti where
  "example_header_oti = fec_oti_zero
     \<lparr>encoding_id := CompactNoCode, transfer_length := 1, encoding_symbol_length := 1400,
      max_source_block_length := 64\<rparr>"

lemma example_received_oti:
  "received_oti example_header_oti = example_header_oti" "partition_ok example_header_oti"
  "symbol_pairs example_header_oti = {(0, 0)}" "tlen example_header_oti = 1" "slen example_header_oti = 1400"
proof -
  have n: "total_symbols example_header_oti = 1" "total_blocks example_header_oti = 1"
    "small_length example_header_oti = 1" "large_blocks example_header_oti = 0"
    by (simp_all add: total_symbols_def total_blocks_def small_length_def large_blocks_def ceil_div_def
        example_header_oti_def)
  show "received_oti example_header_oti = example_header_oti"
    by (simp add: received_oti_def example_header_oti_def fec_oti_zero_def CompactNoCode_def)
  show "partition_ok example_header_oti"
    using n by (simp add: partition_ok_def example_header_oti_def word_less_nat_alt)
  show "symbol_pairs example_header_oti = {(0, 0)}"
    by (auto simp: symbol_pairs_def block_len_def n)
  show "tlen example_header_oti = 1" "slen example_header_oti = 1400"
    by (simp_all add: example_header_oti_def)
qed

lemma sym_ok [simp]: "length bs < 2 ^ 64 \<Longrightarrow> symbol_ok (sym i j bs)" "length bs < 2 ^ 64 \<Longrightarrow> symbol_data (sym i j bs) = bs"
  by (simp_all add: symbol_ok_def symbol_data_def sym_def unat_of_nat take_bit_nat_eq_self)

lemma example_packets:
  "packet_of 7 0 5 example_header_oti (received_oti example_header_oti) [60] [(0, 0)]
     (built 7 0 example_header_oti [sym 0 0 [60]])"
  "packet_of 7 1 5 example_header_oti (fe_fec_oti digest_entry) [1, 2, 3, 4, 5, 6, 7, 8, 9, 10] [(0, 0), (0, 1)]
     (built 7 1 example_header_oti [sym 0 0 [1, 2, 3, 4], sym 0 1 [5, 6, 7, 8]])"
  "packet_of 7 1 5 example_header_oti (fe_fec_oti digest_entry) [1, 2, 3, 4, 5, 6, 7, 8, 9, 10] [(1, 0)]
     (built 7 1 example_header_oti [sym 1 0 [9, 10]])"
proof -
  have id: "encoding_id example_header_oti = CompactNoCode" by (simp add: example_header_oti_def)
  have t: "tlen (fe_fec_oti digest_entry) = 10" "slen (fe_fec_oti digest_entry) = 4"
    "encoding_symbol_length (fe_fec_oti example_file_entry) = 4"
    by (simp_all add: digest_entry_defs)
  have nth2: "i < Suc (Suc 0) \<longleftrightarrow> i = 0 \<or> i = Suc 0" for i by auto
  show "packet_of 7 0 5 example_header_oti (received_oti example_header_oti) [60] [(0, 0)]
     (built 7 0 example_header_oti [sym 0 0 [60]])"
    unfolding example_received_oti(1)
    by (rule packet_built [OF _ _ _ id])
      (simp_all add: example_received_oti genuine_def symbol_index_def block_start_def symbol_run_def word_le_nat_alt)
  have g: "list_all2 (genuine (fe_fec_oti digest_entry) [1, 2, 3, 4, 5, 6, 7, 8, 9, 10])
     [(0, 0), (0, 1)] [sym 0 0 [1, 2, 3, 4], sym 0 1 [5, 6, 7, 8]]"
    "list_all2 (genuine (fe_fec_oti digest_entry) [1, 2, 3, 4, 5, 6, 7, 8, 9, 10]) [(1, 0)] [sym 1 0 [9, 10]]"
    using example_genuine by simp_all
  show "packet_of 7 1 5 example_header_oti (fe_fec_oti digest_entry) [1, 2, 3, 4, 5, 6, 7, 8, 9, 10] [(0, 0), (0, 1)]
     (built 7 1 example_header_oti [sym 0 0 [1, 2, 3, 4], sym 0 1 [5, 6, 7, 8]])"
    by (rule packet_built [OF g(1) _ _ id]) (auto simp: symbol_run_def t nth2)
  show "packet_of 7 1 5 example_header_oti (fe_fec_oti digest_entry) [1, 2, 3, 4, 5, 6, 7, 8, 9, 10] [(1, 0)]
     (built 7 1 example_header_oti [sym 1 0 [9, 10]])"
    by (rule packet_built [OF g(2) _ _ id]) (auto simp: symbol_run_def t word_le_nat_alt)
qed

definition example_files :: objects where
  "example_files = [1 \<mapsto> (digest_entry, [1, 2, 3, 4, 5, 6, 7, 8, 9, 10])]"

lemma example_files_iff:
  "example_files toi = Some (e, data) \<longleftrightarrow> toi = 1 \<and> e = digest_entry \<and> data = [1, 2, 3, 4, 5, 6, 7, 8, 9, 10]"
  by (auto simp: example_files_def)

lemma example_ids:
  "encoding_id example_header_oti = CompactNoCode" "encoding_id (fe_fec_oti digest_entry) = CompactNoCode"
  by (simp_all add: example_header_oti_def digest_entry_defs fec_oti_zero_def CompactNoCode_def)

lemma example_objects: "objects_ok example_env example_files"
proof -
  have "object_ok example_env digest_entry [1, 2, 3, 4, 5, 6, 7, 8, 9, 10]"
    using example_partition(1) example_ids(2)
    by (auto simp: object_ok_def example_env_def digest_entry_md5 digest_entry_plain intro!: exI carries_plain)
      (simp_all add: digest_entry_defs)
  then show ?thesis
    by (simp add: objects_ok_def example_files_iff) (simp add: example_files_def)
qed

lemma example_table:
  "announces (fdt_file_entries (example_fdt\<lparr>fdt_file_entries := [digest_entry]\<rparr>)) example_files"
  "\<forall>e \<in> set (fdt_file_entries (example_fdt\<lparr>fdt_file_entries := [digest_entry]\<rparr>)).
     announced_exactly (global_fec_oti (example_fdt\<lparr>fdt_file_entries := [digest_entry]\<rparr>)) e"
  by (simp_all add: announces_def example_files_iff announced_exactly_def)
    (simp_all add: digest_entry_defs example_fdt_def fdt_new_def fec_oti_zero_def)

lemma example_carousel:
  "carousel_packet 7 5 example_header_oti [60] example_files
     (0, [(0, 0)], n, built 7 0 example_header_oti [sym 0 0 [60]])"
  "carousel_packet 7 5 example_header_oti [60] example_files
     (1, [(1, 0)], n, built 7 1 example_header_oti [sym 1 0 [9, 10]])"
  "carousel_packet 7 5 example_header_oti [60] example_files
     (1, [(0, 0), (0, 1)], n, built 7 1 example_header_oti [sym 0 0 [1, 2, 3, 4], sym 0 1 [5, 6, 7, 8]])"
  using example_packets example_ids(1) by (auto simp: carousel_packet_def example_files_iff)

abbreviation fdt_arrivals :: "arrival list" where
  "fdt_arrivals \<equiv> [(0, [(0, 0)], 0, built 7 0 example_header_oti [sym 0 0 [60]])]"

abbreviation file_arrivals :: "arrival list" where
  "file_arrivals \<equiv>
     [(1, [(1, 0)], 1, built 7 1 example_header_oti [sym 1 0 [9, 10]]),
      (0, [(0, 0)], 2, built 7 0 example_header_oti [sym 0 0 [60]]),
      (1, [(1, 0)], 3, built 7 1 example_header_oti [sym 1 0 [9, 10]]),
      (1, [(0, 0), (0, 1)], 4, built 7 1 example_header_oti [sym 0 0 [1, 2, 3, 4], sym 0 1 [5, 6, 7, 8]])]"

abbreviation example_receiver :: receiver where
  "example_receiver \<equiv> register_completion_callback (receiver_new (ucast (7 :: u16)) (replicate 2048 0))"

lemma example_session:
  "memory_suffices example_env"
  "\<forall>p \<in> set fdt_arrivals. fst p = 0 \<and> carousel_packet 7 5 example_header_oti [60] example_files p"
  "\<forall>p \<in> set file_arrivals. carousel_packet 7 5 example_header_oti [60] example_files p"
  "symbol_pairs (received_oti example_header_oti) \<subseteq> arrived fdt_arrivals 0"
  "[60] = fdt_to_string (\<lambda>_. [60]) (example_fdt\<lparr>fdt_file_entries := [digest_entry]\<rparr>)"
  "env_xml_parse example_env ((\<lambda>_. [60]) (fdt_root (example_fdt\<lparr>fdt_file_entries := [digest_entry]\<rparr>))) =
     Some (fdt_root (example_fdt\<lparr>fdt_file_entries := [digest_entry]\<rparr>))"
  "partition_ok (received_oti example_header_oti)" "length [60 :: byte] = tlen (received_oti example_header_oti)"
  using example_carousel
  by (simp_all add: memory_suffices_def example_env_def example_received_oti fdt_to_string_def)

text \<open>The one file is the only delivery.\<close>

lemma example_outcome:
  assumes "distinct tois"
    and "set tois = {toi. \<exists>e data. example_files toi = Some (e, data) \<and> symbol_pairs (fe_fec_oti e) \<subseteq> arrived file_arrivals toi}"
    and "list_all2 (\<lambda>toi f. \<exists>e data. example_files toi = Some (e, data) \<and> delivered_as example_env e data f) tois fs"
  shows "\<exists>f. fs = [f] \<and> fl_meta f = digest_entry \<and> buffer_bytes f (unat (file_length f)) = Inr [1, 2, 3, 4, 5, 6, 7, 8, 9, 10]"
proof -
  have "set tois = {1}" unfolding assms(2) example_files_iff by (auto simp: example_pairs)
  with assms(1) have "tois = [1]" by (cases tois; cases "tl tois") auto
  with assms(3) show ?thesis
    using delivered_plain [OF digest_entry_plain] by (auto simp: list_all2_Cons1 example_files_iff)
qed

text \<open>A session of two files, one of them compressed: its object is the stream of the codec of the examples.\<close>

definition coded_entry :: file_entry where
  "coded_entry = digest_entry\<lparr>fe_toi := 2, content_location := ''b.mpd'', content_length := 9, fe_content_encoding := ''gzip''\<rparr>"

lemma coded_entry_oti [simp]: "fe_fec_oti coded_entry = fe_fec_oti example_file_entry"
  by (simp add: coded_entry_def)

definition two_table :: fdt where
  "two_table = example_fdt\<lparr>fdt_file_entries := [digest_entry, coded_entry]\<rparr>"

definition two_env :: "(bool \<times> byte list) env" where
  "two_env =
     \<lparr>env_malloc = (\<lambda>n. Some (replicate n 0)), env_md5 = (\<lambda>bs. replicate 16 7), env_zlib = example_codec,
      env_xml_parse = (\<lambda>bs. if bs = [60] then Some (fdt_root two_table) else None)\<rparr>"

definition two_files :: objects where
  "two_files = [1 \<mapsto> (digest_entry, [1, 2, 3, 4, 5, 6, 7, 8, 9, 10]), 2 \<mapsto> (coded_entry, [31, 2, 3, 4, 5, 6, 7, 8, 9, 10])]"

lemma two_files_iff:
  "two_files toi = Some (e, data) \<longleftrightarrow>
     toi = 1 \<and> e = digest_entry \<and> data = [1, 2, 3, 4, 5, 6, 7, 8, 9, 10] \<or>
     toi = 2 \<and> e = coded_entry \<and> data = [31, 2, 3, 4, 5, 6, 7, 8, 9, 10]"
  by (auto simp: two_files_def)

lemma coded_carries: "carries two_env coded_entry [31, 2, 3, 4, 5, 6, 7, 8, 9, 10] content \<longleftrightarrow> content = [2, 3, 4, 5, 6, 7, 8, 9, 10]"
proof -
  let ?data = "[2, 3, 4, 5, 6, 7, 8, 9, 10 :: byte]"
  have c: "inflates example_codec (inflate_init example_codec 31 (31 # ?data)) ?data"
    using gzip_codecD(4) [OF example_gzip, of ?data] by (simp add: example_gz_short)
  have md5: "length (env_md5 two_env bs) = 16 \<and> content_md5 coded_entry = base64_encode (env_md5 two_env bs) False" for bs
    using digest_entry_md5 [of bs] by (simp add: coded_entry_def two_env_def md5_ok_def digest_entry_plain) (simp add: digest_entry_def)
  have e: "fe_content_encoding coded_entry = ''gzip''" "content_length coded_entry = 9" "env_zlib two_env = example_codec"
    by (simp_all add: coded_entry_def two_env_def)
  show ?thesis
    using c md5 inflates_unique [OF c] by (auto simp: carries_def e window_bits_def)
qed

lemma two_objects: "objects_ok two_env two_files"
proof -
  have "object_ok two_env digest_entry [1, 2, 3, 4, 5, 6, 7, 8, 9, 10]"
    using example_partition(1) example_ids(2)
    by (auto simp: object_ok_def two_env_def digest_entry_md5 digest_entry_plain intro!: exI carries_plain)
      (simp_all add: digest_entry_defs)
  moreover have "object_ok two_env coded_entry [31, 2, 3, 4, 5, 6, 7, 8, 9, 10]"
    using example_partition(1) example_ids(2) by (simp add: object_ok_def coded_carries) (simp add: digest_entry_defs)
  moreover have "content_location digest_entry \<noteq> content_location coded_entry"
    by (simp add: coded_entry_def digest_entry_defs)
  ultimately show ?thesis
    unfolding objects_ok_def two_files_iff by (auto simp: two_files_def)
qed

lemma two_table_ok:
  "announces (fdt_file_entries two_table) two_files"
  "\<forall>e \<in> set (fdt_file_entries two_table). announced_exactly (global_fec_oti two_table) e"
  "memory_suffices two_env" "[60] = fdt_to_string (\<lambda>_. [60]) two_table"
  "env_xml_parse two_env ((\<lambda>_. [60]) (fdt_root two_table)) = Some (fdt_root two_table)"
proof -
  have "fe_toi digest_entry = 1" "fe_toi coded_entry = 2" by (simp_all add: coded_entry_def digest_entry_defs)
  moreover have "two_files 1 = Some (digest_entry, [1, 2, 3, 4, 5, 6, 7, 8, 9, 10])"
    "two_files 2 = Some (coded_entry, [31, 2, 3, 4, 5, 6, 7, 8, 9, 10])" by (simp_all add: two_files_def)
  moreover have "(ucast (1 :: u16) :: u32) = 1" "(ucast (2 :: u16) :: u32) = 2" by simp_all
  ultimately show "announces (fdt_file_entries two_table) two_files"
    unfolding announces_def by (intro conjI) (force simp: two_table_def, force simp: two_table_def, force simp: two_files_iff two_table_def)
  show "\<forall>e \<in> set (fdt_file_entries two_table). announced_exactly (global_fec_oti two_table) e"
    by (simp add: two_table_def announced_exactly_def)
      (simp add: coded_entry_def digest_entry_defs example_fdt_def fdt_new_def fec_oti_zero_def)
qed (simp_all add: memory_suffices_def two_env_def fdt_to_string_def)

text \<open>Among its packets comes one of session 8, and one of an object 3 that is not announced.\<close>

lemma built_stranger:
  assumes "tsi' \<noteq> tsi \<or> toi \<noteq> 0 \<and> objs toi = None"
  shows "stranger tsi objs (built tsi' toi example_header_oti [sym 0 0 [60]])"
proof (rule other_session_stranger [where tsi = tsi and objs = objs, OF _ example_ids(1,1)])
  show "packet_of tsi' toi 5 example_header_oti example_header_oti [60] [(0, 0)]
     (built tsi' toi example_header_oti [sym 0 0 [60]])"
    by (rule packet_built [OF _ _ _ example_ids(1)])
      (use example_received_oti in \<open>simp_all add: genuine_def symbol_index_def block_start_def symbol_run_def word_le_nat_alt\<close>)
qed (use assms in \<open>simp_all add: example_header_oti_def\<close>)

abbreviation two_arrivals :: "arrival list" where
  "two_arrivals \<equiv>
     [(2, [(1, 0)], 1, built 7 2 example_header_oti [sym 1 0 [9, 10]]),
      (0, [], 1, built 8 1 example_header_oti [sym 0 0 [60]]),
      (1, [(1, 0)], 2, built 7 1 example_header_oti [sym 1 0 [9, 10]]),
      (0, [], 2, built 7 3 example_header_oti [sym 0 0 [60]]),
      (2, [(0, 0), (0, 1)], 3, built 7 2 example_header_oti [sym 0 0 [31, 2, 3, 4], sym 0 1 [5, 6, 7, 8]]),
      (1, [(0, 0), (0, 1)], 4, built 7 1 example_header_oti [sym 0 0 [1, 2, 3, 4], sym 0 1 [5, 6, 7, 8]])]"

lemma coded_packets:
  "packet_of 7 2 5 example_header_oti (fe_fec_oti coded_entry) [31, 2, 3, 4, 5, 6, 7, 8, 9, 10] [(0, 0), (0, 1)]
     (built 7 2 example_header_oti [sym 0 0 [31, 2, 3, 4], sym 0 1 [5, 6, 7, 8]])"
  "packet_of 7 2 5 example_header_oti (fe_fec_oti coded_entry) [31, 2, 3, 4, 5, 6, 7, 8, 9, 10] [(1, 0)]
     (built 7 2 example_header_oti [sym 1 0 [9, 10]])"
proof -
  have id: "encoding_id example_header_oti = CompactNoCode" by (simp add: example_header_oti_def)
  have t: "tlen (fe_fec_oti example_file_entry) = 10" "slen (fe_fec_oti example_file_entry) = 4"
    "encoding_symbol_length (fe_fec_oti example_file_entry) = 4"
    by (simp_all add: digest_entry_defs)
  have nth2: "i < Suc (Suc 0) \<longleftrightarrow> i = 0 \<or> i = Suc 0" for i by auto
  have g: "list_all2 (genuine (fe_fec_oti coded_entry) [31, 2, 3, 4, 5, 6, 7, 8, 9, 10])
     [(0, 0), (0, 1)] [sym 0 0 [31, 2, 3, 4], sym 0 1 [5, 6, 7, 8]]"
    "list_all2 (genuine (fe_fec_oti coded_entry) [31, 2, 3, 4, 5, 6, 7, 8, 9, 10]) [(1, 0)] [sym 1 0 [9, 10]]"
    by (simp_all add: genuine_def example_pairs symbol_index_def block_start_def example_partition t)
  show "packet_of 7 2 5 example_header_oti (fe_fec_oti coded_entry) [31, 2, 3, 4, 5, 6, 7, 8, 9, 10] [(0, 0), (0, 1)]
     (built 7 2 example_header_oti [sym 0 0 [31, 2, 3, 4], sym 0 1 [5, 6, 7, 8]])"
    by (rule packet_built [OF g(1) _ _ id]) (auto simp: symbol_run_def t nth2)
  show "packet_of 7 2 5 example_header_oti (fe_fec_oti coded_entry) [31, 2, 3, 4, 5, 6, 7, 8, 9, 10] [(1, 0)]
     (built 7 2 example_header_oti [sym 1 0 [9, 10]])"
    by (rule packet_built [OF g(2) _ _ id]) (auto simp: symbol_run_def t word_le_nat_alt)
qed

lemma list_all2_in_set: "x \<in> set xs \<Longrightarrow> list_all2 P xs ys \<Longrightarrow> \<exists>y \<in> set ys. P x y"
  by (induction xs ys rule: list_induct2') auto

text \<open>One packet of the FDT, then the packets of the files, with the two strangers among them.\<close>
theorem session_delivers_files_witness:
  "\<exists>r' f g. handle_all two_env (datagrams (fdt_arrivals @ two_arrivals)) example_receiver = Some (Inr (), r') \<and>
     set (rc_delivered r') = {f, g} \<and> length (rc_delivered r') = 2 \<and>
     buffer_bytes f (unat (file_length f)) = Inr [1, 2, 3, 4, 5, 6, 7, 8, 9, 10] \<and>
     fe_content_encoding (fl_meta g) = ''gzip'' \<and> buffer_bytes g (unat (file_length g)) = Inr [2, 3, 4, 5, 6, 7, 8, 9, 10]"
proof -
  have ps: "\<forall>p \<in> set fdt_arrivals. fst p = 0 \<and> carousel_packet 7 5 example_header_oti [60] two_files p"
    "\<forall>p \<in> set two_arrivals. carousel_packet 7 5 example_header_oti [60] two_files p"
    using example_packets coded_packets example_ids(1) built_stranger [of 8 7 1 two_files] built_stranger [of 7 7 3 two_files]
    by (auto simp: carousel_packet_def two_files_iff) (simp_all add: two_files_def)
  obtain r' tois where r': "handle_all two_env (datagrams (fdt_arrivals @ two_arrivals)) example_receiver = Some (Inr (), r')"
    and tois: "distinct tois" "set tois = {toi. \<exists>e data. two_files toi = Some (e, data) \<and> symbol_pairs (fe_fec_oti e) \<subseteq> arrived two_arrivals toi}"
      "list_all2 (\<lambda>toi f. \<exists>e data. two_files toi = Some (e, data) \<and> delivered_as two_env e data f) tois (rc_delivered r')"
    using session_delivers_files [OF two_table_ok(3) two_objects two_table_ok(1,4,5,2) example_ids(1) example_session(7,8) ps(1)
        example_session(4) ps(2), of "replicate 2048 0"] by blast
  have all: "set tois = {1, 2}" unfolding tois(2) two_files_iff by (auto simp: example_pairs)
  have two: "length tois = 2" using distinct_card [OF tois(1)] all by simp
  have "\<exists>f \<in> set (rc_delivered r'). \<exists>e data. two_files toi = Some (e, data) \<and> delivered_as two_env e data f" if "toi \<in> set tois" for toi
    using list_all2_in_set [OF that tois(3)] .
  from this [of 1] this [of 2] obtain f g where fg: "f \<in> set (rc_delivered r')" "g \<in> set (rc_delivered r')"
    "delivered_as two_env digest_entry [1, 2, 3, 4, 5, 6, 7, 8, 9, 10] f"
    "delivered_as two_env coded_entry [31, 2, 3, 4, 5, 6, 7, 8, 9, 10] g"
    by (auto simp: all two_files_iff)
  have f: "buffer_bytes f (unat (file_length f)) = Inr [1, 2, 3, 4, 5, 6, 7, 8, 9, 10]" "fe_content_encoding (fl_meta f) = []"
    using delivered_plain [OF digest_entry_plain fg(3)] digest_entry_plain by simp_all
  have g: "buffer_bytes g (unat (file_length g)) = Inr [2, 3, 4, 5, 6, 7, 8, 9, 10]" "fe_content_encoding (fl_meta g) = ''gzip''"
    using fg(4) unfolding delivered_as_def coded_carries by (auto simp: coded_entry_def)
  have n: "length (rc_delivered r') = 2" using list_all2_lengthD [OF tois(3)] two by simp
  have "f \<noteq> g" using f(2) g(2) by auto
  then have "card {f, g} = 2" by simp
  moreover have "card (set (rc_delivered r')) \<le> 2" using n card_length by metis
  ultimately have "set (rc_delivered r') = {f, g}" using fg(1,2) card_seteq [of "set (rc_delivered r')" "{f, g}"] by simp
  with r' f(1) g n show ?thesis by blast
qed

end
