(* ===== verification/Receiver_Failures.thy ===== *)
theory Receiver_Failures
  imports Delivery
begin

text \<open>
  The receiver over all its events: what it delivers is verified, and the datagrams after which it no
  longer does its work (it does not start another reception, or never gets a table again).
\<close>

section \<open>Reachable states\<close>

lemma handle_all_run:
  assumes "handle_all env ds r = Some (Inr (), r')" and "rc_armed r" and "rc_running r"
  shows "(rc_event env)\<^sup>*\<^sup>* r r'"
  using assms
proof (induction ds arbitrary: r)
  case (Cons p ds)
  obtain now d where p: "p = (now, d)" by (cases p)
  with Cons.prems(1) obtain r1 where r1: "handle_receive_from env now (Some d) r = Some (Inr (), r1)"
    "handle_all env ds r1 = Some (Inr (), r')"
    by (auto simp: bind_outcome_def split: option.splits sum.splits)
  from handled_running [OF r1(1) Cons.prems(3)] Cons.IH [OF r1(2)] have "(rc_event env)\<^sup>*\<^sup>* r1 r'" by simp
  moreover have "rc_event env r r1" using r1(1) Cons.prems(2) by (rule datagram [rotated])
  ultimately show ?case by (rule converse_rtranclp_into_rtranclp [rotated])
qed simp

text \<open>(C11) Whatever datagrams arrive, and whatever the application does in between: a file without a content
  encoding whose table entry has a digest is handed to the application only with content of that digest
  (and the map of files stays ordered, the buffer of its size).\<close>
theorem delivered_files_verified:
  assumes "reachable rc_init (rc_event env) r" and "f \<in> set (rc_delivered r)"
    and "content_md5 (fl_meta f) \<noteq> []" and "fe_content_encoding (fl_meta f) = []"
  shows "md5_agrees (env_md5 env) f = Inr True \<and> om_ok (rc_files r) \<and> length (rc_data r) = 2048"
  using rcv.inv_reachable [OF assms(1)] assms(2-4)
  by (auto simp: rc_inv_def verified_def max_length_def)

text \<open>The file of the example session was checked.\<close>
theorem delivered_files_verified_witness:
  "\<exists>r f. handle_all example_env (datagrams (fdt_arrivals @ file_arrivals)) example_receiver = Some (Inr (), r) \<and>
     rc_delivered r = [f] \<and> md5_agrees (env_md5 example_env) f = Inr True"
proof -
  let ?new = "receiver_new (ucast (7 :: u16)) (replicate 2048 0)"
  have "rc_init ?new" by (rule rc_init.intros) (simp add: max_length_def)
  then have "reachable rc_init (rc_event example_env) ?new" by (rule reach_init)
  moreover have "rc_event example_env ?new example_receiver" by (rule rc_event.register)
  ultimately have init: "reachable rc_init (rc_event example_env) example_receiver" by (rule reach_step)
  from session_delivers [OF example_session(1) example_objects example_table(1) example_session(5,6)
      example_table(2) example_ids(1) example_session(7,8,2,4,3), of "replicate 2048 0"] example_outcome
  obtain r f where r: "handle_all example_env (datagrams (fdt_arrivals @ file_arrivals)) example_receiver = Some (Inr (), r)"
    "rc_delivered r = [f]" "fl_meta f = digest_entry" by blast
  have "reachable rc_init (rc_event example_env) r"
    by (rule reachable_run [OF init handle_all_run [OF r(1)]])
      (simp_all add: register_completion_callback_def receiver_new_def)
  from delivered_files_verified [OF this, of f] r show ?thesis by (auto simp: digest_entry_defs)
qed

section \<open>Exceptions that are not derived from std::exception\<close>

text \<open>A receiver whose next reception has not been started: nothing is received any more.\<close>

definition deaf :: "flute_file list \<Rightarrow> fdt option \<Rightarrow> receiver \<Rightarrow> bool" where
  "deaf fs t r \<longleftrightarrow> \<not> rc_armed r \<and> rc_delivered r = fs \<and> rc_fdt r = t"

inductive_cases rc_eventE: "rc_event env r r'"

interpretation deaf: absorbing "rc_event env" "deaf fs t" for env fs t
proof unfold_locales
  show "deaf fs t r'" if "deaf fs t r" "rc_event env r r'" for r r'
    using that
    by (elim rc_eventE) (auto simp: deaf_def remove_expired_files_def remove_file_with_content_location_def
        register_completion_callback_def receiver_stop_def)
qed

text \<open>(C26) One datagram that the packet parser rejects (too short, another version of LCT, a reserved
  flag) ends reception: the parser throws a string literal, which the handler for \<^verbatim>\<open>std::exception\<close> does
  not catch, so the next reception is not started, and whatever happens afterwards no table is taken
  over and no file is delivered.\<close>
theorem rejected_datagram_ends_reception:
  assumes "rc_running r" and "length d \<le> 2048" and "length (rc_data r) = 2048"
    and "alc_parse (d @ drop (length d) (rc_data r)) (length d) = Some (Inl e)"
  shows "\<exists>r1. handle_receive_from env now (Some d) r = Some (Inl e, r1) \<and>
    (\<forall>r2. (rc_event env)\<^sup>*\<^sup>* r1 r2 \<longrightarrow>
       \<not> rc_armed r2 \<and> rc_delivered r2 = rc_delivered r \<and> rc_fdt r2 = rc_fdt r)"
proof -
  have l: "length d \<le> max_length" using assms(2) by (simp add: max_length_def)
  then have t: "take max_length d = d" by simp
  have "process_packet env now (length d) (receive_datagram d r) = Some (Inl e, receive_datagram d r)"
    using assms(4) l by (simp add: process_packet_def)
  then have h: "handle_receive_from env now (Some d) r = Some (Inl e, receive_datagram d r)"
    using assms(1) alc_parse_error [OF assms(4)] by (simp add: handle_receive_from_def Let_def t)
  have "deaf (rc_delivered r) (rc_fdt r) (receive_datagram d r)"
    by (simp add: deaf_def) (simp add: receive_datagram_def)
  with deaf.stuck_for_ever have "deaf (rc_delivered r) (rc_fdt r) r2" if "(rc_event env)\<^sup>*\<^sup>* (receive_datagram d r) r2" for r2
    using that by blast
  with h show ?thesis by (auto simp: deaf_def)
qed

text \<open>A datagram of one byte.\<close>
theorem rejected_datagram_ends_reception_witness:
  "\<exists>r1. handle_receive_from example_env 0 (Some [16]) example_receiver =
       Some (Inl (CStr ''Packet too short''), r1) \<and>
     (\<forall>r2. (rc_event example_env)\<^sup>*\<^sup>* r1 r2 \<longrightarrow> \<not> rc_armed r2 \<and> rc_delivered r2 = [])"
proof -
  have "rc_running example_receiver" "length [16 :: byte] \<le> 2048" "length (rc_data example_receiver) = 2048"
    "rc_delivered example_receiver = []"
    by (simp_all add: register_completion_callback_def receiver_new_def)
  moreover have "alc_parse ([16] @ m) (length [16 :: byte]) = Some (Inl (CStr ''Packet too short''))" for m
    by (simp add: alc_parse_def parse_fixed_def)
  ultimately show ?thesis
    using rejected_datagram_ends_reception [of example_receiver "[16]" "CStr ''Packet too short''" example_env 0] by auto
qed

section \<open>A table that does not parse\<close>

lemma complete_object_discards:
  assumes "om_get (rc_files r) (alc_toi p) = Some f" and "fl_complete f"
  shows "receive_object env now p n r = Some (Inr (), r)"
proof -
  have "start_fdt_object env now p r = Some (Inr (), r)"
    using assms(1) by (auto simp: start_fdt_object_def start_file_def)
  with assms show ?thesis by (simp add: receive_object_def)
qed

lemma handle_packet_error:
  assumes "packet_of tsi toi fid h oti data ijs d"
    and "encoding_id oti = CompactNoCode" "encoding_id h = CompactNoCode" "encoding_symbol_length oti \<noteq> 0"
    and "slen oti < 2 ^ 24" and "rc_running r" and "rc_tsi r = ucast tsi"
    and "receive_object env now (received_packet tsi toi h fid) (of_nat (length d)) (receive_datagram d r) =
      Some (Inl (StdExc m), r')"
  shows "handle_receive_from env now (Some d) r = Some (Inr (), r'\<lparr>rc_armed := True\<rparr>)"
proof -
  note p = packet_parsed [OF assms(1-5)]
  have t: "take max_length d = d" using p(4) by simp
  show ?thesis
    using assms(6-8) p(1) by (simp add: handle_receive_from_def Let_def t process_packet_def p(4))
qed

text \<open>A complete object under TOI 0 that is still there: no packet of a table gets past it.\<close>

definition table_stuck :: "u16 \<Rightarrow> fdt option \<Rightarrow> receiver \<Rightarrow> bool" where
  "table_stuck tsi t r \<longleftrightarrow>
     rc_running r \<and> rc_tsi r = ucast tsi \<and> rc_fdt r = t \<and> (\<exists>f. om_get (rc_files r) 0 = Some f \<and> fl_complete f)"

definition table_packet :: "u16 \<Rightarrow> byte list \<Rightarrow> bool" where
  "table_packet tsi d \<longleftrightarrow>
     (\<exists>fid h data ijs. encoding_id h = CompactNoCode \<and> 
        partition_ok (received_oti h) \<and> packet_of tsi 0 fid h (received_oti h) data ijs d)"

lemma stuck_packet:
  assumes "table_stuck tsi t r" and "table_packet tsi d"
  shows "\<exists>r'. handle_receive_from env now (Some d) r = Some (Inr (), r') \<and> table_stuck tsi t r'"
proof -
  from assms(2) obtain fid h data ijs where h: "encoding_id h = CompactNoCode" "partition_ok (received_oti h)"
    and pkt: "packet_of tsi 0 fid h (received_oti h) data ijs d" by (auto simp: table_packet_def)
  from assms(1) obtain f where f: "om_get (rc_files r) 0 = Some f" "fl_complete f"
    and st: "rc_running r" "rc_tsi r = ucast tsi" "rc_fdt r = t" by (auto simp: table_stuck_def)
  have "receive_object env now (received_packet tsi 0 h fid) (of_nat (length d)) (receive_datagram d r) =
      Some (Inr (), receive_datagram d r)"
    by (rule complete_object_discards [of _ _ f]) (simp_all add: f)
  moreover have "encoding_symbol_length (received_oti h) \<noteq> 0" using h(2) by (auto simp: partition_ok_def)
  ultimately have "handle_receive_from env now (Some d) r = Some (Inr (), (receive_datagram d r)\<lparr>rc_armed := True\<rparr>)"
    using handle_packet [OF pkt encoding_received_oti h(1) _ slen_received_oti st(1,2)] by blast
  moreover have "table_stuck tsi t ((receive_datagram d r)\<lparr>rc_armed := True\<rparr>)"
    using f st by (simp add: table_stuck_def)
  ultimately show ?thesis by blast
qed

lemma stuck_packets:
  "table_stuck tsi t r \<Longrightarrow> \<forall>(now, d) \<in> set ds. table_packet tsi d \<Longrightarrow>
     \<exists>r'. handle_all env ds r = Some (Inr (), r') \<and> table_stuck tsi t r'"
proof (induction ds arbitrary: r)
  case (Cons p ds)
  obtain now d where p: "p = (now, d)" by (cases p)
  with stuck_packet [OF Cons.prems(1), of d env now] Cons.prems(2) obtain r1 where
    "handle_receive_from env now (Some d) r = Some (Inr (), r1)" "table_stuck tsi t r1" by auto
  with Cons.IH [of r1] Cons.prems(2) p show ?case by auto
qed simp

text \<open>(C27) When the last symbol of an FDT comes and its text is one the parser throws an exception for
  (an expiry time that is not a number), the receiver goes on receiving, but the completed object stays
  under TOI 0: from then on every packet of a table, of whatever instance, is discarded as one of a
  completed file, and the receiver keeps the table it has.\<close>
theorem unparsable_fdt_blocks_tables:
  assumes "rc_running r" and "rc_tsi r = ucast tsi" and "om_ok (rc_files r)"
    and "om_get (rc_files r) 0 = Some f" and "receiving (received_oti h) content R f"
    and "fl_meta f = fdt_object_entry (received_packet tsi 0 h fid)" and "\<not> fl_complete f"
    and "encoding_id h = CompactNoCode" "partition_ok (received_oti h)" "length content = tlen (received_oti h)"
    and "packet_of tsi 0 fid h (received_oti h) content ijs d" and "symbol_pairs (received_oti h) \<subseteq> set ijs \<union> R"
    and "fdt_parse (env_xml_parse env) (fid AND 0xFFFFF) content = Inl (StdExc m)"
    and "\<forall>(now, d) \<in> set ds. table_packet tsi d"
  shows "\<exists>r1 r2. handle_receive_from env now (Some d) r = Some (Inr (), r1) \<and> rc_armed r1 \<and>
    handle_all env ds r1 = Some (Inr (), r2) \<and> rc_fdt r2 = rc_fdt r"
proof -
  let ?p = "received_packet tsi 0 h fid" and ?o = "received_oti h"
  have md5: "md5_ok (env_md5 env) content (fl_meta f)" using assms(6) by (simp add: md5_ok_def)
  have get: "om_get (rc_files r) (ucast (0 :: u16)) = Some f" using assms(4) by simp
  have sl: "encoding_symbol_length ?o \<noteq> 0" using assms(9) by (auto simp: partition_ok_def)
  obtain f' where f': "receiving ?o content (set ijs \<union> R) f'" "fl_meta f' = fl_meta f"
    and step: "receive_object env now ?p (of_nat (length d)) (receive_datagram d r) =
      (let r2 = set_file 0 f' (receive_datagram d r)
       in if fl_complete f' then finish_file env now ?p f' r2 else Some (Inr (), r2))"
    using object_packet [where now = now, OF assms(11) encoding_received_oti assms(8) slen_received_oti assms(9,10)
        md5 get assms(5,7)] by auto
  have complete: "fl_complete f'" using f'(1) assms(12) by (simp add: receiving_def)
  let ?r2 = "set_file 0 f' (receive_datagram d r)"
  let ?r3 = "set_file 0 f' (replace_files 0 f' ?r2)"
  have content: "buffer_bytes f' (unat (file_length f')) = Inr content"
    using receiving_content [OF assms(9) f'(1) assms(12,10)] by simp
  have "finish_file env now ?p f' ?r2 = Some (Inl (StdExc m), ?r3)"
    using f'(2) assms(6,13) content
    by (simp add: finish_file_def Let_def decode_plain deliver_def install_fdt_def)
  then have "receive_object env now ?p (of_nat (length d)) (receive_datagram d r) = Some (Inl (StdExc m), ?r3)"
    using step complete by (simp add: Let_def)
  from handle_packet_error [OF assms(11) encoding_received_oti assms(8) sl slen_received_oti assms(1,2) this]
  have h1: "handle_receive_from env now (Some d) r = Some (Inr (), ?r3\<lparr>rc_armed := True\<rparr>)" .
  have "om_ok (rc_files (replace_files 0 f' ?r2))"
    using assms(3) by (intro replaced_ok) (simp add: set_file_def om_ok_set)
  then have "om_get (rc_files ?r3) 0 = Some f'" by (simp add: set_file_def om_get_set)
  with complete assms(1,2) have "table_stuck tsi (rc_fdt r) (?r3\<lparr>rc_armed := True\<rparr>)"
    by (simp add: table_stuck_def) (simp add: set_file_def replace_files_def)
  from stuck_packets [OF this assms(14)] obtain r2 where
    "handle_all env ds (?r3\<lparr>rc_armed := True\<rparr>) = Some (Inr (), r2)" "table_stuck tsi (rc_fdt r) r2" by blast
  with h1 show ?thesis by (auto simp: table_stuck_def)
qed

text \<open>A receiver with no table gets a bad one; a good one that follows is not taken.\<close>

definition bad_table_env :: "unit env" where
  "bad_table_env = example_env\<lparr>env_xml_parse := (\<lambda>bs. if bs = [61]
     then Some (Element ''FDT-Instance'' [(''Expires'', ''soon'')] None []) else env_xml_parse example_env bs)\<rparr>"

lemma example_packet_byte:
  "packet_of 7 0 5 example_header_oti (received_oti example_header_oti) [b] [(0, 0)]
     (built 7 0 example_header_oti [sym 0 0 [b]])"
  unfolding example_received_oti(1)
  by (rule packet_built [OF _ _ _ example_ids(1)])
    (simp_all add: example_received_oti genuine_def symbol_index_def block_start_def symbol_run_def word_le_nat_alt)

theorem unparsable_fdt_blocks_tables_witness:
  "\<exists>r r1 r2. rc_fdt r = None \<and>
     handle_receive_from bad_table_env 0 (Some (built 7 0 example_header_oti [sym 0 0 [61]])) r = Some (Inr (), r1) \<and>
     handle_all bad_table_env [(0, built 7 0 example_header_oti [sym 0 0 [60]])] r1 = Some (Inr (), r2) \<and>
     rc_fdt r2 = None"
proof -
  let ?h = "example_header_oti"
  let ?e = "fdt_object_entry (received_packet 7 0 ?h 5)"
  let ?f = "started bad_table_env 0 ?e"
  let ?r = "example_receiver\<lparr>rc_files := [(0, ?f)]\<rparr>"
  have mem: "memory_suffices bad_table_env" by (simp add: memory_suffices_def bad_table_env_def example_env_def)
  have ok: "partition_ok (received_oti ?h)" by (simp add: example_received_oti)
  then have e: "partition_ok (fe_fec_oti ?e)" by simp
  have recv: "receiving (received_oti ?h) [61] {} ?f"
    using started_receiving(1) [OF mem e, of "[61]" 0] by simp
  then have inc: "\<not> fl_complete ?f" by (simp add: receiving_def example_received_oti)
  have parse: "fdt_parse (env_xml_parse bad_table_env) (5 AND 0xFFFFF) [61] = Inl (StdExc ''invalid_argument'')"
  proof -
    have "fdt_parse (\<lambda>bs. Some (Element ''FDT-Instance'' [(''Expires'', ''soon'')] None [])) (5 AND 0xFFFFF) [61] =
      Inl (StdExc ''invalid_argument'')" by code_simp
    then show ?thesis by (simp add: fdt_parse_def bad_table_env_def)
  qed
  have later: "\<forall>(now, d) \<in> set [(0 :: u64, built 7 0 ?h [sym 0 0 [60]])]. table_packet 7 d"
    using example_packet_byte [of 60] ok example_ids(1) unfolding table_packet_def by auto
  have fields: "rc_running ?r" "rc_tsi ?r = ucast (7 :: u16)" "om_ok (rc_files ?r)" "om_get (rc_files ?r) 0 = Some ?f"
    "rc_fdt ?r = None"
    by (simp_all add: register_completion_callback_def receiver_new_def om_ok_def)
  have "length [61 :: byte] = tlen (received_oti ?h)" "symbol_pairs (received_oti ?h) \<subseteq> set [(0, 0)] \<union> {}"
    by (simp_all add: example_received_oti)
  from unparsable_fdt_blocks_tables [OF fields(1-4) recv started_receiving(2) [OF mem e] inc example_ids(1) ok this(1)
      example_packet_byte this(2) parse later, of 0] fields(5)
  show ?thesis by metis
qed

end
