(* ===== verification/Receiver_Memory.thy ===== *)
theory Receiver_Memory
  imports Delivery
begin

text \<open>
  The memory of the receiver's files. A file without a content encoding is typed whatever arrives: it has
  one allocation of the transfer length, and the slots of its symbols are pieces of it, so that storing a
  symbol never writes anywhere else. After a coded file has been decoded its slots point to the buffer
  that was freed.
\<close>

section \<open>Typed files\<close>

definition slot_ok :: "nat \<Rightarrow> symbol_slot \<Rightarrow> bool" where
  "slot_ok n s \<longleftrightarrow>
     sl_data s = None \<and> sl_length s = 0 \<or> (\<exists>off. sl_data s = Some (0, off) \<and> off + unat (sl_length s) \<le> n)"

definition slots_ok :: "nat \<Rightarrow> (u16, symbol_slot) omap \<Rightarrow> bool" where
  "slots_ok n syms \<longleftrightarrow> (\<forall>x \<in> set syms. slot_ok n (snd x))"

definition blocks_ok :: "nat \<Rightarrow> (u16, source_block) omap \<Rightarrow> bool" where
  "blocks_ok n blocks \<longleftrightarrow> (\<forall>x \<in> set blocks. slots_ok n (sb_symbols (snd x)))"

definition file_typed :: "flute_file \<Rightarrow> bool" where
  "file_typed f \<longleftrightarrow>
     \<not> fl_been_decoded f \<and> fl_own_buffer f \<and> fl_buffer f = Some 0 \<and> (\<exists>buf. fl_heap f = [Some buf] \<and> length buf = tlen (fl_oti f)) \<and>
     blocks_ok (tlen (fl_oti f)) (fl_source_blocks f)"

lemma set_om_set: "set (om_set k v m) \<subseteq> insert (k, v) (set m)"
  by (induction m) (auto split: if_splits)

lemma slots_ok_set: "slots_ok n m \<Longrightarrow> slot_ok n s \<Longrightarrow> slots_ok n (om_set k s m)"
  using set_om_set [of k s m] by (auto simp: slots_ok_def)

lemma blocks_ok_set: "blocks_ok n m \<Longrightarrow> slots_ok n (sb_symbols b) \<Longrightarrow> blocks_ok n (om_set k b m)"
  using set_om_set [of k b m] by (auto simp: blocks_ok_def)

lemma slots_ok_get: "slots_ok n m \<Longrightarrow> om_get m k = Some s \<Longrightarrow> slot_ok n s"
  using om_get_in_set [of m k s] by (auto simp: slots_ok_def)

lemma blocks_ok_get: "blocks_ok n m \<Longrightarrow> om_get m k = Some b \<Longrightarrow> slots_ok n (sb_symbols b)"
  using om_get_in_set [of m k b] by (auto simp: blocks_ok_def)

section \<open>Creation\<close>

lemma block_symbols_typed:
  "block_symbols k 0 oti symbol_id off remaining syms = Inr (syms', off', remaining') \<Longrightarrow> slots_ok (tlen oti) syms \<Longrightarrow>
     slots_ok (tlen oti) syms'"
proof (induction k arbitrary: symbol_id off remaining syms)
  case (Suc k)
  let ?l = "min remaining (ucast (encoding_symbol_length oti))"
  let ?slot = "\<lparr>sl_data = Some (0, off), sl_length = ?l, sl_complete = False, sl_queued = False\<rparr>"
  have fits: "off + unat ?l \<le> tlen oti" using Suc.prems(1) by (auto simp: Let_def split: if_splits)
  then have "slots_ok (tlen oti) (om_set (ucast symbol_id) ?slot syms)"
    by (intro slots_ok_set [OF Suc.prems(2)]) (simp add: slot_ok_def)
  with Suc.prems(1) fits Suc.IH show ?case by (auto simp: Let_def split: if_splits)
qed simp

lemma block_loop_induct [consumes 1, case_names empty failed block]:
  assumes "block_loop buf oti nof_large large small number off remaining blocks = Some r"
    and "\<And>number off blocks. P number off 0 blocks (Inr blocks)"
    and "\<And>number off remaining blocks e. remaining \<noteq> 0 \<Longrightarrow> P number off remaining blocks (Inl e)"
    and "\<And>number off remaining blocks syms off' remaining' r. remaining \<noteq> 0 \<Longrightarrow>
           block_symbols (unat (if number < nof_large then large else small)) buf oti 0 off remaining [] =
             Inr (syms, off', remaining') \<Longrightarrow>
           P (number + 1) off' remaining' (om_set (ucast number) \<lparr>sb_complete = False, sb_symbols = syms\<rparr> blocks) r \<Longrightarrow>
           P number off remaining blocks r"
  shows "P number off remaining blocks r"
proof -
  have "b = buf \<longrightarrow> t = oti \<longrightarrow> n = nof_large \<longrightarrow> l = large \<longrightarrow> s = small \<longrightarrow> P number off remaining blocks r"
    if "block_loop b t n l s number off remaining blocks = Some r"
    for b t n l s number off remaining blocks r
  proof (rule block_loop.raw_induct [where P = "\<lambda>b t n l s number off remaining blocks r.
      b = buf \<longrightarrow> t = oti \<longrightarrow> n = nof_large \<longrightarrow> l = large \<longrightarrow> s = small \<longrightarrow> P number off remaining blocks r", OF _ that])
    fix rec b t n l s number off remaining blocks r
    assume IH: "\<And>b t n l s number off remaining blocks r. rec b t n l s number off remaining blocks = Some r \<Longrightarrow>
        b = buf \<longrightarrow> t = oti \<longrightarrow> n = nof_large \<longrightarrow> l = large \<longrightarrow> s = small \<longrightarrow> P number off remaining blocks r"
    assume body: "(if remaining = 0 then Some (Inr blocks)
        else case block_symbols (unat (if number < n then l else s)) b t 0 off remaining [] of
               Inl e \<Rightarrow> Some (Inl e)
             | Inr (syms, off', remaining') \<Rightarrow>
                 rec b t n l s (number + 1) off' remaining'
                   (om_set (ucast number) \<lparr>sb_complete = False, sb_symbols = syms\<rparr> blocks)) = Some r"
    show "b = buf \<longrightarrow> t = oti \<longrightarrow> n = nof_large \<longrightarrow> l = large \<longrightarrow> s = small \<longrightarrow> P number off remaining blocks r"
    proof (intro impI)
      assume eqs: "b = buf" "t = oti" "n = nof_large" "l = large" "s = small"
      show "P number off remaining blocks r"
      proof (cases "remaining = 0")
        case True
        then show ?thesis using body assms(2) by auto
      next
        case False
        then show ?thesis using body assms(3) assms(4) IH eqs by (auto split: sum.splits)
      qed
    qed
  qed
  with assms(1) show ?thesis by blast
qed

lemma block_loop_typed:
  "block_loop 0 oti nof_large large small number off remaining blocks = Some r \<Longrightarrow> blocks_ok (tlen oti) blocks \<Longrightarrow>
     r = Inr blocks' \<Longrightarrow> blocks_ok (tlen oti) blocks'"
proof (induction number off remaining blocks r arbitrary: blocks' rule: block_loop_induct)
  case (empty number off blocks)
  then show ?case by simp
next
  case (failed number off remaining blocks e)
  then show ?case by simp
next
  case (block number off remaining blocks syms off' remaining' r)
  have "slots_ok (tlen oti) syms" using block_symbols_typed [OF block.hyps(2)] by (simp add: slots_ok_def)
  then have "blocks_ok (tlen oti) (om_set (ucast number) \<lparr>sb_complete = False, sb_symbols = syms\<rparr> blocks)"
    by (intro blocks_ok_set [OF block.prems(1)]) simp
  then show ?case using block.IH block.prems by simp
qed

lemma blocks_ok_nil [simp]: "blocks_ok n []"
  by (simp add: blocks_ok_def)

lemma created_typed:
  assumes "partition_and_create 0 f = Some (Inr f')" and "\<not> fl_been_decoded f" "fl_own_buffer f" "fl_buffer f = Some 0"
    and "fl_heap f = [Some buf]" "length buf = tlen (fl_oti f)" and "fl_source_blocks f = []"
  shows "file_typed f' \<and> fl_meta f' = fl_meta f"
proof -
  obtain g where g: "calculate_partitioning f = Inr g" "create_blocks 0 g = Some (Inr f')"
    using assms(1) by (auto simp: partition_and_create_def split: sum.splits)
  then have same: "fl_meta g = fl_meta f" "fl_been_decoded g = fl_been_decoded f" "fl_own_buffer g = fl_own_buffer f" "fl_buffer g = fl_buffer f"
    "fl_heap g = fl_heap f" "fl_source_blocks g = fl_source_blocks f"
    by (auto simp: calculate_partitioning_def Let_def rbind_eq_Inr_iff)
  obtain blocks where blocks: "block_loop 0 (fl_oti g) (fl_nof_large_source_blocks g) (fl_large_source_block_length g)
      (fl_small_source_block_length g) 0 0 (transfer_length (fl_oti g)) (fl_source_blocks g) = Some (Inr blocks)"
    "f' = g\<lparr>fl_source_blocks := blocks\<rparr>"
    using g(2) by (auto simp: create_blocks_def rbind_eq_Inr_iff)
  then have "blocks_ok (tlen (fl_oti g)) blocks" using block_loop_typed [OF blocks(1)] same assms(7) by simp
  then show ?thesis using blocks(2) same assms by (simp add: file_typed_def)
qed

text \<open>An allocation that succeeds has the size asked for.\<close>

definition malloc_sizes :: "'z env \<Rightarrow> bool" where
  "malloc_sizes env \<longleftrightarrow> (\<forall>n buf. env_malloc env n = Some buf \<longrightarrow> length buf = n)"

lemma file_of_entry_typed:
  assumes "malloc_sizes env" and "file_of_entry (env_malloc env) now e = Some (Inr f)"
  shows "file_typed f \<and> fl_meta f = e"
proof -
  obtain buf where buf: "env_malloc env (tlen (fe_fec_oti e)) = Some buf"
    "partition_and_create 0 (file_with e True buf now None) = Some (Inr f)"
    using assms(2) by (auto simp: file_of_entry_def split: option.splits)
  then have "length buf = tlen (fe_fec_oti e)" using assms(1) by (simp add: malloc_sizes_def)
  with created_typed [OF buf(2)] show ?thesis by (simp add: file_with_def)
qed

section \<open>Storing symbols\<close>

text \<open>The flags of a slot and of a block do not matter.\<close>

lemma slot_ok_flags [simp]:
  "slot_ok n (s\<lparr>sl_complete := b\<rparr>) = slot_ok n s" "slot_ok n null_slot"
  by (simp_all add: slot_ok_def null_slot_def)

lemma file_typed_flags [simp]:
  "file_typed (f\<lparr>fl_complete := b\<rparr>) = file_typed f"
  by (simp add: file_typed_def)

lemma checked_block_symbols [simp]: "sb_symbols (check_source_block_completion b) = sb_symbols b"
  by (simp add: check_source_block_completion_def)

lemma reset_typed: "file_typed f \<Longrightarrow> file_typed (reset_blocks f)"
  by (fastforce simp: file_typed_def reset_blocks_def reset_block_def blocks_ok_def slots_ok_def)

lemma slots_ok_index: "om_index k null_slot m = (s, m') \<Longrightarrow> slots_ok n m \<Longrightarrow> slot_ok n s \<and> slots_ok n m'"
  by (auto simp: om_index_def slots_ok_set slots_ok_get split: option.splits)

lemma blocks_ok_index: "om_index k empty_block m = (b, m') \<Longrightarrow> blocks_ok n m \<Longrightarrow> slots_ok n (sb_symbols b) \<and> blocks_ok n m'"
  by (auto simp: om_index_def slots_ok_def [of n "[]"] empty_block_def blocks_ok_get intro!: blocks_ok_set split: option.splits)

text \<open>A symbol that can be read fits its slot.\<close>

lemma typed_store:
  assumes "slot_ok (length buf) s" and "rbind (decode_to es (sl_length s)) (heap_store [Some buf] (sl_data s)) = r"
  shows "case r of Inl e \<Rightarrow> symbol_bytes es = Inl e
     | Inr h \<Rightarrow> \<exists>buf'. h = [Some buf'] \<and> length buf' = length buf"
proof (cases "decode_to es (sl_length s)")
  case (Inl e)
  then show ?thesis using assms(2) by (auto simp: decode_to_def split: if_splits)
next
  case (Inr bs)
  have len: "length bs \<le> unat (sl_length s)"
    using Inr by (auto simp: decode_to_def symbol_bytes_def word_le_nat_alt dest: read_bytes_take split: if_splits)
  have "\<exists>buf'. heap_store [Some buf] (sl_data s) bs = Inr [Some buf'] \<and> length buf' = length buf"
  proof (cases "bs = []")
    case True
    then show ?thesis by (simp add: heap_store_def)
  next
    case False
    with len assms(1) obtain off where "sl_data s = Some (0, off)" "off + unat (sl_length s) \<le> length buf"
      by (auto simp: slot_ok_def)
    with False len show ?thesis by (simp add: heap_store_def heap_at_def write_bytes_def)
  qed
  then show ?thesis using assms(2) Inr by auto
qed

text \<open>The digest of a typed file is computed of its buffer.\<close>

lemma typed_digest:
  assumes "file_typed f" and "md5_agrees md5 f = Inl (Undefined w)"
    shows "\<exists>expected. base64_decode (content_md5 (fl_meta f)) False = Inr expected \<and> length expected < 15"
proof -
  have "\<exists>bs. buffer_bytes f (unat (file_length f)) = Inr bs"
    using assms(1) by (auto simp: file_typed_def buffer_bytes_def file_length_def heap_at_def read_bytes_def)
  then show ?thesis
    using assms(2)
    by (auto simp: md5_agrees_def rbind_eq_Inl_iff digest_matches_def read_bytes_def split: if_splits dest: base64_decode_error)
qed

text \<open>What may go wrong: reading the symbol, or reading a decoded Content-MD5 that is too short.\<close>

definition short_digest :: "file_entry \<Rightarrow> bool" where
  "short_digest e \<longleftrightarrow> (\<exists>expected. base64_decode (content_md5 e) False = Inr expected \<and> length expected < 15)"

lemma check_completion_typed:
  assumes "file_typed f" and "check_file_completion md5 f = (res, f')"
  shows "file_typed f' \<and> fl_meta f' = fl_meta f \<and> (\<forall>w. res = Inl (Undefined w) \<longrightarrow> short_digest (fl_meta f))"
proof -
  define f1 where "f1 = f\<lparr>fl_complete := list_all (\<lambda>(_, b). sb_complete b) (fl_source_blocks f)\<rparr>"
  have f1: "file_typed f1" "fl_meta f1 = fl_meta f" using assms(1) by (simp_all add: f1_def)
  have verified: "file_typed f' \<and> fl_meta f' = fl_meta f \<and> (\<forall>w. res = Inl (Undefined w) \<longrightarrow> short_digest (fl_meta f))"
    if "verify_md5 md5 f1 = (res, f')"
    using that f1 typed_digest [OF f1(1)] reset_typed [OF f1(1)]
    by (auto simp: verify_md5_def short_digest_def split: sum.splits bool.splits) (simp_all add: reset_blocks_def)
  show ?thesis using assms(2) verified f1
    by (auto simp: check_file_completion_def f1_def [symmetric] Let_def split: if_splits)
qed

lemma put_symbol_typed:
  assumes "file_typed f" and "put_symbol md5 s f = (res, f')"
  shows "file_typed f' \<and> fl_meta f' = fl_meta f \<and>
    (\<forall>w. res = Inl (Undefined w) \<longrightarrow> symbol_bytes s = Inl (Undefined w) \<or> short_digest (fl_meta f))"
proof -
  let ?n = "tlen (fl_oti f)"
  let ?sbn = "ucast (es_source_block_number s) :: u16" and ?esi = "ucast (es_id s) :: u16"
  obtain buf where f: "\<not> fl_been_decoded f" "fl_buffer f = Some 0" "fl_heap f = [Some buf]" "length buf = ?n"
    "blocks_ok ?n (fl_source_blocks f)" "fl_own_buffer f"
    using assms(1) by (auto simp: file_typed_def)
  obtain block blocks1 where block: "om_index ?sbn empty_block (fl_source_blocks f) = (block, blocks1)" by fastforce
  obtain slot syms where slot: "om_index ?esi null_slot (sb_symbols block) = (slot, syms)" by fastforce
  note block_ok = blocks_ok_index [OF block f(5)]
  note slot_typed = slots_ok_index [OF slot conjunct1 [OF block_ok]]
  define g where "g b h = f\<lparr>fl_source_blocks := om_set ?sbn b blocks1, fl_heap := h\<rparr>" for b h
  have g: "file_typed (g b [Some buf'])" if "slots_ok ?n (sb_symbols b)" "length buf' = ?n" for b buf'
    using f that block_ok by (simp add: g_def file_typed_def blocks_ok_set)
  have f1: "file_typed (f\<lparr>fl_source_blocks := blocks1\<rparr>)" using f block_ok by (simp add: file_typed_def)
  have f2: "f\<lparr>fl_source_blocks := om_set ?sbn (block\<lparr>sb_symbols := syms\<rparr>) blocks1\<rparr> = g (block\<lparr>sb_symbols := syms\<rparr>) [Some buf]"
    by (simp add: g_def f(3) [symmetric])
  have g2: "file_typed (g (block\<lparr>sb_symbols := syms\<rparr>) [Some buf])" using g slot_typed f(4) by simp
  have meta: "fl_meta (g b h) = fl_meta f" for b h by (simp add: g_def)
  define r where "r = rbind (decode_to s (sl_length slot)) (heap_store (fl_heap f) (sl_data slot))"
  consider (block_high) "unat (es_source_block_number s) > length (fl_source_blocks f)"
    | (symbol_high) "\<not> unat (es_source_block_number s) > length (fl_source_blocks f)" "unat (es_id s) > length (sb_symbols block)"
    | (twice) "\<not> unat (es_source_block_number s) > length (fl_source_blocks f)" "\<not> unat (es_id s) > length (sb_symbols block)" "sl_complete slot"
    | (store) "\<not> unat (es_source_block_number s) > length (fl_source_blocks f)" "\<not> unat (es_id s) > length (sb_symbols block)" "\<not> sl_complete slot"
    by blast
  then show ?thesis
  proof cases
    case block_high
    then show ?thesis using assms by (auto simp: put_symbol_def)
  next
    case symbol_high
    then show ?thesis using assms(2) f1 by (auto simp: put_symbol_def block)
  next
    case twice
    then show ?thesis using assms(2) g2 meta by (auto simp: put_symbol_def Let_def block slot f2)
  next
    case store
    show ?thesis
    proof (cases r)
      case (Inl e)
      then have "symbol_bytes s = Inl e" using typed_store [of buf slot s r] slot_typed f(3,4) by (simp add: r_def)
      then show ?thesis using assms(2) store Inl g2 meta by (auto simp: put_symbol_def Let_def block slot f2 r_def)
    next
      case (Inr h)
      then obtain buf' where h: "h = [Some buf']" "length buf' = ?n"
        using typed_store [of buf slot s r] slot_typed f(3,4) by (auto simp: r_def)
      let ?b = "check_source_block_completion (block\<lparr>sb_symbols := om_set ?esi (slot\<lparr>sl_complete := True\<rparr>) syms\<rparr>)"
      have "file_typed (g ?b h)" using slot_typed h by (simp add: g slots_ok_set)
      moreover have "check_file_completion md5 (g ?b h) = (res, f')"
        using assms(2) store Inr by (auto simp: put_symbol_def Let_def block slot r_def g_def)
      ultimately show ?thesis using check_completion_typed [of "g ?b h" md5 res f'] meta by auto
    qed
  qed
qed

text \<open>The entry of a file is the same after a symbol, whatever the file.\<close>

lemma check_completion_meta: "fl_meta (snd (check_file_completion md5 f)) = fl_meta f"
  by (simp add: check_file_completion_def Let_def verify_md5_def reset_blocks_def split: sum.split bool.split)

lemma put_symbol_meta: "fl_meta (snd (put_symbol md5 s f)) = fl_meta f"
  by (simp add: put_symbol_def Let_def check_completion_meta split: sum.split prod.split)

section \<open>Files of the receiver\<close>

definition files_all :: "(flute_file \<Rightarrow> bool) \<Rightarrow> receiver \<Rightarrow> bool" where
  "files_all good r \<longleftrightarrow> (\<forall>x \<in> set (rc_files r). good (snd x))"

lemma files_all_get: "files_all good r \<Longrightarrow> om_get (rc_files r) toi = Some f \<Longrightarrow> good f"
  using om_get_in_set by (fastforce simp: files_all_def)

lemma files_all_fields [simp]:
  "files_all good (r\<lparr>rc_fdt := t\<rparr>) = files_all good r" "files_all good (r\<lparr>rc_armed := b\<rparr>) = files_all good r"
  "files_all good (r\<lparr>rc_callback := b\<rparr>) = files_all good r" "files_all good (r\<lparr>rc_running := b\<rparr>) = files_all good r"
  "files_all good (receive_datagram d r) = files_all good r"
  by (simp_all add: files_all_def receive_datagram_def)

lemma files_all_fewer: "files_all good r \<Longrightarrow> set (rc_files r') \<subseteq> set (rc_files r) \<Longrightarrow> files_all good r'"
  by (auto simp: files_all_def)

lemma files_all_erase:
  "files_all good r \<Longrightarrow> files_all good (r\<lparr>rc_files := om_erase_if p (rc_files r)\<rparr>)"
  "files_all good r \<Longrightarrow> files_all good (r\<lparr>rc_fdt := t, rc_files := om_erase k (rc_files r)\<rparr>)"
  "files_all good r \<Longrightarrow> files_all good (deliver toi f r)"
  by (rule files_all_fewer; auto simp: om_erase_if_def om_erase_def deliver_def)+

lemma files_all_set: "files_all good r \<Longrightarrow> good f \<Longrightarrow> files_all good (set_file toi f r)"
  using set_om_set [of toi f "rc_files r"] by (auto simp: files_all_def set_file_def)

text \<open>A property of files that creating, storing and decoding keep holds of the files of every reachable
  receiver.\<close>

locale file_property =
  fixes env :: "'z env" and good :: "flute_file \<Rightarrow> bool"
  assumes good_created: "file_of_entry (env_malloc env) now e = Some (Inr f) \<Longrightarrow> good f"
    and good_put: "good f \<Longrightarrow> good (snd (put_symbol (env_md5 env) s f))"
    and good_decoded: "good f \<Longrightarrow> decode (env_zlib env) (env_md5 env) f = Some (res, f') \<Longrightarrow> good f'"
begin

lemma good_start:
  assumes "start_file env now toi e r = Some (res, r')" and "files_all good r"
  shows "files_all good r'"
proof (cases "r' = r")
  case False
  then obtain f where "om_get (rc_files r) toi = None" "file_of_entry (env_malloc env) now e = Some (Inr f)" "r' = set_file toi f r"
    using assms(1) by (auto simp: start_file_def set_file_def om_insert_def split: option.splits sum.splits)
  then show ?thesis using good_created files_all_set assms(2) by simp
qed (use assms(2) in simp)

lemma good_start_files: "start_files env now es r = Some (res, r') \<Longrightarrow> files_all good r \<Longrightarrow> files_all good r'"
proof (induction es arbitrary: r)
  case (Cons e es)
  from Cons.prems(1) show ?case
    unfolding start_files.simps by (rule bind_outcome_inv) (auto intro: good_start Cons)
qed simp

lemma good_install:
  assumes "install_fdt env now alc f r = Some (res, r')" and "files_all good r"
  shows "files_all good r'"
proof (cases "r' = r")
  case False
  then obtain t where "start_files env now (fdt_file_entries t) (r\<lparr>rc_fdt := Some t, rc_files := om_erase 0 (rc_files r)\<rparr>) = Some (res, r')"
    using assms(1) by (auto simp: install_fdt_def split: sum.splits)
  then show ?thesis by (rule good_start_files) (rule files_all_erase(2) [OF assms(2)])
qed (use assms(2) in simp)

lemma good_finish:
  assumes "finish_file env now alc f r = Some (res, r')" and "files_all good r" and "good f"
  shows "files_all good r'"
proof -
  let ?toi = "alc_toi alc"
  have "files_all good (replace_files ?toi f r)" using assms(2) by (simp add: replace_files_def files_all_erase)
  then have all: "files_all good (set_file ?toi f' (replace_files ?toi f r))" if "good f'" for f'
    using that by (rule files_all_set)
  obtain d f' where d: "decode (env_zlib env) (env_md5 env) f = Some (d, f')"
    using assms(1) by (auto simp: finish_file_def Let_def split: option.splits)
  note r2 = all [OF good_decoded [OF assms(3) d]]
  show ?thesis
  proof (cases d)
    case (Inl e)
    then show ?thesis using assms(1) d r2 by (simp add: finish_file_def Let_def)
  next
    case (Inr u)
    then show ?thesis using assms(1) d files_all_erase(3) [OF r2] good_install
      by (auto simp: finish_file_def Let_def split: if_splits)
  qed
qed

lemma good_object:
  assumes "receive_object env now alc n r = Some (res, r')" and "files_all good r"
  shows "files_all good r'"
  using assms(1) unfolding receive_object_def
proof (rule bind_outcome_inv)
  fix res1 r1
  assume "start_fdt_object env now alc r = Some (res1, r1)"
  with assms(2) show "files_all good r1" by (auto simp: start_fdt_object_def split: if_splits dest: good_start)
next
  fix r1
  assume r1: "files_all good r1" and "(case om_get (rc_files r1) (alc_toi alc) of
       None \<Rightarrow> Some (Inr (), r1)
     | Some f \<Rightarrow>
         if fl_complete f then Some (Inr (), r1)
         else case payload_symbols_of r1 alc n f of
                Inl e \<Rightarrow> Some (Inl e, r1)
              | Inr symbols \<Rightarrow>
                  (case for_each (put_symbol (env_md5 env)) symbols f of
                     (Inl e, f') \<Rightarrow> Some (Inl e, set_file (alc_toi alc) f' r1)
                   | (Inr _, f') \<Rightarrow>
                       let r' = set_file (alc_toi alc) f' r1
                       in if fl_complete f' then finish_file env now alc f' r' else Some (Inr (), r'))) =
     Some (res, r')"
  then have "r' = r1 \<or> (\<exists>f symbols. om_get (rc_files r1) (alc_toi alc) = Some f \<and>
      (let f' = snd (for_each (put_symbol (env_md5 env)) symbols f); r2 = set_file (alc_toi alc) f' r1
       in r' = r2 \<or> finish_file env now alc f' r2 = Some (res, r')))"
    by (simp add: Let_def split: option.splits if_splits sum.splits prod.splits; metis snd_conv)
  moreover have "good (snd (for_each (put_symbol (env_md5 env)) symbols f))" if "om_get (rc_files r1) (alc_toi alc) = Some f" for symbols f
    by (rule for_each_invariant [where P = good]) (use good_put files_all_get [OF r1 that] in auto)
  ultimately show "files_all good r'"
    using r1 files_all_set [OF r1, of _ "alc_toi alc"] good_finish by (auto simp: Let_def)
qed

lemma good_handle:
  assumes "handle_receive_from env now d r = Some (res, r')" and "files_all good r"
  shows "files_all good r'"
proof -
  have "files_all good r2" if "process_packet env now n (receive_datagram d r) = Some (res', r2)" for d n res' r2
    using that assms(2) by (auto simp: process_packet_def split: option.splits sum.splits if_splits elim: good_object)
  with assms show ?thesis
    by (auto simp: handle_receive_from_def Let_def split: option.splits if_splits sum.splits prod.splits)
qed

lemma good_event: "rc_event env r r' \<Longrightarrow> files_all good r \<Longrightarrow> files_all good r'"
  by (induction rule: rc_event.cases)
    (auto intro: good_handle files_all_erase simp: remove_expired_files_def remove_file_with_content_location_def
      register_completion_callback_def receiver_stop_def)

end

sublocale file_property \<subseteq> inductive_invariant rc_init "rc_event env" "files_all good"
proof unfold_locales
  show "files_all good r" if "rc_init r" for r
    using that by (auto simp: rc_init.simps receiver_new_def files_all_def)
qed (use good_event in blast)

text \<open>The destructor frees the one allocation.\<close>

lemma typed_destroy: "file_typed f \<Longrightarrow> heap_at (fl_heap (file_destroy f)) i = None"
  by (auto simp: file_typed_def file_destroy_def heap_at_def heap_free_def)

text \<open>The property of the receiver's files: a file without a content encoding is typed.\<close>

definition plain_typed :: "'z env \<Rightarrow> flute_file \<Rightarrow> bool" where
  "plain_typed env f \<longleftrightarrow> (malloc_sizes env \<and> fe_content_encoding (fl_meta f) = [] \<longrightarrow> file_typed f)"

lemma decode_coding: "decode z md5 f = Some (res, f') \<Longrightarrow> fe_content_encoding (fl_meta f') = fe_content_encoding (fl_meta f)"
  by (auto simp: decode_def Let_def verify_md5_def reset_blocks_def split: if_splits option.splits prod.splits sum.splits bool.splits)

interpretation rcm: file_property env "plain_typed env" for env :: "'z env"
proof unfold_locales
  show "plain_typed env f" if "file_of_entry (env_malloc env) now e = Some (Inr f)" for now e f
    using file_of_entry_typed [OF _ that] by (simp add: plain_typed_def)
  show "plain_typed env (snd (put_symbol (env_md5 env) s f))" if "plain_typed env f" for f s
    using that put_symbol_typed [of f "env_md5 env" s "fst (put_symbol (env_md5 env) s f)" "snd (put_symbol (env_md5 env) s f)"]
    by (simp add: plain_typed_def put_symbol_meta)
  show "plain_typed env f'" if "plain_typed env f" "decode (env_zlib env) (env_md5 env) f = Some (res, f')" for f f' res
  proof (cases "fe_content_encoding (fl_meta f) = []")
    case True
    then have "f' = f" using that(2) by (simp add: decode_plain)
    then show ?thesis using that(1) by simp
  next
    case False
    then show ?thesis using decode_coding [OF that(2)] by (simp add: plain_typed_def)
  qed
qed

text \<open>(C13) In every state the receiver reaches, whatever arrives, a file without a content encoding is well
  typed: it has one allocation of the transfer length, which its destructor frees, and every slot is empty
  or a piece of it. A symbol of the packet buffer that is stored in it leaves it so and is written within it; what can go wrong is
  that the symbol runs over the end of the packet buffer, or that the Content-MD5 of the FDT decodes to fewer than 15
  bytes, which the comparison of the digests then reads beyond.\<close>
theorem receiver_files_typed:
  assumes "reachable rc_init (rc_event env) r" and "malloc_sizes env"
    and "om_get (rc_files r) toi = Some f" and "fe_content_encoding (fl_meta f) = []"
    and "put_symbol (env_md5 env) s f = (res, f')"
  shows "file_typed f \<and> file_typed f' \<and> (\<forall>i. heap_at (fl_heap (file_destroy f)) i = None) \<and>
    (\<forall>w. res = Inl (Undefined w) \<longrightarrow> symbol_bytes s = Inl (Undefined w) \<or> short_digest (fl_meta f))"
proof -
  have "plain_typed env f" using rcm.inv_reachable [OF assms(1)] assms(3) by (rule files_all_get)
  then have "file_typed f" using assms(2,4) by (simp add: plain_typed_def)
  with put_symbol_typed [OF this assms(5)] typed_destroy show ?thesis by blast
qed

text \<open>The file of the example session after the FDT has come.\<close>
theorem receiver_files_typed_witness:
  "\<exists>r f f'. reachable rc_init (rc_event example_env) r \<and> om_get (rc_files r) 1 = Some f \<and> fl_meta f = digest_entry \<and>
     put_symbol (env_md5 example_env) (sym 0 0 [1, 2, 3, 4]) f = (Inr (), f') \<and> file_typed f \<and> file_typed f'"
proof -
  let ?new = "receiver_new (ucast (7 :: u16)) (replicate 2048 0)"
  have "rc_init ?new" by (rule rc_init.intros) (simp add: max_length_def)
  then have init: "reachable rc_init (rc_event example_env) example_receiver"
    using reach_step [of rc_init "rc_event example_env" ?new] by (blast intro: reach_init rc_event.register)
  obtain t where t: "fdt_parse (env_xml_parse example_env) (5 AND 0xFFFFF) [60] = Inr t"
    "fdt_file_entries t = [digest_entry]"
    using example_session(6) example_table(2)
    by (simp add: fdt_parse_def fdt_of_sent_root received_entry_exact)
  have a: "awaiting_fdt example_env 7 5 example_header_oti [60] {} example_receiver"
    by (simp add: awaiting_fdt_def register_completion_callback_def receiver_new_def)
  obtain r where r: "handle_receive_from example_env 0 (Some (built 7 0 example_header_oti [sym 0 0 [60]])) example_receiver =
      Some (Inr (), r)" "session example_env 7 (Some t) example_files [] (\<lambda>_. {}) r"
    using fdt_step [OF example_session(1) example_objects _ t(1) example_ids(1) example_session(7,8) a example_packets(1), of 0]
      example_table(1) t(2)
    by (auto simp: example_received_oti)
  have reach: "reachable rc_init (rc_event example_env) r"
    by (rule reach_step [OF init rc_event.datagram [OF _ r(1)]]) (simp add: register_completion_callback_def receiver_new_def)
  have "\<not> obtained example_files (\<lambda>_. {}) 1" using example_objects by (rule no_symbols_obtained)
  moreover have "example_files 1 = Some (digest_entry, [1, 2, 3, 4, 5, 6, 7, 8, 9, 10])" by (simp add: example_files_iff)
  with r(2) have "object_state example_files (\<lambda>_. {}) (rc_files r) 1 digest_entry [1, 2, 3, 4, 5, 6, 7, 8, 9, 10]"
    unfolding session_def by blast
  ultimately obtain f where f: "om_get (rc_files r) 1 = Some f" "fl_meta f = digest_entry"
    "receiving (fe_fec_oti digest_entry) [1, 2, 3, 4, 5, 6, 7, 8, 9, 10] {} f"
    by (auto simp: object_state_def)
  obtain f' where put: "put_symbol (env_md5 example_env) (sym 0 0 [1, 2, 3, 4]) f = (Inr (), f')"
  proof -
    have ok: "partition_ok (fe_fec_oti digest_entry)" using example_partition(1) by simp
    have len: "length [1, 2, 3, 4, 5, 6, 7, 8, 9, 10 :: byte] = tlen (fe_fec_oti digest_entry)" by (simp add: digest_entry_defs)
    have md5: "md5_ok (env_md5 example_env) [1, 2, 3, 4, 5, 6, 7, 8, 9, 10] (fl_meta f)"
      by (simp add: f(2) example_env_def digest_entry_md5)
    have gen: "genuine (fe_fec_oti digest_entry) [1, 2, 3, 4, 5, 6, 7, 8, 9, 10] (0, 0) (sym 0 0 [1, 2, 3, 4])"
      using example_genuine by simp
    from put_symbol_genuine [OF ok len md5 f(3) gen] show ?thesis using that by blast
  qed
  have sizes: "malloc_sizes example_env" by (simp add: malloc_sizes_def example_env_def)
  have plain: "fe_content_encoding (fl_meta f) = []" by (simp add: f(2) digest_entry_defs)
  from receiver_files_typed [OF reach sizes f(1) plain put] reach f(1,2) put show ?thesis by blast
qed

section \<open>Freed memory\<close>

text \<open>Decoding frees the buffer and leaves the pointers of the slots as they are.\<close>

lemma heap_freed: "heap_at (heap_free i h) i = None"
  by (simp add: heap_at_def heap_free_def)

lemma decode_frees:
  assumes "decode z md5 f = Some (Inr (), g)" and "\<not> fl_been_decoded f" and "fe_content_encoding (fl_meta f) \<noteq> []"
    and "fl_own_buffer f" and "fl_buffer f = Some i"
  shows "heap_at (fl_heap g) i = None \<and>
    (fl_complete g = fl_complete f \<and> fl_source_blocks g = fl_source_blocks f \<or>
     \<not> fl_complete g \<and> fl_source_blocks g = map (\<lambda>(k, b). (k, reset_block b)) (fl_source_blocks f))"
  using assms
  by (auto simp: decode_def Let_def verify_md5_def reset_blocks_def free_old_def heap_freed
      split: if_splits option.splits prod.splits sum.splits bool.splits)

lemma om_get_map: "om_get (map (\<lambda>(k, v). (k, f v)) m) k = map_option f (om_get m k)"
  by (induction m) (auto simp: om_get_def)

lemma put_freed:
  assumes "om_get (fl_source_blocks f) (ucast (es_source_block_number s)) = Some b"
    and "om_get (sb_symbols b) (ucast (es_id s)) = Some slot" and "\<not> sl_complete slot"
    and "sl_data slot = Some (i, off)" and "heap_at (fl_heap f) i = None"
    and "unat (es_source_block_number s) \<le> length (fl_source_blocks f)" and "unat (es_id s) \<le> length (sb_symbols b)"
    and "decode_to s (sl_length slot) = Inr bs" and "bs \<noteq> []"
  shows "fst (put_symbol md5 s f) = Inl (Undefined ''write to freed memory'')"
  using assms by (simp add: put_symbol_def om_index_def heap_store_def Let_def)

text \<open>(C40) A receiver without completion callback keeps a file after it is complete. When a coded file has
  been decoded and its digest is wrong, the file is in the map as incomplete, ready for the symbols of the
  next round; the first such symbol is written to the buffer that decoding has freed.\<close>
theorem decoded_file_use_after_free:
  assumes "holds_stream (env_zlib env) stream data f" and "content_md5 (fl_meta f) = base64_encode digest False"
    and "length digest = 16" and "length (env_md5 env data) = 16" and "env_md5 env data \<noteq> digest"
    and "alc_toi alc \<noteq> 0" and "\<not> rc_callback r" and "om_ok (rc_files r)"
    and "fl_complete f" and "fl_own_buffer f" and "fl_buffer f = Some i"
    and "om_get (fl_source_blocks f) (ucast (es_source_block_number s)) = Some b"
    and "om_get (sb_symbols b) (ucast (es_id s)) = Some slot" and "sl_data slot = Some (i, off)"
    and "unat (es_source_block_number s) \<le> length (fl_source_blocks f)" and "unat (es_id s) \<le> length (sb_symbols b)"
    and "decode_to s (sl_length slot) = Inr bs" and "bs \<noteq> []"
  shows "\<exists>r' g. finish_file env now alc f r = Some (Inr (), r') \<and> om_get (rc_files r') (alc_toi alc) = Some g \<and>
    \<not> fl_complete g \<and> fst (put_symbol (env_md5 env) s g) = Inl (Undefined ''write to freed memory'')"
proof -
  obtain g0 where g0: "decode (env_zlib env) (env_md5 env) f = Some (Inr (), reset_blocks g0)"
    by (rule decode_wrong_digest [of _ stream data _ digest "env_md5 env", OF assms(1-5)])
  define g where "g = reset_blocks g0"
  have incomplete: "\<not> fl_complete g" by (simp add: g_def reset_blocks_def)
  have coded: "\<not> fl_been_decoded f" "fe_content_encoding (fl_meta f) \<noteq> []" using assms(1) by (auto simp: holds_stream_def)
  from decode_frees [OF g0 [folded g_def] coded assms(10,11)] incomplete assms(9)
  have g: "heap_at (fl_heap g) i = None" "fl_source_blocks g = map (\<lambda>(k, b). (k, reset_block b)) (fl_source_blocks f)" by auto
  have "fst (put_symbol (env_md5 env) s g) = Inl (Undefined ''write to freed memory'')"
    by (rule put_freed [of _ _ "reset_block b" "slot\<lparr>sl_complete := False\<rparr>" i off])
      (use assms g in \<open>auto simp: om_get_map reset_block_def\<close>)
  moreover have "\<exists>r'. finish_file env now alc f r = Some (Inr (), r') \<and> om_get (rc_files r') (alc_toi alc) = Some g"
    using g0 assms(6-8) by (simp add: finish_file_def Let_def deliver_def set_file_def replace_files_def g_def om_get_set om_ok_erase_if)
  ultimately show ?thesis using incomplete by blast
qed

text \<open>A file of one symbol that has come: the gzip stream of the codec of the examples, with the digest of other contents.\<close>

definition mismatched_file :: flute_file where
  "mismatched_file =
     (file_with (set_transfer_length 4 (gzip_entry\<lparr>content_md5 := base64_encode (replicate 16 9) False\<rparr>)) True [31, 1, 2, 3] 0 None)
       \<lparr>fl_complete := True, fl_source_blocks := [(0, \<lparr>sb_complete = True,
          sb_symbols = [(0, \<lparr>sl_data = Some (0, 0), sl_length = 4, sl_complete = True, sl_queued = False\<rparr>)]\<rparr>)]\<rparr>"

theorem decoded_file_use_after_free_witness:
  "\<exists>r' g. finish_file gzip_env 0 gzip_packet mismatched_file (gzip_receiver\<lparr>rc_callback := False\<rparr>) = Some (Inr (), r') \<and>
     om_get (rc_files r') 1 = Some g \<and>
     fst (put_symbol (env_md5 gzip_env) (sym 0 0 [31, 1, 2, 3]) g) = Inl (Undefined ''write to freed memory'')"
proof -
  let ?m = "fl_meta mismatched_file"
  have m: "content_md5 ?m = base64_encode (replicate 16 9) False" "fe_content_encoding ?m = ''gzip''"
    "transfer_length (fe_fec_oti ?m) = 4" "content_length ?m = 3"
    by (simp_all add: mismatched_file_def file_with_def set_transfer_length_def gzip_entry_def)
  have "inflates example_codec (inflate_init example_codec 31 (31 # [1, 2, 3])) [1, 2, 3]"
    using gzip_codecD(4) [OF example_gzip, of "[1, 2, 3]"] by (simp add: example_gz_short)
  then have stream: "holds_stream (env_zlib gzip_env) (31 # [1, 2, 3]) [1, 2, 3] mismatched_file"
    using m by (simp add: holds_stream_def window_bits_def gzip_env_def)
      (simp add: mismatched_file_def file_with_def buffer_bytes_def heap_at_def read_bytes_def)
  have ne: "env_md5 gzip_env [1, 2, 3] \<noteq> replicate 16 9" "length (replicate 16 9 :: byte list) = 16" "length (env_md5 gzip_env [1, 2, 3]) = 16"
    by (simp_all add: gzip_env_def)
  let ?slot = "\<lparr>sl_data = Some (0, 0), sl_length = 4, sl_complete = True, sl_queued = False\<rparr>" and ?s = "sym 0 0 [31, 1, 2, 3]"
  let ?b = "\<lparr>sb_complete = True, sb_symbols = [(0, ?slot)]\<rparr>" and ?r = "gzip_receiver\<lparr>rc_callback := False\<rparr>"
  have f: "fl_complete mismatched_file" "fl_own_buffer mismatched_file" "fl_buffer mismatched_file = Some 0"
    "fl_source_blocks mismatched_file = [(0, ?b)]"
    by (simp_all add: mismatched_file_def file_with_def)
  have r: "alc_toi gzip_packet \<noteq> 0" "\<not> rc_callback ?r" "om_ok (rc_files ?r)" "alc_toi gzip_packet = 1"
    by (simp_all add: gzip_packet_def gzip_receiver_def om_ok_def om_keys_def)
  have s: "om_get (fl_source_blocks mismatched_file) (ucast (es_source_block_number ?s)) = Some ?b"
    "om_get (sb_symbols ?b) (ucast (es_id ?s)) = Some ?slot" "sl_data ?slot = Some (0, 0)"
    "unat (es_source_block_number ?s) \<le> length (fl_source_blocks mismatched_file)" "unat (es_id ?s) \<le> length (sb_symbols ?b)"
    "decode_to ?s (sl_length ?slot) = Inr [31, 1, 2, 3]" "[31, 1, 2, 3 :: byte] \<noteq> []"
    by (simp_all add: f(4) sym_def decode_to_def symbol_bytes_def read_bytes_def)
  from decoded_file_use_after_free [OF stream m(1) ne(2,3,1) r(1-3) f(1-3) s, of 0] show ?thesis unfolding r(4) by blast
qed

end
