(* ===== verification/Udp_Tunnel.thy ===== *)
theory Udp_Tunnel
  imports Flute_Prelude
begin

text \<open>
  The tunnel of \<^verbatim>\<open>src/Transmitter.cpp\<close>: IP and UDP headers the transmitter writes in front of a packet,
  and their checksum. The memory is a byte list; the UDP pseudo header is written in front of the UDP
  header, where the IP header comes afterwards.
\<close>

section \<open>The checksum\<close>

text \<open>The loop over the 16-bit words; \<^verbatim>\<open>ntohs\<close> of a load. An odd byte counts as the upper half.\<close>

fun sum_words :: "byte list \<Rightarrow> u32 \<Rightarrow> u32" where
  "sum_words (a # b # bs) cksum = sum_words bs (cksum + ucast (be16_dec [a, b]))"
| "sum_words [a] cksum = cksum + push_bit 8 (ucast a)"
| "sum_words [] cksum = cksum"

lemma unat_drop16: "unat (drop_bit 16 (c :: u32)) = unat c div 65536"
  using u32_bound [of c] by (simp add: unsigned_drop_bit_eq drop_bit_nat_def take_bit_nat_def)

lemma unat_fold_step:
  "unat ((c AND 0xFFFF) + drop_bit 16 (c :: u32)) = unat c mod 65536 + unat c div 65536"
proof -
  have l: "unat (c AND 0xFFFF) = unat c mod 65536"
  proof -
    have "c AND 0xFFFF = take_bit 16 c" by (simp add: take_bit_eq_mask mask_numeral)
    then show ?thesis by (simp only: unsigned_take_bit_eq) (simp add: take_bit_nat_def)
  qed
  have h: "unat (drop_bit 16 c) = unat c div 65536" by (rule unat_drop16)
  have "unat c div 65536 < 65536" using u32_bound [of c] by (simp add: less_mult_imp_div_less)
  then show ?thesis using l h by (simp add: unat_word_ariths(1))
qed

function fold_carries :: "u32 \<Rightarrow> u32" where
  "fold_carries cksum =
     (if drop_bit 16 cksum \<noteq> 0 then fold_carries ((cksum AND 0xFFFF) + drop_bit 16 cksum) else cksum)"
  by auto
termination
proof (relation "measure unat")
  fix c :: u32
  assume "drop_bit 16 c \<noteq> 0"
  then have "unat (drop_bit 16 c) \<noteq> 0" by (simp add: unat_eq_0)
  then have "0 < unat c div 65536" by (simp add: unat_drop16)
  moreover have "unat c = unat c mod 65536 + unat c div 65536 * 65536" by simp
  ultimately show "(((c AND 0xFFFF) + drop_bit 16 c), c) \<in> measure unat"
    unfolding in_measure unat_fold_step by linarith
qed simp

declare fold_carries.simps [simp del]

definition calculate_sum :: "byte list \<Rightarrow> byte list" where
  "calculate_sum buffer = be16_enc (ucast (NOT (fold_carries (sum_words buffer 0))))"

section \<open>The headers\<close>

text \<open>An IPv4 endpoint: its address and port. The protocol number of UDP is 17.\<close>

record endpoint =
  ep_address :: u32
  ep_port :: u16

definition udp_protocol :: byte where
  "udp_protocol = 17"

definition pseudo_header :: "u32 \<Rightarrow> u32 \<Rightarrow> u16 \<Rightarrow> byte list" where
  "pseudo_header source dest len =
     be32_enc source @ be32_enc dest @ [0, udp_protocol] @ be16_enc len"

definition udp_header :: "u16 \<Rightarrow> u16 \<Rightarrow> byte list \<Rightarrow> byte list" where
  "udp_header port len check = be16_enc port @ be16_enc port @ be16_enc len @ check"

text \<open>\<open>udp_buffer\<close> is an offset into \<open>mem\<close>; the pseudo header has 12 bytes, the UDP header 8.\<close>

definition create_udp_pkt :: "byte list \<Rightarrow> nat \<Rightarrow> endpoint \<Rightarrow> byte list \<Rightarrow> u32 \<Rightarrow> byte list result" where
  "create_udp_pkt mem udp_buffer endpoint data local_address =
     (let len = of_nat (length data + 8) :: u16 in
      if udp_buffer < 12 then Inl (Undefined ''write'')
      else
        rbind (write_bytes mem (udp_buffer - 12) (pseudo_header local_address (ep_address endpoint) len)) (\<lambda>mem.
        rbind (write_bytes mem udp_buffer (udp_header (ep_port endpoint) len [0, 0])) (\<lambda>mem.
        rbind (write_bytes mem (udp_buffer + 8) data) (\<lambda>mem.
        rbind (read_bytes mem (udp_buffer - 12) (length data + 8 + 12)) (\<lambda>bs.
        write_bytes mem (udp_buffer + 6) (calculate_sum bs))))))"

definition ip_header :: "u16 \<Rightarrow> u32 \<Rightarrow> u32 \<Rightarrow> byte list \<Rightarrow> byte list" where
  "ip_header tot_len source dest check =
     [0x45, 0] @ be16_enc tot_len @ be16_enc 0 @ be16_enc 0 @ [63, udp_protocol] @ check @
     be32_enc source @ be32_enc dest"

definition create_ip_hdr :: "byte list \<Rightarrow> nat \<Rightarrow> endpoint \<Rightarrow> nat \<Rightarrow> u32 \<Rightarrow> byte list result" where
  "create_ip_hdr mem ip_buffer endpoint pkt_size local_address =
     rbind (write_bytes mem ip_buffer (ip_header (of_nat pkt_size) local_address (ep_address endpoint) [0, 0])) (\<lambda>mem.
     rbind (read_bytes mem ip_buffer 20) (\<lambda>bs.
     write_bytes mem (ip_buffer + 10) (calculate_sum bs)))"

text \<open>The datagram to the tunnel: \<open>uninit\<close> is what the new buffer holds.\<close>

definition tunnel_datagram :: "byte list \<Rightarrow> endpoint \<Rightarrow> byte list \<Rightarrow> u32 \<Rightarrow> byte list result" where
  "tunnel_datagram uninit endpoint data local_address =
     rbind (create_udp_pkt uninit 20 endpoint data local_address) (\<lambda>mem.
     create_ip_hdr mem 0 endpoint (length data + 20 + 8) local_address)"

section \<open>The sum as a natural number\<close>

fun word_sum :: "byte list \<Rightarrow> nat" where
  "word_sum (a # b # bs) = unat a * 256 + unat b + word_sum bs"
| "word_sum [a] = unat a * 256"
| "word_sum [] = 0"

lemma unat_be16_dec: "unat (be16_dec [a, b]) = unat a * 256 + unat b"
proof -
  have a: "unat (push_bit 8 (ucast a :: u16)) = unat a * 256"
    using unat_bound [of a]
    by (simp add: push_bit_eq_mult unat_word_ariths(2) unsigned_ucast_eq take_bit_nat_eq_self)
  have "(push_bit 8 (ucast a) :: u16) AND ucast b = 0"
    by (rule bit_word_eqI) (auto simp: bit_simps dest: bit_imp_le_length)
  then have "be16_dec [a, b] = push_bit 8 (ucast a) + ucast b"
    by (simp add: be16_dec_def disjunctive_add_eq_or)
  moreover have "unat (ucast b :: u16) = unat b" by (rule unat_ucast_le) simp
  ultimately show ?thesis
    using a unat_bound [of a] unat_bound [of b] by (simp add: unat_word_ariths(1))
qed

lemma word_sum_append: "even (length xs) \<Longrightarrow> word_sum (xs @ ys) = word_sum xs + word_sum ys"
  by (induction xs rule: word_sum.induct) auto

lemma word_sum_be16 [simp]: "word_sum (be16_enc w) = unat w"
  using unat_be16_dec [of "ucast (drop_bit 8 w)" "ucast w"] be16_dec_enc [of w]
  by (simp add: be16_enc_def)

lemma word_sum_bound: "word_sum bs \<le> 65535 * length bs"
proof (induction bs rule: word_sum.induct)
  case (1 a b bs)
  then show ?case using unat_bound [of a] unat_bound [of b] by simp
next
  case (2 a)
  then show ?case using unat_bound [of a] by simp
qed simp

lemma sum_words_nat: "unat c + word_sum bs < 2 ^ 32 \<Longrightarrow> unat (sum_words bs c) = unat c + word_sum bs"
proof (induction bs c rule: sum_words.induct)
  case (1 a b bs c)
  have "unat (c + ucast (be16_dec [a, b])) = unat c + (unat a * 256 + unat b)"
    using 1(2) by (simp add: unat_word_ariths(1) unat_be16_dec)
  with 1 show ?case by simp
next
  case (2 a c)
  have "unat (push_bit 8 (ucast a :: u32)) = unat a * 256"
    using unat_bound [of a] by (simp add: push_bit_eq_mult unat_word_ariths(2))
  with 2 show ?case by (simp add: unat_word_ariths(1))
qed simp

text \<open>Folding keeps the value modulo 65535 and keeps it from becoming 0.\<close>

lemma fold_carries_spec:
  "unat (fold_carries c) < 65536 \<and> unat (fold_carries c) mod 65535 = unat c mod 65535 \<and>
     (unat (fold_carries c) = 0 \<longleftrightarrow> unat c = 0)"
proof (induction c rule: fold_carries.induct)
  case (1 c)
  show ?case
  proof (cases "drop_bit 16 c = 0")
    case True
    then have "unat c div 65536 = 0" by (metis unat_0 unat_drop16)
    with True show ?thesis by (simp add: fold_carries.simps)
  next
    case False
    let ?d = "(c AND 0xFFFF) + drop_bit 16 c"
    have d: "unat ?d = unat c mod 65536 + unat c div 65536" by (rule unat_fold_step)
    have "unat c = unat c mod 65536 + unat c div 65536 + unat c div 65536 * 65535" by simp
    then have "unat ?d mod 65535 = unat c mod 65535" unfolding d by (metis mod_mult_self1)
    moreover have "unat ?d = 0 \<longleftrightarrow> unat c = 0" unfolding d by (auto simp: mod_eq_0_iff_dvd) 
    ultimately show ?thesis
      using 1 [OF False] False by (simp add: fold_carries.simps [of c])
  qed
qed

section \<open>Valid headers\<close>

text \<open>What the receiver of a header checks: the one's complement sum with the checksum is all ones.\<close>

definition checksum_valid :: "byte list \<Rightarrow> bool" where
  "checksum_valid bs \<longleftrightarrow> fold_carries (sum_words bs 0) = 0xFFFF"

lemma calculate_sum_length [simp]: "length (calculate_sum bs) = 2"
  by (simp add: calculate_sum_def)

lemma mod_65535_zero: "n < 65536 \<Longrightarrow> n mod 65535 = 0 \<Longrightarrow> n \<noteq> 0 \<Longrightarrow> n = (65535 :: nat)"
  by (cases "n < 65535") simp_all

lemma calculate_sum_valid:
  assumes "even (length pre)" and "length pre + 2 + length post \<le> 65536"
  shows "checksum_valid (pre @ calculate_sum (pre @ [0, 0] @ post) @ post)"
proof -
  let ?s = "word_sum pre + word_sum post" and ?bs = "pre @ [0, 0] @ post"
  let ?f = "fold_carries (sum_words ?bs 0)"
  have bound: "?s + 65535 < 2 ^ 32"
    using word_sum_bound [of pre] word_sum_bound [of post] assms(2) by simp
  have zero: "word_sum ?bs = ?s" using assms(1) by (simp add: word_sum_append)
  with bound have sum: "unat (sum_words ?bs 0) = ?s" by (simp add: sum_words_nat)
  have f: "unat ?f < 65536" "unat ?f mod 65535 = ?s mod 65535" "unat ?f = 0 \<longleftrightarrow> ?s = 0"
    using fold_carries_spec [of "sum_words ?bs 0"] sum by simp_all
  have neg: "unat (ucast (NOT ?f) :: u16) = 65535 - unat ?f"
  proof -
    have "ucast (NOT ?f) = (NOT (ucast ?f) :: u16)" by (rule bit_word_eqI) (auto simp: bit_simps)
    moreover have "unat (ucast ?f :: u16) = unat ?f" by (rule unat_ucast_small) (use f(1) in simp)
    moreover have "unat (NOT w) = 65535 - unat w" for w :: u16
    proof -
      have "NOT w = - 1 - w" by (simp add: not_eq_complement)
      moreover have "unat (- 1 :: u16) = 65535" by (simp add: unsigned_minus_1_eq_mask mask_eq_exp_minus_1)
      ultimately show ?thesis using unat_sub [of w "- 1"] by simp
    qed
    ultimately show ?thesis by simp
  qed
  have calc: "word_sum (calculate_sum ?bs) = 65535 - unat ?f"
    by (simp only: calculate_sum_def word_sum_be16 neg)
  have "word_sum (pre @ cs @ post) = ?s + word_sum cs" if "length cs = 2" for cs
    using assms(1) that by (simp add: word_sum_append)
  from this [of "calculate_sum ?bs"] have "word_sum (pre @ calculate_sum ?bs @ post) = ?s + (65535 - unat ?f)"
    unfolding calc by simp
  then have total: "unat (sum_words (pre @ calculate_sum ?bs @ post) 0) = ?s + (65535 - unat ?f)"
    using bound by (simp add: sum_words_nat)
  let ?g = "fold_carries (sum_words (pre @ calculate_sum ?bs @ post) 0)"
  have g: "unat ?g < 65536" "unat ?g mod 65535 = (?s + (65535 - unat ?f)) mod 65535" "unat ?g \<noteq> 0"
    using fold_carries_spec [of "sum_words (pre @ calculate_sum ?bs @ post) 0"] total f by auto
  have "(?s + (65535 - unat ?f)) mod 65535 = (unat ?f + (65535 - unat ?f)) mod 65535"
    by (rule mod_add_cong [OF f(2) [symmetric] refl])
  also have "unat ?f + (65535 - unat ?f) = 65535" using f(1) by simp
  finally have "unat ?g mod 65535 = 0" unfolding g(2) by simp
  then have "unat ?g = 65535" using g(1,3) by (intro mod_65535_zero)
  then show ?thesis by (simp add: checksum_valid_def word_unat_eq_iff)
qed

section \<open>The tunnelled datagram\<close>

lemma header_lengths [simp]:
  "length (pseudo_header s d l) = 12"
  "length cs = 2 \<Longrightarrow> length (udp_header p l cs) = 8" "length cs = 2 \<Longrightarrow> length (ip_header t s d cs) = 20"
  by (simp_all add: pseudo_header_def udp_header_def ip_header_def)

lemma write_at:
  "length pre = p \<Longrightarrow> length old = length bs \<Longrightarrow> write_bytes (pre @ old @ post) p bs = Inr (pre @ bs @ post)"
  using write_bytes_app by blast

lemma split_three:
  assumes "length xs = a + b + c + n"
  shows "\<exists>u1 u2 u3 u4. xs = u1 @ u2 @ u3 @ u4 \<and> length u1 = a \<and> length u2 = b \<and> length u3 = c \<and> length u4 = n"
proof -
  have "xs = take a xs @ take b (drop a xs) @ take c (drop b (drop a xs)) @ drop c (drop b (drop a xs))"
    by (simp only: append_take_drop_id)
  then show ?thesis using assms by (intro exI conjI) (assumption, simp_all)
qed

lemma udp_pkt_image:
  fixes endpoint :: endpoint and source :: u32
  assumes "length uninit = length data + 28"
  defines "len \<equiv> of_nat (length data + 8)"
  defines "pre \<equiv> pseudo_header source (ep_address endpoint) len @ be16_enc (ep_port endpoint) @
    be16_enc (ep_port endpoint) @ be16_enc len"
  shows "\<exists>u. length u = 8 \<and> create_udp_pkt uninit 20 endpoint data source =
    Inr (u @ pre @ calculate_sum (pre @ [0, 0] @ data) @ data)"
proof -
  let ?ps = "pseudo_header source (ep_address endpoint) len"
  let ?hdr = "udp_header (ep_port endpoint) len"
  let ?cs = "calculate_sum (pre @ [0, 0] @ data)"
  from assms(1) have "length uninit = 8 + 12 + 8 + length data" by simp
  from split_three [OF this] obtain u1 u2 u3 u4 where u: "uninit = u1 @ u2 @ u3 @ u4" "length u1 = 8" "length u2 = 12"
    "length u3 = 8" "length u4 = length data" by blast
  have 1: "write_bytes uninit 8 ?ps = Inr (u1 @ ?ps @ u3 @ u4)"
    unfolding u(1) by (rule write_at) (simp_all add: u)
  have 2: "write_bytes (u1 @ ?ps @ u3 @ u4) 20 (?hdr [0, 0]) = Inr (u1 @ ?ps @ ?hdr [0, 0] @ u4)"
    using write_at [of "u1 @ ?ps" 20 u3 "?hdr [0, 0]" u4] u by simp
  have 3: "write_bytes (u1 @ ?ps @ ?hdr [0, 0] @ u4) 28 data = Inr (u1 @ ?ps @ ?hdr [0, 0] @ data)"
    using write_at [of "u1 @ ?ps @ ?hdr [0, 0]" 28 u4 data "[]"] u by simp
  have image: "?ps @ ?hdr [0, 0] @ data = pre @ [0, 0] @ data" "length pre = 18"
    by (simp_all add: udp_header_def pre_def)
  have 4: "read_bytes (u1 @ ?ps @ ?hdr [0, 0] @ data) 8 (length data + 8 + 12) = Inr (pre @ [0, 0] @ data)"
    unfolding image(1) using u(2) image(2) by (simp add: read_bytes_def)
  have 5: "write_bytes (u1 @ ?ps @ ?hdr [0, 0] @ data) 26 ?cs = Inr (u1 @ pre @ ?cs @ data)"
    unfolding image(1) using write_at [of "u1 @ pre" 26 "[0, 0]" ?cs data] u(2) image(2) by simp
  have l: "of_nat (length data + 8) = len" by (simp add: len_def)
  have "create_udp_pkt uninit 20 endpoint data source = Inr (u1 @ pre @ ?cs @ data)"
    unfolding create_udp_pkt_def Let_def l using 1 2 3 4 5 by simp
  with u(2) show ?thesis by blast
qed

lemma ip_hdr_image:
  fixes endpoint :: endpoint and source :: u32 and size :: nat
  assumes "length old = 20"
  defines "pre \<equiv> [0x45, 0] @ be16_enc (of_nat size) @ be16_enc 0 @ be16_enc 0 @ [63, udp_protocol]"
    and "post \<equiv> be32_enc source @ be32_enc (ep_address endpoint)"
  shows "create_ip_hdr (old @ rest) 0 endpoint size source =
    Inr ((pre @ calculate_sum (pre @ [0, 0] @ post) @ post) @ rest)"
proof -
  let ?hdr = "ip_header (of_nat size) source (ep_address endpoint)"
  let ?cs = "calculate_sum (pre @ [0, 0] @ post)"
  have image: "?hdr [0, 0] = pre @ [0, 0] @ post" "length pre = 10" "length post = 8"
    by (simp_all add: ip_header_def pre_def post_def)
  have 1: "write_bytes (old @ rest) 0 (?hdr [0, 0]) = Inr (?hdr [0, 0] @ rest)"
    using write_at [of "[]" 0 old "?hdr [0, 0]" rest] assms(1) by simp
  have 2: "read_bytes (?hdr [0, 0] @ rest) 0 20 = Inr (pre @ [0, 0] @ post)"
    unfolding image(1) using image(2,3) by (simp add: read_bytes_def)
  have 3: "write_bytes (?hdr [0, 0] @ rest) 10 ?cs = Inr (pre @ ?cs @ post @ rest)"
    unfolding image(1) using write_at [of pre 10 "[0, 0]" ?cs "post @ rest"] image(2) by simp
  show ?thesis unfolding create_ip_hdr_def using 1 2 3 by simp
qed

lemma tunnel_datagram_image:
  fixes endpoint :: endpoint and local_address :: u32
  assumes "length uninit = length data + 28"
  defines "len \<equiv> of_nat (length data + 8)" and "tot \<equiv> of_nat (length data + 28)"
  defines "upre \<equiv> pseudo_header local_address (ep_address endpoint) len @ be16_enc (ep_port endpoint) @
      be16_enc (ep_port endpoint) @ be16_enc len"
    and "ipre \<equiv> [0x45, 0] @ be16_enc tot @ be16_enc 0 @ be16_enc 0 @ [63, udp_protocol]"
    and "ipost \<equiv> be32_enc local_address @ be32_enc (ep_address endpoint)"
  shows "tunnel_datagram uninit endpoint data local_address =
    Inr (ip_header tot local_address (ep_address endpoint) (calculate_sum (ipre @ [0, 0] @ ipost)) @
         udp_header (ep_port endpoint) len (calculate_sum (upre @ [0, 0] @ data)) @ data)"
proof -
  let ?dst = "ep_address endpoint" and ?port = "ep_port endpoint"
  define uc ic where "uc = calculate_sum (upre @ [0, 0] @ data)" and "ic = calculate_sum (ipre @ [0, 0] @ ipost)"
  from udp_pkt_image [OF assms(1), where source = local_address and endpoint = endpoint] obtain u where
    u: "length u = 8" "create_udp_pkt uninit 20 endpoint data local_address = Inr (u @ upre @ uc @ data)"
    unfolding uc_def upre_def len_def by blast
  then have pkt: "create_udp_pkt uninit 20 endpoint data local_address =
      Inr ((u @ pseudo_header local_address ?dst len) @ udp_header ?port len uc @ data)"
    by (simp add: udp_header_def upre_def)
  have "create_ip_hdr ((u @ pseudo_header local_address ?dst len) @ udp_header ?port len uc @ data) 0 endpoint
      (length data + 28) local_address = Inr (ip_header tot local_address ?dst ic @ udp_header ?port len uc @ data)"
    using ip_hdr_image [where old = "u @ pseudo_header local_address ?dst len" and endpoint = endpoint and
        size = "length data + 28" and source = local_address] u(1)
    by (simp add: ic_def ipre_def ipost_def tot_def ip_header_def)
  with pkt show ?thesis
    by (simp add: tunnel_datagram_def add.commute uc_def ic_def)
qed

text \<open>(C28) The datagram sent into the tunnel: an IPv4 header, a UDP header and the packet, the addresses
  and the port of the session, and both checksums valid for a receiver that sums them up.\<close>
theorem tunnel_datagram_valid:
  assumes "length uninit = length data + 28" and "length data + 28 < 65536"
  defines "len \<equiv> of_nat (length data + 8)" and "tot \<equiv> of_nat (length data + 28)"
  shows "\<exists>ip_check udp_check.
    tunnel_datagram uninit endpoint data local_address =
      Inr (ip_header tot local_address (ep_address endpoint) ip_check @
           udp_header (ep_port endpoint) len udp_check @ data) \<and>
    checksum_valid (ip_header tot local_address (ep_address endpoint) ip_check) \<and>
    checksum_valid (pseudo_header local_address (ep_address endpoint) len @
      udp_header (ep_port endpoint) len udp_check @ data)"
proof -
  let ?dst = "ep_address endpoint" and ?port = "ep_port endpoint"
  let ?upre = "pseudo_header local_address ?dst len @ be16_enc ?port @ be16_enc ?port @ be16_enc len"
  let ?ipre = "[0x45, 0] @ be16_enc tot @ be16_enc 0 @ be16_enc 0 @ [63, udp_protocol]"
  let ?ipost = "be32_enc local_address @ be32_enc ?dst"
  define uc ic where "uc = calculate_sum (?upre @ [0, 0] @ data)" and "ic = calculate_sum (?ipre @ [0, 0] @ ?ipost)"
  have "tunnel_datagram uninit endpoint data local_address =
      Inr (ip_header tot local_address ?dst ic @ udp_header ?port len uc @ data)"
    using tunnel_datagram_image [OF assms(1), of endpoint local_address] by (simp only: uc_def ic_def len_def tot_def)
  moreover have "checksum_valid (?ipre @ ic @ ?ipost)"
    unfolding ic_def by (rule calculate_sum_valid) (simp_all add: udp_protocol_def)
  moreover have "checksum_valid (?upre @ uc @ data)"
    unfolding uc_def using assms(2) by (intro calculate_sum_valid) simp_all
  ultimately show ?thesis
    by (intro exI [of _ ic] exI [of _ uc]) (simp add: ip_header_def udp_header_def)
qed

theorem tunnel_datagram_valid_witness:
  "\<exists>ip_check udp_check.
    tunnel_datagram (replicate 31 7) \<lparr>ep_address = 0xEE010101, ep_port = 4000\<rparr> [1, 2, 3] 0x0A000001 =
      Inr (ip_header 31 0x0A000001 0xEE010101 ip_check @ udp_header 4000 11 udp_check @ [1, 2, 3]) \<and>
    checksum_valid (ip_header 31 0x0A000001 0xEE010101 ip_check)"
  using tunnel_datagram_valid [where uninit = "replicate 31 7" and data = "[1, 2, 3]" and
      endpoint = "\<lparr>ep_address = 0xEE010101, ep_port = 4000\<rparr>" and local_address = "0x0A000001"]
  by auto

end
