(* ===== verification/File_Description.thy ===== *)
theory File_Description
  imports File_Delivery_Table Base64
begin

text \<open>
  \<^verbatim>\<open>Transmitter::FileDescription\<close> of \<^verbatim>\<open>src/Transmitter.cpp\<close>: the application's description of a file to be
  sent. It points to the application's memory or owns a mapping of a local file and its handle, so the
  process state is explicit: memory blocks by address, open handles, the local files. Copies own
  mappings and handles of their own. The build with \<^verbatim>\<open>mmap\<close> is modelled.
\<close>

section \<open>The process\<close>

text \<open>A pointer is null, what a failed \<^verbatim>\<open>mmap\<close> returns, or the start of a block. A local file that is
  not \<open>seekable\<close> has no length.\<close>

datatype pointer_value = Null_Pointer | Map_Failed | Block nat

record process =
  pr_memory :: "nat \<rightharpoonup> byte list"
  pr_next_block :: nat
  pr_handles :: "nat \<rightharpoonup> byte list"
  pr_next_handle :: nat
  pr_files :: "string \<rightharpoonup> bool \<times> byte list"

text \<open>The first \<open>n\<close> bytes at a pointer.\<close>

definition pointer_bytes :: "process \<Rightarrow> pointer_value \<Rightarrow> nat \<Rightarrow> byte list result" where
  "pointer_bytes s p n =
     (if n = 0 then Inr []
      else case p of
             Block a \<Rightarrow> (case pr_memory s a of
                           None \<Rightarrow> Inl (Undefined ''read of freed memory'')
                         | Some mem \<Rightarrow> read_bytes mem 0 n)
           | _ \<Rightarrow> Inl (Undefined ''read through an invalid pointer''))"

text \<open>The system calls: \<^verbatim>\<open>mmap\<close> fails for a length of 0 and for a handle that is not open.\<close>

definition sys_mmap :: "nat \<Rightarrow> nat option \<Rightarrow> process \<Rightarrow> pointer_value \<times> process" where
  "sys_mmap n h s =
     (case h of
        None \<Rightarrow> (Map_Failed, s)
      | Some i \<Rightarrow>
          (case pr_handles s i of
             None \<Rightarrow> (Map_Failed, s)
           | Some content \<Rightarrow>
               if n = 0 then (Map_Failed, s)
               else (Block (pr_next_block s),
                     s\<lparr>pr_memory := (pr_memory s)(pr_next_block s \<mapsto> take n content),
                       pr_next_block := Suc (pr_next_block s)\<rparr>)))"

definition sys_munmap :: "pointer_value \<Rightarrow> process \<Rightarrow> process" where
  "sys_munmap p s = (case p of Block a \<Rightarrow> s\<lparr>pr_memory := (pr_memory s)(a := None)\<rparr> | _ \<Rightarrow> s)"

definition new_handle :: "byte list \<Rightarrow> process \<Rightarrow> nat option \<times> process" where
  "new_handle content s =
     (Some (pr_next_handle s),
      s\<lparr>pr_handles := (pr_handles s)(pr_next_handle s \<mapsto> content), pr_next_handle := Suc (pr_next_handle s)\<rparr>)"

definition sys_open :: "string \<Rightarrow> process \<Rightarrow> nat option \<times> process" where
  "sys_open name s =
     (case pr_files s name of None \<Rightarrow> (None, s) | Some (_, content) \<Rightarrow> new_handle content s)"

definition sys_dup :: "nat option \<Rightarrow> process \<Rightarrow> nat option \<times> process" where
  "sys_dup h s =
     (case h of
        None \<Rightarrow> (None, s)
      | Some i \<Rightarrow> (case pr_handles s i of None \<Rightarrow> (None, s) | Some content \<Rightarrow> new_handle content s))"

definition sys_close :: "nat option \<Rightarrow> process \<Rightarrow> process" where
  "sys_close h s = (case h of None \<Rightarrow> s | Some i \<Rightarrow> s\<lparr>pr_handles := (pr_handles s)(i := None)\<rparr>)"

section \<open>State\<close>

datatype compression = COMPRESSION_NONE | COMPRESSION_GZIP | COMPRESSION_DEFLATE

text \<open>A handle of \<open>-1\<close> is \<open>None\<close>.\<close>

record description =
  fd_tsi :: "u64 option"
  fd_entry :: file_entry
  fd_compression :: compression
  fd_filename :: string
  fd_handle :: "nat option"
  fd_data :: pointer_value
  fd_length :: u64

definition has_tsi :: "description \<Rightarrow> bool" where
  "has_tsi d \<longleftrightarrow> fd_tsi d \<noteq> None"

definition fd_tsi_value :: "description \<Rightarrow> u64" where
  "fd_tsi_value d = (case fd_tsi d of None \<Rightarrow> 0 | Some t \<Rightarrow> t)"

definition set_tsi :: "u64 \<Rightarrow> description \<Rightarrow> description" where
  "set_tsi t d = d\<lparr>fd_tsi := Some t\<rparr>"

definition set_toi :: "u32 \<Rightarrow> description \<Rightarrow> description" where
  "set_toi toi d = d\<lparr>fd_entry := (fd_entry d)\<lparr>fe_toi := toi\<rparr>\<rparr>"

text \<open>\<^verbatim>\<open>data()\<close> with \<^verbatim>\<open>data_length()\<close>.\<close>

definition fd_bytes :: "process \<Rightarrow> description \<Rightarrow> byte list result" where
  "fd_bytes s d = pointer_bytes s (fd_data d) (unat (fd_length d))"

section \<open>The contents\<close>

text \<open>Opening and mapping a local file; the members are set one by one, so an exception leaves the
  earlier ones changed.\<close>

definition attach_file :: "string \<Rightarrow> description \<Rightarrow> process \<Rightarrow> unit result \<times> description \<times> process" where
  "attach_file name d s =
     (let (h, s1) = sys_open name s;
          d1 = d\<lparr>fd_filename := name, fd_handle := h\<rparr>
      in case pr_files s name of
           None \<Rightarrow> (Inl (StdExc ''Could not open the file''), d1, s1)
         | Some (seekable, content) \<Rightarrow>
             if \<not> seekable then (Inl (StdExc ''Could not find the file length''), d1, s1)
             else let (p, s2) = sys_mmap (length content) h s1
                  in (Inr (), d1\<lparr>fd_length := of_nat (length content), fd_data := p\<rparr>, s2))"

definition free_file_data :: "description \<Rightarrow> process \<Rightarrow> description \<times> process" where
  "free_file_data d s =
     (if fd_filename d \<noteq> []
      then (d\<lparr>fd_filename := []\<rparr>, sys_close (fd_handle d) (sys_munmap (fd_data d) s))
      else (d, s))"

definition calculate_file_entry ::
  "(byte list \<Rightarrow> byte list) \<Rightarrow> process \<Rightarrow> description \<Rightarrow> unit result \<times> description" where
  "calculate_file_entry md5 s d =
     (let e = (fd_entry d)\<lparr>content_length := ucast (fd_length d),
                           fe_fec_oti := (fe_fec_oti (fd_entry d))\<lparr>transfer_length := fd_length d\<rparr>\<rparr>
      in if fd_data d \<noteq> Null_Pointer \<and> fd_length d \<noteq> 0
         then case fd_bytes s d of
                Inl x \<Rightarrow> (Inl x, d\<lparr>fd_entry := e\<rparr>)
              | Inr bs \<Rightarrow> (Inr (), d\<lparr>fd_entry := e\<lparr>content_md5 := base64_encode (take 16 (md5 bs)) False\<rparr>\<rparr>)
         else (Inr (), d\<lparr>fd_entry := e\<lparr>content_md5 := []\<rparr>\<rparr>))"

section \<open>Constructors\<close>

definition blank_description :: "string \<Rightarrow> pointer_value \<Rightarrow> u64 \<Rightarrow> description" where
  "blank_description location p n =
     \<lparr>fd_tsi = None,
      fd_entry = \<lparr>fe_toi = 0, content_location = location, content_length = 0, content_md5 = [],
        content_type = [], fe_expires = 0, fe_fec_oti = fec_oti_zero,
        fe_cache_control = \<lparr>no_cache = False, cache_expires = None\<rparr>, fe_content_encoding = [], etag = []\<rparr>,
      fd_compression = COMPRESSION_NONE, fd_filename = [], fd_handle = None, fd_data = p, fd_length = n\<rparr>"

definition description_of_file ::
  "(byte list \<Rightarrow> byte list) \<Rightarrow> string \<Rightarrow> string \<Rightarrow> process \<Rightarrow> unit result \<times> description \<times> process" where
  "description_of_file md5 location name s =
     (case attach_file name (blank_description location Null_Pointer 0) s of
        (Inl e, d, s') \<Rightarrow> (Inl e, d, s')
      | (Inr _, d, s') \<Rightarrow> let (r, d') = calculate_file_entry md5 s' d in (r, d', s'))"

text \<open>From a pointer and a length; vectors pass theirs as they are.\<close>

definition description_of_vector ::
  "(byte list \<Rightarrow> byte list) \<Rightarrow> process \<Rightarrow> string \<Rightarrow> pointer_value \<Rightarrow> u64 \<Rightarrow> unit result \<times> description" where
  "description_of_vector md5 s location p n = calculate_file_entry md5 s (blank_description location p n)"

definition description_of_data ::
  "(byte list \<Rightarrow> byte list) \<Rightarrow> process \<Rightarrow> string \<Rightarrow> pointer_value \<Rightarrow> u64 \<Rightarrow> unit result \<times> description" where
  "description_of_data md5 s location p n =
     calculate_file_entry md5 s (blank_description location p (if p \<noteq> Null_Pointer then n else 0))"

definition description_empty ::
  "(byte list \<Rightarrow> byte list) \<Rightarrow> process \<Rightarrow> string \<Rightarrow> unit result \<times> description" where
  "description_empty md5 s location = calculate_file_entry md5 s (blank_description location Null_Pointer 0)"

section \<open>Copies\<close>

text \<open>The part the copy constructor and the assignment share: a handle and a mapping of its own.\<close>

definition own_mapping :: "description \<Rightarrow> process \<Rightarrow> description \<times> process" where
  "own_mapping other s =
     (if fd_filename other \<noteq> []
      then let (h, s1) = sys_dup (fd_handle other) s;
               (p, s2) = sys_mmap (unat (fd_length other)) h s1
           in (other\<lparr>fd_handle := h, fd_data := p\<rparr>, s2)
      else (other\<lparr>fd_handle := None\<rparr>, s))"

definition description_copy :: "description \<Rightarrow> process \<Rightarrow> description \<times> process" where
  "description_copy other s = own_mapping other s"

text \<open>Moving leaves the other empty; the moved-from string is empty.\<close>

definition description_move :: "description \<Rightarrow> description \<times> description" where
  "description_move other =
     (other, other\<lparr>fd_tsi := fd_tsi other, fd_filename := [], fd_data := Null_Pointer, fd_length := 0, fd_handle := None\<rparr>)"

definition description_destroy :: "description \<Rightarrow> process \<Rightarrow> process" where
  "description_destroy d s = snd (free_file_data d s)"

text \<open>The assignments overwrite the members: what the target had mapped stays mapped.\<close>

definition description_assign :: "description \<Rightarrow> description \<Rightarrow> process \<Rightarrow> description \<times> process" where
  "description_assign target other s = own_mapping other s"

definition description_move_assign :: "description \<Rightarrow> description \<Rightarrow> description \<times> description" where
  "description_move_assign target other = description_move other"

text \<open>\<^verbatim>\<open>operator==\<close>; the names of the local files take no part. Comparing no bytes succeeds.\<close>

definition description_eq :: "process \<Rightarrow> description \<Rightarrow> description \<Rightarrow> bool result" where
  "description_eq s a b =
     (if fd_tsi a \<noteq> fd_tsi b \<or> fd_compression a \<noteq> fd_compression b \<or> \<not> file_entry_eq (fd_entry a) (fd_entry b) \<or>
         fd_length a \<noteq> fd_length b
      then Inr False
      else if fd_data a = fd_data b then Inr True
      else rbind (fd_bytes s a) (\<lambda>x. rbind (fd_bytes s b) (\<lambda>y. Inr (x = y))))"

section \<open>Setters\<close>

definition set_compression ::
  "(byte list \<Rightarrow> byte list) \<Rightarrow> process \<Rightarrow> compression \<Rightarrow> description \<Rightarrow> unit result \<times> description" where
  "set_compression md5 s c d =
     (if c \<noteq> fd_compression d
      then calculate_file_entry md5 s
             (d\<lparr>fd_compression := c,
                fd_entry := (fd_entry d)\<lparr>fe_content_encoding :=
                  (case c of COMPRESSION_GZIP \<Rightarrow> ''gzip'' | COMPRESSION_DEFLATE \<Rightarrow> ''deflate'' | COMPRESSION_NONE \<Rightarrow> ''''),
                  fe_toi := 0\<rparr>\<rparr>)
      else (Inr (), d))"

definition set_content_location :: "string \<Rightarrow> description \<Rightarrow> description" where
  "set_content_location location d = d\<lparr>fd_entry := (fd_entry d)\<lparr>content_location := location\<rparr>\<rparr>"

definition set_content_file ::
  "(byte list \<Rightarrow> byte list) \<Rightarrow> string \<Rightarrow> description \<Rightarrow> process \<Rightarrow> unit result \<times> description \<times> process" where
  "set_content_file md5 name d s =
     (if name \<noteq> fd_filename d
      then let (d1, s1) = free_file_data d s
           in case attach_file name d1 s1 of
                (Inl e, d2, s2) \<Rightarrow> (Inl e, d2, s2)
              | (Inr _, d2, s2) \<Rightarrow> let (r, d3) = calculate_file_entry md5 s2 (set_toi 0 d2) in (r, d3, s2)
      else (Inr (), d, s))"

text \<open>Whether new contents reset the TOI: the lengths differ, contents appear or vanish, or the digest
  of the new contents is not the one in the entry.\<close>

definition content_changes ::
  "(byte list \<Rightarrow> byte list) \<Rightarrow> process \<Rightarrow> pointer_value \<Rightarrow> u64 \<Rightarrow> description \<Rightarrow> bool result" where
  "content_changes md5 s p n d =
     (if fd_length d \<noteq> n then Inr True
      else if p \<noteq> Null_Pointer then
        if fd_data d = Null_Pointer then Inr (n \<noteq> 0)
        else if n \<noteq> 0 then
          rbind (pointer_bytes s p (unat n)) (\<lambda>bs.
          Inr (content_md5 (fd_entry d) \<noteq> base64_encode (take 16 (md5 bs)) False))
        else Inr False
      else Inr (fd_data d \<noteq> Null_Pointer))"

definition set_content_data ::
  "(byte list \<Rightarrow> byte list) \<Rightarrow> pointer_value \<Rightarrow> u64 \<Rightarrow> description \<Rightarrow> process \<Rightarrow>
     unit result \<times> description \<times> process" where
  "set_content_data md5 p data_length d s =
     (let n = (if p = Null_Pointer then 0 else data_length) in
      if p \<noteq> fd_data d \<or> fd_length d \<noteq> n
      then case content_changes md5 s p n d of
             Inl e \<Rightarrow> (Inl e, d, s)
           | Inr changed \<Rightarrow>
               let (d1, s1) = free_file_data (if changed then set_toi 0 d else d) s;
                   (r, d2) = calculate_file_entry md5 s1 (d1\<lparr>fd_data := p, fd_length := n\<rparr>)
               in (r, d2, s1)
      else (Inr (), d, s))"

definition set_content_type :: "string \<Rightarrow> description \<Rightarrow> description" where
  "set_content_type t d = d\<lparr>fd_entry := (fd_entry d)\<lparr>content_type := t\<rparr>\<rparr>"

definition set_etag :: "string \<Rightarrow> description \<Rightarrow> description" where
  "set_etag t d = d\<lparr>fd_entry := (fd_entry d)\<lparr>etag := t\<rparr>\<rparr>"

definition get_etag :: "description \<Rightarrow> string" where
  "get_etag d = etag (fd_entry d)"

text \<open>Times of the system clock in nanoseconds; \<open>epoch\<close> is midnight of 1 January 1900 as \<^verbatim>\<open>mktime\<close>
  gives it, in local time. \<^verbatim>\<open>duration_cast\<close> to seconds drops the fraction towards zero, the one back
  overflows when the product leaves 64 bits.\<close>

definition truncated_seconds :: "int \<Rightarrow> int" where
  "truncated_seconds t = (if 0 \<le> t then t div 10 ^ 9 else - (- t div 10 ^ 9))"

definition set_expiry_time :: "int \<Rightarrow> int \<Rightarrow> description \<Rightarrow> description" where
  "set_expiry_time epoch t d =
     (let x = word_of_int (truncated_seconds (t - epoch)) :: u64
      in d\<lparr>fd_entry := (fd_entry d)\<lparr>fe_expires := x,
             fe_cache_control := (fe_cache_control (fd_entry d))\<lparr>cache_expires := Some x\<rparr>\<rparr>\<rparr>)"

definition get_expiry_time :: "int \<Rightarrow> description \<Rightarrow> int result" where
  "get_expiry_time epoch d =
     (let ns = sint (fe_expires (fd_entry d)) * 10 ^ 9; t = epoch + ns
      in if - (2 ^ 63) \<le> ns \<and> ns < 2 ^ 63 \<and> - (2 ^ 63) \<le> t \<and> t < 2 ^ 63 then Inr t
         else Inl (Undefined ''signed overflow''))"

text \<open>Fields that are 0 take the session's value.\<close>

definition merge_oti :: "fec_oti \<Rightarrow> fec_oti \<Rightarrow> fec_oti" where
  "merge_oti o' d =
     \<lparr>encoding_id = (if encoding_id o' = 0 then encoding_id d else encoding_id o'),
      oti_instance_id = (if oti_instance_id o' = 0 then oti_instance_id d else oti_instance_id o'),
      transfer_length = (if transfer_length o' = 0 then transfer_length d else transfer_length o'),
      encoding_symbol_length =
        (if encoding_symbol_length o' = 0 then encoding_symbol_length d else encoding_symbol_length o'),
      max_source_block_length =
        (if max_source_block_length o' = 0 then max_source_block_length d else max_source_block_length o'),
      max_number_of_encoding_symbols =
        (if max_number_of_encoding_symbols o' = 0 then max_number_of_encoding_symbols d
         else max_number_of_encoding_symbols o')\<rparr>"

definition merge_fec_oti :: "fec_oti \<Rightarrow> description \<Rightarrow> description" where
  "merge_fec_oti o' d = d\<lparr>fd_entry := (fd_entry d)\<lparr>fe_fec_oti := merge_oti (fe_fec_oti (fd_entry d)) o'\<rparr>\<rparr>"

end
