(* ===== verification/Description_Contents.thy ===== *)
theory Description_Contents
  imports File_Description Event_Machine
begin

text \<open>
  What a file description promises: its table entry describes the contents it points to, whatever
  sequence of calls made it; when new contents count as changed; who owns a mapping.
\<close>

section \<open>The entry and the contents\<close>

definition entry_matches :: "(byte list \<Rightarrow> byte list) \<Rightarrow> process \<Rightarrow> description \<Rightarrow> bool" where
  "entry_matches md5 s d \<longleftrightarrow>
     (\<exists>bs. fd_bytes s d = Inr bs \<and> unat (fd_length d) = length bs \<and>
        content_length (fd_entry d) = of_nat (length bs) \<and>
        transfer_length (fe_fec_oti (fd_entry d)) = of_nat (length bs) \<and>
        content_md5 (fd_entry d) = (if bs = [] then [] else base64_encode (take 16 (md5 bs)) False))"

lemma pointer_bytes_length: "pointer_bytes s p n = Inr bs \<Longrightarrow> length bs = n"
  by (auto simp: pointer_bytes_def read_bytes_take split: if_splits pointer_value.splits option.splits)

lemma fd_bytes_length: "fd_bytes s d = Inr bs \<Longrightarrow> length bs = unat (fd_length d)"
  unfolding fd_bytes_def by (rule pointer_bytes_length)


lemma fd_bytes_entry [simp]:
  "fd_bytes s (d\<lparr>fd_entry := e\<rparr>) = fd_bytes s d" "fd_bytes s (d\<lparr>fd_tsi := t\<rparr>) = fd_bytes s d"
  "fd_bytes s (d\<lparr>fd_compression := c\<rparr>) = fd_bytes s d"
  by (simp_all add: fd_bytes_def)



section \<open>The calls of the application\<close>














lemma matches_other_fields:
  assumes "entry_matches md5 s d" and "fd_data d' = fd_data d" "fd_length d' = fd_length d"
    and "content_length (fd_entry d') = content_length (fd_entry d)"
    and "transfer_length (fe_fec_oti (fd_entry d')) = transfer_length (fe_fec_oti (fd_entry d))"
    and "content_md5 (fd_entry d') = content_md5 (fd_entry d)"
  shows "entry_matches md5 s d'"
  using assms by (simp add: entry_matches_def fd_bytes_def)





definition example_process :: process where
  "example_process =
     \<lparr>pr_memory = [0 \<mapsto> [1, 2, 3], 1 \<mapsto> [1, 2, 3], 2 \<mapsto> [9, 9, 9]], pr_next_block = 3, pr_handles = Map.empty, pr_next_handle = 0,
      pr_files = [''a.bin'' \<mapsto> (True, [4, 5])]\<rparr>"

definition example_md5 :: "byte list \<Rightarrow> byte list" where
  "example_md5 bs = replicate 16 (foldr (+) bs 0)"


section \<open>When contents count as changed\<close>

lemma digest_inject:
  assumes "length (md5 x) = 16" "length (md5 y) = 16"
    and "base64_encode (take 16 (md5 x)) False = base64_encode (take 16 (md5 y)) False"
  shows "md5 x = md5 y"
proof -
  have "Inr (take 16 (md5 x)) = (Inr (take 16 (md5 y)) :: byte list result)"
    using arg_cong [OF assms(3), of "\<lambda>s. base64_decode s False"] assms(1,2) by (simp add: base64_decode_encode)
  with assms(1,2) show ?thesis by simp
qed

lemma calculate_toi_snd: "fe_toi (fd_entry (snd (calculate_file_entry md5 s d))) = fe_toi (fd_entry d)"
  by (simp add: calculate_file_entry_def Let_def split: sum.split)

lemma calculate_toi: "calculate_file_entry md5 s d = (r, d') \<Longrightarrow> fe_toi (fd_entry d') = fe_toi (fd_entry d)"
  using calculate_toi_snd [of md5 s d] by simp

lemma free_toi [simp]: "fd_entry (fst (free_file_data d s)) = fd_entry d"
  by (simp add: free_file_data_def)

lemma set_content_data_toi:
  assumes "set_content_data md5 p n d s = (Inr u, d', s')" and "p \<noteq> fd_data d" "p \<noteq> Null_Pointer"
    and "content_changes md5 s p n d = Inr changed"
  shows "fe_toi (fd_entry d') = (if changed then 0 else fe_toi (fd_entry d))"
proof -
  let ?d = "if changed then set_toi 0 d else d"
  obtain d1 s1 where f: "free_file_data ?d s = (d1, s1)" by fastforce
  then have e: "fd_entry d1 = fd_entry ?d" using free_toi [of ?d s] by simp
  obtain r d2 where c: "calculate_file_entry md5 s1 (d1\<lparr>fd_data := p, fd_length := n\<rparr>) = (r, d2)" by fastforce
  have "d' = d2" using assms f c by (simp add: set_content_data_def Let_def)
  with calculate_toi [OF c] e show ?thesis by (simp add: set_toi_def)
qed

text \<open>(C30) New contents at another address keep the TOI of the description exactly when they have the
  length and the digest of the old ones. Contents that are changed in place, at the same address and
  with the same length, are not noticed at all.\<close>
theorem set_content_resets_toi:
  assumes "entry_matches md5 s d" and "fd_bytes s d = Inr old" and "pointer_bytes s p (unat n) = Inr new"
    and "old \<noteq> []" "\<forall>bs. length (md5 bs) = 16" and "fd_data d \<noteq> Null_Pointer"
    and "set_content_data md5 p n d s = (Inr u, d', s')"
  shows "(p \<noteq> fd_data d \<longrightarrow> new \<noteq> [] \<longrightarrow>
      fe_toi (fd_entry d') = (if length new = length old \<and> md5 new = md5 old then fe_toi (fd_entry d) else 0)) \<and>
    (p = fd_data d \<and> n = fd_length d \<longrightarrow> set_content_data md5 p n d (s\<lparr>pr_memory := anything\<rparr>) =
      (Inr (), d, s\<lparr>pr_memory := anything\<rparr>))"
proof (intro conjI impI)
  assume p: "p \<noteq> fd_data d" and new: "new \<noteq> []"
  have l: "length old = unat (fd_length d)" "length new = unat n"
    using assms(2,3) fd_bytes_length pointer_bytes_length by blast+
  have pn: "p \<noteq> Null_Pointer" "n \<noteq> 0"
    using assms(3) new l(2) by (auto simp: pointer_bytes_def split: if_splits)
  have same: "fd_length d = n \<longleftrightarrow> length new = length old"
    using l by (auto simp: word_unat_eq_iff)
  have md5: "content_md5 (fd_entry d) = base64_encode (take 16 (md5 old)) False"
    using assms(1,2,4) by (auto simp: entry_matches_def)
  have "content_changes md5 s p n d = Inr (\<not> (length new = length old \<and> md5 new = md5 old))"
  proof (cases "length new = length old")
    case True
    then have "content_changes md5 s p n d =
        Inr (content_md5 (fd_entry d) \<noteq> base64_encode (take 16 (md5 new)) False)"
      using same pn assms(3,6) by (simp add: content_changes_def)
    with True md5 digest_inject [of md5 old new] assms(5) show ?thesis by auto
  next
    case False
    with same show ?thesis by (simp add: content_changes_def)
  qed
  then show "fe_toi (fd_entry d') = (if length new = length old \<and> md5 new = md5 old then fe_toi (fd_entry d) else 0)"
    using set_content_data_toi [OF assms(7) p pn(1)] by simp
next
  assume "p = fd_data d \<and> n = fd_length d"
  with assms(6) show "set_content_data md5 p n d (s\<lparr>pr_memory := anything\<rparr>) = (Inr (), d, s\<lparr>pr_memory := anything\<rparr>)"
    by (simp add: set_content_data_def)
qed

definition example_description :: description where
  "example_description = set_toi 5 (snd (description_of_data example_md5 example_process ''x'' (Block 0) 3))"

lemmas description_eval = calculate_file_entry_def blank_description_def Let_def fd_bytes_def pointer_bytes_def
  example_process_def read_bytes_def set_toi_def

text \<open>The same three bytes elsewhere, and three others.\<close>
theorem set_content_resets_toi_witness:
  "\<exists>d1 s1 d2 s2. set_content_data example_md5 (Block 1) 3 example_description example_process = (Inr (), d1, s1) \<and>
     fe_toi (fd_entry d1) = 5 \<and>
     set_content_data example_md5 (Block 2) 3 example_description example_process = (Inr (), d2, s2) \<and>
     fe_toi (fd_entry d2) = 0"
proof -
  let ?d = "example_description" and ?s = example_process
  have b: "fd_bytes ?s ?d = Inr [1, 2, 3]" "pointer_bytes ?s (Block 1) (unat (3 :: u64)) = Inr [1, 2, 3]"
    "pointer_bytes ?s (Block 2) (unat (3 :: u64)) = Inr [9, 9, 9]" "fd_data ?d = Block 0" "fe_toi (fd_entry ?d) = 5"
    "fd_length ?d = 3"
    by (simp_all add: example_description_def description_of_data_def description_eval)
  have l: "\<forall>bs. length (example_md5 bs) = 16" by (simp add: example_md5_def)
  have m: "entry_matches example_md5 ?s ?d"
    by (simp add: entry_matches_def example_description_def description_of_data_def description_eval)
  have "fst (set_content_data example_md5 (Block k) 3 ?d ?s) = Inr ()" if "k \<in> {1, 2}" for k
  proof -
    have "content_changes example_md5 ?s (Block k) 3 ?d = Inr (content_md5 (fd_entry ?d) \<noteq>
        base64_encode (take 16 (example_md5 (if k = 1 then [1, 2, 3] else [9, 9, 9]))) False)"
      using b that by (auto simp: content_changes_def)
    moreover have "fd_filename ?d = []" by (simp add: example_description_def description_of_data_def description_eval)
    ultimately show ?thesis
      using that by (auto simp: set_content_data_def b free_file_data_def description_eval)
  qed
  then obtain d1 s1 d2 s2 where
    1: "set_content_data example_md5 (Block 1) 3 ?d ?s = (Inr (), d1, s1)" and
    2: "set_content_data example_md5 (Block 2) 3 ?d ?s = (Inr (), d2, s2)"
    by (metis eq_fst_iff insertCI)
  have "fe_toi (fd_entry d1) = 5"
    using set_content_resets_toi [OF m b(1,2) _ l _ 1] b by simp
  moreover have "fe_toi (fd_entry d2) = 0"
    using set_content_resets_toi [OF m b(1,3) _ l _ 2] b by (simp add: example_md5_def)
  ultimately show ?thesis using 1 2 by blast
qed

section \<open>Copies and mappings\<close>

text \<open>A description of a local file owns an open handle and a mapping of its content. Numbers of
  handles and addresses of mappings are not used again.\<close>

definition process_ok :: "process \<Rightarrow> bool" where
  "process_ok s \<longleftrightarrow> (\<forall>a \<ge> pr_next_block s. pr_memory s a = None) \<and> (\<forall>h \<ge> pr_next_handle s. pr_handles s h = None)"

definition owns_file :: "process \<Rightarrow> description \<Rightarrow> byte list \<Rightarrow> nat \<Rightarrow> nat \<Rightarrow> bool" where
  "owns_file s d content h a \<longleftrightarrow>
     fd_filename d \<noteq> [] \<and> fd_handle d = Some h \<and> pr_handles s h = Some content \<and>
     content \<noteq> [] \<and> unat (fd_length d) = length content \<and> fd_data d = Block a \<and> pr_memory s a = Some content"

lemma file_entry_eq_refl: "file_entry_eq e e"
  by (simp add: file_entry_eq_def fec_oti_eq_equiv)

lemma owned_bytes: "owns_file s d content h a \<Longrightarrow> fd_bytes s d = Inr content"
  by (simp add: owns_file_def fd_bytes_def pointer_bytes_def read_bytes_def)

lemma destroy_owned:
  assumes "owns_file s d content h a"
  shows "description_destroy d s = sys_close (Some h) (sys_munmap (Block a) s)"
  using assms by (simp add: description_destroy_def free_file_data_def owns_file_def)

lemma owns_file_frame:
  assumes "owns_file s d content h a" and "a' \<noteq> a" and "h' \<noteq> h"
  shows "owns_file (sys_close (Some h') (sys_munmap (Block a') s)) d content h a"
  using assms by (simp add: owns_file_def sys_close_def sys_munmap_def)

text \<open>(C31) A copy of the description of a local file is equal to it and has a handle and a mapping of its
  own: destroying either of the two leaves the other with its contents. Reading new contents from a
  file that cannot be opened, on the other hand, throws and leaves the description with a pointer to
  memory that has been unmapped and the old length.\<close>
theorem copy_owns_its_contents:
  assumes "process_ok s" and "owns_file s d content h a"
  shows "(\<exists>d' s'. description_copy d s = (d', s') \<and> process_ok s' \<and> description_eq s' d' d = Inr True \<and>
      fd_bytes (description_destroy d s') d' = Inr content \<and> fd_bytes (description_destroy d' s') d = Inr content) \<and>
    (name \<noteq> fd_filename d \<longrightarrow> pr_files s name = None \<longrightarrow>
      (\<exists>d' s'. set_content_file md5 name d s = (Inl (StdExc ''Could not open the file''), d', s') \<and>
        fd_bytes s' d' = Inl (Undefined ''read of freed memory'') \<and> fd_length d' = fd_length d))"
proof (intro conjI impI)
  have new: "a < pr_next_block s" "h < pr_next_handle s"
    using assms by (auto simp: process_ok_def owns_file_def not_le [symmetric])
  let ?h = "pr_next_handle s" and ?a = "pr_next_block s"
  let ?d = "d\<lparr>fd_handle := Some ?h, fd_data := Block ?a\<rparr>"
  let ?s = "s\<lparr>pr_handles := (pr_handles s)(?h \<mapsto> content), pr_next_handle := Suc ?h,
              pr_memory := (pr_memory s)(?a \<mapsto> content), pr_next_block := Suc ?a\<rparr>"
  have copy: "description_copy d s = (?d, ?s)"
    using assms(2) by (simp add: description_copy_def own_mapping_def sys_dup_def new_handle_def sys_mmap_def owns_file_def)
  have own: "owns_file ?s d content h a" "owns_file ?s ?d content ?h ?a"
    using assms(2) new by (simp_all add: owns_file_def)
  have eq: "description_eq ?s ?d d = Inr True"
    using owned_bytes [OF own(1)] owned_bytes [OF own(2)] by (simp add: description_eq_def file_entry_eq_refl)
  have "process_ok ?s" using assms(1) by (simp add: process_ok_def)
  moreover have "fd_bytes (description_destroy d ?s) ?d = Inr content"
    unfolding destroy_owned [OF own(1)] by (rule owned_bytes [OF owns_file_frame [OF own(2)]]) (use new in auto)
  moreover have "fd_bytes (description_destroy ?d ?s) d = Inr content"
    unfolding destroy_owned [OF own(2)] by (rule owned_bytes [OF owns_file_frame [OF own(1)]]) (use new in auto)
  ultimately show "\<exists>d' s'. description_copy d s = (d', s') \<and> process_ok s' \<and> description_eq s' d' d = Inr True \<and>
      fd_bytes (description_destroy d s') d' = Inr content \<and> fd_bytes (description_destroy d' s') d = Inr content"
    using copy eq by blast
next
  assume "name \<noteq> fd_filename d" "pr_files s name = None"
  moreover have "fd_length d \<noteq> 0" using assms(2) by (auto simp: owns_file_def)
  ultimately show "\<exists>d' s'. set_content_file md5 name d s = (Inl (StdExc ''Could not open the file''), d', s') \<and>
        fd_bytes s' d' = Inl (Undefined ''read of freed memory'') \<and> fd_length d' = fd_length d"
    using assms(2)
    by (simp add: set_content_file_def free_file_data_def attach_file_def sys_open_def sys_munmap_def sys_close_def
        owns_file_def fd_bytes_def pointer_bytes_def unat_eq_0)
qed

definition opened_process :: process where
  "opened_process =
     \<lparr>pr_memory = [3 \<mapsto> [4, 5]], pr_next_block = 4, pr_handles = [0 \<mapsto> [4, 5]], pr_next_handle = 1,
      pr_files = [''a.bin'' \<mapsto> (True, [4, 5])]\<rparr>"

definition opened_description :: description where
  "opened_description = (blank_description ''x'' (Block 3) 2)\<lparr>fd_filename := ''a.bin'', fd_handle := Some 0\<rparr>"

theorem copy_owns_its_contents_witness:
  "\<exists>d' s'. description_copy opened_description opened_process = (d', s') \<and>
     fd_bytes (description_destroy opened_description s') d' = Inr [4, 5] \<and>
     fd_bytes (description_destroy d' s') opened_description = Inr [4, 5]"
proof -
  have "process_ok opened_process" by (simp add: process_ok_def opened_process_def)
  moreover have "owns_file opened_process opened_description [4, 5] 0 3"
    by (simp add: owns_file_def opened_process_def opened_description_def blank_description_def)
  ultimately show ?thesis
    using copy_owns_its_contents [of opened_process opened_description "[4, 5]" 0 3 "''b.bin''" example_md5] by blast
qed

section \<open>Expiry times\<close>

text \<open>The expiry time that is read back is the one that was set, rounded down to a whole second after
  the epoch, as long as the distance fits.\<close>
theorem expiry_time_roundtrip:
  assumes "epoch \<le> t" and "t - epoch < 2 ^ 63" and "- (2 ^ 63) \<le> epoch" and "t < 2 ^ 63"
  shows "get_expiry_time epoch (set_expiry_time epoch t d) = Inr (t - (t - epoch) mod 10 ^ 9) \<and>
    cache_expires (fe_cache_control (fd_entry (set_expiry_time epoch t d))) =
      Some (fe_expires (fd_entry (set_expiry_time epoch t d)))"
proof -
  let ?x = "(t - epoch) div 10 ^ 9"
  have x: "0 \<le> ?x" using assms(1) by (simp add: pos_imp_zdiv_nonneg_iff)
  have m: "?x * 10 ^ 9 = t - epoch - (t - epoch) mod 10 ^ 9" by (simp add: minus_mod_eq_div_mult)
  moreover have "0 \<le> (t - epoch) mod 10 ^ 9" by simp
  ultimately have le: "?x * 10 ^ 9 \<le> t - epoch" by linarith
  have "y < 2 ^ 63" if "y * 10 ^ 9 \<le> z" "z < 2 ^ 63" "0 \<le> y" for y z :: int
    using that by simp
  from this [OF le assms(2) x] have "?x < 2 ^ 63" .
  then have s: "sint (word_of_int ?x :: u64) = ?x"
    using x by (simp add: sint_sbintrunc' signed_take_bit_int_eq_self)
  have "get_expiry_time epoch (d\<lparr>fd_entry := (fd_entry d)\<lparr>fe_expires := word_of_int y, fe_cache_control := c\<rparr>\<rparr>) =
      Inr (epoch + y * 10 ^ 9)"
    if "sint (word_of_int y :: u64) = y" "0 \<le> y" "y * 10 ^ 9 \<le> t - epoch" for y c
    using that assms by (simp add: get_expiry_time_def Let_def)
  from this [OF s x le] m assms(1) show ?thesis
    by (simp add: set_expiry_time_def truncated_seconds_def Let_def)
qed

theorem expiry_time_roundtrip_witness:
  "get_expiry_time (- 2208988800000000000) (set_expiry_time (- 2208988800000000000) 1700000000900000000 example_description) =
     Inr 1700000000000000000"
  using expiry_time_roundtrip [of "- 2208988800000000000" 1700000000900000000 example_description] by simp

end
