(* ===== verification/Transmitter.thy ===== *)
theory Transmitter
  imports Flute_File File_Description Udp_Tunnel
begin

text \<open>
  \<^verbatim>\<open>src/Transmitter.cpp\<close>: the queue of files, the loop that sends them packet by packet, the FDT and its
  timer. The handlers run one at a time on the event loop; the state counts those that are scheduled.
  Files are shared between the queue and the completion handlers of sends, so they are in a store and
  the queue holds their numbers. A send has a completion handler that runs later; the buffer has to
  stay valid until then.
\<close>

section \<open>State\<close>

text \<open>A send that has been started: the file and symbols its handler captured, and its buffer, \<open>None\<close>
  when it has been deleted. \<open>pd_taken\<close>: the socket has taken the datagram already.\<close>

record pending_send =
  pd_file :: nat
  pd_symbols :: "encoding_symbol list"
  pd_endpoint :: endpoint
  pd_data :: "byte list option"
  pd_taken :: bool

text \<open>\<open>tr_send_waits\<close> and \<open>tr_fdt_waits\<close> count the handlers that wait on the two timers, \<open>tr_send_ready\<close>
  and \<open>tr_fdt_ready\<close> those the event loop will call. \<open>tr_sent\<close> is what went into the network,
  \<open>tr_completed\<close> what the completion callback was told.\<close>

record transmitter =
  tr_endpoint :: endpoint
  tr_source :: "u32 option"
  tr_tunnel :: "endpoint option"
  tr_tunnel_local :: u32
  tr_tsi :: u64
  tr_mtu :: u16
  tr_max_payload :: u32
  tr_fec_oti :: fec_oti
  tr_fdt :: fdt
  tr_store :: "flute_file list"
  tr_files :: "(u32, nat) omap"
  tr_toi :: u16
  tr_rate_limit :: u32
  tr_active :: bool
  tr_callback :: bool
  tr_pending :: "pending_send list"
  tr_send_waits :: nat
  tr_send_ready :: nat
  tr_send_delay :: int
  tr_fdt_waits :: nat
  tr_fdt_ready :: nat
  tr_sent :: "(endpoint \<times> byte list) list"
  tr_completed :: "u32 list"

text \<open>The clock does not move during a handler.\<close>

record 'z sender_env =
  se_malloc :: "nat \<Rightarrow> byte list option"
  se_md5 :: "byte list \<Rightarrow> byte list"
  se_zlib :: "'z zlib"
  se_xml_print :: "xml \<Rightarrow> byte list"
  se_local_address :: "endpoint \<Rightarrow> u32"
  se_uninit :: "nat \<Rightarrow> byte list"
  se_uninit_time :: u64

section \<open>The timers\<close>

text \<open>\<^verbatim>\<open>expires_from_now\<close> cancels the waits on the timer. The handler of the send timer does not look at
  the error, so cancelled waits are calls like any others; a cancelled FDT tick returns at once.\<close>

definition cancel_send_timer :: "transmitter \<Rightarrow> transmitter" where
  "cancel_send_timer t = t\<lparr>tr_send_ready := tr_send_ready t + tr_send_waits t, tr_send_waits := 0\<rparr>"

definition start_send_timer :: "int \<Rightarrow> transmitter \<Rightarrow> transmitter" where
  "start_send_timer delay t =
     (let t' = cancel_send_timer t in t'\<lparr>tr_send_waits := tr_send_waits t' + 1, tr_send_delay := delay\<rparr>)"

definition start_fdt_repeat_timer :: "transmitter \<Rightarrow> transmitter" where
  "start_fdt_repeat_timer t = t\<lparr>tr_fdt_waits := 1\<rparr>"

text \<open>The delay of the rate limiter in microseconds, in double precision and rounded up. The limit is
  in kilobits per second.\<close>

definition send_duration :: "nat \<Rightarrow> u32 \<Rightarrow> rat" where
  "send_duration bytes rate =
     (let fp = fp_round 53;
          seconds = fp (fp (of_nat bytes * 8 / of_nat (unat rate)) / 1000)
      in fp (fp (seconds * 1000) * 1000))"

section \<open>The FDT\<close>

definition add_file :: "flute_file \<Rightarrow> transmitter \<Rightarrow> nat \<times> transmitter" where
  "add_file f t = (length (tr_store t), t\<lparr>tr_store := tr_store t @ [f]\<rparr>)"

definition send_fdt :: "'z sender_env \<Rightarrow> u64 \<Rightarrow> transmitter \<Rightarrow> transmitter outcome option" where
  "send_fdt env now t =
     (if fdt_file_entries (tr_fdt t) = [] then Some (Inr (), t)
      else
        let expires = now + 5 * 2;
            t1 = t\<lparr>tr_fdt := fdt_set_expires expires (tr_fdt t)\<rparr>
        in case file_of_data (se_malloc env) (se_md5 env) (se_uninit_time env) 0 (tr_fec_oti t) '''' '''' expires
                  (fdt_to_string (se_xml_print env) (tr_fdt t1)) True of
             None \<Rightarrow> None
           | Some (Inl e) \<Rightarrow> Some (Inl e, t1)
           | Some (Inr f) \<Rightarrow>
               let (i, t2) = add_file (set_fdt_instance_id (ucast (instance_id (tr_fdt t1))) f) t1
               in Some (Inr (), t2\<lparr>tr_files := om_set 0 i (tr_files t2), tr_fdt := fdt_sent (tr_fdt t2)\<rparr>))"

definition fdt_send_tick :: "'z sender_env \<Rightarrow> u64 \<Rightarrow> bool \<Rightarrow> transmitter \<Rightarrow> transmitter outcome option" where
  "fdt_send_tick env now aborted t =
     (if aborted then Some (Inr (), t)
      else if tr_active t then
        (case send_fdt env now t of
           None \<Rightarrow> None
         | Some (Inl e, t') \<Rightarrow> Some (Inl e, t')
         | Some (Inr _, t') \<Rightarrow> Some (Inr (), start_fdt_repeat_timer t'))
      else Some (Inr (), t))"

section \<open>Queueing files\<close>

text \<open>The next identifier; 0 is left out when it wraps.\<close>

definition advance_toi :: "transmitter \<Rightarrow> transmitter" where
  "advance_toi t = t\<lparr>tr_toi := (if tr_toi t + 1 = 0 then 1 else tr_toi t + 1)\<rparr>"

definition send_data ::
  "'z sender_env \<Rightarrow> u64 \<Rightarrow> string \<Rightarrow> string \<Rightarrow> u32 \<Rightarrow> byte list \<Rightarrow> transmitter \<Rightarrow> transmitter outcome option" where
  "send_data env now location ctype expires data t =
     (let toi = ucast (tr_toi t) :: u32; t1 = advance_toi t in
      case file_of_data (se_malloc env) (se_md5 env) (se_uninit_time env) toi (tr_fec_oti t) location ctype
             (ucast expires) data False of
        None \<Rightarrow> None
      | Some (Inl e) \<Rightarrow> Some (Inl e, t1)
      | Some (Inr f) \<Rightarrow>
          let (i, t2) = add_file f t1 in
          (case send_fdt env now (t2\<lparr>tr_fdt := fdt_add (fl_meta f) (tr_fdt t2)\<rparr>) of
             None \<Rightarrow> None
           | Some (Inl e, t3) \<Rightarrow> Some (Inl e, t3)
           | Some (Inr _, t3) \<Rightarrow> Some (Inr (), t3\<lparr>tr_files := om_insert toi i (tr_files t3)\<rparr>)))"

text \<open>What \<^verbatim>\<open>send\<close> does to the description before it makes a file of it.\<close>

definition prepare_description :: "transmitter \<Rightarrow> description \<Rightarrow> description \<times> transmitter" where
  "prepare_description t d =
     (let d1 = (if has_tsi d \<and> fd_tsi_value d \<noteq> tr_tsi t then set_toi 0 d else d);
          d2 = set_tsi (tr_tsi t) d1;
          (d3, t1) = (if fe_toi (fd_entry d2) = 0 then (set_toi (ucast (tr_toi t)) d2, advance_toi t) else (d2, t))
      in (merge_fec_oti (tr_fec_oti t) d3, t1))"

definition send_description ::
  "'z sender_env \<Rightarrow> u64 \<Rightarrow> process \<Rightarrow> nat \<Rightarrow> description \<Rightarrow> transmitter \<Rightarrow>
     (description \<times> transmitter outcome) option" where
  "send_description env now s number d t =
     (let (d', t1) = prepare_description t d in
      case fd_bytes s d' of
        Inl e \<Rightarrow> Some (d', Inl e, t1)
      | Inr data \<Rightarrow>
          (case file_of_description (se_malloc env) (se_zlib env) (se_uninit_time env) number data (fd_entry d') of
             None \<Rightarrow> None
           | Some (Inl e) \<Rightarrow> Some (d', Inl e, t1)
           | Some (Inr f) \<Rightarrow>
               let (i, t2) = add_file f t1;
                   t3 = t2\<lparr>tr_files := om_insert (fe_toi (fd_entry d')) i (tr_files t2),
                          tr_fdt := fdt_add (fl_meta f) (tr_fdt t2)\<rparr>
               in map_option (\<lambda>r. (d', r)) (send_fdt env now t3)))"

definition number_of_files :: "transmitter \<Rightarrow> nat" where
  "number_of_files t = length (tr_files t)"

section \<open>Sending\<close>

definition file_transmitted :: "'z sender_env \<Rightarrow> u64 \<Rightarrow> u32 \<Rightarrow> transmitter \<Rightarrow> transmitter outcome option" where
  "file_transmitted env now toi t =
     (let t1 = t\<lparr>tr_files := om_erase toi (tr_files t)\<rparr> in
      if toi \<noteq> 0 then
        (case send_fdt env now (t1\<lparr>tr_fdt := fdt_remove toi (tr_fdt t1)\<rparr>) of
           None \<Rightarrow> None
         | Some (Inl e, t2) \<Rightarrow> Some (Inl e, t2)
         | Some (Inr _, t2) \<Rightarrow>
             Some (Inr (), if tr_callback t2 then t2\<lparr>tr_completed := tr_completed t2 @ [toi]\<rparr> else t2))
      else Some (Inr (), t1))"

text \<open>The first file of the queue that is not complete.\<close>

definition next_file :: "transmitter \<Rightarrow> nat option" where
  "next_file t = map_option snd (find (\<lambda>(toi, i). \<not> fl_complete (tr_store t ! i)) (tr_files t))"

definition update_file :: "nat \<Rightarrow> flute_file \<Rightarrow> transmitter \<Rightarrow> transmitter" where
  "update_file i f t = t\<lparr>tr_store := (tr_store t)[i := f]\<rparr>"

text \<open>\<^verbatim>\<open>async_send_to\<close>: \<open>takes\<close> says whether the socket takes the datagram at once.\<close>

definition start_send ::
  "bool \<Rightarrow> nat \<Rightarrow> encoding_symbol list \<Rightarrow> endpoint \<Rightarrow> byte list \<Rightarrow> bool \<Rightarrow> transmitter \<Rightarrow> transmitter" where
  "start_send takes i symbols to data deleted t =
     t\<lparr>tr_pending := tr_pending t @ [\<lparr>pd_file = i, pd_symbols = symbols, pd_endpoint = to,
          pd_data = (if deleted then None else Some data), pd_taken = takes\<rparr>],
       tr_sent := (if takes then tr_sent t @ [(to, data)] else tr_sent t)\<rparr>"

definition source_of :: "transmitter \<Rightarrow> u32" where
  "source_of t = (case tr_source t of Some a \<Rightarrow> a | None \<Rightarrow> tr_tunnel_local t)"

text \<open>One packet of a file, and its size. The tunnel buffer is deleted as soon as the send has been
  started.\<close>

definition send_packet_of ::
  "'z sender_env \<Rightarrow> bool \<Rightarrow> nat \<Rightarrow> transmitter \<Rightarrow> (nat result) \<times> transmitter" where
  "send_packet_of env takes i t =
     (let f = tr_store t ! i in
      case get_next_symbols (ucast (tr_max_payload t)) f of
        Inl e \<Rightarrow> (Inl e, t)
      | Inr (symbols, f') \<Rightarrow>
          let t1 = update_file i f' t in
          if symbols = [] then (Inr 0, t1)
          else
            (case alc_build (ucast (tr_tsi t)) (ucast (fe_toi (fl_meta f'))) (fl_oti f') symbols
                    (ucast (tr_max_payload t)) (ucast (fl_fdt_instance_id f')) of
               Inl e \<Rightarrow> (Inl e, t1)
             | Inr packet \<Rightarrow>
                 (case tr_tunnel t of
                    None \<Rightarrow>
                      (Inr (length (wire packet)),
                       start_send takes i symbols (tr_endpoint t) (wire packet) False t1)
                  | Some tunnel \<Rightarrow>
                      (case tunnel_datagram (se_uninit env (length (wire packet) + 20 + 8)) (tr_endpoint t)
                              (wire packet) (source_of t) of
                         Inl e \<Rightarrow> (Inl e, t1)
                       | Inr data \<Rightarrow>
                           (Inr (length (wire packet)), start_send takes i symbols tunnel data True t1)))))"

definition reschedule :: "nat \<Rightarrow> transmitter \<Rightarrow> transmitter" where
  "reschedule bytes_queued t =
     (if tr_active t then
        if bytes_queued = 0 then start_send_timer 10000 t
        else if tr_rate_limit t = 0 then t\<lparr>tr_send_ready := tr_send_ready t + 1\<rparr>
        else start_send_timer \<lceil>send_duration bytes_queued (tr_rate_limit t)\<rceil> t
      else t)"

definition send_next_packet :: "'z sender_env \<Rightarrow> bool \<Rightarrow> transmitter \<Rightarrow> transmitter outcome" where
  "send_next_packet env takes t =
     (if \<not> tr_active t then (Inr (), t)
      else
        case (case next_file t of None \<Rightarrow> (Inr 0, t) | Some i \<Rightarrow> send_packet_of env takes i t) of
          (Inl e, t') \<Rightarrow> (Inl e, t')
        | (Inr n, t') \<Rightarrow> (Inr (), reschedule n t'))"

text \<open>The completion handler of a send. A datagram the socket had not taken yet is read from the buffer
  now.\<close>

definition transmit_late :: "pending_send \<Rightarrow> transmitter \<Rightarrow> transmitter result" where
  "transmit_late p t =
     (if pd_taken p then Inr t
      else case pd_data p of
             None \<Rightarrow> Inl (Undefined ''read of freed memory'')
           | Some data \<Rightarrow> Inr (t\<lparr>tr_sent := tr_sent t @ [(pd_endpoint p, data)]\<rparr>))"

definition send_completed ::
  "'z sender_env \<Rightarrow> u64 \<Rightarrow> bool \<Rightarrow> pending_send \<Rightarrow> transmitter \<Rightarrow> transmitter outcome option" where
  "send_completed env now error p t =
     (if error then Some (Inr (), t)
      else
        case transmit_late p t of
          Inl e \<Rightarrow> Some (Inl e, t)
        | Inr t1 \<Rightarrow>
            (case mark_completed (se_md5 env) (pd_symbols p) True (tr_store t1 ! pd_file p) of
               (Inl e, f) \<Rightarrow> Some (Inl e, update_file (pd_file p) f t1)
             | (Inr _, f) \<Rightarrow>
                 let t2 = update_file (pd_file p) f t1 in
                 if fl_complete f then file_transmitted env now (fe_toi (fl_meta f)) t2 else Some (Inr (), t2)))"

section \<open>The application\<close>

definition activate :: "'z sender_env \<Rightarrow> bool \<Rightarrow> transmitter \<Rightarrow> transmitter outcome" where
  "activate env takes t =
     (if \<not> tr_active t then send_next_packet env takes (start_fdt_repeat_timer (t\<lparr>tr_active := True\<rparr>))
      else (Inr (), t))"

definition deactivate :: "transmitter \<Rightarrow> transmitter" where
  "deactivate t =
     (if tr_active t then cancel_send_timer (t\<lparr>tr_active := False, tr_fdt_waits := 0\<rparr>) else t)"

definition set_rate_limit :: "u32 \<Rightarrow> transmitter \<Rightarrow> transmitter" where
  "set_rate_limit limit t = t\<lparr>tr_rate_limit := limit\<rparr>"

definition set_endpoint :: "endpoint \<Rightarrow> transmitter \<Rightarrow> transmitter" where
  "set_endpoint e t = t\<lparr>tr_endpoint := e\<rparr>"

definition set_source_address :: "u32 option \<Rightarrow> transmitter \<Rightarrow> transmitter" where
  "set_source_address a t = t\<lparr>tr_source := a\<rparr>"

text \<open>\<^verbatim>\<open>source_address\<close> sets the member, then binds the socket to the address when there is no tunnel; \<open>bound\<close>
  says whether the bind succeeds. A failure is thrown as a \<^verbatim>\<open>system_error\<close>, and the member stays set.\<close>

definition source_address :: "bool \<Rightarrow> u32 option \<Rightarrow> transmitter \<Rightarrow> transmitter outcome" where
  "source_address bound a t =
     (let t' = set_source_address a t in
      (if tr_source t' \<noteq> None \<and> tr_tunnel t' = None \<and> \<not> bound then Inl (StdExc ''bind'') else Inr (), t'))"

definition transmitter_register_completion_callback :: "transmitter \<Rightarrow> transmitter" where
  "transmitter_register_completion_callback t = t\<lparr>tr_callback := True\<rparr>"

text \<open>The payload shrinks and grows with the tunnel; the parameters of the session do not change.\<close>

definition set_udp_tunnel_address :: "'z sender_env \<Rightarrow> endpoint option \<Rightarrow> transmitter \<Rightarrow> transmitter" where
  "set_udp_tunnel_address env new t =
     (let t1 =
            (if (tr_tunnel t \<noteq> None) = (new \<noteq> None)
             then (if tr_tunnel t \<noteq> None then t\<lparr>tr_tunnel := new\<rparr> else t)
             else if tr_tunnel t \<noteq> None
             then t\<lparr>tr_max_payload := tr_max_payload t + (20 + 8), tr_tunnel := None\<rparr>
             else t\<lparr>tr_tunnel := new, tr_max_payload := tr_max_payload t - (20 + 8)\<rparr>)
      in case tr_tunnel t1 of
           None \<Rightarrow> t1
         | Some e \<Rightarrow> t1\<lparr>tr_tunnel_local := se_local_address env e\<rparr>)"

text \<open>The members as the constructor sets them, then its start.\<close>

definition idle_transmitter ::
  "'z sender_env \<Rightarrow> endpoint \<Rightarrow> u64 \<Rightarrow> u16 \<Rightarrow> u32 \<Rightarrow> endpoint option \<Rightarrow> fdt_namespace \<Rightarrow> bool \<Rightarrow> u32 option \<Rightarrow>
     transmitter" where
  "idle_transmitter env to tsi mtu rate tunnel ns active source =
     (let payload0 = ucast mtu - 20 - 8 - 32 - 4 :: u32;
          payload = (if tunnel \<noteq> None then payload0 - (20 + 8) else payload0);
          oti = fec_oti_zero\<lparr>encoding_id := CompactNoCode, encoding_symbol_length := payload,
                             max_source_block_length := 64\<rparr>
      in \<lparr>tr_endpoint = to, tr_source = source, tr_tunnel = tunnel,
          tr_tunnel_local = (case tunnel of None \<Rightarrow> 0 | Some e \<Rightarrow> se_local_address env e),
          tr_tsi = tsi, tr_mtu = mtu, tr_max_payload = payload, tr_fec_oti = oti,
          tr_fdt = fdt_new 1 oti ns (se_uninit_time env), tr_store = [], tr_files = [], tr_toi = 1,
          tr_rate_limit = rate, tr_active = active, tr_callback = False, tr_pending = [],
          tr_send_waits = 0, tr_send_ready = 0, tr_send_delay = 0, tr_fdt_waits = 0, tr_fdt_ready = 0,
          tr_sent = [], tr_completed = []\<rparr>)"

definition transmitter_new ::
  "'z sender_env \<Rightarrow> endpoint \<Rightarrow> u64 \<Rightarrow> u16 \<Rightarrow> u32 \<Rightarrow> endpoint option \<Rightarrow> fdt_namespace \<Rightarrow> bool \<Rightarrow> u32 option \<Rightarrow>
     transmitter outcome" where
  "transmitter_new env to tsi mtu rate tunnel ns active source =
     (let t = idle_transmitter env to tsi mtu rate tunnel ns active source
      in if active then send_next_packet env True (start_fdt_repeat_timer t) else (Inr (), t))"

section \<open>The event loop\<close>

text \<open>A timer expires for all that wait on it; a handler that is ready is called.\<close>

definition send_timer_expires :: "transmitter \<Rightarrow> transmitter" where
  "send_timer_expires t = cancel_send_timer t"

definition fdt_timer_expires :: "transmitter \<Rightarrow> transmitter" where
  "fdt_timer_expires t = t\<lparr>tr_fdt_ready := tr_fdt_ready t + tr_fdt_waits t, tr_fdt_waits := 0\<rparr>"

definition run_send_handler :: "'z sender_env \<Rightarrow> bool \<Rightarrow> transmitter \<Rightarrow> transmitter outcome" where
  "run_send_handler env takes t = send_next_packet env takes (t\<lparr>tr_send_ready := tr_send_ready t - 1\<rparr>)"

definition run_fdt_handler :: "'z sender_env \<Rightarrow> u64 \<Rightarrow> transmitter \<Rightarrow> transmitter outcome option" where
  "run_fdt_handler env now t = fdt_send_tick env now False (t\<lparr>tr_fdt_ready := tr_fdt_ready t - 1\<rparr>)"

definition remove_pending :: "nat \<Rightarrow> transmitter \<Rightarrow> transmitter" where
  "remove_pending k t = t\<lparr>tr_pending := take k (tr_pending t) @ drop (Suc k) (tr_pending t)\<rparr>"

definition run_completion ::
  "'z sender_env \<Rightarrow> u64 \<Rightarrow> bool \<Rightarrow> nat \<Rightarrow> transmitter \<Rightarrow> transmitter outcome option" where
  "run_completion env now error k t = send_completed env now error (tr_pending t ! k) (remove_pending k t)"

end
