(* ===== verification/Send_Queue.thy ===== *)
theory Send_Queue
  imports Transmitter Delivery
begin

text \<open>
  A file in the transmitter's queue: which of its symbols are in flight and which have been sent. The
  next packet carries one symbol of the file at the right place, the completion of its send marks that
  symbol and no other.
\<close>

section \<open>The state of a file\<close>

text \<open>\<open>S\<close> are the symbols sent, \<open>Q\<close> those queued in a send, as pairs of block number and identifier.\<close>

definition send_slot :: "nat \<Rightarrow> fec_oti \<Rightarrow> (nat \<times> nat) set \<Rightarrow> (nat \<times> nat) set \<Rightarrow> nat \<Rightarrow> nat \<Rightarrow> symbol_slot" where
  "send_slot a oti S Q i j =
     (slot_at a oti (block_start oti i + j))\<lparr>sl_complete := (i, j) \<in> S, sl_queued := (i, j) \<in> Q\<rparr>"

definition send_slots :: "nat \<Rightarrow> fec_oti \<Rightarrow> (nat \<times> nat) set \<Rightarrow> (nat \<times> nat) set \<Rightarrow> nat \<Rightarrow> (u16, symbol_slot) omap" where
  "send_slots a oti S Q i = map (\<lambda>j. (of_nat j, send_slot a oti S Q i j)) [0..<block_len oti i]"

definition send_block :: "nat \<Rightarrow> fec_oti \<Rightarrow> (nat \<times> nat) set \<Rightarrow> (nat \<times> nat) set \<Rightarrow> nat \<Rightarrow> source_block" where
  "send_block a oti S Q i =
     \<lparr>sb_complete = (\<forall>j < block_len oti i. (i, j) \<in> S), sb_symbols = send_slots a oti S Q i\<rparr>"

definition send_blocks :: "nat \<Rightarrow> fec_oti \<Rightarrow> (nat \<times> nat) set \<Rightarrow> (nat \<times> nat) set \<Rightarrow> (u16, source_block) omap" where
  "send_blocks a oti S Q = map (\<lambda>i. (of_nat i, send_block a oti S Q i)) [0..<total_blocks oti]"

text \<open>The allocation the symbols are in.\<close>

definition file_buffer :: "flute_file \<Rightarrow> nat" where
  "file_buffer f = the (fl_buffer f)"

lemma file_buffer_simps [simp]:
  "file_buffer (f\<lparr>fl_source_blocks := bs\<rparr>) = file_buffer f" "file_buffer (f\<lparr>fl_complete := c\<rparr>) = file_buffer f"
  "file_buffer (f\<lparr>fl_fdt_instance_id := n\<rparr>) = file_buffer f"
  by (simp_all add: file_buffer_def)

definition sender_file ::
  "fec_oti \<Rightarrow> byte list \<Rightarrow> (nat \<times> nat) set \<Rightarrow> (nat \<times> nat) set \<Rightarrow> flute_file \<Rightarrow> bool" where
  "sender_file oti data S Q f \<longleftrightarrow>
     fl_oti f = oti \<and> fl_source_blocks f = send_blocks (file_buffer f) oti S Q \<and>
     fl_buffer f \<noteq> None \<and> heap_at (fl_heap f) (file_buffer f) = Some data \<and> \<not> fl_been_decoded f \<and>
     length data = tlen oti \<and>
     (fl_complete f \<longleftrightarrow> symbol_pairs oti \<subseteq> S) \<and> S \<subseteq> symbol_pairs oti \<and> Q \<subseteq> symbol_pairs oti - S"

section \<open>The next symbol\<close>

definition free_slot :: "symbol_slot \<Rightarrow> bool" where
  "free_slot s \<longleftrightarrow> \<not> sl_complete s \<and> \<not> sl_queued s"

lemma take_slots_full: "take_slots f 1 sbn 1 slots = ([], slots, 1)"
  by (cases slots) auto

lemma take_slots_none:
  "\<forall>x \<in> set slots. \<not> free_slot (snd x) \<Longrightarrow> take_slots f 1 sbn 0 slots = ([], slots, 0)"
  by (induction slots) (auto simp: free_slot_def)

lemma take_slots_one:
  assumes "\<exists>x \<in> set slots. free_slot (snd x)"
  shows "\<exists>pre esi s post. slots = pre @ (esi, s) # post \<and> free_slot s \<and>
    take_slots f 1 sbn 0 slots =
      ([symbol_of_slot f sbn esi s], pre @ (esi, s\<lparr>sl_queued := True\<rparr>) # post, 1)"
  using assms
proof (induction slots)
  case (Cons x slots)
  obtain esi s where x: "x = (esi, s)" by (cases x)
  show ?case
  proof (cases "free_slot s")
    case True
    then show ?thesis
      by (intro exI [of _ "[]"] exI [of _ esi] exI [of _ s] exI [of _ slots])
        (simp add: x free_slot_def take_slots_full)
  next
    case False
    with Cons x obtain pre esi' s' post where "slots = pre @ (esi', s') # post" "free_slot s'"
      "take_slots f 1 sbn 0 slots = ([symbol_of_slot f sbn esi' s'], pre @ (esi', s'\<lparr>sl_queued := True\<rparr>) # post, 1)"
      by auto
    with False x show ?thesis
      by (intro exI [of _ "x # pre"] exI [of _ esi'] exI [of _ s'] exI [of _ post]) (auto simp: free_slot_def)
  qed
qed simp

text \<open>Blocks that are complete are skipped.\<close>

definition free_block :: "source_block \<Rightarrow> bool" where
  "free_block b \<longleftrightarrow> \<not> sb_complete b \<and> (\<exists>x \<in> set (sb_symbols b). free_slot (snd x))"

lemma take_blocks_full: "take_blocks f 1 1 blocks = ([], blocks)"
  by (cases blocks) auto

lemma take_blocks_none:
  "\<forall>x \<in> set blocks. \<not> free_block (snd x) \<Longrightarrow> take_blocks f 1 0 blocks = ([], blocks)"
proof (induction blocks)
  case (Cons x blocks)
  obtain sbn b where x: "x = (sbn, b)" by (cases x)
  with Cons have "sb_complete b \<or> take_slots f 1 sbn 0 (sb_symbols b) = ([], sb_symbols b, 0)"
    by (auto simp: free_block_def intro!: take_slots_none)
  with Cons x show ?case by auto
qed simp

lemma take_blocks_one:
  assumes "\<exists>x \<in> set blocks. free_block (snd x)"
  shows "\<exists>bpre sbn b bpost pre esi s post. blocks = bpre @ (sbn, b) # bpost \<and> sb_symbols b = pre @ (esi, s) # post \<and>
    free_slot s \<and> take_blocks f 1 0 blocks =
      ([symbol_of_slot f sbn esi s],
       bpre @ (sbn, b\<lparr>sb_symbols := pre @ (esi, s\<lparr>sl_queued := True\<rparr>) # post\<rparr>) # bpost)"
  using assms
proof (induction blocks)
  case (Cons x blocks)
  obtain sbn b where x: "x = (sbn, b)" by (cases x)
  show ?case
  proof (cases "free_block b")
    case True
    then have "\<not> sb_complete b" "\<exists>x \<in> set (sb_symbols b). free_slot (snd x)" by (simp_all add: free_block_def)
    with take_slots_one [OF this(2), of f sbn] obtain pre esi s post where
      "sb_symbols b = pre @ (esi, s) # post" "free_slot s"
      "take_slots f 1 sbn 0 (sb_symbols b) =
        ([symbol_of_slot f sbn esi s], pre @ (esi, s\<lparr>sl_queued := True\<rparr>) # post, 1)" by blast
    with \<open>\<not> sb_complete b\<close> show ?thesis
      by (intro exI [of _ "[]"] exI [of _ sbn] exI [of _ b] exI [of _ blocks] exI [of _ pre] exI [of _ esi] exI [of _ s]
          exI [of _ post]) (simp add: x take_blocks_full)
  next
    case False
    then have skip: "sb_complete b \<or> take_slots f 1 sbn 0 (sb_symbols b) = ([], sb_symbols b, 0)"
      by (auto simp: free_block_def intro!: take_slots_none)
    from False Cons x obtain bpre sbn' b' bpost pre esi s post where r: "blocks = bpre @ (sbn', b') # bpost"
      "sb_symbols b' = pre @ (esi, s) # post" "free_slot s"
      "take_blocks f 1 0 blocks = ([symbol_of_slot f sbn' esi s],
         bpre @ (sbn', b'\<lparr>sb_symbols := pre @ (esi, s\<lparr>sl_queued := True\<rparr>) # post\<rparr>) # bpost)" by auto
    then show ?thesis using skip x
      by (intro exI [of _ "x # bpre"] exI [of _ sbn'] exI [of _ b'] exI [of _ bpost] exI [of _ pre] exI [of _ esi]
          exI [of _ s] exI [of _ post]) auto
  qed
qed simp


section \<open>The next packet of a file\<close>

lemma map_upt_split:
  assumes "map g [0..<n] = xs @ y # ys"
  shows "length xs < n" and "y = g (length xs)" and "xs = map g [0..<length xs]" and "ys = map g [Suc (length xs)..<n]"
proof -
  have l: "n = length xs + Suc (length ys)" using arg_cong [OF assms, of length] by simp
  then show i: "length xs < n" by simp
  then have "[0..<n] = [0..<length xs] @ length xs # [Suc (length xs)..<n]"
    by (metis le_add1 le_add_same_cancel1 less_imp_add_positive upt_add_eq_append upt_conv_Cons less_imp_le_nat)
  then have "map g [0..<length xs] @ g (length xs) # map g [Suc (length xs)..<n] = xs @ y # ys"
    using assms by simp
  then show "y = g (length xs)" "xs = map g [0..<length xs]" "ys = map g [Suc (length xs)..<n]"
    by (simp_all add: append_eq_append_conv)
qed

lemma map_upt_update:
  assumes "i < n"
  shows "map g [0..<i] @ y # map g [Suc i..<n] = map (\<lambda>k. if k = i then y else g k) [0..<n]"
proof -
  have "[0..<n] = [0..<i] @ i # [Suc i..<n]"
    using assms by (metis le_add1 le_add_same_cancel1 less_imp_add_positive upt_add_eq_append upt_conv_Cons less_imp_le_nat)
  then show ?thesis by simp
qed

lemma free_send_block:
  "free_block (send_block a oti S Q i) \<longleftrightarrow> (\<exists>j < block_len oti i. (i, j) \<notin> S \<union> Q)"
  by (auto simp: free_block_def send_block_def send_slots_def send_slot_def free_slot_def)

lemma free_send_blocks:
  "(\<exists>x \<in> set (send_blocks a oti S Q). free_block (snd x)) \<longleftrightarrow> \<not> symbol_pairs oti \<subseteq> S \<union> Q"
  by (auto simp: send_blocks_def free_send_block symbol_pairs_def subset_iff)

text \<open>The symbol at \<open>(i, j)\<close> as the file makes it.\<close>

lemma sent_symbol_genuine:
  assumes ok: "partition_ok oti" and f: "sender_file oti data S Q f" and ij: "(i, j) \<in> symbol_pairs oti"
    and id: "encoding_id oti = CompactNoCode"
  defines "s \<equiv> symbol_of_slot f (of_nat i) (of_nat j) (send_slot (file_buffer f) oti S Q i j)"
  shows "genuine oti data (i, j) s" and "symbol_ok s" and "0 < es_len s" and "es_len s \<le> ucast (encoding_symbol_length oti)"
proof -
  let ?k = "symbol_index oti (i, j)"
  have i: "i < total_blocks oti" and j: "j < block_len oti i" using ij by (simp_all add: symbol_pairs_def)
  have u: "unat (of_nat i :: u16) = i" "unat (of_nat j :: u16) = j"
    using i j partition_bounds(1) [OF ok] partition_bounds(2) [OF ok, of i] by (simp_all add: unat_of_nat take_bit_nat_eq_self)
  have k: "?k < total_symbols oti" using ok ij by (rule symbol_index_less)
  note before = symbol_before_end [OF ok k]
  have n: "unat (es_len s) = min (slen oti) (tlen oti - ?k * slen oti)"
    using slot_step(2) [OF ok k] by (simp add: s_def symbol_of_slot_def send_slot_def slot_at_def symbol_index_def)
  have len: "length data = tlen oti" and oti: "fl_oti f = oti" using f by (simp_all add: sender_file_def)
  have mem: "es_mem s = drop (?k * slen oti) data"
    using f by (simp add: s_def symbol_of_slot_def send_slot_def slot_at_def heap_from_def heap_at_def sender_file_def
        symbol_index_def)
  have scheme: "es_fec_scheme s = CompactNoCode" using id oti by (simp add: s_def symbol_of_slot_def)
  show ok_s: "symbol_ok s" using n mem len scheme by (simp add: symbol_ok_def)
  have "symbol_bytes s = Inr (take (unat (es_len s)) (drop (?k * slen oti) data))"
    using symbol_bytes_ok [OF ok_s] by (simp add: symbol_data_def mem)
  with ij u n scheme show "genuine oti data (i, j) s"
    by (simp add: genuine_def) (simp add: s_def symbol_of_slot_def)
  show "0 < es_len s" using n before ok by (simp add: word_less_nat_alt partition_ok_def)
  show "es_len s \<le> ucast (encoding_symbol_length oti)" using n by (simp add: word_le_nat_alt)
qed


lemma block_queued:
  assumes "(send_block a oti S Q i)\<lparr>sb_symbols := pre @ (esi, s\<lparr>sl_queued := True\<rparr>) # post\<rparr> = b"
    and "sb_symbols (send_block a oti S Q i) = pre @ (esi, s) # post" and "block_len oti i \<le> 65536"
  shows "\<exists>j < block_len oti i. esi = of_nat j \<and> s = send_slot a oti S Q i j \<and> b = send_block a oti S (insert (i, j) Q) i"
proof -
  define j where "j = length pre"
  let ?g = "\<lambda>j. (of_nat j :: u16, send_slot a oti S Q i j)"
  have "map ?g [0..<block_len oti i] = pre @ (esi, s) # post"
    using assms(2) by (simp add: send_block_def send_slots_def)
  note split = map_upt_split [OF this]
  have j: "j < block_len oti i" using split(1) by (simp add: j_def)
  have y: "esi = of_nat j" "s = send_slot a oti S Q i j" using split(2) by (simp_all add: j_def)
  have "pre @ (esi, s\<lparr>sl_queued := True\<rparr>) # post =
      map (\<lambda>k. if k = j then (esi, s\<lparr>sl_queued := True\<rparr>) else ?g k) [0..<block_len oti i]"
    using map_upt_update [OF j, of ?g] split(3,4) by (simp add: j_def)
  also have "\<dots> = send_slots a oti S (insert (i, j) Q) i"
    by (auto simp: send_slots_def send_slot_def y)
  finally show ?thesis using assms(1) j y by (auto simp: send_block_def)
qed

lemma next_symbol_block:
  assumes ok: "partition_ok oti" and "\<not> symbol_pairs oti \<subseteq> S \<union> Q"
  shows "\<exists>i j. (i, j) \<in> symbol_pairs oti \<and> (i, j) \<notin> S \<union> Q \<and>
    take_blocks f 1 0 (send_blocks a oti S Q) =
      ([symbol_of_slot f (of_nat i) (of_nat j) (send_slot a oti S Q i j)], send_blocks a oti S (insert (i, j) Q))"
proof -
  from assms(2) obtain bpre sbn b bpost pre esi s post where
    blocks: "send_blocks a oti S Q = bpre @ (sbn, b) # bpost" and slots: "sb_symbols b = pre @ (esi, s) # post"
    and free: "free_slot s" and step: "take_blocks f 1 0 (send_blocks a oti S Q) =
      ([symbol_of_slot f sbn esi s],
       bpre @ (sbn, b\<lparr>sb_symbols := pre @ (esi, s\<lparr>sl_queued := True\<rparr>) # post\<rparr>) # bpost)"
    using take_blocks_one [of "send_blocks a oti S Q" f] unfolding free_send_blocks by blast
  define i where "i = length bpre"
  let ?g = "\<lambda>i. (of_nat i :: u16, send_block a oti S Q i)"
  note split = map_upt_split [OF blocks [unfolded send_blocks_def]]
  have i: "i < total_blocks oti" and y: "sbn = of_nat i" "b = send_block a oti S Q i"
    using split(1,2) by (simp_all add: i_def)
  from block_queued [OF refl slots [unfolded y(2)] partition_bounds(2) [OF ok]] obtain j where
    j: "j < block_len oti i" "esi = of_nat j" "s = send_slot a oti S Q i j"
    "b\<lparr>sb_symbols := pre @ (esi, s\<lparr>sl_queued := True\<rparr>) # post\<rparr> = send_block a oti S (insert (i, j) Q) i"
    by (auto simp: y(2))
  have "bpre @ (sbn, send_block a oti S (insert (i, j) Q) i) # bpost =
      map (\<lambda>k. if k = i then (sbn, send_block a oti S (insert (i, j) Q) i) else ?g k) [0..<total_blocks oti]"
    using map_upt_update [OF i, of ?g] split(3,4) by (simp add: i_def)
  also have "\<dots> = send_blocks a oti S (insert (i, j) Q)"
    by (auto simp: send_blocks_def send_block_def send_slots_def send_slot_def y)
  finally have "take_blocks f 1 0 (send_blocks a oti S Q) =
      ([symbol_of_slot f (of_nat i) (of_nat j) (send_slot a oti S Q i j)], send_blocks a oti S (insert (i, j) Q))"
    using step j y(1) by simp
  moreover have "(i, j) \<notin> S \<union> Q" using free j(3) by (simp add: free_slot_def send_slot_def)
  ultimately show ?thesis using i j(1) by (auto simp: symbol_pairs_def)
qed

text \<open>A payload of at most one full symbol gives packets of one symbol.\<close>

lemma next_symbol:
  fixes mp :: u32
  assumes ok: "partition_ok oti" and f: "sender_file oti data S Q f" and id: "encoding_id oti = CompactNoCode"
    and mp: "4 < unat mp" "unat mp - 4 \<le> slen oti" "unat mp < 2 ^ 24" "slen oti < 2 ^ 24"
  shows "if symbol_pairs oti \<subseteq> S \<union> Q then get_next_symbols (ucast mp) f = Inr ([], f)
    else \<exists>ij s f'. get_next_symbols (ucast mp) f = Inr ([s], f') \<and> ij \<in> symbol_pairs oti \<and> ij \<notin> S \<union> Q \<and>
      genuine oti data ij s \<and> symbol_run (encoding_symbol_length oti) [s] \<and> sender_file oti data S (insert ij Q) f' \<and>
      f' = f\<lparr>fl_source_blocks := send_blocks (file_buffer f) oti S (insert ij Q)\<rparr>"
proof -
  have blocks: "fl_source_blocks f = send_blocks (file_buffer f) oti S Q" and oti: "fl_oti f = oti"
    using f by (simp_all add: sender_file_def)
  have "unat (ucast mp - 4 :: u64) = unat mp - 4"
    using mp(1) unat_sub [of 4 "ucast mp :: u64"] by (simp add: word_le_nat_alt)
  moreover have "fp_ceil_div 24 (unat mp - 4) (slen oti) = Inr (int (ceil_div (unat mp - 4) (slen oti)))"
    using mp by (intro fp_ceil_div_exact) simp_all
  moreover have "ceil_div (unat mp - 4) (slen oti) = 1" using mp by (intro ceil_div_le_one) simp_all
  ultimately have next1: "get_next_symbols (ucast mp) f =
      (let (syms, blocks) = take_blocks f 1 0 (fl_source_blocks f) in Inr (syms, f\<lparr>fl_source_blocks := blocks\<rparr>))"
    by (simp add: get_next_symbols_def oti to_int32_def)
  show ?thesis
  proof (cases "symbol_pairs oti \<subseteq> S \<union> Q")
    case True
    then have "take_blocks f 1 0 (send_blocks (file_buffer f) oti S Q) = ([], send_blocks (file_buffer f) oti S Q)"
      using free_send_blocks [of "file_buffer f" oti S Q] by (intro take_blocks_none) blast
    moreover have "f\<lparr>fl_source_blocks := send_blocks (file_buffer f) oti S Q\<rparr> = f" using blocks by simp
    ultimately show ?thesis using True by (simp add: next1 blocks)
  next
    case False
    from next_symbol_block [OF ok False] obtain i j where ij: "(i, j) \<in> symbol_pairs oti" "(i, j) \<notin> S \<union> Q"
      and step: "take_blocks f 1 0 (send_blocks (file_buffer f) oti S Q) =
        ([symbol_of_slot f (of_nat i) (of_nat j) (send_slot (file_buffer f) oti S Q i j)], send_blocks (file_buffer f) oti S (insert (i, j) Q))"
      by blast
    let ?s = "symbol_of_slot f (of_nat i) (of_nat j) (send_slot (file_buffer f) oti S Q i j)"
    let ?f' = "f\<lparr>fl_source_blocks := send_blocks (file_buffer f) oti S (insert (i, j) Q)\<rparr>"
    note g = sent_symbol_genuine [OF ok f ij(1) id]
    have "unat (es_id ?s) < 2 ^ 16" "unat (es_source_block_number ?s) < 2 ^ 16"
      using unsigned_less [of "of_nat j :: u16"] unsigned_less [of "of_nat i :: u16"] by (simp_all add: symbol_of_slot_def)
    with g have "symbol_run (encoding_symbol_length oti) [?s]" by (simp add: symbol_run_def)
    moreover have "sender_file oti data S (insert (i, j) Q) ?f'" using f ij by (auto simp: sender_file_def)
    ultimately show ?thesis using False step ij g(1) by (auto simp: next1 blocks)
  qed
qed


section \<open>A sent symbol\<close>

lemma send_all_complete:
  "list_all (\<lambda>(_, b). sb_complete b) (send_blocks a oti S Q) \<longleftrightarrow> symbol_pairs oti \<subseteq> S"
  by (auto simp: send_blocks_def send_block_def list_all_iff symbol_pairs_def)

lemma sender_content:
  "sender_file oti data S Q f \<Longrightarrow> buffer_bytes f (unat (file_length f)) = Inr data"
  by (auto simp: sender_file_def buffer_bytes_def file_length_def file_buffer_def read_bytes_def)

lemma check_file_completion_sender:
  assumes "md5_ok md5 data (fl_meta f)" and "sender_file oti data S Q (f\<lparr>fl_complete := symbol_pairs oti \<subseteq> S\<rparr>)"
  shows "check_file_completion md5 f = (Inr (), f\<lparr>fl_complete := symbol_pairs oti \<subseteq> S\<rparr>)"
proof -
  let ?f = "f\<lparr>fl_complete := symbol_pairs oti \<subseteq> S\<rparr>"
  have all: "list_all (\<lambda>(_, b). sb_complete b) (fl_source_blocks f) = (symbol_pairs oti \<subseteq> S)"
    using assms(2) by (simp add: sender_file_def send_all_complete)
  show ?thesis
  proof (cases "symbol_pairs oti \<subseteq> S \<and> content_md5 (fl_meta f) \<noteq> [] \<and> fe_content_encoding (fl_meta f) = []")
    case True
    then have "verify_md5 md5 ?f = (Inr (), ?f)"
      using sender_content [OF assms(2)] assms(1)
      by (intro verify_md5_ok) (simp_all add: md5_ok_def)
    with True all show ?thesis
      unfolding check_file_completion_def Let_def all by simp
  next
    case False
    then show ?thesis
      unfolding check_file_completion_def Let_def all by auto
  qed
qed

lemma sent_slots:
  assumes "j < block_len oti i" and "block_len oti i \<le> 65536"
  shows "om_set (of_nat j) ((send_slot a oti S Q i j)\<lparr>sl_queued := False, sl_complete := True\<rparr>) (send_slots a oti S Q i) =
    send_slots a oti (insert (i, j) S) (Q - {(i, j)}) i"
  unfolding send_slots_def
  by (subst om_set_index [OF assms]) (auto simp: send_slot_def)

lemma sent_blocks:
  assumes "i < total_blocks oti" and "total_blocks oti \<le> 65536"
  shows "om_set (of_nat i) (send_block a oti (insert (i, j) S) (Q - {(i, j)}) i) (send_blocks a oti S Q) =
    send_blocks a oti (insert (i, j) S) (Q - {(i, j)})"
  unfolding send_blocks_def
  by (subst om_set_index [OF assms]) (auto simp: send_block_def send_slots_def send_slot_def)

lemma sent_symbol_marked:
  assumes ok: "partition_ok oti" and md5: "md5_ok md5 data (fl_meta f)" and f: "sender_file oti data S Q f"
    and gen: "genuine oti data ij s" and ij: "ij \<in> Q"
  shows "mark_completed md5 [s] True f =
    (Inr (), f\<lparr>fl_source_blocks := send_blocks (file_buffer f) oti (insert ij S) (Q - {ij}), fl_complete := symbol_pairs oti \<subseteq> insert ij S\<rparr>)"
    and "sender_file oti data (insert ij S) (Q - {ij})
      (f\<lparr>fl_source_blocks := send_blocks (file_buffer f) oti (insert ij S) (Q - {ij}), fl_complete := symbol_pairs oti \<subseteq> insert ij S\<rparr>)"
proof -
  let ?S = "insert ij S" and ?Q = "Q - {ij}"
  let ?g = "f\<lparr>fl_source_blocks := send_blocks (file_buffer f) oti ?S ?Q\<rparr>"
  obtain i j where eq: "ij = (i, j)" by (cases ij)
  have mem: "(i, j) \<in> symbol_pairs oti" and ids: "unat (es_source_block_number s) = i" "unat (es_id s) = j"
    using gen by (simp_all add: genuine_def eq)
  then have i: "i < total_blocks oti" and j: "j < block_len oti i" by (simp_all add: symbol_pairs_def)
  note n = partition_bounds(1) [OF ok] partition_bounds(2) [OF ok, of i]
  have key: "ucast (es_source_block_number s) = (of_nat i :: u16)" "ucast (es_id s) = (of_nat j :: u16)"
    by (simp_all add: ids [symmetric])
  have u: "unat (of_nat i :: u16) = i" "unat (of_nat j :: u16) = j"
    using i j n by (simp_all add: unat_of_nat take_bit_nat_eq_self)
  have blocks: "fl_source_blocks f = send_blocks (file_buffer f) oti S Q" using f by (simp add: sender_file_def)
  have look: "om_get (send_blocks (file_buffer f) oti S Q) (of_nat i :: u16) = Some (send_block (file_buffer f) oti S Q i)"
    "om_get (sb_symbols (send_block (file_buffer f) oti S Q i)) (of_nat j :: u16) = Some (send_slot (file_buffer f) oti S Q i j)"
    using i j n u by (simp_all add: send_blocks_def send_block_def send_slots_def om_get_indexed)
  have "check_source_block_completion ((send_block (file_buffer f) oti S Q i)\<lparr>sb_symbols := send_slots (file_buffer f) oti ?S ?Q i\<rparr>) =
      send_block (file_buffer f) oti ?S ?Q i"
    by (auto simp: check_source_block_completion_def send_block_def send_slots_def send_slot_def list_all_iff)
  then have mark: "mark_symbol md5 True s f = check_file_completion md5 ?g"
    using look sent_slots [OF j n(2), of "file_buffer f" S Q] sent_blocks [OF i n(1), of "file_buffer f" j S Q]
    by (simp add: mark_symbol_def key blocks eq) (simp add: send_block_def)
  have "ij \<in> symbol_pairs oti" using mem eq by simp
  then show s: "sender_file oti data ?S ?Q (f\<lparr>fl_source_blocks := send_blocks (file_buffer f) oti ?S ?Q, fl_complete := symbol_pairs oti \<subseteq> ?S\<rparr>)"
    using f by (auto simp: sender_file_def)
  then have "check_file_completion md5 ?g = (Inr (), ?g\<lparr>fl_complete := symbol_pairs oti \<subseteq> ?S\<rparr>)"
    using md5 by (intro check_file_completion_sender) simp_all
  then show "mark_completed md5 [s] True f =
    (Inr (), f\<lparr>fl_source_blocks := send_blocks (file_buffer f) oti ?S ?Q, fl_complete := symbol_pairs oti \<subseteq> ?S\<rparr>)"
    using mark by (simp add: mark_completed_def and_then_def)
qed

section \<open>The packet of a symbol\<close>

lemma symbol_packet:
  fixes mp :: u32
  assumes gen: "genuine oti data ij s" and run: "symbol_run (encoding_symbol_length oti) [s]"
    and id: "encoding_id oti = CompactNoCode" and mp: "slen oti \<le> unat mp" "unat mp < 2013"
  shows "\<exists>out. alc_build tsi toi oti [s] (ucast mp) fid = Inr out \<and> packet_of tsi toi fid oti oti data [ij] (wire out)"
proof -
  let ?n = "length (payload_data [s])"
  have s: "symbol_ok s" using run by (simp add: symbol_run_def)
  have "?n = unat (es_len s)" using s by simp
  also have "\<dots> \<le> slen oti" using gen by (simp add: genuine_def)
  finally have n: "?n \<le> unat (ucast mp :: u64)" using mp by simp
  have m: "unat (ucast mp :: u64) < 2 ^ 63" using mp(2) by simp
  from alc_build_image [OF _ _ id n m, of tsi toi fid] s obtain out where out: "alc_build tsi toi oti [s] (ucast mp) fid = Inr out"
    "out_len out = of_nat (4 * lct_words toi + (4 + ?n))" by simp
  have w: "4 * lct_words toi \<le> 32" by (simp add: lct_words_def)
  have n': "?n < 2013" using n mp(2) by simp
  have "unat (out_len out) \<le> max_length"
    unfolding out(2) using w n' by (subst unat_of_nat64) (simp_all add: max_length_def del: payload_data_simps)
  then have "length (wire out) \<le> max_length" by (simp add: wire_def)
  then have "packet_of tsi toi fid oti oti data [ij] (wire out)"
    unfolding packet_of_def using gen run n m out(1) by (intro exI [of _ "[s]"] exI [of _ "ucast mp"] exI [of _ out]) simp
  with out(1) show ?thesis by blast
qed

section \<open>New files\<close>

lemma heap_at_single [simp]: "heap_at [x] 0 = x"
  by (simp add: heap_at_def)

lemma file_blocks_unsent:
  assumes "partition_ok oti"
  shows "file_blocks a oti (total_blocks oti) = send_blocks a oti {} {}" and "\<not> symbol_pairs oti \<subseteq> {}"
proof -
  have l: "0 < block_len oti i" for i using small_length_pos [OF assms] by (simp add: block_len_def)
  then show "file_blocks a oti (total_blocks oti) = send_blocks a oti {} {}"
    by (auto simp: file_blocks_def send_blocks_def send_block_def block_slots_def send_slots_def send_slot_def slot_at_def)
  have "(0, 0) \<in> symbol_pairs oti" using total_blocks_pos [OF assms] l by (simp add: symbol_pairs_def)
  then show "\<not> symbol_pairs oti \<subseteq> {}" by blast
qed

lemma created_sender:
  assumes "partition_ok (fl_oti f)" and "length data = tlen (fl_oti f)" and "heap_at (fl_heap f) b = Some data"
    and "fl_buffer f = Some b" and "\<not> fl_been_decoded f" and "\<not> fl_complete f"
  shows "sender_file (fl_oti f) data {} {} (created_file b f)"
  using assms file_blocks_unsent(1) [OF assms(1), of b] file_blocks_unsent(2) [OF assms(1)]
  by (simp add: sender_file_def created_file_def partition_fields_def file_buffer_def)

text \<open>The entry \<^verbatim>\<open>File\<close> makes up for data.\<close>

definition data_entry ::
  "(byte list \<Rightarrow> byte list) \<Rightarrow> u32 \<Rightarrow> fec_oti \<Rightarrow> string \<Rightarrow> string \<Rightarrow> u64 \<Rightarrow> byte list \<Rightarrow> file_entry" where
  "data_entry md5 toi oti location ctype expires data =
     \<lparr>fe_toi = toi, content_location = location, content_length = of_nat (length data),
      content_md5 = base64_encode (take 16 (md5 data)) False, content_type = ctype, fe_expires = expires,
      fe_fec_oti = oti\<lparr>transfer_length := of_nat (length data)\<rparr>,
      fe_cache_control = \<lparr>no_cache = False, cache_expires = None\<rparr>, fe_content_encoding = '''', etag = ''''\<rparr>"

lemma data_entry_simps [simp]:
  "fe_toi (data_entry md5 toi oti location ctype expires data) = toi"
  "fe_fec_oti (data_entry md5 toi oti location ctype expires data) = oti\<lparr>transfer_length := of_nat (length data)\<rparr>"
  "fe_content_encoding (data_entry md5 toi oti location ctype expires data) = ''''"
  by (simp_all add: data_entry_def)

lemma data_entry_md5: "length (md5 data) = 16 \<Longrightarrow> md5_ok md5 data (data_entry md5 toi oti location ctype expires data)"
  by (simp add: md5_ok_def data_entry_def)

lemma created_file_simps [simp]:
  "fl_meta (created_file b f) = fl_meta f" "fl_fdt_instance_id (created_file b f) = fl_fdt_instance_id f"
  "fl_heap (created_file b f) = fl_heap f" "fl_complete (created_file b f) = fl_complete f"
  by (simp_all add: created_file_def partition_fields_def)

lemma file_with_simps [simp]:
  "fl_meta (file_with meta own buf now d) = meta" "fl_heap (file_with meta own buf now d) = [Some buf]"
  "fl_source_blocks (file_with meta own buf now d) = []" "fl_buffer (file_with meta own buf now d) = Some 0"
  "\<not> fl_been_decoded (file_with meta own buf now d)" "\<not> fl_complete (file_with meta own buf now d)"
  "\<not> fl_been_encoded (file_with meta own buf now d)"
  by (simp_all add: file_with_def)

lemma file_of_data_made:
  assumes "copy_data \<Longrightarrow> \<exists>buf. malloc (length data) = Some buf \<and> length buf = length data"
    and "encoding_id oti = CompactNoCode" and "partition_ok (oti\<lparr>transfer_length := of_nat (length data)\<rparr>)"
  shows "file_of_data malloc md5 uninit toi oti location ctype expires data copy_data =
    Some (Inr (created_file 0 (file_with (data_entry md5 toi oti location ctype expires data) copy_data data uninit None)))"
proof -
  let ?e = "data_entry md5 toi oti location ctype expires data"
  have made: "partition_and_create 0 (file_with ?e own data uninit None) =
      Some (Inr (created_file 0 (file_with ?e own data uninit None)))" for own
    by (rule partition_and_create_eq) (use assms(3) in simp_all)
  have entry: "set_transfer_length (of_nat (length data))
      \<lparr>fe_toi = toi, content_location = location, content_length = of_nat (length data),
       content_md5 = base64_encode (take 16 (md5 data)) False, content_type = ctype, fe_expires = expires,
       fe_fec_oti = oti, fe_cache_control = \<lparr>no_cache = False, cache_expires = None\<rparr>,
       fe_content_encoding = '''', etag = ''''\<rparr> = ?e"
    by (simp add: set_transfer_length_def data_entry_def)
  show ?thesis
  proof (cases copy_data)
    case True
    with assms(1) obtain buf where buf: "malloc (length data) = Some buf" "length buf = length data" by blast
    then have "write_bytes buf 0 data = Inr data" by (simp add: write_bytes_def)
    with True buf made [of True] entry assms(2) show ?thesis by (simp add: file_of_data_def Let_def)
  next
    case False
    with made [of False] entry assms(2) show ?thesis by (simp add: file_of_data_def Let_def)
  qed
qed

lemma made_sender:
  assumes "partition_ok (oti\<lparr>transfer_length := of_nat (length data)\<rparr>)" and "length data < 2 ^ 64"
  shows "sender_file (oti\<lparr>transfer_length := of_nat (length data)\<rparr>) data {} {}
    (created_file 0 (file_with (data_entry md5 toi oti location ctype expires data) own data uninit None))"
proof -
  have "unat (of_nat (length data) :: u64) = length data" using assms(2) by (rule unat_of_nat64)
  then have "sender_file (fl_oti (file_with (data_entry md5 toi oti location ctype expires data) own data uninit None)) data {} {}
      (created_file 0 (file_with (data_entry md5 toi oti location ctype expires data) own data uninit None))"
    by (intro created_sender) (use assms(1) in simp_all)
  then show ?thesis by simp
qed

lemma file_of_description_made:
  assumes "malloc (length data) = Some buf" "length buf = length data" and "encoding_id (fe_fec_oti entry) = CompactNoCode"
    and "encode z (file_with (set_transfer_length (of_nat (length data)) entry) True data uninit (Some number)) = Some (Inr (), f)"
    and "fl_buffer f = Some b" and "fl_source_blocks f = []" and "partition_ok (fl_oti f)"
  shows "file_of_description malloc z uninit number data entry = Some (Inr (created_file b f))"
proof -
  have "write_bytes buf 0 data = Inr data" using assms(2) by (simp add: write_bytes_def)
  moreover have "partition_and_create b f = Some (Inr (created_file b f))"
    using assms(6,7) by (intro partition_and_create_eq)
  ultimately show ?thesis using assms(1,3-5) by (simp add: file_of_description_def)
qed

end
