(* ===== verification/Transmitter_Events.thy ===== *)
theory Transmitter_Events
  imports Send_Queue Event_Machine
begin

text \<open>
  The transmitter as an event machine: the calls of the application, the expiry of the timers, the
  handlers the event loop runs and the completions of sends, in any order the event loop allows. Two
  invariants that hold whatever is sent and wherever: the loops that send packets and repeat the FDT
  stay alive while the transmitter is active, and the FDT lists exactly the files of the queue.
\<close>

section \<open>Events\<close>

datatype tr_op =
    Send_Data u64 string string u32 "byte list"
  | Send_Description u64 process nat description
  | Activate bool
  | Deactivate
  | Set_Rate_Limit u32
  | Set_Endpoint endpoint
  | Set_Source bool "u32 option"
  | Set_Tunnel "endpoint option"
  | Register_Callback
  | Send_Timer_Expires
  | Fdt_Timer_Expires
  | Send_Handler bool
  | Fdt_Handler u64
  | Completion u64 bool nat

text \<open>What the event loop can do next; the application can call at any time.\<close>

fun tr_enabled :: "tr_op \<Rightarrow> transmitter \<Rightarrow> bool" where
  "tr_enabled Send_Timer_Expires t \<longleftrightarrow> 0 < tr_send_waits t"
| "tr_enabled Fdt_Timer_Expires t \<longleftrightarrow> 0 < tr_fdt_waits t"
| "tr_enabled (Send_Handler takes) t \<longleftrightarrow> 0 < tr_send_ready t"
| "tr_enabled (Fdt_Handler now) t \<longleftrightarrow> 0 < tr_fdt_ready t"
| "tr_enabled (Completion now error k) t \<longleftrightarrow> k < length (tr_pending t)"
| "tr_enabled _ t \<longleftrightarrow> True"

fun tr_step :: "'z sender_env \<Rightarrow> tr_op \<Rightarrow> transmitter \<Rightarrow> transmitter outcome option" where
  "tr_step env (Send_Data now location ctype expires data) t = send_data env now location ctype expires data t"
| "tr_step env (Send_Description now s number d) t = map_option snd (send_description env now s number d t)"
| "tr_step env (Activate takes) t = Some (activate env takes t)"
| "tr_step env Deactivate t = Some (Inr (), deactivate t)"
| "tr_step env (Set_Rate_Limit limit) t = Some (Inr (), set_rate_limit limit t)"
| "tr_step env (Set_Endpoint e) t = Some (Inr (), set_endpoint e t)"
| "tr_step env (Set_Source bound a) t = Some (source_address bound a t)"
| "tr_step env (Set_Tunnel e) t = Some (Inr (), set_udp_tunnel_address env e t)"
| "tr_step env Register_Callback t = Some (Inr (), transmitter_register_completion_callback t)"
| "tr_step env Send_Timer_Expires t = Some (Inr (), send_timer_expires t)"
| "tr_step env Fdt_Timer_Expires t = Some (Inr (), fdt_timer_expires t)"
| "tr_step env (Send_Handler takes) t = Some (run_send_handler env takes t)"
| "tr_step env (Fdt_Handler now) t = run_fdt_handler env now t"
| "tr_step env (Completion now error k) t = run_completion env now error k t"

text \<open>A step that returns; \<open>P\<close> restricts what the application does. A run by a list of operations.\<close>

inductive tr_event :: "'z sender_env \<Rightarrow> (tr_op \<Rightarrow> transmitter \<Rightarrow> bool) \<Rightarrow> transmitter \<Rightarrow> transmitter \<Rightarrow> bool"
  for env P where
  "tr_enabled op t \<Longrightarrow> P op t \<Longrightarrow> tr_step env op t = Some (Inr (), t') \<Longrightarrow> tr_event env P t t'"

inductive tr_init :: "'z sender_env \<Rightarrow> transmitter \<Rightarrow> bool" for env where
  "transmitter_new env to tsi mtu rate tunnel ns active source = (Inr (), t) \<Longrightarrow> tr_init env t"

fun tr_run :: "'z sender_env \<Rightarrow> tr_op list \<Rightarrow> transmitter \<Rightarrow> transmitter outcome option" where
  "tr_run env [] t = Some (Inr (), t)"
| "tr_run env (op # ops) t =
     (if tr_enabled op t
      then (case tr_step env op t of Some (Inr _, t') \<Rightarrow> tr_run env ops t' | r \<Rightarrow> r)
      else None)"

lemma source_address_ok [simp]:
  "source_address bound a t = (Inr (), t') \<longleftrightarrow> t' = set_source_address a t \<and> (a = None \<or> tr_tunnel t \<noteq> None \<or> bound)"
  by (auto simp: source_address_def set_source_address_def Let_def)

lemma tr_run_Cons_iff:
  "tr_run env (op # ops) t = Some (Inr (), t') \<longleftrightarrow>
     tr_enabled op t \<and> (\<exists>t1. tr_step env op t = Some (Inr (), t1) \<and> tr_run env ops t1 = Some (Inr (), t'))"
  by (cases "tr_step env op t") (auto split: sum.splits prod.splits)

lemma tr_run_append:
  "tr_run env xs t = Some (Inr (), t') \<Longrightarrow> tr_run env (xs @ ys) t = tr_run env ys t'"
proof (induction xs arbitrary: t)
  case (Cons op xs)
  from Cons.prems obtain t1 where "tr_enabled op t" "tr_step env op t = Some (Inr (), t1)" "tr_run env xs t1 = Some (Inr (), t')"
    unfolding tr_run_Cons_iff by blast
  with Cons.IH [of t1] show ?case by simp
qed simp

lemma tr_run_events:
  "tr_run env ops t = Some (Inr (), t') \<Longrightarrow> \<forall>op \<in> set ops. \<forall>t. P op t \<Longrightarrow> (tr_event env P)\<^sup>*\<^sup>* t t'"
proof (induction ops arbitrary: t)
  case (Cons op ops)
  from Cons.prems obtain t1 where t1: "tr_enabled op t" "tr_step env op t = Some (Inr (), t1)" "tr_run env ops t1 = Some (Inr (), t')"
    unfolding tr_run_Cons_iff by blast
  from t1(1,2) Cons.prems(2) have "tr_event env P t t1" by (intro tr_event.intros [of op]) simp_all
  with Cons.IH [OF t1(3)] Cons.prems(2) show ?case by (simp add: converse_rtranclp_into_rtranclp)
qed simp

section \<open>What the operations leave alone\<close>

text \<open>The files that are made have the identifier they were given.\<close>

lemma partition_and_create_meta:
  "partition_and_create b f = Some (Inr f') \<Longrightarrow> fl_meta f' = fl_meta f"
  by (auto simp: partition_and_create_def create_blocks_def calculate_partitioning_def Let_def rbind_def
      split: sum.splits)

lemma file_of_data_toi:
  "file_of_data malloc md5 uninit toi oti location ctype expires data copy_data = Some (Inr f) \<Longrightarrow>
     fe_toi (fl_meta f) = toi"
  by (auto simp: file_of_data_def Let_def file_with_def set_transfer_length_def dest!: partition_and_create_meta
      split: if_splits option.splits sum.splits)

lemma encode_toi: "encode z f = Some (r, f') \<Longrightarrow> fe_toi (fl_meta f') = fe_toi (fl_meta f)"
  by (auto simp: encode_def Let_def install_buffer_def free_old_def set_transfer_length_def
      split: if_splits option.splits sum.splits prod.splits)

lemma file_of_description_toi:
  "file_of_description malloc z uninit number data entry = Some (Inr f) \<Longrightarrow> fe_toi (fl_meta f) = fe_toi entry"
  by (auto simp: file_of_description_def file_with_def set_transfer_length_def
      dest!: partition_and_create_meta encode_toi split: if_splits option.splits sum.splits)


text \<open>Sending the FDT adds a file for identifier 0, or does nothing when there is nothing to announce.\<close>

definition sent_table :: "u64 \<Rightarrow> fdt \<Rightarrow> fdt" where
  "sent_table now t = fdt_set_expires (now + 10) t"

lemma sent_table_simps [simp]:
  "fdt_file_entries (sent_table now t) = fdt_file_entries t" "instance_id (sent_table now t) = instance_id t"
  by (simp_all add: sent_table_def fdt_set_expires_def)

lemma send_fdt_cases:
  assumes "send_fdt env now t = Some (Inr (), t')"
  obtains (nothing) "fdt_file_entries (tr_fdt t) = []" "t' = t"
  | (queued) f where "fdt_file_entries (tr_fdt t) \<noteq> []"
      "file_of_data (se_malloc env) (se_md5 env) (se_uninit_time env) 0 (tr_fec_oti t) '''' '''' (now + 10)
         (fdt_to_string (se_xml_print env) (sent_table now (tr_fdt t))) True = Some (Inr f)"
      "t' = t\<lparr>tr_fdt := fdt_sent (sent_table now (tr_fdt t)),
              tr_store := tr_store t @ [set_fdt_instance_id (ucast (instance_id (tr_fdt t))) f],
              tr_files := om_set 0 (length (tr_store t)) (tr_files t)\<rparr>"
proof (cases "fdt_file_entries (tr_fdt t) = []")
  case True
  with assms have "t' = t" by (simp add: send_fdt_def)
  with True show ?thesis by (rule that(1))
next
  case False
  let ?T = "sent_table now (tr_fdt t)"
  have T: "fdt_set_expires (now + 5 * 2) (tr_fdt t) = ?T" by (simp add: sent_table_def)
  have i: "instance_id ?T = instance_id (tr_fdt t)" by simp
  note step = assms [unfolded send_fdt_def Let_def T]
  from False step obtain f where f: "file_of_data (se_malloc env) (se_md5 env) (se_uninit_time env) 0 (tr_fec_oti t) ''''
      '''' (now + 10) (fdt_to_string (se_xml_print env) ?T) True = Some (Inr f)"
    by (auto split: option.splits sum.splits)
  from False step have "t\<lparr>tr_fdt := fdt_sent ?T,
      tr_store := tr_store t @ [set_fdt_instance_id (ucast (instance_id ?T)) f],
      tr_files := om_set 0 (length (tr_store t)) (tr_files t)\<rparr> = t'"
    by (auto simp: f add_file_def simp del: sent_table_simps)
  then have "t' = t\<lparr>tr_fdt := fdt_sent ?T, tr_store := tr_store t @ [set_fdt_instance_id (ucast (instance_id (tr_fdt t))) f],
      tr_files := om_set 0 (length (tr_store t)) (tr_files t)\<rparr>" unfolding i by (rule sym)
  then show ?thesis using False f by (intro that(2)) simp_all
qed

section \<open>The invariants\<close>

definition queue_announced :: "transmitter \<Rightarrow> bool" where
  "queue_announced t \<longleftrightarrow>
     om_ok (tr_files t) \<and> tr_toi t \<noteq> 0 \<and>
     {toi \<in> set (om_keys (tr_files t)). toi \<noteq> 0} = fe_toi ` set (fdt_file_entries (tr_fdt t))"

definition loops_alive :: "transmitter \<Rightarrow> bool" where
  "loops_alive t \<longleftrightarrow>
     (tr_active t \<longrightarrow> 0 < tr_send_waits t + tr_send_ready t \<and> 0 < tr_fdt_waits t + tr_fdt_ready t)"

definition tr_inv :: "transmitter \<Rightarrow> bool" where
  "tr_inv t \<longleftrightarrow> queue_announced t \<and> loops_alive t"

lemma keys_om_insert: "om_ok m \<Longrightarrow> set (om_keys (om_insert k v m)) = insert k (set (om_keys m))"
  using om.emplace_dom [of m k v] by (auto simp: set_om_keys dom_def)

lemma send_fdt_timers:
  assumes "send_fdt env now t = Some (Inr (), t')"
  shows "tr_active t' = tr_active t" "tr_send_waits t' = tr_send_waits t" "tr_send_ready t' = tr_send_ready t"
    "tr_fdt_waits t' = tr_fdt_waits t" "tr_fdt_ready t' = tr_fdt_ready t" "tr_toi t' = tr_toi t"
    "fdt_file_entries (tr_fdt t') = fdt_file_entries (tr_fdt t)" "tr_callback t' = tr_callback t"
  using assms by (auto elim: send_fdt_cases simp: fdt_sent_def)

lemma send_fdt_keys:
  assumes "send_fdt env now t = Some (Inr (), t')" and "om_ok (tr_files t)"
  shows "om_ok (tr_files t')"
    and "{toi \<in> set (om_keys (tr_files t')). toi \<noteq> 0} = {toi \<in> set (om_keys (tr_files t)). toi \<noteq> 0}"
  using assms(1) by (cases rule: send_fdt_cases; use assms(2) in \<open>auto simp: om_ok_set keys_om_set\<close>)+

lemma send_fdt_inv:
  "send_fdt env now t = Some (Inr (), t') \<Longrightarrow> queue_announced t \<Longrightarrow> queue_announced t'"
  by (simp add: queue_announced_def send_fdt_keys send_fdt_timers)

lemma loops_alive_cong:
  "loops_alive t \<Longrightarrow> tr_active t' = tr_active t \<Longrightarrow> tr_send_waits t' = tr_send_waits t \<Longrightarrow>
     tr_send_ready t' = tr_send_ready t \<Longrightarrow> tr_fdt_waits t' = tr_fdt_waits t \<Longrightarrow> tr_fdt_ready t' = tr_fdt_ready t \<Longrightarrow>
     loops_alive t'"
  by (simp add: loops_alive_def)

lemma entries_fdt_add [simp]: "fdt_file_entries (fdt_add e t) = fdt_file_entries t @ [e]"
  by (simp add: fdt_add_def fdt_bump_def)

lemma entries_fdt_remove [simp]:
  "fdt_file_entries (fdt_remove toi t) = filter (\<lambda>e. fe_toi e \<noteq> toi) (fdt_file_entries t)"
  by (simp add: fdt_remove_def fdt_bump_def)

lemma advance_toi_nonzero: "tr_toi (advance_toi t) \<noteq> 0"
  by (simp add: advance_toi_def)

lemma advance_toi_simps [simp]:
  "tr_files (advance_toi t) = tr_files t" "tr_fdt (advance_toi t) = tr_fdt t" "tr_active (advance_toi t) = tr_active t"
  "tr_send_waits (advance_toi t) = tr_send_waits t" "tr_send_ready (advance_toi t) = tr_send_ready t"
  "tr_fdt_waits (advance_toi t) = tr_fdt_waits t" "tr_fdt_ready (advance_toi t) = tr_fdt_ready t"
  "tr_store (advance_toi t) = tr_store t" "tr_fec_oti (advance_toi t) = tr_fec_oti t" "tr_tsi (advance_toi t) = tr_tsi t"
  "tr_pending (advance_toi t) = tr_pending t" "tr_sent (advance_toi t) = tr_sent t" "tr_tunnel (advance_toi t) = tr_tunnel t"
  "tr_max_payload (advance_toi t) = tr_max_payload t" "tr_completed (advance_toi t) = tr_completed t"
  "tr_callback (advance_toi t) = tr_callback t"
  by (simp_all add: advance_toi_def)

lemma toi32_nonzero: "(ucast (toi :: u16) :: u32) = 0 \<longleftrightarrow> toi = 0"
  by (metis unat_0 unat_eq_0 unat_ucast_16_32)


text \<open>What a call that returns has done.\<close>

lemma send_data_cases:
  assumes "send_data env now location ctype expires data t = Some (Inr (), t')"
  obtains f t3 where
    "file_of_data (se_malloc env) (se_md5 env) (se_uninit_time env) (ucast (tr_toi t)) (tr_fec_oti t) location ctype
       (ucast expires) data False = Some (Inr f)"
    "send_fdt env now ((advance_toi t)\<lparr>tr_store := tr_store t @ [f], tr_fdt := fdt_add (fl_meta f) (tr_fdt t)\<rparr>) =
       Some (Inr (), t3)"
    "t' = t3\<lparr>tr_files := om_insert (ucast (tr_toi t)) (length (tr_store t)) (tr_files t3)\<rparr>"
proof -
  from assms obtain f where f: "file_of_data (se_malloc env) (se_md5 env) (se_uninit_time env) (ucast (tr_toi t))
      (tr_fec_oti t) location ctype (ucast expires) data False = Some (Inr f)"
    by (auto simp: send_data_def Let_def split: option.splits sum.splits)
  let ?t2 = "(advance_toi t)\<lparr>tr_store := tr_store t @ [f], tr_fdt := fdt_add (fl_meta f) (tr_fdt t)\<rparr>"
  from assms obtain t3 where "send_fdt env now ?t2 = Some (Inr (), t3)"
    "t' = t3\<lparr>tr_files := om_insert (ucast (tr_toi t)) (length (tr_store t)) (tr_files t3)\<rparr>"
    by (auto simp: send_data_def Let_def f add_file_def split: option.splits sum.splits)
  with f show ?thesis by (rule that)
qed

lemma send_description_cases:
  assumes "send_description env now s number d t = Some (d', Inr (), t')"
  obtains t1 data f where "prepare_description t d = (d', t1)" "fd_bytes s d' = Inr data"
    "file_of_description (se_malloc env) (se_zlib env) (se_uninit_time env) number data (fd_entry d') = Some (Inr f)"
    "send_fdt env now (t1\<lparr>tr_store := tr_store t1 @ [f],
       tr_files := om_insert (fe_toi (fd_entry d')) (length (tr_store t1)) (tr_files t1), tr_fdt := fdt_add (fl_meta f) (tr_fdt t1)\<rparr>) = Some (Inr (), t')"
proof -
  obtain d1 t1 where p: "prepare_description t d = (d1, t1)" by force
  from assms obtain data f where b: "fd_bytes s d1 = Inr data"
    and f: "file_of_description (se_malloc env) (se_zlib env) (se_uninit_time env) number data (fd_entry d1) = Some (Inr f)"
    by (auto simp: send_description_def p split: option.splits sum.splits)
  let ?t3 = "t1\<lparr>tr_store := tr_store t1 @ [f],
       tr_files := om_insert (fe_toi (fd_entry d1)) (length (tr_store t1)) (tr_files t1), tr_fdt := fdt_add (fl_meta f) (tr_fdt t1)\<rparr>"
  from assms have "d' = d1" "send_fdt env now ?t3 = Some (Inr (), t')"
    by (auto simp: send_description_def p b f add_file_def split: option.splits sum.splits)
  with p b f show ?thesis by (intro that [of t1 data f]) simp_all
qed

lemma file_transmitted_cases:
  assumes "file_transmitted env now toi t = Some (Inr (), t')"
  obtains (fdt) "toi = 0" "t' = t\<lparr>tr_files := om_erase 0 (tr_files t)\<rparr>"
  | (object) t2 where "toi \<noteq> 0"
      "send_fdt env now (t\<lparr>tr_files := om_erase toi (tr_files t), tr_fdt := fdt_remove toi (tr_fdt t)\<rparr>) = Some (Inr (), t2)"
      "t' = (if tr_callback t then t2\<lparr>tr_completed := tr_completed t2 @ [toi]\<rparr> else t2)"
proof (cases "toi = 0")
  case True
  with assms have "t' = t\<lparr>tr_files := om_erase 0 (tr_files t)\<rparr>" by (simp add: file_transmitted_def)
  with True show ?thesis by (rule that(1))
next
  case False
  let ?t1 = "t\<lparr>tr_files := om_erase toi (tr_files t), tr_fdt := fdt_remove toi (tr_fdt t)\<rparr>"
  from assms False obtain t2 where t2: "send_fdt env now ?t1 = Some (Inr (), t2)"
    "(if tr_callback t2 then t2\<lparr>tr_completed := tr_completed t2 @ [toi]\<rparr> else t2) = t'"
    by (auto simp: file_transmitted_def Let_def split: option.splits sum.splits)
  have "tr_callback t2 = tr_callback t" using send_fdt_timers(8) [OF t2(1)] by simp
  with False t2 show ?thesis by (intro that(2) [of t2]) auto
qed


text \<open>The part of the state the two invariants are about.\<close>

definition tr_control ::
  "transmitter \<Rightarrow> (u32, nat) omap \<times> file_entry list \<times> u16 \<times> bool \<times> nat \<times> nat \<times> nat \<times> nat" where
  "tr_control t =
     (tr_files t, fdt_file_entries (tr_fdt t), tr_toi t, tr_active t, tr_send_waits t, tr_send_ready t,
      tr_fdt_waits t, tr_fdt_ready t)"

lemma tr_inv_cong: "tr_control t' = tr_control t \<Longrightarrow> tr_inv t' = tr_inv t"
  by (simp add: tr_control_def tr_inv_def queue_announced_def loops_alive_def)

lemma send_packet_of_control:
  "send_packet_of env takes i t = (r, t') \<Longrightarrow> tr_control t' = tr_control t"
  by (auto simp: send_packet_of_def Let_def tr_control_def update_file_def start_send_def
      split: sum.splits if_splits option.splits)

lemma reschedule_alive:
  assumes "0 < tr_fdt_waits t + tr_fdt_ready t"
  shows "loops_alive (reschedule n t)"
  using assms by (simp add: reschedule_def loops_alive_def start_send_timer_def cancel_send_timer_def Let_def)

lemma reschedule_queue [simp]: "queue_announced (reschedule n t) = queue_announced t"
  by (simp add: reschedule_def queue_announced_def start_send_timer_def cancel_send_timer_def Let_def)

lemma send_next_packet_cases:
  assumes "send_next_packet env takes t = (Inr (), t')" and "tr_active t"
  obtains n t1 where "(case next_file t of None \<Rightarrow> (Inr 0, t) | Some i \<Rightarrow> send_packet_of env takes i t) = (Inr n, t1)"
    "t' = reschedule n t1"
  using assms
  by (cases "case next_file t of None \<Rightarrow> (Inr 0, t) | Some i \<Rightarrow> send_packet_of env takes i t")
    (auto simp: send_next_packet_def split: sum.splits)

lemma send_next_packet_inv:
  assumes "send_next_packet env takes t = (Inr (), t')" and "queue_announced t"
    and "tr_active t \<Longrightarrow> 0 < tr_fdt_waits t + tr_fdt_ready t"
  shows "tr_inv t'"
proof (cases "tr_active t")
  case False
  with assms show ?thesis by (auto simp: send_next_packet_def tr_inv_def loops_alive_def)
next
  case True
  obtain n t1 where t1: "(case next_file t of None \<Rightarrow> (Inr 0, t) | Some i \<Rightarrow> send_packet_of env takes i t) = (Inr n, t1)"
    "t' = reschedule n t1" by (rule send_next_packet_cases [OF assms(1) True])
  then have "tr_control t1 = tr_control t" by (auto split: option.splits dest: send_packet_of_control)
  then have "queue_announced t1" "0 < tr_fdt_waits t1 + tr_fdt_ready t1"
    using assms(2,3) True by (simp_all add: tr_control_def queue_announced_def)
  with t1(2) show ?thesis by (simp add: tr_inv_def reschedule_alive)
qed

lemma send_data_inv:
  assumes "send_data env now location ctype expires data t = Some (Inr (), t')" and inv: "tr_inv t"
  shows "tr_inv t'"
  using assms(1)
proof (cases rule: send_data_cases)
  case (1 f t3)
  let ?toi = "ucast (tr_toi t) :: u32"
  let ?t2 = "(advance_toi t)\<lparr>tr_store := tr_store t @ [f], tr_fdt := fdt_add (fl_meta f) (tr_fdt t)\<rparr>"
  have ok: "om_ok (tr_files ?t2)" and toi: "?toi \<noteq> 0" and f: "fe_toi (fl_meta f) = ?toi"
    using inv file_of_data_toi [OF 1(1)] by (simp_all add: tr_inv_def queue_announced_def toi32_nonzero)
  note k = send_fdt_keys [OF 1(2) ok] and s = send_fdt_timers [OF 1(2)]
  have "{k \<in> insert ?toi (set (om_keys (tr_files t3))). k \<noteq> 0} = insert ?toi {k \<in> set (om_keys (tr_files t)). k \<noteq> 0}"
    using k(2) toi by auto
  then have "queue_announced t'"
    using k(1) s(6,7) inv advance_toi_nonzero [of t] f
    by (simp add: 1(3) queue_announced_def om.ok_emplace keys_om_insert tr_inv_def)
  moreover have "loops_alive t'" using inv s(1-5) by (simp add: 1(3) tr_inv_def loops_alive_def)
  ultimately show ?thesis by (simp add: tr_inv_def)
qed

lemma prepared_description:
  assumes "prepare_description t d = (d', t1)" and "tr_toi t \<noteq> 0"
  shows "fe_toi (fd_entry d') \<noteq> 0" and "t1 = t \<or> t1 = advance_toi t"
  using assms
  by (auto simp: prepare_description_def Let_def set_tsi_def set_toi_def merge_fec_oti_def toi32_nonzero split: if_splits)

lemma tr_inv_advance: "tr_inv t \<Longrightarrow> tr_inv (advance_toi t)"
  by (simp add: tr_inv_def queue_announced_def loops_alive_def advance_toi_nonzero)

lemma send_description_inv:
  assumes "send_description env now s number d t = Some (d', Inr (), t')" and inv: "tr_inv t"
  shows "tr_inv t'"
  using assms(1)
proof (cases rule: send_description_cases)
  case (1 t1 data f)
  let ?toi = "fe_toi (fd_entry d')"
  have "tr_toi t \<noteq> 0" using inv by (simp add: tr_inv_def queue_announced_def)
  note p = prepared_description [OF 1(1) this]
  have inv1: "tr_inv t1"
    using p(2) inv tr_inv_advance [OF inv] by (elim disjE) simp_all
  then have "queue_announced (t1\<lparr>tr_store := tr_store t1 @ [f],
      tr_files := om_insert ?toi (length (tr_store t1)) (tr_files t1), tr_fdt := fdt_add (fl_meta f) (tr_fdt t1)\<rparr>)"
    using p(1) file_of_description_toi [OF 1(3)]
    by (auto simp: tr_inv_def queue_announced_def om.ok_emplace keys_om_insert)
  then have "queue_announced t'" using send_fdt_inv [OF 1(4)] by simp
  moreover have "loops_alive t'"
    using inv1 send_fdt_timers(1-5) [OF 1(4)] by (simp add: tr_inv_def loops_alive_def)
  ultimately show ?thesis by (simp add: tr_inv_def)
qed

lemma keys_om_erase: "set (om_keys (om_erase k m)) = set (om_keys m) - {k}"
  by (auto simp: om_keys_erase)

lemma file_transmitted_inv:
  assumes "file_transmitted env now toi t = Some (Inr (), t')" and inv: "tr_inv t"
  shows "tr_inv t'"
  using assms(1)
proof (cases rule: file_transmitted_cases)
  case fdt
  then show ?thesis using inv by (auto simp: tr_inv_def queue_announced_def loops_alive_def om_ok_erase keys_om_erase)
next
  case (object t2)
  let ?t1 = "t\<lparr>tr_files := om_erase toi (tr_files t), tr_fdt := fdt_remove toi (tr_fdt t)\<rparr>"
  have "{k. k \<in> set (om_keys (tr_files t)) - {toi} \<and> k \<noteq> 0} = {k \<in> set (om_keys (tr_files t)). k \<noteq> 0} - {toi}" by auto
  then have "queue_announced ?t1" using inv by (auto simp: tr_inv_def queue_announced_def om_ok_erase keys_om_erase)
  then have "queue_announced t2" using send_fdt_inv [OF object(2)] by simp
  moreover have "loops_alive t2" using inv send_fdt_timers(1-5) [OF object(2)] by (simp add: tr_inv_def loops_alive_def)
  ultimately show ?thesis using object(3) by (simp add: tr_inv_def queue_announced_def loops_alive_def)
qed

lemma send_completed_inv:
  assumes "send_completed env now error p t = Some (Inr (), t')" and inv: "tr_inv t"
  shows "tr_inv t'"
proof -
  have same: "tr_control (update_file i f t1) = tr_control t" if "transmit_late p t = Inr t1" for i f t1
    using that by (auto simp: transmit_late_def tr_control_def update_file_def split: if_splits option.splits)
  then have "tr_inv (update_file i f t1)" if "transmit_late p t = Inr t1" for i f t1
    using tr_inv_cong [OF same [OF that]] inv by simp
  with assms show ?thesis
    by (auto simp: send_completed_def Let_def split: if_splits sum.splits prod.splits intro: file_transmitted_inv)
qed


section \<open>The event machine keeps them\<close>

inductive_cases tr_eventE: "tr_event env P t t'"

lemma activate_inv:
  assumes "activate env takes t = (Inr (), t')" and inv: "tr_inv t"
  shows "tr_inv t'"
proof (cases "tr_active t")
  case True
  with assms show ?thesis by (simp add: activate_def)
next
  case False
  with assms(1) have "send_next_packet env takes (start_fdt_repeat_timer (t\<lparr>tr_active := True\<rparr>)) = (Inr (), t')"
    by (simp add: activate_def)
  then show ?thesis
    by (rule send_next_packet_inv) (use inv in \<open>simp_all add: start_fdt_repeat_timer_def tr_inv_def queue_announced_def\<close>)
qed

lemma run_send_handler_inv:
  assumes "run_send_handler env takes t = (Inr (), t')" and "tr_inv t"
  shows "tr_inv t'"
  using assms(1) unfolding run_send_handler_def
  by (rule send_next_packet_inv) (use assms(2) in \<open>simp_all add: tr_inv_def queue_announced_def loops_alive_def\<close>)

lemma run_fdt_handler_inv:
  assumes "run_fdt_handler env now t = Some (Inr (), t')" and inv: "tr_inv t"
  shows "tr_inv t'"
proof (cases "tr_active t")
  case False
  with assms(1) have "t' = t\<lparr>tr_fdt_ready := tr_fdt_ready t - 1\<rparr>"
    by (simp add: run_fdt_handler_def fdt_send_tick_def)
  with inv False show ?thesis by (simp add: tr_inv_def queue_announced_def loops_alive_def)
next
  case True
  let ?t1 = "t\<lparr>tr_fdt_ready := tr_fdt_ready t - 1\<rparr>"
  from assms(1) True obtain t2 where t2: "send_fdt env now ?t1 = Some (Inr (), t2)" "t' = start_fdt_repeat_timer t2"
    by (auto simp: run_fdt_handler_def fdt_send_tick_def split: option.splits sum.splits)
  have "queue_announced ?t1" using inv by (simp add: tr_inv_def queue_announced_def)
  then have "queue_announced t2" by (rule send_fdt_inv [OF t2(1)])
  moreover have "0 < tr_send_waits t2 + tr_send_ready t2"
    using inv True send_fdt_timers(2,3) [OF t2(1)] by (simp add: tr_inv_def loops_alive_def)
  ultimately show ?thesis using t2(2) by (simp add: tr_inv_def queue_announced_def loops_alive_def start_fdt_repeat_timer_def)
qed

lemma transmitter_new_inv:
  assumes "transmitter_new env to tsi mtu rate tunnel ns active source = (Inr (), t)"
  shows "tr_inv t"
proof -
  let ?t = "idle_transmitter env to tsi mtu rate tunnel ns active source"
  have q: "queue_announced ?t" by (simp add: idle_transmitter_def Let_def queue_announced_def fdt_new_def)
  show ?thesis
  proof (cases active)
    case True
    with assms have "send_next_packet env True (start_fdt_repeat_timer ?t) = (Inr (), t)"
      by (simp add: transmitter_new_def)
    then show ?thesis
      by (rule send_next_packet_inv) (use q in \<open>simp_all add: start_fdt_repeat_timer_def queue_announced_def\<close>)
  next
    case False
    then have "\<not> tr_active ?t" by (simp add: idle_transmitter_def Let_def)
    with q False assms show ?thesis by (auto simp: transmitter_new_def tr_inv_def loops_alive_def)
  qed
qed

lemma setter_control [simp]:
  "tr_control (set_rate_limit limit t) = tr_control t" "tr_control (set_endpoint e t) = tr_control t"
  "tr_control (set_source_address a t) = tr_control t"
  "tr_control (transmitter_register_completion_callback t) = tr_control t"
  "tr_control (set_udp_tunnel_address env new t) = tr_control t" "tr_control (remove_pending k t) = tr_control t"
  by (simp_all add: tr_control_def set_rate_limit_def set_endpoint_def set_source_address_def remove_pending_def
      transmitter_register_completion_callback_def set_udp_tunnel_address_def Let_def split: option.split)

lemma timer_queue [simp]:
  "queue_announced (send_timer_expires t) = queue_announced t" "queue_announced (fdt_timer_expires t) = queue_announced t"
  "queue_announced (deactivate t) = queue_announced t"
  by (simp_all add: queue_announced_def send_timer_expires_def fdt_timer_expires_def deactivate_def cancel_send_timer_def)

lemma timer_loops:
  assumes "loops_alive t"
  shows "loops_alive (send_timer_expires t)" "loops_alive (fdt_timer_expires t)" "loops_alive (deactivate t)"
  using assms
  by (auto simp: loops_alive_def send_timer_expires_def fdt_timer_expires_def deactivate_def cancel_send_timer_def)

lemma timer_inv:
  assumes "tr_inv t"
  shows "tr_inv (send_timer_expires t)" "tr_inv (fdt_timer_expires t)" "tr_inv (deactivate t)"
  using assms timer_loops [of t] by (simp_all add: tr_inv_def)

lemma tr_step_inv:
  assumes "tr_step env op t = Some (Inr (), t')" and inv: "tr_inv t"
  shows "tr_inv t'"
proof (cases op)
  case (Send_Description now s number d)
  with assms(1) obtain d' where "send_description env now s number d t = Some (d', Inr (), t')" by auto
  then show ?thesis using inv by (rule send_description_inv)
next
  case (Completion now error k)
  then have "send_completed env now error (tr_pending t ! k) (remove_pending k t) = Some (Inr (), t')"
    using assms(1) by (simp add: run_completion_def)
  moreover have "tr_inv (remove_pending k t)" using inv tr_inv_cong [of "remove_pending k t" t] by simp
  ultimately show ?thesis by (rule send_completed_inv)
next
  case (Send_Data now location ctype expires data)
  with assms(1) have "send_data env now location ctype expires data t = Some (Inr (), t')" by simp
  then show ?thesis using inv by (rule send_data_inv)
next
  case (Activate takes)
  with assms(1) have "activate env takes t = (Inr (), t')" by simp
  then show ?thesis using inv by (rule activate_inv)
next
  case (Send_Handler takes)
  with assms(1) have "run_send_handler env takes t = (Inr (), t')" by simp
  then show ?thesis using inv by (rule run_send_handler_inv)
next
  case (Fdt_Handler now)
  with assms(1) have "run_fdt_handler env now t = Some (Inr (), t')" by simp
  then show ?thesis using inv by (rule run_fdt_handler_inv)
next
  case Deactivate
  then have "t' = deactivate t" using assms(1) by simp
  then show ?thesis using timer_inv [OF inv] by simp
next
  case Send_Timer_Expires
  then have "t' = send_timer_expires t" using assms(1) by simp
  then show ?thesis using timer_inv [OF inv] by simp
next
  case Fdt_Timer_Expires
  then have "t' = fdt_timer_expires t" using assms(1) by simp
  then show ?thesis using timer_inv [OF inv] by simp
qed (use assms(1) in \<open>auto intro: tr_inv_cong [THEN iffD2, OF _ inv]\<close>)

interpretation tx: inductive_invariant "tr_init env" "tr_event env P" tr_inv for env P
proof unfold_locales
  show "tr_inv t" if "tr_init env t" for t
    using that by cases (rule transmitter_new_inv)
  show "tr_inv t'" if "tr_inv t" "tr_event env P t t'" for t t'
    using that by (auto elim: tr_eventE intro: tr_step_inv)
qed

end
