(* ===== verification/Transmission.thy ===== *)
theory Transmission
  imports Transmitter_Events
begin

text \<open>
  What a transmitter without a tunnel puts on the network, whatever the order of calls, timers, handlers
  and completions: each datagram is a packet of one symbol of a queued object, and when the application
  is told that a file has been transmitted, each of its symbols has been sent.
\<close>

section \<open>The objects\<close>

text \<open>What never changes of a file once it is in the store.\<close>

definition fixed_part :: "flute_file \<Rightarrow> file_entry \<times> heap \<times> nat option \<times> u16" where
  "fixed_part f = (fl_meta f, fl_heap f, fl_buffer f, fl_fdt_instance_id f)"

text \<open>What is transferred: the contents, or the stream they were encoded to.\<close>

definition contents :: "flute_file \<Rightarrow> byte list" where
  "contents f = (case heap_at (fl_heap f) (file_buffer f) of Some d \<Rightarrow> d | None \<Rightarrow> [])"

text \<open>The objects that are covered: the parameters partition the contents, the symbols are no longer than
  the payload and not shorter than it by more than 4 bytes, so that a packet has one, and the digest of a file that is not encoded is that of the contents.\<close>

definition sendable_file :: "'z sender_env \<Rightarrow> u32 \<Rightarrow> flute_file \<Rightarrow> bool" where
  "sendable_file env mp f \<longleftrightarrow>
     partition_ok (fl_oti f) \<and> encoding_id (fl_oti f) = CompactNoCode \<and>
     length (contents f) = tlen (fl_oti f) \<and> length (contents f) < 2 ^ 64 \<and>
     unat mp \<le> slen (fl_oti f) + 4 \<and> slen (fl_oti f) \<le> unat mp \<and>
     md5_ok (se_md5 env) (contents f) (fl_meta f)"

lemma fixed_part_cong:
  assumes "fixed_part f' = fixed_part f"
  shows "fl_meta f' = fl_meta f" "fl_heap f' = fl_heap f" "fl_fdt_instance_id f' = fl_fdt_instance_id f"
    "contents f' = contents f" "sendable_file env mp f' = sendable_file env mp f" "fl_buffer f' = fl_buffer f"
  using assms by (simp_all add: fixed_part_def contents_def sendable_file_def file_buffer_def)

text \<open>A datagram that carries one symbol of a file of the session.\<close>

definition file_packet :: "u64 \<Rightarrow> flute_file \<Rightarrow> nat \<times> nat \<Rightarrow> byte list \<Rightarrow> bool" where
  "file_packet tsi f ij d \<longleftrightarrow>
     packet_of (ucast tsi) (ucast (fe_toi (fl_meta f))) (ucast (fl_fdt_instance_id f)) (fl_oti f) (fl_oti f)
       (contents f) [ij] d"

lemma file_packet_cong: "fixed_part f' = fixed_part f \<Longrightarrow> file_packet tsi f' ij d = file_packet tsi f ij d"
  by (simp add: file_packet_def fixed_part_cong [of f' f])

section \<open>The steps keep the objects\<close>

lemma get_next_symbols_fixed:
  assumes "get_next_symbols n f = Inr (ss, f')"
  shows "fixed_part f' = fixed_part f"
proof -
  from assms obtain nof where "(case take_blocks f nof 0 (fl_source_blocks f) of
      (syms, blocks) \<Rightarrow> Inr (syms, f\<lparr>fl_source_blocks := blocks\<rparr>)) = (Inr (ss, f') :: (encoding_symbol list \<times> flute_file) result)"
    unfolding get_next_symbols_def rbind_def Let_def by (simp split: sum.splits)
  then show ?thesis by (auto simp: fixed_part_def split: prod.splits)
qed

lemma check_file_completion_fixed: "fixed_part (snd (check_file_completion md5 f)) = fixed_part f"
  by (simp add: check_file_completion_def verify_md5_def reset_blocks_def fixed_part_def Let_def
      split: sum.split bool.split)

lemma mark_symbol_fixed: "fixed_part (snd (mark_symbol md5 ok s f)) = fixed_part f"
  by (auto simp: mark_symbol_def Let_def check_file_completion_fixed split: option.split)
    (simp_all add: fixed_part_def)

lemma mark_completed_fixed: "fixed_part (snd (mark_completed md5 ss ok f)) = fixed_part f"
proof (induction ss arbitrary: f)
  case (Cons s ss)
  show ?case
    using Cons [of "snd (mark_symbol md5 ok s f)"] mark_symbol_fixed [of md5 ok s f]
    by (cases "mark_symbol md5 ok s f") (auto simp: mark_completed_def and_then_def split: sum.split)
qed (simp add: mark_completed_def)

definition store_grows :: "transmitter \<Rightarrow> transmitter \<Rightarrow> bool" where
  "store_grows t t' \<longleftrightarrow> (\<exists>new. map fixed_part (tr_store t') = map fixed_part (tr_store t) @ new)"

lemma store_grows_refl [simp]: "tr_store t' = tr_store t \<Longrightarrow> store_grows t t'"
  by (simp add: store_grows_def)

lemma store_grows_trans [trans]: "store_grows t1 t2 \<Longrightarrow> store_grows t2 t3 \<Longrightarrow> store_grows t1 t3"
  by (auto simp: store_grows_def)

lemma store_grows_update:
  assumes "fixed_part f = fixed_part (tr_store t ! i)" and "tr_store t' = (tr_store t)[i := f]"
  shows "store_grows t t'"
proof -
  have "map fixed_part (tr_store t') = map fixed_part (tr_store t)"
    using assms by (simp add: map_update) (metis list_update_id map_update)
  then show ?thesis by (simp add: store_grows_def)
qed

lemma store_grows_fixed:
  assumes "store_grows t t'" and "i < length (tr_store t)"
  shows "i < length (tr_store t')" and "fixed_part (tr_store t' ! i) = fixed_part (tr_store t ! i)"
proof -
  from assms(1) obtain new where new: "map fixed_part (tr_store t') = map fixed_part (tr_store t) @ new"
    by (auto simp: store_grows_def)
  then have "length (tr_store t') = length (tr_store t) + length new"
    by (metis length_append length_map)
  with assms(2) show i: "i < length (tr_store t')" by simp
  have "map fixed_part (tr_store t') ! i = map fixed_part (tr_store t) ! i"
    unfolding new using assms(2) by (simp add: nth_append)
  with i assms(2) show "fixed_part (tr_store t' ! i) = fixed_part (tr_store t ! i)" by simp
qed

lemma store_grows_sendable:
  assumes "store_grows t t'" and "\<forall>f \<in> set (tr_store t'). sendable_file env mp f"
  shows "\<forall>f \<in> set (tr_store t). sendable_file env mp f"
proof
  fix f assume "f \<in> set (tr_store t)"
  then obtain i where i: "i < length (tr_store t)" "f = tr_store t ! i" by (metis in_set_conv_nth)
  note g = store_grows_fixed [OF assms(1) i(1)]
  with assms(2) have "sendable_file env mp (tr_store t' ! i)" by simp
  with fixed_part_cong(5) [OF g(2), of env mp] i(2) show "sendable_file env mp f" by simp
qed

lemma send_fdt_grows: "send_fdt env now t = Some (Inr (), t') \<Longrightarrow> store_grows t t'"
  by (auto elim!: send_fdt_cases simp: store_grows_def)

lemma file_transmitted_grows: "file_transmitted env now toi t = Some (Inr (), t') \<Longrightarrow> store_grows t t'"
  by (auto elim!: file_transmitted_cases dest!: send_fdt_grows simp: store_grows_def)

lemma send_packet_of_grows:
  assumes "send_packet_of env takes i t = (Inr n, t')"
  shows "store_grows t t'"
proof -
  from assms obtain ss f where next_symbols: "get_next_symbols (ucast (tr_max_payload t)) (tr_store t ! i) = Inr (ss, f)"
    by (auto simp: send_packet_of_def Let_def split: sum.splits)
  with assms have "tr_store t' = (tr_store t)[i := f]"
    by (auto simp: send_packet_of_def Let_def update_file_def start_send_def split: sum.splits if_splits option.splits)
  then show ?thesis by (rule store_grows_update [OF get_next_symbols_fixed [OF next_symbols]])
qed

lemma reschedule_store [simp]: "tr_store (reschedule n t) = tr_store t"
  by (simp add: reschedule_def start_send_timer_def cancel_send_timer_def Let_def)

lemma send_next_packet_grows:
  assumes "send_next_packet env takes t = (Inr (), t')"
  shows "store_grows t t'"
proof (cases "tr_active t \<and> next_file t \<noteq> None")
  case True
  with assms obtain i n t1 where "send_packet_of env takes i t = (Inr n, t1)" "t' = reschedule n t1"
    by (auto simp: send_next_packet_def split: sum.splits prod.splits)
  with send_packet_of_grows [of env takes i t n t1] show ?thesis by (simp add: store_grows_def)
next
  case False
  with assms have "tr_store t' = tr_store t" by (auto simp: send_next_packet_def split: if_splits)
  then show ?thesis by simp
qed

lemma send_completed_grows:
  assumes "send_completed env now error p t = Some (Inr (), t')"
  shows "store_grows t t'"
proof (cases error)
  case True
  with assms show ?thesis by (simp add: send_completed_def)
next
  case False
  with assms obtain t1 where t1: "transmit_late p t = Inr t1" by (auto simp: send_completed_def split: sum.splits)
  then have st: "tr_store t1 = tr_store t" by (auto simp: transmit_late_def split: if_splits option.splits)
  obtain r f where m: "mark_completed (se_md5 env) (pd_symbols p) True (tr_store t ! pd_file p) = (r, f)" by force
  have f: "fixed_part f = fixed_part (tr_store t ! pd_file p)"
    using mark_completed_fixed [of "se_md5 env" "pd_symbols p" True "tr_store t ! pd_file p"] by (simp add: m)
  let ?t2 = "update_file (pd_file p) f t1"
  have g: "store_grows t ?t2" using f st by (intro store_grows_update) (simp_all add: update_file_def)
  from assms False t1 m st have "t' = ?t2 \<or> file_transmitted env now (fe_toi (fl_meta f)) ?t2 = Some (Inr (), t')"
    by (auto simp: send_completed_def Let_def split: sum.splits if_splits)
  with g show ?thesis by (auto dest: file_transmitted_grows intro: store_grows_trans)
qed

lemma store_same:
  "tr_store (deactivate t) = tr_store t" "tr_store (set_rate_limit limit t) = tr_store t"
  "tr_store (set_endpoint e t) = tr_store t" "tr_store (set_source_address a t) = tr_store t"
  "tr_store (transmitter_register_completion_callback t) = tr_store t"
  "tr_store (set_udp_tunnel_address env new t) = tr_store t" "tr_store (send_timer_expires t) = tr_store t"
  "tr_store (fdt_timer_expires t) = tr_store t" "tr_store (remove_pending k t) = tr_store t"
  "tr_store (start_fdt_repeat_timer t) = tr_store t"
  by (simp_all add: deactivate_def cancel_send_timer_def set_rate_limit_def set_endpoint_def set_source_address_def
      transmitter_register_completion_callback_def set_udp_tunnel_address_def Let_def send_timer_expires_def
      fdt_timer_expires_def remove_pending_def start_fdt_repeat_timer_def split: option.split)

lemma grows_from: "store_grows t1 t' \<Longrightarrow> tr_store t1 = tr_store t \<Longrightarrow> store_grows t t'"
  by (simp add: store_grows_def)

lemma send_data_grows: "send_data env now location ctype expires data t = Some (Inr (), t') \<Longrightarrow> store_grows t t'"
  by (erule send_data_cases) (auto simp: store_grows_def dest!: send_fdt_grows)

lemma send_description_grows:
  assumes "send_description env now s number d t = Some (d', Inr (), t')"
  shows "store_grows t t'"
  using assms
proof (cases rule: send_description_cases)
  case (1 t1 data f)
  have "tr_store t1 = tr_store t" using 1(1) by (auto simp: prepare_description_def Let_def split: if_splits)
  then show ?thesis using send_fdt_grows [OF 1(4)] by (auto simp: store_grows_def)
qed

lemma run_fdt_handler_grows:
  assumes "run_fdt_handler env now t = Some (Inr (), t')"
  shows "store_grows t t'"
proof (cases "tr_active t")
  case True
  with assms obtain t2 where "send_fdt env now (t\<lparr>tr_fdt_ready := tr_fdt_ready t - 1\<rparr>) = Some (Inr (), t2)"
    "t' = start_fdt_repeat_timer t2"
    by (auto simp: run_fdt_handler_def fdt_send_tick_def split: option.splits sum.splits)
  then show ?thesis by (auto dest!: send_fdt_grows simp: store_grows_def store_same)
next
  case False
  with assms show ?thesis by (auto simp: run_fdt_handler_def fdt_send_tick_def)
qed

lemma tr_step_grows:
  assumes "tr_step env op t = Some (Inr (), t')"
  shows "store_grows t t'"
proof (cases op)
  case (Send_Data now location ctype expires data)
  with assms have "send_data env now location ctype expires data t = Some (Inr (), t')" by simp
  then show ?thesis by (rule send_data_grows)
next
  case (Send_Description now s number d)
  with assms obtain d' where "send_description env now s number d t = Some (d', Inr (), t')" by auto
  then show ?thesis by (rule send_description_grows)
next
  case (Activate takes)
  with assms have "t' = t \<or> send_next_packet env takes (start_fdt_repeat_timer (t\<lparr>tr_active := True\<rparr>)) = (Inr (), t')"
    by (auto simp: activate_def split: if_splits)
  then show ?thesis by (auto dest!: send_next_packet_grows simp: store_grows_def store_same)
next
  case (Send_Handler takes)
  with assms have "send_next_packet env takes (t\<lparr>tr_send_ready := tr_send_ready t - 1\<rparr>) = (Inr (), t')"
    by (simp add: run_send_handler_def)
  then show ?thesis by (rule grows_from [OF send_next_packet_grows]) simp
next
  case (Fdt_Handler now)
  with assms show ?thesis by (simp add: run_fdt_handler_grows)
next
  case (Completion now error k)
  with assms have "send_completed env now error (tr_pending t ! k) (remove_pending k t) = Some (Inr (), t')"
    by (simp add: run_completion_def)
  then show ?thesis by (rule grows_from [OF send_completed_grows]) (simp add: store_same)
qed (use assms in \<open>auto simp: store_same\<close>)


section \<open>The state of a session\<close>

text \<open>\<open>S i\<close> are the symbols of file \<open>i\<close> whose sends have been completed, \<open>Q i\<close> those in a send.\<close>

definition pending_good :: "u64 \<Rightarrow> (nat \<Rightarrow> (nat \<times> nat) set) \<Rightarrow> transmitter \<Rightarrow> pending_send \<Rightarrow> bool" where
  "pending_good tsi Q t p \<longleftrightarrow>
     pd_file p < length (tr_store t) \<and>
     (\<exists>ij s d. pd_symbols p = [s] \<and>
        genuine (fl_oti (tr_store t ! pd_file p)) (contents (tr_store t ! pd_file p)) ij s \<and> ij \<in> Q (pd_file p) \<and>
        pd_data p = Some d \<and> file_packet tsi (tr_store t ! pd_file p) ij d \<and>
        (pd_taken p \<longrightarrow> (pd_endpoint p, d) \<in> set (tr_sent t)))"

definition pending_key :: "pending_send \<Rightarrow> nat \<times> (nat \<times> nat) list" where
  "pending_key p = (pd_file p, map (\<lambda>s. (unat (es_source_block_number s), unat (es_id s))) (pd_symbols p))"

definition table_file :: "'z sender_env \<Rightarrow> flute_file \<Rightarrow> bool" where
  "table_file env f \<longleftrightarrow>
     (\<exists>table. contents f = fdt_to_string (se_xml_print env) table \<and> fl_fdt_instance_id f = ucast (instance_id table))"

definition tr_good ::
  "'z sender_env \<Rightarrow> u64 \<Rightarrow> u32 \<Rightarrow> (nat \<Rightarrow> (nat \<times> nat) set) \<Rightarrow> (nat \<Rightarrow> (nat \<times> nat) set) \<Rightarrow> transmitter \<Rightarrow> bool" where
  "tr_good env tsi mp S Q t \<longleftrightarrow>
     tr_tunnel t = None \<and> tr_tsi t = tsi \<and> tr_max_payload t = mp \<and>
     (\<forall>i < length (tr_store t).
        sender_file (fl_oti (tr_store t ! i)) (contents (tr_store t ! i)) (S i) (Q i) (tr_store t ! i) \<and>
        (\<forall>ij \<in> S i. \<exists>x \<in> set (tr_sent t). file_packet tsi (tr_store t ! i) ij (snd x)) \<and>
        (fe_toi (fl_meta (tr_store t ! i)) = 0 \<longrightarrow> table_file env (tr_store t ! i))) \<and>
     (\<forall>p \<in> set (tr_pending t). pending_good tsi Q t p) \<and> distinct (map pending_key (tr_pending t)) \<and>
     (\<forall>x \<in> set (tr_sent t). \<exists>i < length (tr_store t). \<exists>ij. file_packet tsi (tr_store t ! i) ij (snd x)) \<and>
     (\<forall>toi \<in> set (tr_completed t). \<exists>i < length (tr_store t).
        fe_toi (fl_meta (tr_store t ! i)) = toi \<and> symbol_pairs (fl_oti (tr_store t ! i)) \<subseteq> S i) \<and>
     (\<forall>x \<in> set (tr_files t). snd x < length (tr_store t))"

text \<open>Steps that do not touch the objects.\<close>

definition tr_objects ::
  "transmitter \<Rightarrow> endpoint option \<times> u64 \<times> u32 \<times> flute_file list \<times> pending_send list \<times> (endpoint \<times> byte list) list \<times> u32 list" where
  "tr_objects t = (tr_tunnel t, tr_tsi t, tr_max_payload t, tr_store t, tr_pending t, tr_sent t, tr_completed t)"

lemma tr_good_frame:
  assumes "tr_good env tsi mp S Q t" and "tr_objects t' = tr_objects t"
    and "\<forall>x \<in> set (tr_files t'). snd x < length (tr_store t)"
  shows "tr_good env tsi mp S Q t'"
  using assms by (simp add: tr_good_def tr_objects_def pending_good_def)

lemma tr_good_extend:
  assumes good: "tr_good env tsi mp S Q t" and f: "sender_file (fl_oti f) (contents f) {} {} f"
    and table: "fe_toi (fl_meta f) = 0 \<Longrightarrow> table_file env f"
    and t': "tr_objects t' = tr_objects (t\<lparr>tr_store := tr_store t @ [f]\<rparr>)"
    and files: "\<forall>x \<in> set (tr_files t'). snd x < Suc (length (tr_store t))"
  defines "n \<equiv> length (tr_store t)"
  shows "tr_good env tsi mp (S(n := {})) (Q(n := {})) t'"
proof -
  have st: "tr_store t' = tr_store t @ [f]" "tr_tunnel t' = tr_tunnel t" "tr_tsi t' = tr_tsi t"
    "tr_max_payload t' = tr_max_payload t" "tr_pending t' = tr_pending t" "tr_sent t' = tr_sent t"
    "tr_completed t' = tr_completed t"
    using t' by (simp_all add: tr_objects_def)
  have old: "tr_store t' ! i = tr_store t ! i" if "i < n" for i using that by (simp add: st n_def nth_append)
  have new: "tr_store t' ! n = f" by (simp add: st n_def)
  have len: "i < length (tr_store t') \<longleftrightarrow> i < n \<or> i = n" for i by (auto simp: st n_def)
  have g: "tr_tunnel t = None" "tr_tsi t = tsi" "tr_max_payload t = mp"
    "\<And>i. i < n \<Longrightarrow> sender_file (fl_oti (tr_store t ! i)) (contents (tr_store t ! i)) (S i) (Q i) (tr_store t ! i) \<and>
        (\<forall>ij \<in> S i. \<exists>x \<in> set (tr_sent t). file_packet tsi (tr_store t ! i) ij (snd x)) \<and>
        (fe_toi (fl_meta (tr_store t ! i)) = 0 \<longrightarrow> table_file env (tr_store t ! i))"
    "\<And>p. p \<in> set (tr_pending t) \<Longrightarrow> pending_good tsi Q t p" "distinct (map pending_key (tr_pending t))"
    "\<And>x. x \<in> set (tr_sent t) \<Longrightarrow> \<exists>i < n. \<exists>ij. file_packet tsi (tr_store t ! i) ij (snd x)"
    "\<And>toi. toi \<in> set (tr_completed t) \<Longrightarrow> \<exists>i < n.
        fe_toi (fl_meta (tr_store t ! i)) = toi \<and> symbol_pairs (fl_oti (tr_store t ! i)) \<subseteq> S i"
    using good by (simp_all add: tr_good_def n_def)
  have "pending_good tsi (Q(n := {})) t' p" if "p \<in> set (tr_pending t')" for p
    using g(5) [of p] that old [of "pd_file p"] by (auto simp: st(5,6) pending_good_def len n_def [symmetric])
  moreover have "sender_file (fl_oti (tr_store t' ! i)) (contents (tr_store t' ! i)) ((S(n := {})) i) ((Q(n := {})) i) (tr_store t' ! i) \<and>
        (\<forall>ij \<in> (S(n := {})) i. \<exists>x \<in> set (tr_sent t'). file_packet tsi (tr_store t' ! i) ij (snd x)) \<and>
        (fe_toi (fl_meta (tr_store t' ! i)) = 0 \<longrightarrow> table_file env (tr_store t' ! i))" if "i < length (tr_store t')" for i
  proof (cases "i = n")
    case True
    then show ?thesis using f table by (simp add: new)
  next
    case False
    with that have "i < n" by (simp add: len)
    then show ?thesis using g(4) [of i] old [of i] False by (simp add: st(6))
  qed
  moreover have "\<exists>i < length (tr_store t'). \<exists>ij. file_packet tsi (tr_store t' ! i) ij (snd x)" if "x \<in> set (tr_sent t')" for x
    using g(7) [of x] that old by (metis len st(6))
  moreover have "\<exists>i < length (tr_store t'). fe_toi (fl_meta (tr_store t' ! i)) = toi \<and>
      symbol_pairs (fl_oti (tr_store t' ! i)) \<subseteq> (S(n := {})) i" if toi: "toi \<in> set (tr_completed t')" for toi
  proof -
    from g(8) [of toi] toi obtain i where "i < n" "fe_toi (fl_meta (tr_store t ! i)) = toi"
      "symbol_pairs (fl_oti (tr_store t ! i)) \<subseteq> S i" by (auto simp: st(7))
    with old [of i] show ?thesis by (intro exI [of _ i]) (simp add: len)
  qed
  ultimately show ?thesis
    using g(1-3,6) files unfolding tr_good_def by (simp add: st(2-5,7)) (simp add: st(1))
qed


section \<open>New objects\<close>

text \<open>An allocation has the size that was asked for.\<close>

definition memory_exact :: "'z sender_env \<Rightarrow> bool" where
  "memory_exact env \<longleftrightarrow> (\<forall>n buf. se_malloc env n = Some buf \<longrightarrow> length buf = n)"

lemma created_fixed:
  assumes "partition_and_create b f0 = Some (Inr f)"
  shows "fl_heap f = fl_heap f0" and "fl_meta f = fl_meta f0" and "fl_buffer f = fl_buffer f0"
proof -
  from assms obtain f1 where f1: "calculate_partitioning f0 = Inr f1" "create_blocks b f1 = Some (Inr f)"
    by (auto simp: partition_and_create_def split: sum.splits)
  have "fl_heap f1 = fl_heap f0" "fl_buffer f1 = fl_buffer f0"
    using f1(1) unfolding calculate_partitioning_def Let_def by (auto simp: rbind_eq_Inr_iff)
  moreover have "fl_heap f = fl_heap f1" "fl_buffer f = fl_buffer f1" using f1(2) by (auto simp: create_blocks_def rbind_eq_Inr_iff)
  ultimately show "fl_heap f = fl_heap f0" "fl_buffer f = fl_buffer f0" by simp_all
  show "fl_meta f = fl_meta f0" using partition_and_create_meta [OF assms] .
qed

lemma write_all: "write_bytes buf 0 data = Inr buf' \<Longrightarrow> length buf = length data \<Longrightarrow> buf' = data"
  by (simp add: write_bytes_def split: if_splits)

lemma file_of_data_steps:
  assumes "file_of_data malloc md5 uninit toi oti location ctype expires data copy_data = Some (Inr f)"
    and "\<And>buf. malloc (length data) = Some buf \<Longrightarrow> length buf = length data"
  shows "partition_and_create 0 (file_with (data_entry md5 toi oti location ctype expires data) copy_data data uninit None) =
    Some (Inr f)"
proof -
  let ?e = "data_entry md5 toi oti location ctype expires data"
  have entry: "set_transfer_length (of_nat (length data))
      \<lparr>fe_toi = toi, content_location = location, content_length = of_nat (length data),
       content_md5 = base64_encode (take 16 (md5 data)) False, content_type = ctype, fe_expires = expires,
       fe_fec_oti = oti, fe_cache_control = \<lparr>no_cache = False, cache_expires = None\<rparr>,
       fe_content_encoding = '''', etag = ''''\<rparr> = ?e"
    by (simp add: set_transfer_length_def data_entry_def)
  show ?thesis
  proof (cases copy_data)
    case True
    with assms(1) obtain buf buf' where m: "malloc (length data) = Some buf" "write_bytes buf 0 data = Inr buf'"
      by (auto simp: file_of_data_def Let_def split: option.splits sum.splits)
    with assms(2) write_all have "buf' = data" by blast
    with True assms(1) m entry show ?thesis by (simp add: file_of_data_def Let_def split: if_splits)
  next
    case False
    with assms(1) entry show ?thesis by (simp add: file_of_data_def Let_def split: if_splits)
  qed
qed

lemma made_object:
  assumes "partition_and_create b f0 = Some (Inr f)" and "fl_buffer f0 = Some b" and "heap_at (fl_heap f0) b = Some data"
    and "\<not> fl_been_decoded f0" "\<not> fl_complete f0" "fl_source_blocks f0 = []" and "sendable_file env mp f"
  shows "sender_file (fl_oti f) (contents f) {} {} f" and "contents f = data" and "fl_meta f = fl_meta f0"
proof -
  note c = created_fixed [OF assms(1)]
  show m: "fl_meta f = fl_meta f0" by (rule c(2))
  show d: "contents f = data" using c assms(2,3) by (simp add: contents_def file_buffer_def)
  have p: "partition_ok (fl_oti f0)" "length data = tlen (fl_oti f0)"
    using assms(7) c(2) d by (simp_all add: sendable_file_def)
  have "f = created_file b f0"
    using partition_and_create_eq [OF p(1) assms(6), of b] assms(1) by simp
  moreover have "sender_file (fl_oti f0) data {} {} (created_file b f0)"
    by (rule created_sender) (use p assms in simp_all)
  ultimately have "sender_file (fl_oti f0) data {} {} f" by simp
  then show "sender_file (fl_oti f) (contents f) {} {} f" by (simp only: d c(2))
qed

lemma made_file_with:
  assumes "partition_and_create 0 (file_with meta own data uninit d) = Some (Inr f)" and "sendable_file env mp f"
  shows "sender_file (fl_oti f) (contents f) {} {} f" and "contents f = data" and "fl_meta f = meta"
  using made_object [OF assms(1), of data env mp] assms(2) by simp_all

lemma fixed_instance_id [simp]:
  "contents (set_fdt_instance_id n f) = contents f" "fl_meta (set_fdt_instance_id n f) = fl_meta f"
  "fl_fdt_instance_id (set_fdt_instance_id n f) = n" "sendable_file env mp (set_fdt_instance_id n f) = sendable_file env mp f"
  "sender_file oti data S Q (set_fdt_instance_id n f) = sender_file oti data S Q f"
  by (simp_all add: set_fdt_instance_id_def contents_def sendable_file_def sender_file_def file_buffer_def)

lemma send_fdt_good:
  assumes good: "tr_good env tsi mp S Q t" and step: "send_fdt env now t = Some (Inr (), t')"
    and mem: "memory_exact env" and plain: "\<forall>f \<in> set (tr_store t'). sendable_file env mp f"
  shows "\<exists>S Q. tr_good env tsi mp S Q t'"
  using step
proof (cases rule: send_fdt_cases)
  case nothing
  with good show ?thesis by blast
next
  case (queued f)
  let ?g = "set_fdt_instance_id (ucast (instance_id (tr_fdt t))) f"
  have p: "sendable_file env mp f" using plain queued(3) by simp
  have exact: "\<And>buf. se_malloc env n = Some buf \<Longrightarrow> length buf = n" for n using mem by (simp add: memory_exact_def)
  note made = made_file_with [OF file_of_data_steps [OF queued(2) exact] p]
  have "tr_good env tsi mp (S(length (tr_store t) := {})) (Q(length (tr_store t) := {})) t'"
  proof (rule tr_good_extend [OF good, of ?g])
    show "sender_file (fl_oti ?g) (contents ?g) {} {} ?g" using made(1) by simp
    show "table_file env ?g" unfolding table_file_def
      by (intro exI [of _ "sent_table now (tr_fdt t)"]) (simp add: made(2))
    show "tr_objects t' = tr_objects (t\<lparr>tr_store := tr_store t @ [?g]\<rparr>)" by (simp add: queued(3) tr_objects_def)
    show "\<forall>x \<in> set (tr_files t'). snd x < Suc (length (tr_store t))"
    proof -
      have "set (tr_files t') \<subseteq> insert (0, length (tr_store t)) (set (tr_files t))"
        using om_set_subset [of 0 "length (tr_store t)" "tr_files t"] by (simp add: queued(3))
      with good show ?thesis by (fastforce simp: tr_good_def)
    qed
  qed
  then show ?thesis by blast
qed

lemma send_data_good:
  assumes good: "tr_good env tsi mp S Q t" and inv: "tr_inv t"
    and step: "send_data env now location ctype expires data t = Some (Inr (), t')"
    and mem: "memory_exact env" and plain: "\<forall>f \<in> set (tr_store t'). sendable_file env mp f"
  shows "\<exists>S Q. tr_good env tsi mp S Q t'"
  using step
proof (cases rule: send_data_cases)
  case (1 f t3)
  let ?t2 = "(advance_toi t)\<lparr>tr_store := tr_store t @ [f], tr_fdt := fdt_add (fl_meta f) (tr_fdt t)\<rparr>"
  have plain3: "\<forall>f \<in> set (tr_store t3). sendable_file env mp f" using plain 1(3) by simp
  note grows = send_fdt_grows [OF 1(2)]
  have p: "sendable_file env mp f" using store_grows_sendable [OF grows plain3] by simp
  have exact: "\<And>buf. se_malloc env n = Some buf \<Longrightarrow> length buf = n" for n using mem by (simp add: memory_exact_def)
  note made = made_file_with [OF file_of_data_steps [OF 1(1) exact] p]
  have "(ucast (tr_toi t) :: u32) \<noteq> 0" using inv by (simp add: tr_inv_def queue_announced_def toi32_nonzero)
  then have "fe_toi (fl_meta f) \<noteq> 0" using made(3) by simp
  moreover have "\<forall>x \<in> set (tr_files t). snd x < Suc (length (tr_store t))" using good by (fastforce simp: tr_good_def)
  ultimately have "tr_good env tsi mp (S(length (tr_store t) := {})) (Q(length (tr_store t) := {})) ?t2"
    by (intro tr_good_extend [OF good made(1)]) (simp_all add: tr_objects_def)
  from send_fdt_good [OF this 1(2) mem plain3] obtain S' Q' where good3: "tr_good env tsi mp S' Q' t3" by blast
  have "length (tr_store t) < length (tr_store t3)"
    using store_grows_fixed(1) [OF grows, of "length (tr_store t)"] by simp
  moreover have "\<forall>x \<in> set (tr_files t3). snd x < length (tr_store t3)" using good3 by (simp add: tr_good_def)
  ultimately have "\<forall>x \<in> set (tr_files t'). snd x < length (tr_store t3)"
    using om_insert_subset [of "ucast (tr_toi t)" "length (tr_store t)" "tr_files t3"] 1(3) by fastforce
  then have "tr_good env tsi mp S' Q' t'" by (rule tr_good_frame [OF good3, rotated]) (simp add: 1(3) tr_objects_def)
  then show ?thesis by blast
qed

text \<open>Encoding leaves a buffer that can be cut into symbols, whichever way it ends without an exception.\<close>

lemma encoded_buffer:
  assumes "encode z (file_with e True data uninit d) = Some (Inr (), f)" and "fl_buffer f = Some b"
  shows "\<exists>bs. heap_at (fl_heap f) b = Some bs" and "\<not> fl_been_decoded f" and "\<not> fl_complete f" and "fl_source_blocks f = []"
    and "fe_toi (fl_meta f) = fe_toi e"
  using assms
  by (auto simp: encode_def Let_def install_buffer_def free_old_def heap_free_def heap_at_def set_transfer_length_def file_with_def
      split: if_splits option.splits sum.splits prod.splits)

lemma file_of_description_steps:
  assumes "file_of_description malloc z uninit number data entry = Some (Inr f)"
    and "\<And>buf. malloc (length data) = Some buf \<Longrightarrow> length buf = length data"
  obtains f1 b where "encode z (file_with (set_transfer_length (of_nat (length data)) entry) True data uninit (Some number)) = Some (Inr (), f1)"
    and "fl_buffer f1 = Some b" and "partition_and_create b f1 = Some (Inr f)"
proof -
  from assms(1) obtain buf buf' where m: "malloc (length data) = Some buf" "write_bytes buf 0 data = Inr buf'"
    by (auto simp: file_of_description_def split: option.splits sum.splits)
  with assms(2) write_all have "buf' = data" by blast
  with m assms(1) show ?thesis
    by (auto simp: file_of_description_def intro: that split: option.splits sum.splits prod.splits if_splits)
qed

lemma prepare_objects:
  "prepare_description t d = (d', t1) \<Longrightarrow> tr_objects t1 = tr_objects t \<and> tr_files t1 = tr_files t"
  by (auto simp: prepare_description_def Let_def tr_objects_def split: if_splits)

lemma send_description_good:
  assumes good: "tr_good env tsi mp S Q t" and inv: "tr_inv t"
    and step: "send_description env now s number d t = Some (d', Inr (), t')"
    and mem: "memory_exact env" and plain: "\<forall>f \<in> set (tr_store t'). sendable_file env mp f"
  shows "\<exists>S Q. tr_good env tsi mp S Q t'"
  using step
proof (cases rule: send_description_cases)
  case (1 t1 data f)
  let ?t2 = "t1\<lparr>tr_store := tr_store t1 @ [f],
       tr_files := om_insert (fe_toi (fd_entry d')) (length (tr_store t1)) (tr_files t1),
       tr_fdt := fdt_add (fl_meta f) (tr_fdt t1)\<rparr>"
  have p: "sendable_file env mp f" using store_grows_sendable [OF send_fdt_grows [OF 1(4)] plain] by simp
  have exact: "\<And>buf. se_malloc env n = Some buf \<Longrightarrow> length buf = n" for n using mem by (simp add: memory_exact_def)
  obtain f1 b where f1: "fl_buffer f1 = Some b" "partition_and_create b f1 = Some (Inr f)"
    "encode (se_zlib env) (file_with (set_transfer_length (of_nat (length data)) (fd_entry d')) True data (se_uninit_time env) (Some number)) =
      Some (Inr (), f1)"
    using file_of_description_steps [OF 1(3) exact] by metis
  obtain bs where bs: "heap_at (fl_heap f1) b = Some bs" using encoded_buffer(1) [OF f1(3,1)] by blast
  note made = made_object [OF f1(2,1) bs encoded_buffer(2-4) [OF f1(3,1)] p]
  have "tr_toi t \<noteq> 0" using inv by (simp add: tr_inv_def queue_announced_def)
  from prepared_description(1) [OF 1(1) this] have toi: "fe_toi (fl_meta f) \<noteq> 0"
    using file_of_description_toi [OF 1(3)] by simp
  note po = prepare_objects [OF 1(1)]
  have good1: "tr_good env tsi mp S Q t1"
    by (rule tr_good_frame [OF good]) (use po good in \<open>auto simp: tr_good_def\<close>)
  have "\<forall>x \<in> set (tr_files t1). snd x < length (tr_store t1)" using good1 by (simp add: tr_good_def)
  then have "\<forall>x \<in> set (tr_files ?t2). snd x < Suc (length (tr_store t1))"
    using om_insert_subset [of "fe_toi (fd_entry d')" "length (tr_store t1)" "tr_files t1"] by fastforce
  then have "tr_good env tsi mp (S(length (tr_store t1) := {})) (Q(length (tr_store t1) := {})) ?t2"
    using toi by (intro tr_good_extend [OF good1 made(1)]) (simp_all add: tr_objects_def)
  then show ?thesis by (rule send_fdt_good [OF _ 1(4) mem plain])
qed


section \<open>Sending and completion\<close>

text \<open>One file moves on.\<close>

lemma tr_good_update:
  assumes good: "tr_good env tsi mp S Q t" and i: "i < length (tr_store t)"
    and f: "fixed_part f = fixed_part (tr_store t ! i)" "sender_file (fl_oti f) (contents f) S' Q' f" "S i \<subseteq> S'"
    and st: "tr_store t' = (tr_store t)[i := f]" "tr_tunnel t' = tr_tunnel t" "tr_tsi t' = tr_tsi t"
      "tr_max_payload t' = tr_max_payload t" "tr_completed t' = tr_completed t" "tr_files t' = tr_files t"
    and sent: "set (tr_sent t) \<subseteq> set (tr_sent t')"
      "\<And>x. x \<in> set (tr_sent t') - set (tr_sent t) \<Longrightarrow> \<exists>j < length (tr_store t). \<exists>ij. file_packet tsi (tr_store t ! j) ij (snd x)"
      "\<And>ij. ij \<in> S' - S i \<Longrightarrow> \<exists>x \<in> set (tr_sent t'). file_packet tsi (tr_store t ! i) ij (snd x)"
    and pending: "\<And>p. p \<in> set (tr_pending t') \<Longrightarrow> pending_good tsi (Q(i := Q')) t' p" "distinct (map pending_key (tr_pending t'))"
  shows "tr_good env tsi mp (S(i := S')) (Q(i := Q')) t'"
proof -
  have same: "fixed_part (tr_store t' ! j) = fixed_part (tr_store t ! j)" if "j < length (tr_store t)" for j
    using that f(1) by (cases "j = i") (simp_all add: st(1))
  have packet: "file_packet tsi (tr_store t' ! j) ij d = file_packet tsi (tr_store t ! j) ij d"
    if "j < length (tr_store t)" for j ij d
    using file_packet_cong [OF same [OF that]] .
  have len: "length (tr_store t') = length (tr_store t)" by (simp add: st(1))
  have g: "tr_tunnel t = None" "tr_tsi t = tsi" "tr_max_payload t = mp"
    "\<And>j. j < length (tr_store t) \<Longrightarrow>
        sender_file (fl_oti (tr_store t ! j)) (contents (tr_store t ! j)) (S j) (Q j) (tr_store t ! j) \<and>
        (\<forall>ij \<in> S j. \<exists>x \<in> set (tr_sent t). file_packet tsi (tr_store t ! j) ij (snd x)) \<and>
        (fe_toi (fl_meta (tr_store t ! j)) = 0 \<longrightarrow> table_file env (tr_store t ! j))"
    "\<And>x. x \<in> set (tr_sent t) \<Longrightarrow> \<exists>j < length (tr_store t). \<exists>ij. file_packet tsi (tr_store t ! j) ij (snd x)"
    "\<And>toi. toi \<in> set (tr_completed t) \<Longrightarrow> \<exists>j < length (tr_store t).
        fe_toi (fl_meta (tr_store t ! j)) = toi \<and> symbol_pairs (fl_oti (tr_store t ! j)) \<subseteq> S j"
    "\<forall>x \<in> set (tr_files t). snd x < length (tr_store t)"
    using good by (simp_all add: tr_good_def)
  have files: "sender_file (fl_oti (tr_store t' ! j)) (contents (tr_store t' ! j)) ((S(i := S')) j) ((Q(i := Q')) j) (tr_store t' ! j) \<and>
      (\<forall>ij \<in> (S(i := S')) j. \<exists>x \<in> set (tr_sent t'). file_packet tsi (tr_store t' ! j) ij (snd x)) \<and>
      (fe_toi (fl_meta (tr_store t' ! j)) = 0 \<longrightarrow> table_file env (tr_store t' ! j))" if j: "j < length (tr_store t)" for j
  proof -
    have c: "fl_meta (tr_store t' ! j) = fl_meta (tr_store t ! j)"
      "table_file env (tr_store t' ! j) = table_file env (tr_store t ! j)"
      using fixed_part_cong [OF same [OF j]] by (simp_all add: table_file_def)
    have "\<exists>x \<in> set (tr_sent t'). file_packet tsi (tr_store t' ! j) ij (snd x)" if "ij \<in> (S(i := S')) j" for ij
    proof (cases "ij \<in> S j")
      case True
      with g(4) [OF j] obtain x where "x \<in> set (tr_sent t)" "file_packet tsi (tr_store t ! j) ij (snd x)" by blast
      with sent(1) show ?thesis by (auto simp: packet [OF j])
    next
      case False
      with that sent(3) [of ij] show ?thesis by (auto simp: packet [OF j] split: if_splits)
    qed
    moreover have "sender_file (fl_oti (tr_store t' ! j)) (contents (tr_store t' ! j)) ((S(i := S')) j) ((Q(i := Q')) j) (tr_store t' ! j)"
      using g(4) [OF j] f(2) i by (cases "j = i") (simp_all add: st(1))
    ultimately show ?thesis using g(4) [OF j] c by simp
  qed
  have "\<exists>j < length (tr_store t). \<exists>ij. file_packet tsi (tr_store t' ! j) ij (snd x)" if "x \<in> set (tr_sent t')" for x
    using that g(5) [of x] sent(2) [of x] packet by (cases "x \<in> set (tr_sent t)") (auto, metis+)
  moreover have "\<exists>j < length (tr_store t). fe_toi (fl_meta (tr_store t' ! j)) = toi \<and>
      symbol_pairs (fl_oti (tr_store t' ! j)) \<subseteq> (S(i := S')) j" if toi: "toi \<in> set (tr_completed t')" for toi
  proof -
    from g(6) toi obtain j where j: "j < length (tr_store t)" "fe_toi (fl_meta (tr_store t ! j)) = toi"
      "symbol_pairs (fl_oti (tr_store t ! j)) \<subseteq> S j" by (auto simp: st(5))
    have m: "fl_meta (tr_store t' ! j) = fl_meta (tr_store t ! j)" using fixed_part_cong [OF same [OF j(1)]] by simp
    have "symbol_pairs (fl_oti (tr_store t ! j)) \<subseteq> (S(i := S')) j" using j(3) f(3) by auto
    with j(1,2) show ?thesis by (intro exI [of _ j]) (simp add: m)
  qed
  ultimately show ?thesis
    using g(1-3,7) files pending unfolding tr_good_def len by (simp add: st(2-4,6))
qed

lemma pending_good_mono:
  assumes "pending_good tsi Q t p" and "store_grows t t'" and "Q (pd_file p) \<subseteq> Q' (pd_file p)"
    and "set (tr_sent t) \<subseteq> set (tr_sent t')"
  shows "pending_good tsi Q' t' p"
proof -
  have i: "pd_file p < length (tr_store t)" using assms(1) by (simp add: pending_good_def)
  note g = store_grows_fixed [OF assms(2) i]
  have "fl_meta (tr_store t' ! pd_file p) = fl_meta (tr_store t ! pd_file p)"
    "contents (tr_store t' ! pd_file p) = contents (tr_store t ! pd_file p)"
    using fixed_part_cong(1,4) [OF g(2)] by simp_all
  with assms(1,3,4) g(1) file_packet_cong [OF g(2)] show ?thesis by (fastforce simp: pending_good_def)
qed

end
