(* ===== verification/Transmission_Safety.thy ===== *)
theory Transmission_Safety
  imports Transmission
begin

text \<open>
  The steps of the send loop and the completions of sends keep the state of a session, so that every
  interleaving does: the safety of a transmitter without a tunnel.
\<close>

section \<open>One packet\<close>

lemma sendableD:
  assumes "sendable_file env mp f"
  shows "partition_ok (fl_oti f)" "encoding_id (fl_oti f) = CompactNoCode" "unat mp \<le> slen (fl_oti f) + 4"
    "slen (fl_oti f) \<le> unat mp" "md5_ok (se_md5 env) (contents f) (fl_meta f)"
  using assms by (simp_all add: sendable_file_def)

lemma pending_key_symbol:
  "pd_symbols p = [s] \<Longrightarrow> genuine oti data ij s \<Longrightarrow> pending_key p = (pd_file p, [ij])"
  by (simp add: pending_key_def genuine_def)

lemma pending_good_key:
  "pending_good tsi Q t p \<Longrightarrow> \<exists>ij \<in> Q (pd_file p). pending_key p = (pd_file p, [ij])"
  by (auto simp: pending_good_def pending_key_symbol)

text \<open>What the send loop does with a file: nothing when all of its symbols are under way, otherwise it
  sends the next one.\<close>

lemma send_packet_of_steps:
  fixes mp :: u32
  assumes g: "tr_tunnel t = None" "tr_tsi t = tsi" "tr_max_payload t = mp"
    and sender: "sender_file (fl_oti (tr_store t ! i)) (contents (tr_store t ! i)) S Q (tr_store t ! i)"
    and mp: "4 < unat mp" "unat mp < 2013" and plain: "sendable_file env mp (tr_store t ! i)"
  defines "f \<equiv> tr_store t ! i"
  shows "if symbol_pairs (fl_oti f) \<subseteq> S \<union> Q then send_packet_of env takes i t = (Inr 0, t)
    else \<exists>ij s d f'. ij \<in> symbol_pairs (fl_oti f) \<and> ij \<notin> S \<union> Q \<and> genuine (fl_oti f) (contents f) ij s \<and>
      file_packet tsi f ij d \<and> d \<noteq> [] \<and> fixed_part f' = fixed_part f \<and>
      sender_file (fl_oti f) (contents f) S (insert ij Q) f' \<and>
      send_packet_of env takes i t = (Inr (length d), start_send takes i [s] (tr_endpoint t) d False (update_file i f' t))"
proof -
  note p = sendableD [OF plain, folded f_def]
  have b: "unat mp - 4 \<le> slen (fl_oti f)" "unat mp < 2 ^ 24" "slen (fl_oti f) < 2 ^ 24" using p(3,4) mp by simp_all
  note step = next_symbol [OF p(1) sender [folded f_def] p(2) mp(1) b]
  show ?thesis
  proof (cases "symbol_pairs (fl_oti f) \<subseteq> S \<union> Q")
    case True
    with step have "get_next_symbols (ucast mp) (tr_store t ! i) = Inr ([], f)" by (simp add: f_def)
    moreover have "update_file i f t = t" by (simp add: update_file_def f_def)
    ultimately show ?thesis using True g(3) by (simp add: send_packet_of_def)
  next
    case False
    with step obtain ij s f' where s: "get_next_symbols (ucast mp) f = Inr ([s], f')" "ij \<in> symbol_pairs (fl_oti f)"
      "ij \<notin> S \<union> Q" "genuine (fl_oti f) (contents f) ij s" "symbol_run (encoding_symbol_length (fl_oti f)) [s]"
      "sender_file (fl_oti f) (contents f) S (insert ij Q) f'" by auto
    have fixd: "fixed_part f' = fixed_part f" using get_next_symbols_fixed [OF s(1)] .
    from symbol_packet [OF s(4,5) p(2,4) mp(2)] obtain out where
      out: "alc_build (ucast tsi) (ucast (fe_toi (fl_meta f))) (fl_oti f) [s] (ucast mp) (ucast (fl_fdt_instance_id f)) = Inr out"
      "packet_of (ucast tsi) (ucast (fe_toi (fl_meta f))) (ucast (fl_fdt_instance_id f)) (fl_oti f) (fl_oti f)
         (contents f) [ij] (wire out)" by blast
    have packet: "file_packet tsi f ij (wire out)" using out(2) by (simp add: file_packet_def)
    have e: "encoding_symbol_length (fl_oti f) \<noteq> 0" using p(1) by (auto simp: partition_ok_def)
    have "slen (fl_oti f) < 2 ^ 24" by (rule b)
    from packet_parsed(3) [OF out(2) p(2) p(2) e this] have "wire out \<noteq> []" by (auto simp: lct_words_def split: if_splits)
    moreover have "send_packet_of env takes i t =
        (Inr (length (wire out)), start_send takes i [s] (tr_endpoint t) (wire out) False (update_file i f' t))"
      using s(1) g(1-3) out(1) fixed_part_cong(1,3) [OF fixd]
      by (simp add: send_packet_of_def f_def [symmetric])
    ultimately show ?thesis unfolding if_not_P [OF False]
      using s(2-4,6) packet fixd by (intro exI [of _ ij] exI [of _ s] exI [of _ "wire out"] exI [of _ f']) simp
  qed
qed

lemma send_packet_of_good:
  fixes mp :: u32
  assumes good: "tr_good env tsi mp S Q t" and i: "i < length (tr_store t)" and mp: "4 < unat mp" "unat mp < 2013"
    and plain: "sendable_file env mp (tr_store t ! i)" and step: "send_packet_of env takes i t = (Inr n, t')"
  shows "\<exists>S Q. tr_good env tsi mp S Q t'"
proof -
  have g: "tr_tunnel t = None" "tr_tsi t = tsi" "tr_max_payload t = mp"
    "sender_file (fl_oti (tr_store t ! i)) (contents (tr_store t ! i)) (S i) (Q i) (tr_store t ! i)"
    using good i by (simp_all add: tr_good_def)
  show ?thesis
  proof (cases "symbol_pairs (fl_oti (tr_store t ! i)) \<subseteq> S i \<union> Q i")
    case True
    with send_packet_of_steps [OF g mp plain, of takes] step have "t' = t" by simp
    with good show ?thesis by blast
  next
    case False
    let ?f = "tr_store t ! i"
    from send_packet_of_steps [OF g mp plain, of takes, unfolded if_not_P [OF False]] obtain ij s d f' where
      ij: "ij \<in> symbol_pairs (fl_oti ?f)" "ij \<notin> S i \<union> Q i" and gen: "genuine (fl_oti ?f) (contents ?f) ij s"
      and packet: "file_packet tsi ?f ij d" and fixd: "fixed_part f' = fixed_part ?f"
      and sender: "sender_file (fl_oti ?f) (contents ?f) (S i) (insert ij (Q i)) f'"
      and eq: "send_packet_of env takes i t = (Inr (length d), start_send takes i [s] (tr_endpoint t) d False (update_file i f' t))"
      by blast
    let ?Q = "insert ij (Q i)"
    define new where "new = \<lparr>pd_file = i, pd_symbols = [s], pd_endpoint = tr_endpoint t, pd_data = Some d, pd_taken = takes\<rparr>"
    have t': "t' = t\<lparr>tr_store := (tr_store t)[i := f'], tr_pending := tr_pending t @ [new],
        tr_sent := (if takes then tr_sent t @ [(tr_endpoint t, d)] else tr_sent t)\<rparr>"
      using eq step by (simp add: start_send_def update_file_def new_def)
    have grows: "store_grows t t'" using fixd by (intro store_grows_update [of f' t i]) (simp_all add: t')
    have old: "pending_good tsi (Q(i := ?Q)) t' p" if "p \<in> set (tr_pending t)" for p
      using good that by (intro pending_good_mono [OF _ grows]) (auto simp: tr_good_def t')
    note c = fixed_part_cong(1,4) [OF fixd]
    have "pending_good tsi (Q(i := ?Q)) t' new"
      unfolding pending_good_def
      by (intro conjI exI [of _ ij] exI [of _ s] exI [of _ d])
        (use i gen packet in \<open>simp_all add: new_def t' c file_packet_cong [OF fixd]\<close>)
    with old have all: "pending_good tsi (Q(i := ?Q)) t' p" if "p \<in> set (tr_pending t')" for p
      using that by (auto simp: t')
    have "pending_key new \<noteq> pending_key p" if "p \<in> set (tr_pending t)" for p
    proof -
      have "pending_good tsi Q t p" using good that by (simp add: tr_good_def)
      from pending_good_key [OF this] ij(2) show ?thesis
        using pending_key_symbol [of new, OF _ gen] by (auto simp: new_def)
    qed
    moreover have "distinct (map pending_key (tr_pending t))" using good by (simp add: tr_good_def)
    ultimately have "distinct (map pending_key (tr_pending t'))" by (auto simp: t')
    moreover have "\<exists>j < length (tr_store t). \<exists>ij. file_packet tsi (tr_store t ! j) ij d" using i packet by blast
    ultimately have "tr_good env tsi mp (S(i := S i)) (Q(i := ?Q)) t'"
      using all i sender c by (intro tr_good_update [OF good i fixd]) (auto simp: t' split: if_splits)
    then show ?thesis by blast
  qed
qed

section \<open>Completions\<close>

lemma file_transmitted_good:
  assumes good: "tr_good env tsi mp S Q t" and i: "i < length (tr_store t)"
    and f: "fe_toi (fl_meta (tr_store t ! i)) = toi" "fl_complete (tr_store t ! i)"
    and step: "file_transmitted env now toi t = Some (Inr (), t')"
    and mem: "memory_exact env" and plain: "\<forall>f \<in> set (tr_store t'). sendable_file env mp f"
  shows "\<exists>S Q. tr_good env tsi mp S Q t'"
  using step
proof (cases rule: file_transmitted_cases)
  case fdt
  have "tr_good env tsi mp S Q t'"
    by (rule tr_good_frame [OF good]) (use good in \<open>auto simp: fdt(2) tr_objects_def tr_good_def om_erase_def\<close>)
  then show ?thesis by blast
next
  case (object t2)
  let ?t1 = "t\<lparr>tr_files := om_erase toi (tr_files t), tr_fdt := fdt_remove toi (tr_fdt t)\<rparr>"
  have good1: "tr_good env tsi mp S Q ?t1"
    by (rule tr_good_frame [OF good]) (use good in \<open>auto simp: tr_objects_def tr_good_def om_erase_def\<close>)
  have st: "tr_store t' = tr_store t2" using object(3) by simp
  from send_fdt_good [OF good1 object(2) mem] plain st obtain S' Q' where good2: "tr_good env tsi mp S' Q' t2" by auto
  have same: "i < length (tr_store t2) \<and> tr_store t2 ! i = tr_store t ! i"
    using object(2) i by (auto elim!: send_fdt_cases simp: nth_append)
  then have "sender_file (fl_oti (tr_store t ! i)) (contents (tr_store t ! i)) (S' i) (Q' i) (tr_store t ! i)"
    using good2 by (auto simp: tr_good_def)
  with f(2) have "symbol_pairs (fl_oti (tr_store t ! i)) \<subseteq> S' i" by (simp add: sender_file_def)
  with same f(1) have "\<exists>j < length (tr_store t2). fe_toi (fl_meta (tr_store t2 ! j)) = toi \<and>
      symbol_pairs (fl_oti (tr_store t2 ! j)) \<subseteq> S' j" by (intro exI [of _ i]) simp
  with good2 have "tr_good env tsi mp S' Q' t'"
    unfolding object(3) by (simp add: tr_good_def pending_good_def)
  then show ?thesis by blast
qed

lemma set_remove_pending:
  assumes "distinct (map pending_key (tr_pending t))" and k: "k < length (tr_pending t)"
  shows "distinct (map pending_key (tr_pending (remove_pending k t)))"
    and "p \<in> set (tr_pending (remove_pending k t)) \<Longrightarrow>
      p \<in> set (tr_pending t) \<and> pending_key p \<noteq> pending_key (tr_pending t ! k)"
proof -
  let ?ps = "tr_pending t"
  have ps: "?ps = take k ?ps @ ?ps ! k # drop (Suc k) ?ps" using k by (simp add: id_take_nth_drop)
  have d: "distinct (map pending_key (take k ?ps @ ?ps ! k # drop (Suc k) ?ps))" using assms(1) ps by simp
  then show "distinct (map pending_key (tr_pending (remove_pending k t)))"
    by (simp add: remove_pending_def)
  assume "p \<in> set (tr_pending (remove_pending k t))"
  then have p: "p \<in> set (take k ?ps) \<or> p \<in> set (drop (Suc k) ?ps)" by (simp add: remove_pending_def)
  then have "pending_key p \<in> pending_key ` set (take k ?ps) \<union> pending_key ` set (drop (Suc k) ?ps)" by blast
  moreover have "pending_key (?ps ! k) \<notin> pending_key ` set (take k ?ps) \<union> pending_key ` set (drop (Suc k) ?ps)"
    using d by simp
  ultimately have "pending_key p \<noteq> pending_key (?ps ! k)" by metis
  with p show "p \<in> set ?ps \<and> pending_key p \<noteq> pending_key (?ps ! k)"
    by (auto dest: in_set_takeD in_set_dropD)
qed

lemma remove_pending_simps [simp]:
  "tr_store (remove_pending k t) = tr_store t" "tr_sent (remove_pending k t) = tr_sent t"
  "tr_tunnel (remove_pending k t) = tr_tunnel t" "tr_tsi (remove_pending k t) = tr_tsi t"
  "tr_max_payload (remove_pending k t) = tr_max_payload t" "tr_completed (remove_pending k t) = tr_completed t"
  "tr_files (remove_pending k t) = tr_files t"
  by (simp_all add: remove_pending_def)

lemma remove_pending_good:
  assumes "tr_good env tsi mp S Q t" and "k < length (tr_pending t)"
  shows "tr_good env tsi mp S Q (remove_pending k t)"
  using assms set_remove_pending [of t k] by (auto simp: tr_good_def pending_good_def)

lemma run_completion_good:
  fixes mp :: u32
  assumes good: "tr_good env tsi mp S Q t" and k: "k < length (tr_pending t)"
    and step: "run_completion env now error k t = Some (Inr (), t')"
    and mem: "memory_exact env" and plain: "\<forall>f \<in> set (tr_store t'). sendable_file env mp f"
  shows "\<exists>S Q. tr_good env tsi mp S Q t'"
proof (cases error)
  case True
  with step have "t' = remove_pending k t" by (simp add: run_completion_def send_completed_def)
  with remove_pending_good [OF good k] show ?thesis by blast
next
  case False
  define p where "p = tr_pending t ! k"
  define i where "i = pd_file p"
  let ?t0 = "remove_pending k t" and ?f = "tr_store t ! i"
  have "p \<in> set (tr_pending t)" using k by (simp add: p_def)
  with good have "pending_good tsi Q t p" by (simp add: tr_good_def)
  then obtain ij s d where p: "i < length (tr_store t)" "pd_symbols p = [s]" "genuine (fl_oti ?f) (contents ?f) ij s"
    "ij \<in> Q i" "pd_data p = Some d" "file_packet tsi ?f ij d" "pd_taken p \<longrightarrow> (pd_endpoint p, d) \<in> set (tr_sent t)"
    unfolding pending_good_def i_def by blast
  define t1 where "t1 = (if pd_taken p then ?t0 else ?t0\<lparr>tr_sent := tr_sent t @ [(pd_endpoint p, d)]\<rparr>)"
  have late: "transmit_late p ?t0 = Inr t1" using p(5) by (simp add: transmit_late_def t1_def)
  have t1: "tr_store t1 = tr_store t" "tr_pending t1 = tr_pending ?t0" "tr_tunnel t1 = tr_tunnel t" "tr_tsi t1 = tr_tsi t"
    "tr_max_payload t1 = tr_max_payload t" "tr_completed t1 = tr_completed t" "tr_files t1 = tr_files t"
    "(pd_endpoint p, d) \<in> set (tr_sent t1)" "set (tr_sent t1) \<subseteq> insert (pd_endpoint p, d) (set (tr_sent t))"
    "set (tr_sent t) \<subseteq> set (tr_sent t1)"
    using p(7) by (auto simp: t1_def)
  have "send_completed env now error (tr_pending t ! k) ?t0 = Some (Inr (), t')" using step by (simp add: run_completion_def)
  from grows_from [OF send_completed_grows [OF this]] have "store_grows t t'" by simp
  from store_grows_sendable [OF this plain] p(1) have "sendable_file env mp ?f" by simp
  note pl = sendableD [OF this]
  have sf: "sender_file (fl_oti ?f) (contents ?f) (S i) (Q i) ?f" using good p(1) by (simp add: tr_good_def)
  define f where "f = ?f\<lparr>fl_source_blocks := send_blocks (file_buffer ?f) (fl_oti ?f) (insert ij (S i)) (Q i - {ij}),
    fl_complete := symbol_pairs (fl_oti ?f) \<subseteq> insert ij (S i)\<rparr>"
  note marked = sent_symbol_marked [OF pl(1,5) sf p(3,4), folded f_def]
  let ?t2 = "update_file i f t1"
  have fixd: "fixed_part f = fixed_part ?f" by (simp add: f_def fixed_part_def)
  note c = fixed_part_cong(1,4) [OF fixd]
  have grows: "store_grows t ?t2" using fixd by (intro store_grows_update [of f t i]) (simp_all add: update_file_def t1(1))
  have good2: "tr_good env tsi mp (S(i := insert ij (S i))) (Q(i := Q i - {ij})) ?t2"
  proof (rule tr_good_update [OF good p(1) fixd])
    show "sender_file (fl_oti f) (contents f) (insert ij (S i)) (Q i - {ij}) f" using marked(2) by (simp add: c)
    fix p' assume "p' \<in> set (tr_pending ?t2)"
    then have "p' \<in> set (tr_pending ?t0)" by (simp add: update_file_def t1(2))
    with set_remove_pending(2) [OF _ k] good have p': "p' \<in> set (tr_pending t)" "pending_key p' \<noteq> pending_key p"
      unfolding tr_good_def p_def by blast+
    have pg: "pending_good tsi Q t p'" using good p'(1) by (simp add: tr_good_def)
    have "pending_good tsi (Q(i := Q i - {ij})) t p'"
    proof (cases "pd_file p' = i")
      case True
      obtain ij' s' d' where q: "pd_symbols p' = [s']" "genuine (fl_oti ?f) (contents ?f) ij' s'" "ij' \<in> Q i"
        "pd_data p' = Some d'" "file_packet tsi ?f ij' d'" "pd_taken p' \<longrightarrow> (pd_endpoint p', d') \<in> set (tr_sent t)"
        using pg True unfolding pending_good_def by blast
      have "ij' \<noteq> ij"
        using p'(2) pending_key_symbol [OF q(1,2)] pending_key_symbol [OF p(2,3)] True by (auto simp: i_def)
      then show ?thesis unfolding pending_good_def
        by (intro conjI exI [of _ ij'] exI [of _ s'] exI [of _ d']) (use q p(1) True in simp_all)
    next
      case False
      with pg show ?thesis unfolding pending_good_def by simp
    qed
    then show "pending_good tsi (Q(i := Q i - {ij})) ?t2 p'"
      by (rule pending_good_mono [OF _ grows]) (use t1(10) in \<open>auto simp: update_file_def\<close>)
  next
    show "distinct (map pending_key (tr_pending ?t2))"
      using set_remove_pending(1) [OF _ k] good by (simp add: tr_good_def update_file_def t1(2))
    show "\<exists>j < length (tr_store t). \<exists>ij. file_packet tsi (tr_store t ! j) ij (snd x)"
      if "x \<in> set (tr_sent ?t2) - set (tr_sent t)" for x
    proof -
      have "x = (pd_endpoint p, d)" using that t1(9) by (auto simp: update_file_def)
      with p(1,6) show ?thesis by (intro exI [of _ i] conjI exI [of _ ij]) simp_all
    qed
    show "\<exists>x \<in> set (tr_sent ?t2). file_packet tsi ?f ij' (snd x)" if "ij' \<in> insert ij (S i) - S i" for ij'
      using that t1(8) p(6) by (auto simp: update_file_def intro: bexI [of _ "(pd_endpoint p, d)"])
  qed (use t1 in \<open>auto simp: update_file_def\<close>)
  have step2: "(if fl_complete f then file_transmitted env now (fe_toi (fl_meta f)) ?t2 else Some (Inr (), ?t2)) = Some (Inr (), t')"
    using step False late marked(1) p(2)
    by (simp add: run_completion_def send_completed_def Let_def p_def [symmetric] i_def [symmetric] t1(1))
  show ?thesis
  proof (cases "fl_complete f")
    case True
    have i2: "i < length (tr_store ?t2)" "tr_store ?t2 ! i = f" using p(1) by (simp_all add: update_file_def t1(1))
    with step2 True show ?thesis
      by (intro file_transmitted_good [OF good2 i2(1) _ _ _ mem plain]) simp_all
  next
    case False
    with step2 have "t' = ?t2" by simp
    with good2 show ?thesis by blast
  qed
qed


section \<open>Every interleaving\<close>

lemma next_file_index:
  assumes "tr_good env tsi mp S Q t" and "next_file t = Some i"
  shows "i < length (tr_store t)" and "\<not> fl_complete (tr_store t ! i)"
proof -
  from assms(2) obtain toi where "find (\<lambda>(toi, i). \<not> fl_complete (tr_store t ! i)) (tr_files t) = Some (toi, i)"
    by (auto simp: next_file_def)
  then have "(toi, i) \<in> set (tr_files t)" "\<not> fl_complete (tr_store t ! i)"
    by (auto simp: find_Some_iff) (metis nth_mem)
  with assms(1) show "i < length (tr_store t)" "\<not> fl_complete (tr_store t ! i)" by (auto simp: tr_good_def)
qed

lemma tr_good_same:
  assumes "tr_good env tsi mp S Q t" and "tr_objects t' = tr_objects t" and "tr_files t' = tr_files t"
  shows "tr_good env tsi mp S Q t'"
  by (rule tr_good_frame [OF assms(1,2)]) (use assms(1,3) in \<open>simp add: tr_good_def\<close>)

lemma reschedule_good: "tr_good env tsi mp S Q t \<Longrightarrow> tr_good env tsi mp S Q (reschedule n t)"
  by (erule tr_good_same)
    (simp_all add: tr_objects_def reschedule_def start_send_timer_def cancel_send_timer_def Let_def)

lemma send_next_packet_good:
  fixes mp :: u32
  assumes good: "tr_good env tsi mp S Q t" and mp: "4 < unat mp" "unat mp < 2013"
    and step: "send_next_packet env takes t = (Inr (), t')" and plain: "\<forall>f \<in> set (tr_store t). sendable_file env mp f"
  shows "\<exists>S Q. tr_good env tsi mp S Q t'"
proof (cases "tr_active t")
  case False
  with step have "t' = t" by (simp add: send_next_packet_def)
  with good show ?thesis by blast
next
  case True
  show ?thesis
  proof (cases "next_file t")
    case None
    with step True have "t' = reschedule 0 t" by (simp add: send_next_packet_def)
    with reschedule_good [OF good] show ?thesis by blast
  next
    case (Some i)
    with step True obtain n t1 where t1: "send_packet_of env takes i t = (Inr n, t1)" "t' = reschedule n t1"
      by (auto simp: send_next_packet_def split: sum.splits prod.splits)
    note i = next_file_index(1) [OF good Some]
    with plain have "sendable_file env mp (tr_store t ! i)" by simp
    from send_packet_of_good [OF good i mp this t1(1)] t1(2) reschedule_good show ?thesis by blast
  qed
qed

lemma setter_objects:
  "tr_objects (deactivate t) = tr_objects t" "tr_objects (set_rate_limit limit t) = tr_objects t"
  "tr_objects (set_endpoint e t) = tr_objects t" "tr_objects (set_source_address a t) = tr_objects t"
  "tr_objects (transmitter_register_completion_callback t) = tr_objects t"
  "tr_objects (send_timer_expires t) = tr_objects t" "tr_objects (fdt_timer_expires t) = tr_objects t"
  "tr_objects (start_fdt_repeat_timer t) = tr_objects t"
  "tr_files (deactivate t) = tr_files t" "tr_files (set_rate_limit limit t) = tr_files t"
  "tr_files (set_endpoint e t) = tr_files t" "tr_files (set_source_address a t) = tr_files t"
  "tr_files (transmitter_register_completion_callback t) = tr_files t"
  "tr_files (send_timer_expires t) = tr_files t" "tr_files (fdt_timer_expires t) = tr_files t"
  "tr_files (start_fdt_repeat_timer t) = tr_files t"
  by (simp_all add: tr_objects_def deactivate_def cancel_send_timer_def set_rate_limit_def set_endpoint_def
      set_source_address_def transmitter_register_completion_callback_def send_timer_expires_def fdt_timer_expires_def
      start_fdt_repeat_timer_def)

lemma run_fdt_handler_good:
  assumes good: "tr_good env tsi mp S Q t" and step: "run_fdt_handler env now t = Some (Inr (), t')"
    and mem: "memory_exact env" and plain: "\<forall>f \<in> set (tr_store t'). sendable_file env mp f"
  shows "\<exists>S Q. tr_good env tsi mp S Q t'"
proof (cases "tr_active t")
  case True
  let ?t1 = "t\<lparr>tr_fdt_ready := tr_fdt_ready t - 1\<rparr>"
  from step True obtain t2 where t2: "send_fdt env now ?t1 = Some (Inr (), t2)" "t' = start_fdt_repeat_timer t2"
    by (auto simp: run_fdt_handler_def fdt_send_tick_def split: option.splits sum.splits)
  have good1: "tr_good env tsi mp S Q ?t1" by (rule tr_good_same [OF good]) (simp_all add: tr_objects_def)
  from plain t2(2) have "\<forall>f \<in> set (tr_store t2). sendable_file env mp f" by (simp add: store_same)
  from send_fdt_good [OF good1 t2(1) mem this] obtain S' Q' where "tr_good env tsi mp S' Q' t2" by blast
  from tr_good_same [OF this, of t'] t2(2) show ?thesis by (auto simp: setter_objects)
next
  case False
  with step have "t' = t\<lparr>tr_fdt_ready := tr_fdt_ready t - 1\<rparr>" by (simp add: run_fdt_handler_def fdt_send_tick_def)
  with tr_good_same [OF good, of t'] show ?thesis by (auto simp: tr_objects_def)
qed

text \<open>The application does not set up a tunnel.\<close>

definition no_tunnel :: "tr_op \<Rightarrow> transmitter \<Rightarrow> bool" where
  "no_tunnel op t \<longleftrightarrow> (\<forall>e. op \<noteq> Set_Tunnel (Some e))"

lemma tr_step_good:
  fixes mp :: u32
  assumes good: "tr_good env tsi mp S Q t" and inv: "tr_inv t" and mp: "4 < unat mp" "unat mp < 2013"
    and mem: "memory_exact env" and plain: "\<forall>f \<in> set (tr_store t'). sendable_file env mp f"
    and op: "tr_enabled op t" "no_tunnel op t" and step: "tr_step env op t = Some (Inr (), t')"
  shows "\<exists>S Q. tr_good env tsi mp S Q t'"
proof (cases op)
  case (Send_Data now location ctype expires data)
  with step have "send_data env now location ctype expires data t = Some (Inr (), t')" by simp
  then show ?thesis by (rule send_data_good [OF good inv _ mem plain])
next
  case (Send_Description now s number d)
  with step obtain d' where "send_description env now s number d t = Some (d', Inr (), t')" by auto
  then show ?thesis by (rule send_description_good [OF good inv _ mem plain])
next
  case (Activate takes)
  let ?t1 = "start_fdt_repeat_timer (t\<lparr>tr_active := True\<rparr>)"
  have good1: "tr_good env tsi mp S Q ?t1"
    by (rule tr_good_same [OF good]) (simp_all add: setter_objects, simp add: tr_objects_def)
  have "\<forall>f \<in> set (tr_store t). sendable_file env mp f" by (rule store_grows_sendable [OF tr_step_grows [OF step] plain])
  then have plain1: "\<forall>f \<in> set (tr_store ?t1). sendable_file env mp f" by (simp add: store_same)
  from Activate step have "t' = t \<or> send_next_packet env takes ?t1 = (Inr (), t')" by (auto simp: activate_def split: if_splits)
  then show ?thesis using good send_next_packet_good [OF good1 mp _ plain1] by auto
next
  case (Send_Handler takes)
  let ?t1 = "t\<lparr>tr_send_ready := tr_send_ready t - 1\<rparr>"
  have good1: "tr_good env tsi mp S Q ?t1" by (rule tr_good_same [OF good]) (simp_all add: tr_objects_def)
  have "\<forall>f \<in> set (tr_store t). sendable_file env mp f" by (rule store_grows_sendable [OF tr_step_grows [OF step] plain])
  then have plain1: "\<forall>f \<in> set (tr_store ?t1). sendable_file env mp f" by simp
  from Send_Handler step have "send_next_packet env takes ?t1 = (Inr (), t')" by (simp add: run_send_handler_def)
  then show ?thesis by (rule send_next_packet_good [OF good1 mp _ plain1])
next
  case (Fdt_Handler now)
  with step have "run_fdt_handler env now t = Some (Inr (), t')" by simp
  then show ?thesis by (rule run_fdt_handler_good [OF good _ mem plain])
next
  case (Completion now error k)
  with step op have "run_completion env now error k t = Some (Inr (), t')" "k < length (tr_pending t)" by simp_all
  then show ?thesis by (intro run_completion_good [OF good _ _ mem plain])
next
  case (Set_Tunnel e)
  with op have "e = None" by (cases e) (simp_all add: no_tunnel_def)
  moreover have "tr_tunnel t = None" using good by (simp add: tr_good_def)
  ultimately have "t' = t" using step Set_Tunnel by (simp add: set_udp_tunnel_address_def Let_def)
  with good show ?thesis by blast
qed (use step in \<open>auto simp: setter_objects intro!: exI tr_good_same [OF good]\<close>)

inductive plain_init :: "'z sender_env \<Rightarrow> u64 \<Rightarrow> u32 \<Rightarrow> transmitter \<Rightarrow> bool" for env tsi mp where
  "transmitter_new env to tsi mtu rate None ns active source = (Inr (), t) \<Longrightarrow> mp = ucast mtu - 64 \<Longrightarrow>
     plain_init env tsi mp t"

definition session_inv :: "'z sender_env \<Rightarrow> u64 \<Rightarrow> u32 \<Rightarrow> transmitter \<Rightarrow> bool" where
  "session_inv env tsi mp t \<longleftrightarrow>
     tr_inv t \<and>
     (memory_exact env \<and> 4 < unat mp \<and> unat mp < 2013 \<and> (\<forall>f \<in> set (tr_store t). sendable_file env mp f) \<longrightarrow>
        (\<exists>S Q. tr_good env tsi mp S Q t))"

lemma transmitter_new_good:
  assumes "transmitter_new env to tsi mtu rate None ns active source = (Inr (), t)"
  shows "tr_good env tsi (ucast mtu - 64) (\<lambda>_. {}) (\<lambda>_. {}) t"
proof -
  let ?t = "idle_transmitter env to tsi mtu rate None ns active source"
  have idle: "tr_good env tsi (ucast mtu - 64) (\<lambda>_. {}) (\<lambda>_. {}) ?t" "next_file (start_fdt_repeat_timer ?t) = None"
    "tr_active ?t = active"
    by (simp_all add: idle_transmitter_def Let_def tr_good_def next_file_def start_fdt_repeat_timer_def)
  show ?thesis
  proof (cases active)
    case True
    have "tr_good env tsi (ucast mtu - 64) (\<lambda>_. {}) (\<lambda>_. {}) (start_fdt_repeat_timer ?t)"
      by (rule tr_good_same [OF idle(1)]) (simp_all add: setter_objects)
    from reschedule_good [OF this, of 0] show ?thesis
      using assms True idle(2,3) by (simp add: transmitter_new_def send_next_packet_def) (simp add: start_fdt_repeat_timer_def)
  next
    case False
    with assms idle(1) show ?thesis by (simp add: transmitter_new_def)
  qed
qed

interpretation session: inductive_invariant "plain_init env tsi mp" "tr_event env no_tunnel" "session_inv env tsi mp"
  for env tsi mp
proof unfold_locales
  show "session_inv env tsi mp t" if "plain_init env tsi mp t" for t
    using that transmitter_new_good transmitter_new_inv unfolding session_inv_def by (cases) blast
  show "session_inv env tsi mp t'" if inv: "session_inv env tsi mp t" and step: "tr_event env no_tunnel t t'" for t t'
    using step
  proof cases
    case (1 op)
    have "tr_inv t'" using tr_step_inv [OF 1(3)] inv by (simp add: session_inv_def)
    moreover have "\<exists>S Q. tr_good env tsi mp S Q t'" if "memory_exact env" "4 < unat mp" "unat mp < 2013"
      and plain: "\<forall>f \<in> set (tr_store t'). sendable_file env mp f"
    proof -
      have "\<forall>f \<in> set (tr_store t). sendable_file env mp f" by (rule store_grows_sendable [OF tr_step_grows [OF 1(3)] plain])
      with inv that obtain S Q where "tr_good env tsi mp S Q t" by (auto simp: session_inv_def)
      moreover have "tr_inv t" using inv by (simp add: session_inv_def)
      ultimately show ?thesis by (rule tr_step_good [OF _ _ that(2,3,1) plain 1])
    qed
    ultimately show ?thesis by (simp add: session_inv_def)
  qed
qed

end
