(* ===== verification/Send_Run.thy ===== *)
theory Send_Run
  imports Transmission_Safety
begin

text \<open>
  Runs of the send loop: rounds of a packet that the socket takes and the completion of its send, without
  a rate limit. The loop sends the symbols of the first file of the queue one after another, each once,
  until the file is complete.
\<close>

definition send_round :: "u64 \<Rightarrow> tr_op list" where
  "send_round now = [Send_Handler True, Completion now False 0]"

fun send_rounds :: "u64 \<Rightarrow> nat \<Rightarrow> tr_op list" where
  "send_rounds now 0 = []"
| "send_rounds now (Suc n) = send_round now @ send_rounds now n"

lemma send_rounds_add: "send_rounds now (m + n) = send_rounds now m @ send_rounds now n"
  by (induction m) simp_all

text \<open>The loop is about to send; file \<open>i\<close> is first in the queue and misses symbols.\<close>

definition sending :: "u64 \<Rightarrow> u32 \<Rightarrow> nat \<Rightarrow> transmitter \<Rightarrow> bool" where
  "sending tsi mp i t \<longleftrightarrow>
     tr_active t \<and> tr_tunnel t = None \<and> tr_tsi t = tsi \<and> tr_max_payload t = mp \<and> tr_rate_limit t = 0 \<and>
     tr_pending t = [] \<and> 0 < tr_send_ready t \<and> i < length (tr_store t) \<and>
     (\<exists>k rest. tr_files t = (k, i) # rest)"

lemma sending_next: "sending tsi mp i t \<Longrightarrow> \<not> fl_complete (tr_store t ! i) \<Longrightarrow> next_file t = Some i"
  by (auto simp: sending_def next_file_def)

text \<open>A packet of file \<open>i\<close>, the only one that is being sent.\<close>

definition one_pending ::
  "transmitter \<Rightarrow> nat \<Rightarrow> flute_file \<Rightarrow> encoding_symbol \<Rightarrow> byte list \<Rightarrow> transmitter" where
  "one_pending t i f s d =
     t\<lparr>tr_store := (tr_store t)[i := f],
       tr_pending := [\<lparr>pd_file = i, pd_symbols = [s], pd_endpoint = tr_endpoint t, pd_data = Some d, pd_taken = True\<rparr>],
       tr_sent := tr_sent t @ [(tr_endpoint t, d)]\<rparr>"

lemma send_handler_steps:
  fixes mp :: u32
  assumes t: "sending tsi mp i t" and mp: "4 < unat mp" "unat mp < 2013" and plain: "sendable_file env mp (tr_store t ! i)"
    and sender: "sender_file (fl_oti (tr_store t ! i)) (contents (tr_store t ! i)) S {} (tr_store t ! i)"
    and more: "\<not> symbol_pairs (fl_oti (tr_store t ! i)) \<subseteq> S"
  defines "f \<equiv> tr_store t ! i"
  obtains ij s d f1 where "ij \<in> symbol_pairs (fl_oti f) - S" "genuine (fl_oti f) (contents f) ij s" "file_packet tsi f ij d"
    "fixed_part f1 = fixed_part f" "sender_file (fl_oti f) (contents f) S {ij} f1"
    "run_send_handler env True t = (Inr (), one_pending t i f1 s d)"
proof -
  have t_simps: "tr_active t" "tr_tunnel t = None" "tr_tsi t = tsi" "tr_max_payload t = mp" "tr_rate_limit t = 0"
    "tr_pending t = []" "0 < tr_send_ready t" "i < length (tr_store t)"
    using t by (simp_all add: sending_def)
  have inc: "\<not> fl_complete (tr_store t ! i)" using sender more by (simp add: sender_file_def)
  let ?t0 = "t\<lparr>tr_send_ready := tr_send_ready t - 1\<rparr>"
  have g0: "tr_tunnel ?t0 = None" "tr_tsi ?t0 = tsi" "tr_max_payload ?t0 = mp"
    "sender_file (fl_oti (tr_store ?t0 ! i)) (contents (tr_store ?t0 ! i)) S {} (tr_store ?t0 ! i)"
    "sendable_file env mp (tr_store ?t0 ! i)"
    using t_simps sender plain by simp_all
  have "\<not> symbol_pairs (fl_oti (tr_store ?t0 ! i)) \<subseteq> S \<union> {}" using more by simp
  from send_packet_of_steps [OF g0(1-4) mp g0(5), of True, unfolded if_not_P [OF this]] obtain ij s d f1 where
    ij: "ij \<in> symbol_pairs (fl_oti f)" "ij \<notin> S" and gen: "genuine (fl_oti f) (contents f) ij s"
    and packet: "file_packet tsi f ij d" "d \<noteq> []" and fixd: "fixed_part f1 = fixed_part f"
    and sf: "sender_file (fl_oti f) (contents f) S {ij} f1"
    and eq: "send_packet_of env True i ?t0 =
      (Inr (length d), start_send True i [s] (tr_endpoint ?t0) d False (update_file i f1 ?t0))"
    by (auto simp: f_def)
  have "next_file ?t0 = Some i" using sending_next [OF t inc] by (simp add: next_file_def)
  then have "run_send_handler env True t = (Inr (), one_pending t i f1 s d)"
    using t_simps packet(2) eq
    by (simp add: run_send_handler_def send_next_packet_def reschedule_def start_send_def update_file_def one_pending_def)
  with ij gen packet(1) fixd sf show ?thesis by (intro that) simp_all
qed

lemma send_round_steps:
  fixes mp :: u32
  assumes t: "sending tsi mp i t" and mp: "4 < unat mp" "unat mp < 2013" and plain: "sendable_file env mp (tr_store t ! i)"
    and sender: "sender_file (fl_oti (tr_store t ! i)) (contents (tr_store t ! i)) S {} (tr_store t ! i)"
    and more: "\<not> symbol_pairs (fl_oti (tr_store t ! i)) \<subseteq> S"
  defines "f \<equiv> tr_store t ! i"
  shows "\<exists>ij d f'. ij \<in> symbol_pairs (fl_oti f) - S \<and> file_packet tsi f ij d \<and> fixed_part f' = fixed_part f \<and>
    sender_file (fl_oti f) (contents f) (insert ij S) {} f' \<and>
    (\<forall>ops. let t' = t\<lparr>tr_store := (tr_store t)[i := f'], tr_sent := tr_sent t @ [(tr_endpoint t, d)]\<rparr> in
       if fl_complete f' then
         (\<forall>t''. file_transmitted env now (fe_toi (fl_meta f)) t' = Some (Inr (), t'') \<longrightarrow>
            tr_run env (send_round now @ ops) t = tr_run env ops t'')
       else tr_run env (send_round now @ ops) t = tr_run env ops t')"
proof -
  have t_simps: "tr_pending t = []" "0 < tr_send_ready t" "i < length (tr_store t)"
    using t by (simp_all add: sending_def)
  obtain ij s d f1 where ij: "ij \<in> symbol_pairs (fl_oti f) - S" and gen: "genuine (fl_oti f) (contents f) ij s"
    and packet: "file_packet tsi f ij d" and fixd: "fixed_part f1 = fixed_part f"
    and sf: "sender_file (fl_oti f) (contents f) S {ij} f1"
    and handler: "run_send_handler env True t = (Inr (), one_pending t i f1 s d)"
    unfolding f_def by (rule send_handler_steps [OF t mp plain sender more])
  have c: "fl_meta f1 = fl_meta f" "contents f1 = contents f" using fixed_part_cong(1,4) [OF fixd] by simp_all
  have md5: "partition_ok (fl_oti f)" "md5_ok (se_md5 env) (contents f) (fl_meta f1)"
    using sendableD(1,5) [OF plain] by (simp_all add: f_def [symmetric] c)
  define f' where "f' = f1\<lparr>fl_source_blocks := send_blocks (file_buffer f1) (fl_oti f) (insert ij S) ({ij} - {ij}),
    fl_complete := symbol_pairs (fl_oti f) \<subseteq> insert ij S\<rparr>"
  note marked = sent_symbol_marked [OF md5 sf gen insertI1, folded f'_def]
  have fixd': "fixed_part f' = fixed_part f" using fixd by (simp add: f'_def fixed_part_def)
  let ?t' = "t\<lparr>tr_store := (tr_store t)[i := f'], tr_sent := tr_sent t @ [(tr_endpoint t, d)]\<rparr>"
  let ?t2 = "t\<lparr>tr_sent := tr_sent t @ [(tr_endpoint t, d)], tr_pending := [], tr_store := (tr_store t)[i := f']\<rparr>"
  have "?t2 = ?t'" by (rule transmitter.equality) (simp_all add: t_simps(1))
  moreover have "run_completion env now False 0 (one_pending t i f1 s d) =
      (if fl_complete f' then file_transmitted env now (fe_toi (fl_meta f)) ?t2 else Some (Inr (), ?t2))"
    using t_simps marked(1) fixed_part_cong(1) [OF fixd']
    by (simp add: run_completion_def send_completed_def transmit_late_def update_file_def Let_def one_pending_def
        remove_pending_def)
  ultimately have completion: "run_completion env now False 0 (one_pending t i f1 s d) =
      (if fl_complete f' then file_transmitted env now (fe_toi (fl_meta f)) ?t' else Some (Inr (), ?t'))"
    by (simp only:)
  have "0 < length (tr_pending (one_pending t i f1 s d))" by (simp add: one_pending_def)
  then have run: "tr_run env (send_round now @ ops) t =
      (case (if fl_complete f' then file_transmitted env now (fe_toi (fl_meta f)) ?t' else Some (Inr (), ?t')) of
         Some (Inr _, t') \<Rightarrow> tr_run env ops t' | r \<Rightarrow> r)" for ops
    using t_simps handler completion by (simp add: send_round_def)
  show ?thesis
    by (intro exI [of _ ij] exI [of _ d] exI [of _ f'])
      (use ij packet(1) fixd' marked(2) in \<open>simp add: run Let_def\<close>)
qed

lemma finite_symbol_pairs: "finite (symbol_pairs oti)"
proof -
  have "symbol_pairs oti = (SIGMA i:{..<total_blocks oti}. {..<block_len oti i})"
    by (auto simp: symbol_pairs_def)
  then show ?thesis by simp
qed

lemma card_symbol_pairs: "partition_ok oti \<Longrightarrow> card (symbol_pairs oti) = total_symbols oti"
proof -
  assume ok: "partition_ok oti"
  have "symbol_pairs oti = (SIGMA i:{..<total_blocks oti}. {..<block_len oti i})"
    by (auto simp: symbol_pairs_def)
  then have "card (symbol_pairs oti) = (\<Sum>i<total_blocks oti. block_len oti i)" by simp
  also have "\<dots> = block_start oti (total_blocks oti)"
  proof -
    have "(\<Sum>i<n. block_len oti i) = block_start oti n" for n
      by (induction n) (simp_all add: block_start_Suc)
    then show ?thesis by blast
  qed
  finally show ?thesis using block_start_total [OF ok] by simp
qed

text \<open>From any point on, as many rounds as symbols are missing send each of them once.\<close>

definition sent_symbols :: "u64 \<Rightarrow> endpoint \<Rightarrow> flute_file \<Rightarrow> (nat \<times> nat) list \<Rightarrow> (endpoint \<times> byte list) list \<Rightarrow> bool" where
  "sent_symbols tsi to f ijs xs \<longleftrightarrow> list_all2 (\<lambda>ij x. fst x = to \<and> file_packet tsi f ij (snd x)) ijs xs"

lemma sent_symbols_cong: "fixed_part f' = fixed_part f \<Longrightarrow> sent_symbols tsi to f' ijs xs = sent_symbols tsi to f ijs xs"
  by (simp add: sent_symbols_def file_packet_cong [of f' f])

lemma send_file_runs:
  fixes mp :: u32
  assumes "sending tsi mp i t" and mp: "4 < unat mp" "unat mp < 2013" and "sendable_file env mp (tr_store t ! i)"
    and "sender_file (fl_oti (tr_store t ! i)) (contents (tr_store t ! i)) S {} (tr_store t ! i)"
    and "card (symbol_pairs (fl_oti (tr_store t ! i)) - S) = Suc n"
  shows "\<exists>ijs xs f'. distinct ijs \<and> set ijs = symbol_pairs (fl_oti (tr_store t ! i)) - S \<and>
    sent_symbols tsi (tr_endpoint t) (tr_store t ! i) ijs xs \<and> fixed_part f' = fixed_part (tr_store t ! i) \<and> fl_complete f' \<and>
    (\<forall>ops t''. file_transmitted env now (fe_toi (fl_meta (tr_store t ! i)))
         (t\<lparr>tr_store := (tr_store t)[i := f'], tr_sent := tr_sent t @ xs\<rparr>) = Some (Inr (), t'') \<longrightarrow>
       tr_run env (send_rounds now (Suc n) @ ops) t = tr_run env ops t'')"
  using assms(1,4-)
proof (induction n arbitrary: t S)
  case (0 t S)
  let ?f = "tr_store t ! i"
  have more: "\<not> symbol_pairs (fl_oti ?f) \<subseteq> S"
  proof
    assume "symbol_pairs (fl_oti ?f) \<subseteq> S"
    then have "symbol_pairs (fl_oti ?f) - S = {}" by blast
    with 0(4) show False by simp
  qed
  from send_round_steps [OF 0(1) mp 0(2,3) more, of now] obtain ij d f' where
    ij: "ij \<in> symbol_pairs (fl_oti ?f) - S" "file_packet tsi ?f ij d" "fixed_part f' = fixed_part ?f"
      "sender_file (fl_oti ?f) (contents ?f) (insert ij S) {} f'"
    and run: "\<And>ops. let t' = t\<lparr>tr_store := (tr_store t)[i := f'], tr_sent := tr_sent t @ [(tr_endpoint t, d)]\<rparr> in
       if fl_complete f' then
         (\<forall>t''. file_transmitted env now (fe_toi (fl_meta ?f)) t' = Some (Inr (), t'') \<longrightarrow>
            tr_run env (send_round now @ ops) t = tr_run env ops t'')
       else tr_run env (send_round now @ ops) t = tr_run env ops t'" by blast
  have one: "symbol_pairs (fl_oti ?f) - S = {ij}" using ij(1) 0(4) by (metis card_1_singletonE One_nat_def singletonD)
  then have "fl_complete f'" using ij(4) by (auto simp: sender_file_def)
  with ij one run show ?case
    by (intro exI [of _ "[ij]"] exI [of _ "[(tr_endpoint t, d)]"] exI [of _ f']) (simp add: sent_symbols_def)
next
  case (Suc n t S)
  let ?f = "tr_store t ! i"
  have more: "\<not> symbol_pairs (fl_oti ?f) \<subseteq> S"
  proof
    assume "symbol_pairs (fl_oti ?f) \<subseteq> S"
    then have "symbol_pairs (fl_oti ?f) - S = {}" by blast
    with Suc.prems(4) show False by simp
  qed
  from send_round_steps [OF Suc.prems(1) mp Suc.prems(2,3) more, of now] obtain ij d f1 where
    ij: "ij \<in> symbol_pairs (fl_oti ?f) - S" "file_packet tsi ?f ij d" "fixed_part f1 = fixed_part ?f"
      "sender_file (fl_oti ?f) (contents ?f) (insert ij S) {} f1"
    and run: "\<And>ops. let t' = t\<lparr>tr_store := (tr_store t)[i := f1], tr_sent := tr_sent t @ [(tr_endpoint t, d)]\<rparr> in
       if fl_complete f1 then
         (\<forall>t''. file_transmitted env now (fe_toi (fl_meta ?f)) t' = Some (Inr (), t'') \<longrightarrow>
            tr_run env (send_round now @ ops) t = tr_run env ops t'')
       else tr_run env (send_round now @ ops) t = tr_run env ops t'" by blast
  let ?t1 = "t\<lparr>tr_store := (tr_store t)[i := f1], tr_sent := tr_sent t @ [(tr_endpoint t, d)]\<rparr>"
  have i: "i < length (tr_store t)" using Suc.prems(1) by (simp add: sending_def)
  have f1: "tr_store ?t1 ! i = f1" using i by simp
  note c = fixed_part_cong(1,4) [OF ij(3)]
  have rest: "symbol_pairs (fl_oti ?f) - insert ij S = (symbol_pairs (fl_oti ?f) - S) - {ij}" by blast
  have card: "card (symbol_pairs (fl_oti ?f) - insert ij S) = Suc n"
    unfolding rest using ij(1) Suc.prems(4) by (simp add: card_Diff_singleton)
  then have "\<not> symbol_pairs (fl_oti ?f) \<subseteq> insert ij S" by (metis Diff_eq_empty_iff card.empty nat.distinct(1))
  then have inc: "\<not> fl_complete f1" using ij(4) by (simp add: sender_file_def)
  have sending: "sending tsi mp i ?t1" using Suc.prems(1) by (simp add: sending_def)
  have p: "sendable_file env mp (tr_store ?t1 ! i)"
    "sender_file (fl_oti (tr_store ?t1 ! i)) (contents (tr_store ?t1 ! i)) (insert ij S) {} (tr_store ?t1 ! i)"
    "card (symbol_pairs (fl_oti (tr_store ?t1 ! i)) - insert ij S) = Suc n"
    unfolding f1 c using Suc.prems(2) ij(4) card fixed_part_cong(5) [OF ij(3), of env mp] by simp_all
  from Suc.IH [OF sending p] obtain ijs xs f' where IH: "distinct ijs" "set ijs = symbol_pairs (fl_oti f1) - insert ij S"
    "sent_symbols tsi (tr_endpoint ?t1) f1 ijs xs" "fixed_part f' = fixed_part f1" "fl_complete f'"
    "\<And>ops t''. file_transmitted env now (fe_toi (fl_meta f1))
         (?t1\<lparr>tr_store := (tr_store ?t1)[i := f'], tr_sent := tr_sent ?t1 @ xs\<rparr>) = Some (Inr (), t'') \<Longrightarrow>
       tr_run env (send_rounds now (Suc n) @ ops) ?t1 = tr_run env ops t''" unfolding f1 by blast
  have eq: "?t1\<lparr>tr_store := (tr_store ?t1)[i := f'], tr_sent := tr_sent ?t1 @ xs\<rparr> =
      t\<lparr>tr_store := (tr_store t)[i := f'], tr_sent := tr_sent t @ (tr_endpoint t, d) # xs\<rparr>" by simp
  have step: "tr_run env (send_round now @ ops) t = tr_run env ops ?t1" for ops using run [of ops] inc by simp
  have "set (ij # ijs) = symbol_pairs (fl_oti ?f) - S" "distinct (ij # ijs)" using IH(1,2) ij(1) c by auto
  moreover have "sent_symbols tsi (tr_endpoint t) ?f (ij # ijs) ((tr_endpoint t, d) # xs)"
    using IH(3) sent_symbols_cong [OF ij(3)] ij(2) by (simp add: sent_symbols_def)
  moreover have "tr_run env (send_rounds now (Suc (Suc n)) @ ops) t = tr_run env ops t''"
    if "file_transmitted env now (fe_toi (fl_meta ?f))
         (t\<lparr>tr_store := (tr_store t)[i := f'], tr_sent := tr_sent t @ (tr_endpoint t, d) # xs\<rparr>) = Some (Inr (), t'')" for ops t''
  proof -
    have "tr_run env (send_rounds now (Suc (Suc n)) @ ops) t = tr_run env (send_rounds now (Suc n) @ ops) ?t1"
      using step [of "send_rounds now (Suc n) @ ops"] by simp
    also have "\<dots> = tr_run env ops t''" by (rule IH(6)) (use that eq c in simp)
    finally show ?thesis .
  qed
  ultimately show ?case using IH(4,5) ij(3)
    by (intro exI [of _ "ij # ijs"] exI [of _ "(tr_endpoint t, d) # xs"] exI [of _ f']) simp
qed

end
