(* ===== verification/End_To_End.thy ===== *)
theory End_To_End
  imports Send_Run Description_Contents
begin

text \<open>
  The two ends composed: a file handed to an active transmitter is announced and sent by the loop of
  its event handlers, and a receiver that gets the datagrams, reordered and repeated by the network,
  delivers its contents.
\<close>

section \<open>Queueing a file\<close>

definition session_oti :: "u32 \<Rightarrow> fec_oti" where
  "session_oti mp = fec_oti_zero
     \<lparr>encoding_id := CompactNoCode, encoding_symbol_length := mp, max_source_block_length := 64\<rparr>"

definition object_oti :: "u32 \<Rightarrow> byte list \<Rightarrow> fec_oti" where
  "object_oti mp data = (session_oti mp)\<lparr>transfer_length := of_nat (length data)\<rparr>"

lemma object_oti_simps [simp]:
  "encoding_id (session_oti mp) = CompactNoCode" "encoding_id (object_oti mp data) = CompactNoCode"
  "encoding_symbol_length (object_oti mp data) = mp" "transfer_length (object_oti mp data) = of_nat (length data)"
  "max_source_block_length (object_oti mp data) = 64"
  by (simp_all add: session_oti_def object_oti_def)

definition sender_memory :: "'z sender_env \<Rightarrow> bool" where
  "sender_memory env \<longleftrightarrow> (\<forall>n. \<exists>buf. se_malloc env n = Some buf \<and> length buf = n)"

definition table_object :: "'z sender_env \<Rightarrow> u32 \<Rightarrow> u64 \<Rightarrow> fdt \<Rightarrow> flute_file" where
  "table_object env mp now table =
     (let content = fdt_to_string (se_xml_print env) (sent_table now table)
      in set_fdt_instance_id (ucast (instance_id table))
           (created_file 0 (file_with (data_entry (se_md5 env) 0 (session_oti mp) '''' '''' (now + 10) content) True content
              (se_uninit_time env) None)))"

lemma send_fdt_queues:
  assumes "sender_memory env" and "tr_fec_oti t = session_oti mp" and "fdt_file_entries (tr_fdt t) \<noteq> []"
    and "partition_ok (object_oti mp (fdt_to_string (se_xml_print env) (sent_table now (tr_fdt t))))"
  shows "send_fdt env now t = Some (Inr (), t\<lparr>tr_fdt := fdt_sent (sent_table now (tr_fdt t)),
    tr_store := tr_store t @ [table_object env mp now (tr_fdt t)], tr_files := om_set 0 (length (tr_store t)) (tr_files t)\<rparr>)"
proof -
  let ?T = "sent_table now (tr_fdt t)" and ?t1 = "t\<lparr>tr_fdt := sent_table now (tr_fdt t)\<rparr>"
  let ?c = "fdt_to_string (se_xml_print env) ?T"
  have made: "file_of_data (se_malloc env) (se_md5 env) (se_uninit_time env) 0 (session_oti mp) '''' '''' (now + 10) ?c True =
    Some (Inr (created_file 0 (file_with (data_entry (se_md5 env) 0 (session_oti mp) '''' '''' (now + 10) ?c) True ?c
      (se_uninit_time env) None)))"
    using assms(1,4) by (intro file_of_data_made) (auto simp: sender_memory_def object_oti_def)
  have "send_fdt env now t = Some (Inr (), ?t1\<lparr>tr_store := tr_store t @ [table_object env mp now (tr_fdt t)],
      tr_files := om_set 0 (length (tr_store t)) (tr_files t), tr_fdt := fdt_sent ?T\<rparr>)"
    using assms(3) made [unfolded sent_table_def]
    by (simp add: send_fdt_def assms(2) add_file_def table_object_def Let_def sent_table_def fdt_set_expires_def)
  then show ?thesis by simp
qed

text \<open>The entry of a described file as the transmitter announces it.\<close>

definition announced_entry :: "u32 \<Rightarrow> byte list \<Rightarrow> description \<Rightarrow> file_entry" where
  "announced_entry mp data d = (fd_entry d)\<lparr>fe_toi := 1, fe_fec_oti := object_oti mp data\<rparr>"

lemma announced_entry_simps [simp]:
  "fe_fec_oti (announced_entry mp data d) = object_oti mp data" "fe_toi (announced_entry mp data d) = 1"
  by (simp_all add: announced_entry_def)

text \<open>What the code makes of the contents: the object that is transferred, and the file. Compressed, the
  contents and the object fit the buffers of 16384 bytes both ends give zlib.\<close>

definition encodes_to :: "'z sender_env \<Rightarrow> description \<Rightarrow> byte list \<Rightarrow> byte list \<Rightarrow> bool" where
  "encodes_to env d data obj \<longleftrightarrow>
     (if fe_content_encoding (fd_entry d) = [] then obj = data
      else fe_content_encoding (fd_entry d) = ''gzip'' \<and> length data \<le> 16384 \<and>
        content_length (fd_entry d) = of_nat (length data) \<and>
        (\<exists>gz. gzip_codec (se_zlib env) gz \<and> obj = gz data \<and> length obj \<le> 16384))"

definition described_object :: "'z sender_env \<Rightarrow> u32 \<Rightarrow> nat \<Rightarrow> byte list \<Rightarrow> description \<Rightarrow> flute_file" where
  "described_object env mp number data d =
     (let f = snd (the (encode (se_zlib env)
          (file_with (announced_entry mp data d) True data (se_uninit_time env) (Some number))))
      in created_file (file_buffer f) f)"

definition first_table :: "'z sender_env \<Rightarrow> u32 \<Rightarrow> fdt_namespace \<Rightarrow> byte list \<Rightarrow> description \<Rightarrow> fdt" where
  "first_table env mp ns data d =
     fdt_add (announced_entry mp data d) (fdt_new 1 (session_oti mp) ns (se_uninit_time env))"

text \<open>A description that has not been sent before, of contents that are not empty.\<close>

definition fresh_description :: "process \<Rightarrow> byte list \<Rightarrow> description \<Rightarrow> bool" where
  "fresh_description s data d \<longleftrightarrow>
     fd_tsi d = None \<and> fe_toi (fd_entry d) = 0 \<and> fd_bytes s d = Inr data \<and>
     fe_fec_oti (fd_entry d) = fec_oti_zero\<lparr>transfer_length := of_nat (length data)\<rparr> \<and> 0 < length data"

lemma fresh_prepared:
  assumes "fresh_description s data d" and "length data < 2 ^ 64" and "tr_toi t = 1" and "tr_fec_oti t = session_oti mp"
  shows "prepare_description t d = (d\<lparr>fd_tsi := Some (tr_tsi t), fd_entry := announced_entry mp data d\<rparr>, t\<lparr>tr_toi := 2\<rparr>)"
proof -
  have "(of_nat (length data) :: u64) \<noteq> 0"
    using assms(1,2) unat_of_nat64 [OF assms(2)] by (auto simp: fresh_description_def)
  then have "merge_oti (fe_fec_oti (fd_entry d)) (session_oti mp) = object_oti mp data"
    using assms(1) by (simp add: fresh_description_def merge_oti_def object_oti_def session_oti_def fec_oti_zero_def CompactNoCode_def)
  moreover have "advance_toi t = t\<lparr>tr_toi := 2\<rparr>" using assms(3) by (simp add: advance_toi_def)
  ultimately show ?thesis
    using assms(1,3,4)
    by (simp add: prepare_description_def fresh_description_def has_tsi_def set_tsi_def set_toi_def merge_fec_oti_def
        announced_entry_def Let_def)
qed


section \<open>The sending run\<close>

lemma idle_oti: "tr_fec_oti (idle_transmitter env to tsi mtu rate None ns active source) = session_oti (ucast mtu - 64)"
  by (simp add: idle_transmitter_def Let_def session_oti_def)

lemma active_start:
  "transmitter_new env to tsi mtu rate None ns True source =
     (Inr (), (idle_transmitter env to tsi mtu rate None ns True source)
        \<lparr>tr_fdt_waits := 1, tr_send_waits := 1, tr_send_delay := 10000\<rparr>)"
  by (simp add: transmitter_new_def send_next_packet_def next_file_def start_fdt_repeat_timer_def reschedule_def
      start_send_timer_def cancel_send_timer_def idle_transmitter_def Let_def)

definition queue_ops :: "u64 \<Rightarrow> process \<Rightarrow> nat \<Rightarrow> description \<Rightarrow> tr_op list" where
  "queue_ops now s number d = [Register_Callback, Send_Description now s number d, Send_Timer_Expires]"

lemma encoded_object:
  assumes "encodes_to env d data obj" and "fresh_description s data d"
  obtains f b where
    "encode (se_zlib env) (file_with (announced_entry mp data d) True data (se_uninit_time env) (Some number)) = Some (Inr (), f)"
    and "fl_buffer f = Some b" "heap_at (fl_heap f) b = Some obj" "fl_meta f = announced_entry mp obj d"
proof (cases "fe_content_encoding (fd_entry d) = []")
  case True
  then show ?thesis using assms
    by (intro that [of "file_with (announced_entry mp data d) True data (se_uninit_time env) (Some number)" 0])
      (simp_all add: encode_def encodes_to_def, simp_all add: announced_entry_def)
next
  case False
  then obtain gz where gz: "gzip_codec (se_zlib env) gz" "obj = gz data" "length (gz data) \<le> 16384" "length data < 2 ^ 32"
    "content_length (announced_entry mp data d) = of_nat (length data)" "fe_content_encoding (announced_entry mp data d) \<in> {''gzip'', ''deflate''}"
    using assms(1) by (auto simp: encodes_to_def announced_entry_def)
  have "set_transfer_length (of_nat (length obj)) (announced_entry mp data d) = announced_entry mp obj d"
    by (simp add: set_transfer_length_def announced_entry_def object_oti_def)
  then show ?thesis
    by (rule_tac encode_gzip [OF gz(1,3-6), of "se_uninit_time env" "Some number"]) (use that [of _ 1] gz(2) in simp)
qed

lemma described_object_made:
  assumes "sender_memory env" and "fresh_description s data d" and "encodes_to env d data obj" and "partition_ok (object_oti mp obj)"
    and "length obj < 2 ^ 64"
  shows "file_of_description (se_malloc env) (se_zlib env) (se_uninit_time env) number data (announced_entry mp data d) =
      Some (Inr (described_object env mp number data d))"
    and "fl_oti (described_object env mp number data d) = object_oti mp obj"
    and "fl_meta (described_object env mp number data d) = announced_entry mp obj d"
    and "contents (described_object env mp number data d) = obj"
    and "sender_file (object_oti mp obj) obj {} {} (described_object env mp number data d)"
proof -
  obtain buf where buf: "se_malloc env (length data) = Some buf" "length buf = length data"
    using assms(1) by (auto simp: sender_memory_def)
  obtain f b where f: "encode (se_zlib env) (file_with (announced_entry mp data d) True data (se_uninit_time env) (Some number)) = Some (Inr (), f)"
    "fl_buffer f = Some b" "heap_at (fl_heap f) b = Some obj" "fl_meta f = announced_entry mp obj d"
    using encoded_object [OF assms(3,2)] by metis
  note g = encoded_buffer(2-4) [OF f(1,2)]
  have obj: "described_object env mp number data d = created_file b f"
    using f(1,2) by (simp add: described_object_def Let_def file_buffer_def)
  have e: "set_transfer_length (of_nat (length data)) (announced_entry mp data d) = announced_entry mp data d"
    by (simp add: set_transfer_length_def announced_entry_def object_oti_def)
  have ok: "partition_ok (fl_oti f)" "length obj = tlen (fl_oti f)" using assms(4,5) unat_of_nat64 [OF assms(5)] by (simp_all add: f(4))
  show "file_of_description (se_malloc env) (se_zlib env) (se_uninit_time env) number data (announced_entry mp data d) =
      Some (Inr (described_object env mp number data d))"
    unfolding obj
    by (rule file_of_description_made [where buf = buf and f = f]) (simp_all add: buf e f(1,2) g(3) ok(1))
  show "fl_oti (described_object env mp number data d) = object_oti mp obj"
    "fl_meta (described_object env mp number data d) = announced_entry mp obj d" by (simp_all add: obj f(4))
  show "contents (described_object env mp number data d) = obj"
    using f(2,3) by (simp add: obj contents_def file_buffer_def created_file_def partition_fields_def)
  have "sender_file (fl_oti f) obj {} {} (created_file b f)" by (rule created_sender [OF ok f(3,2) g(1,2)])
  then show "sender_file (object_oti mp obj) obj {} {} (described_object env mp number data d)" by (simp add: obj f(4))
qed

lemma queue_run:
  fixes mp :: u32
  assumes t0: "transmitter_new env to tsi mtu 0 None ns True source = (Inr (), t0)" and mp: "mp = ucast mtu - 64"
    and mem: "sender_memory env" and d: "fresh_description s data d" "length data < 2 ^ 64"
    and enc: "encodes_to env d data obj" "length obj < 2 ^ 64" and parts: "partition_ok (object_oti mp obj)"
      "partition_ok (object_oti mp (fdt_to_string (se_xml_print env) (sent_table now (first_table env mp ns obj d))))"
  obtains t1 where "tr_run env (queue_ops now s number d) t0 = Some (Inr (), t1)"
    and "tr_store t1 = [described_object env mp number data d, table_object env mp now (first_table env mp ns obj d)]"
    and "tr_files t1 = [(0, 1), (1, 0)]" "sending tsi mp 1 t1" "tr_sent t1 = []" "tr_completed t1 = []" "tr_callback t1"
    and "tr_endpoint t1 = to" "fdt_file_entries (tr_fdt t1) = [announced_entry mp obj d]"
proof -
  let ?i = "idle_transmitter env to tsi mtu 0 None ns True source"
  let ?e = "announced_entry mp obj d" and ?f = "described_object env mp number data d"
  let ?a = "?i\<lparr>tr_callback := True, tr_fdt_waits := 1, tr_send_waits := 1, tr_send_delay := 10000\<rparr>"
  let ?b = "?a\<lparr>tr_toi := 2, tr_store := [?f], tr_files := [(1, 0)], tr_fdt := first_table env mp ns obj d\<rparr>"
  have idle: "tr_store ?a = []" "tr_files ?a = []" "tr_toi ?a = 1" "tr_fec_oti ?a = session_oti mp" "tr_tsi ?a = tsi"
    "tr_fdt ?i = fdt_new 1 (session_oti mp) ns (se_uninit_time env)" "tr_max_payload ?a = mp" "tr_store ?i = []" "tr_files ?i = []"
    by (simp_all add: mp idle_oti) (simp_all add: idle_transmitter_def Let_def session_oti_def)
  have "t0 = ?i\<lparr>tr_fdt_waits := 1, tr_send_waits := 1, tr_send_delay := 10000\<rparr>" using t0 by (simp add: active_start)
  then have eq: "t0\<lparr>tr_callback := True\<rparr> = ?a" by (intro transmitter.equality) simp_all
  note p = fresh_prepared [OF d idle(3,4)]
  note made = described_object_made [OF mem d(1) enc(1) parts(1) enc(2), of number]
  have m: "fl_meta ?f = ?e" "fe_toi ?e = 1" using made(3) by simp_all
  let ?c = "?b\<lparr>tr_fdt := fdt_sent (sent_table now (first_table env mp ns obj d)),
      tr_store := [?f, table_object env mp now (first_table env mp ns obj d)], tr_files := [(0, 1), (1, 0)]\<rparr>"
  have ne: "fdt_file_entries (tr_fdt ?b) \<noteq> []" by (simp add: first_table_def)
  have "send_fdt env now ?b = Some (Inr (), ?b\<lparr>tr_fdt := fdt_sent (sent_table now (tr_fdt ?b)),
      tr_store := tr_store ?b @ [table_object env mp now (tr_fdt ?b)], tr_files := om_set 0 (length (tr_store ?b)) (tr_files ?b)\<rparr>)"
    by (rule send_fdt_queues [OF mem _ ne]) (use idle(4) parts(2) in simp_all)
  then have queued: "send_fdt env now ?b = Some (Inr (), ?c)" by simp
  have "(?a\<lparr>tr_toi := 2\<rparr>)\<lparr>tr_store := tr_store ?a @ [?f], tr_files := om_insert 1 (length (tr_store ?a)) (tr_files ?a),
      tr_fdt := fdt_add ?e (tr_fdt ?a)\<rparr> = ?b"
    by (simp add: idle(6,8,9) om_insert_def first_table_def)
  with p queued d(1) m have "map_option snd (send_description env now s number d ?a) = Some (Inr (), ?c)"
    using made(1)
    by (simp add: send_description_def fd_bytes_def fresh_description_def add_file_def)
  with eq have run: "tr_run env (queue_ops now s number d) t0 = Some (Inr (), send_timer_expires ?c)"
    by (auto simp: queue_ops_def transmitter_register_completion_callback_def)
  show ?thesis
    by (rule that [OF run])
      (simp_all add: send_timer_expires_def cancel_send_timer_def sending_def first_table_def,
       simp_all add: idle_transmitter_def Let_def mp first_table_def fdt_sent_def fdt_new_def)
qed


text \<open>Both objects are of the kind whose symbols are sent one by one.\<close>

lemma table_object_simps [simp]:
  "fl_oti (table_object env mp now table) = object_oti mp (fdt_to_string (se_xml_print env) (sent_table now table))"
  "fe_toi (fl_meta (table_object env mp now table)) = 0"
  "contents (table_object env mp now table) = fdt_to_string (se_xml_print env) (sent_table now table)"
  "fl_fdt_instance_id (table_object env mp now table) = ucast (instance_id table)"
  by (simp_all add: table_object_def Let_def object_oti_def contents_def set_fdt_instance_id_def file_buffer_def
      created_file_def partition_fields_def)

text \<open>The digest of the entry, when there is one, is that of the contents.\<close>

definition digest_of :: "(byte list \<Rightarrow> byte list) \<Rightarrow> byte list \<Rightarrow> file_entry \<Rightarrow> bool" where
  "digest_of md5 data e \<longleftrightarrow> content_md5 e = [] \<or> content_md5 e = base64_encode (md5 data) False"

lemma described_object_ready:
  fixes mp :: u32
  assumes "sender_memory env" and "fresh_description s data d" and "encodes_to env d data obj" and "partition_ok (object_oti mp obj)"
    and "length obj < 2 ^ 64" and "4 < unat mp" and "digest_of (se_md5 env) data (fd_entry d)" and "\<forall>bs. length (se_md5 env bs) = 16"
  shows "sendable_file env mp (described_object env mp number data d)"
proof -
  have "md5_ok (se_md5 env) obj (announced_entry mp obj d)"
    using assms(3,7,8) by (auto simp: md5_ok_def digest_of_def encodes_to_def announced_entry_def split: if_splits)
  then show ?thesis
    using assms(4-6) unat_of_nat64 [OF assms(5)] by (simp add: sendable_file_def described_object_made [OF assms(1-5)])
qed

lemma table_object_ready:
  fixes mp :: u32 and table :: fdt and env :: "'z sender_env" and now :: u64
  defines "content \<equiv> fdt_to_string (se_xml_print env) (sent_table now table)"
  assumes "length content < 2 ^ 64" and "partition_ok (object_oti mp content)" and "4 < unat mp"
    and "length (se_md5 env content) = 16"
  shows "sendable_file env mp (table_object env mp now table)"
    and "sender_file (object_oti mp content) content {} {} (table_object env mp now table)"
proof -
  have u: "unat (of_nat (length content) :: u64) = length content" using assms(2) by (rule unat_of_nat64)
  have "md5_ok (se_md5 env) content (fl_meta (table_object env mp now table))"
    using data_entry_md5 [of "se_md5 env" content] assms(5) by (simp add: table_object_def Let_def set_fdt_instance_id_def content_def)
  then show "sendable_file env mp (table_object env mp now table)"
    using assms(2-4) u by (simp add: sendable_file_def content_def [symmetric])
  have "sender_file (object_oti mp content) content {} {} (created_file 0 (file_with
      (data_entry (se_md5 env) 0 (session_oti mp) '''' '''' (now + 10) content) True content (se_uninit_time env) None))"
    unfolding object_oti_def by (rule made_sender) (use assms(2,3) in \<open>simp_all add: object_oti_def\<close>)
  then show "sender_file (object_oti mp content) content {} {} (table_object env mp now table)"
    by (simp add: table_object_def Let_def content_def [symmetric] set_fdt_instance_id_def sender_file_def)
qed


lemma file_sent:
  fixes mp :: u32
  assumes "sending tsi mp i t" and mp: "4 < unat mp" "unat mp < 2013" and "sendable_file env mp f" and f: "tr_store t ! i = f"
    and "sender_file (fl_oti f) (contents f) {} {} f"
  obtains ijs xs f' where "distinct ijs" "set ijs = symbol_pairs (fl_oti f)" "sent_symbols tsi (tr_endpoint t) f ijs xs"
    and "fixed_part f' = fixed_part f"
    and "\<forall>ops t''. file_transmitted env now (fe_toi (fl_meta f))
         (t\<lparr>tr_store := (tr_store t)[i := f'], tr_sent := tr_sent t @ xs\<rparr>) = Some (Inr (), t'') \<longrightarrow>
       tr_run env (send_rounds now (total_symbols (fl_oti f)) @ ops) t = tr_run env ops t''"
proof -
  have ok: "partition_ok (fl_oti f)" using assms(4) by (simp add: sendable_file_def)
  obtain n where n: "total_symbols (fl_oti f) = Suc n" using total_symbols_pos [OF ok] by (cases "total_symbols (fl_oti f)") simp_all
  then have "card (symbol_pairs (fl_oti f) - {}) = Suc n" using card_symbol_pairs [OF ok] by simp
  then show ?thesis
    using send_file_runs [OF assms(1) mp, of env "{}" n now] assms(4-) n that by (simp del: send_rounds.simps) metis
qed

lemma sending_run:
  fixes mp :: u32
  assumes t0: "transmitter_new env to tsi mtu 0 None ns True source = (Inr (), t0)" and mp: "mp = ucast mtu - 64"
    and small: "4 < unat mp" "unat mp < 2013"
    and mem: "sender_memory env" and md5: "\<forall>bs. length (se_md5 env bs) = 16"
    and d: "fresh_description s data d" "length data < 2 ^ 64" "digest_of (se_md5 env) data (fd_entry d)"
    and enc: "encodes_to env d data obj" "length obj < 2 ^ 64"
    and content: "content = fdt_to_string (se_xml_print env) (sent_table now (first_table env mp ns obj d))" "length content < 2 ^ 64"
    and parts: "partition_ok (object_oti mp obj)" "partition_ok (object_oti mp content)"
  obtains t2 ijs xs kls ys where
    "tr_run env (queue_ops now s number d @
       send_rounds now (total_symbols (object_oti mp content) + total_symbols (object_oti mp obj))) t0 = Some (Inr (), t2)"
    and "tr_sent t2 = xs @ ys" "tr_completed t2 = [1]" "tr_files t2 = []"
    and "sent_symbols tsi to (table_object env mp now (first_table env mp ns obj d)) ijs xs"
      "distinct ijs" "set ijs = symbol_pairs (object_oti mp content)"
    and "sent_symbols tsi to (described_object env mp number data d) kls ys" "distinct kls" "set kls = symbol_pairs (object_oti mp obj)"
    and "map fixed_part (tr_store t2) =
      map fixed_part [described_object env mp number data d, table_object env mp now (first_table env mp ns obj d)]"
proof -
  let ?f = "described_object env mp number data d" and ?g = "table_object env mp now (first_table env mp ns obj d)"
  note made = described_object_made [OF mem d(1) enc(1) parts(1) enc(2), of number]
  note ready = described_object_ready [OF mem d(1) enc(1) parts(1) enc(2) small(1) d(3) md5, of number] made(5)
    table_object_ready [of env now "first_table env mp ns obj d" mp, folded content(1), OF content(2) parts(2) small(1) spec [OF md5]]
  obtain t1 where run1: "tr_run env (queue_ops now s number d) t0 = Some (Inr (), t1)"
    and t1: "tr_store t1 = [?f, ?g]" "tr_files t1 = [(0, 1), (1, 0)]" "sending tsi mp 1 t1" "tr_sent t1 = []"
      "tr_completed t1 = []" "tr_callback t1" "tr_endpoint t1 = to" "fdt_file_entries (tr_fdt t1) = [announced_entry mp obj d]"
    using queue_run [OF t0 mp mem d(1,2) enc parts(1) parts(2) [unfolded content(1)]] by metis
  have g: "fl_oti ?g = object_oti mp content" "contents ?g = content" by (simp_all add: content(1))
  have g': "tr_store t1 ! 1 = ?g" "sender_file (fl_oti ?g) (contents ?g) {} {} ?g" using t1(1) ready(4) by (simp_all only: g) simp
  obtain ijs xs f' where fdt: "distinct ijs" "set ijs = symbol_pairs (fl_oti ?g)" "sent_symbols tsi (tr_endpoint t1) ?g ijs xs"
    and same1: "fixed_part f' = fixed_part ?g"
    and run2: "\<And>ops t''. file_transmitted env now (fe_toi (fl_meta ?g))
         (t1\<lparr>tr_store := (tr_store t1)[1 := f'], tr_sent := tr_sent t1 @ xs\<rparr>) = Some (Inr (), t'') \<Longrightarrow>
       tr_run env (send_rounds now (total_symbols (fl_oti ?g)) @ ops) t1 = tr_run env ops t''"
    using file_sent [OF t1(3) small ready(3) g', of now] by blast
  let ?t2 = "t1\<lparr>tr_store := [?f, f'], tr_sent := xs, tr_files := [(1, 0)]\<rparr>"
  have "file_transmitted env now (fe_toi (fl_meta ?g)) (t1\<lparr>tr_store := (tr_store t1)[1 := f'], tr_sent := tr_sent t1 @ xs\<rparr>) =
      Some (Inr (), ?t2)"
    by (simp add: file_transmitted_def t1 om_erase_def)
  note run2 = run2 [OF this, unfolded g]
  have s2: "sending tsi mp 0 ?t2" using t1(3) by (simp add: sending_def)
  have f': "tr_store ?t2 ! 0 = ?f" "sender_file (fl_oti ?f) (contents ?f) {} {} ?f"
    using ready(2) unfolding made(2,4) by simp_all
  obtain kls ys f'' where object: "distinct kls" "set kls = symbol_pairs (fl_oti ?f)" "sent_symbols tsi (tr_endpoint ?t2) ?f kls ys"
    and same2: "fixed_part f'' = fixed_part ?f"
    and run3: "\<And>ops t''. file_transmitted env now (fe_toi (fl_meta ?f))
         (?t2\<lparr>tr_store := (tr_store ?t2)[0 := f''], tr_sent := tr_sent ?t2 @ ys\<rparr>) = Some (Inr (), t'') \<Longrightarrow>
       tr_run env (send_rounds now (total_symbols (fl_oti ?f)) @ ops) ?t2 = tr_run env ops t''"
    using file_sent [OF s2 small ready(1) f', of now] by blast
  let ?t3 = "t1\<lparr>tr_store := [f'', f'], tr_sent := xs @ ys, tr_files := [], tr_fdt := fdt_remove 1 (tr_fdt t1),
    tr_completed := [1]\<rparr>"
  have none: "fdt_file_entries (fdt_remove 1 (tr_fdt t1)) = []" by (simp add: t1(8) announced_entry_def)
  have "fe_toi (fl_meta ?f) = 1" by (simp add: made(3))
  then have "file_transmitted env now (fe_toi (fl_meta ?f)) (?t2\<lparr>tr_store := (tr_store ?t2)[0 := f''], tr_sent := tr_sent ?t2 @ ys\<rparr>) =
      Some (Inr (), ?t3)"
    using none by (simp add: file_transmitted_def send_fdt_def t1 om_erase_def)
  from run3 [OF this] have run3: "tr_run env (send_rounds now (total_symbols (object_oti mp obj))) ?t2 = Some (Inr (), ?t3)"
    by (metis append_Nil2 made(2) tr_run.simps(1))
  have "tr_run env (queue_ops now s number d @
       send_rounds now (total_symbols (object_oti mp content) + total_symbols (object_oti mp obj))) t0 = Some (Inr (), ?t3)"
    using tr_run_append [OF run1] run2 run3 by (simp add: send_rounds_add)
  then show ?thesis
    by (rule that) (use fdt object t1(7) g same1 same2 made(2) in simp_all)
qed


section \<open>The receiving run\<close>

text \<open>The network brings the datagrams that were sent in some order: each element of \<open>ks\<close> is a time and
  the place of a datagram in the list of those sent. It may repeat some and lose others.\<close>

definition network :: "(endpoint \<times> byte list) list \<Rightarrow> (u64 \<times> nat) list \<Rightarrow> (u64 \<times> byte list) list" where
  "network sent ks = map (\<lambda>(now, k). (now, snd (sent ! k))) ks"

definition sent_arrival :: "nat \<Rightarrow> (nat \<times> nat) list \<Rightarrow> (endpoint \<times> byte list) list \<Rightarrow> u64 \<times> nat \<Rightarrow> arrival" where
  "sent_arrival m ijs sent nk =
     (if snd nk < m then 0 else 1, [ijs ! snd nk], fst nk, snd (sent ! snd nk))"

lemma datagrams_arrivals: "datagrams (map (sent_arrival m ijs sent) ks) = network sent ks"
  by (simp add: datagrams_def network_def sent_arrival_def case_prod_beta)

lemma arrivedI: "(toi, ijs, now, d) \<in> set ps \<Longrightarrow> x \<in> set ijs \<Longrightarrow> x \<in> arrived ps toi"
  by (induction ps) auto

lemma arrived_sent:
  assumes "k \<in> snd ` set ks"
  shows "ijs ! k \<in> arrived (map (sent_arrival m ijs sent) ks) (if k < m then 0 else 1)"
proof -
  obtain now where "(now, k) \<in> set ks" using assms by auto
  then have "sent_arrival m ijs sent (now, k) \<in> set (map (sent_arrival m ijs sent) ks)" by simp
  then show ?thesis unfolding sent_arrival_def snd_conv by (rule arrivedI) simp
qed

definition one_object :: "file_entry \<Rightarrow> byte list \<Rightarrow> objects" where
  "one_object e data = [1 \<mapsto> (e, data)]"

lemma one_object_iff: "one_object e data toi = Some (e', data') \<longleftrightarrow> toi = 1 \<and> e' = e \<and> data' = data"
  by (auto simp: one_object_def)

lemma received_object_oti:
  assumes "length content < 65536" and "unat mp < 2013"
  shows "received_oti (object_oti mp content) = object_oti mp content"
proof -
  have m: "(0xFFFF :: u64) = mask 16" "(0xFFFF :: u32) = mask 16" by (simp_all add: mask_numeral)
  have "take_bit 16 (of_nat (length content) :: u64) = of_nat (length content)"
    using assms(1) by (simp add: take_bit_of_nat take_bit_nat_eq_self)
  moreover have "take_bit 16 mp = mp"
  proof -
    have "unat mp < 2 ^ 16" using assms(2) by simp
    then show ?thesis by (metis take_bit_nat_eq_self unsigned_take_bit_eq unsigned_word_eqI)
  qed
  ultimately show ?thesis by (simp add: received_oti_def object_oti_def session_oti_def m take_bit_eq_mask [symmetric])
qed


text \<open>What the receiver makes of the datagrams.\<close>

lemma sent_symbols_nth:
  assumes "sent_symbols tsi to f ijs xs" and "k < length ijs"
  shows "file_packet tsi f (ijs ! k) (snd (xs ! k))"
  using assms by (simp add: sent_symbols_def list_all2_conv_all_nth)

lemma word_16_64_16: "(ucast (ucast (w :: u16) :: u64) :: u16) = w"
  by (rule bit_word_eqI) (simp add: bit_simps)

lemma network_arrivals:
  fixes tsi :: u16 and mp :: u32
  assumes fdt: "sent_symbols (ucast tsi) to g ijs xs" and object: "sent_symbols (ucast tsi) to f kls ys"
    and g: "fl_oti g = object_oti mp content" "contents g = content" "fe_toi (fl_meta g) = 0" "fl_fdt_instance_id g = 1"
    and f: "fl_oti f = object_oti mp data" "contents f = data" "fe_toi (fl_meta f) = 1" "fl_meta f = e"
    and h: "received_oti (object_oti mp content) = object_oti mp content"
    and k: "snd nk < length (xs @ ys)"
  shows "carousel_packet tsi 1 (object_oti mp content) content (one_object e data)
    (sent_arrival (length xs) (ijs @ kls) (xs @ ys) nk)"
proof (cases "snd nk < length xs")
  case True
  have "length ijs = length xs" using fdt by (simp add: sent_symbols_def list_all2_lengthD)
  with True sent_symbols_nth [OF fdt, of "snd nk"] h show ?thesis
    by (simp add: carousel_packet_def sent_arrival_def nth_append file_packet_def g word_16_64_16)
next
  case False
  have l: "length ijs = length xs" "length kls = length ys" using fdt object by (simp_all add: sent_symbols_def list_all2_lengthD)
  have "snd nk - length xs < length kls" using False k l by simp
  from sent_symbols_nth [OF object this] have
    "packet_of tsi 1 (ucast (fl_fdt_instance_id f)) (object_oti mp data) (object_oti mp data) data
      [kls ! (snd nk - length xs)] (snd (ys ! (snd nk - length xs)))"
    by (simp add: file_packet_def f(1-3) word_16_64_16)
  moreover have "fe_fec_oti e = object_oti mp data" using f(1,4) by simp
  ultimately show ?thesis
    using False l by (simp add: carousel_packet_def sent_arrival_def nth_append one_object_iff)
      (intro exI [of _ "ucast (fl_fdt_instance_id f)"] exI [of _ "object_oti mp data"], simp)
qed

lemma network_covers:
  assumes "length xs = length ijs" "length ys = length kls"
  shows "{..<length xs} \<subseteq> snd ` set ks \<Longrightarrow> set ijs \<subseteq> arrived (map (sent_arrival (length xs) (ijs @ kls) (xs @ ys)) ks) 0"
    and "{length xs..<length (xs @ ys)} \<subseteq> snd ` set ks \<Longrightarrow>
      set kls \<subseteq> arrived (map (sent_arrival (length xs) (ijs @ kls) (xs @ ys)) ks) 1"
proof -
  show "set ijs \<subseteq> arrived (map (sent_arrival (length xs) (ijs @ kls) (xs @ ys)) ks) 0" if "{..<length xs} \<subseteq> snd ` set ks"
  proof
    fix ij assume "ij \<in> set ijs"
    then obtain k where k: "k < length xs" "ij = (ijs @ kls) ! k" using assms(1) by (auto simp: in_set_conv_nth nth_append)
    with that have "k \<in> snd ` set ks" by auto
    from arrived_sent [OF this, of "ijs @ kls" "length xs" "xs @ ys"] k
    show "ij \<in> arrived (map (sent_arrival (length xs) (ijs @ kls) (xs @ ys)) ks) 0" by simp
  qed
  show "set kls \<subseteq> arrived (map (sent_arrival (length xs) (ijs @ kls) (xs @ ys)) ks) 1"
    if "{length xs..<length (xs @ ys)} \<subseteq> snd ` set ks"
  proof
    fix kl assume "kl \<in> set kls"
    then obtain k where k: "k < length ys" "kl = (ijs @ kls) ! (length xs + k)"
      using assms by (auto simp: in_set_conv_nth nth_append)
    with that have "length xs + k \<in> snd ` set ks" by auto
    from arrived_sent [OF this, of "ijs @ kls" "length xs" "xs @ ys"] k
    show "kl \<in> arrived (map (sent_arrival (length xs) (ijs @ kls) (xs @ ys)) ks) 1" by simp
  qed
qed


lemma distinct_singleton: "set xs = {x} \<Longrightarrow> distinct xs \<Longrightarrow> xs = [x]"
  by (cases xs; cases "tl xs") auto

lemma network_delivers:
  fixes tsi :: u16 and mp :: u32
  assumes memory: "memory_suffices env" and carries: "carries env e data bs"
    and content: "content = fdt_to_string xml_print table" "length content < 65536"
    and xml: "env_xml_parse env (xml_print (fdt_root table)) = Some (fdt_root table)"
    and table: "fdt_file_entries table = [e]" "announced_exactly (global_fec_oti table) e"
    and fdt: "sent_symbols (ucast tsi) to g ijs xs" "set ijs = symbol_pairs (object_oti mp content)"
    and object: "sent_symbols (ucast tsi) to f kls ys" "set kls = symbol_pairs (object_oti mp data)"
    and g: "fl_oti g = object_oti mp content" "contents g = content" "fe_toi (fl_meta g) = 0" "fl_fdt_instance_id g = 1"
    and f: "fl_oti f = object_oti mp data" "contents f = data" "fe_toi (fl_meta f) = 1" "fl_meta f = e"
    and mp: "unat mp < 2013" and parts: "partition_ok (object_oti mp content)" "partition_ok (object_oti mp data)"
    and short: "length data < 2 ^ 64"
    and ks: "snd ` set ks = {..<length xs}"
    and ls: "snd ` set ls \<subseteq> {..<length (xs @ ys)}" "{length xs..<length (xs @ ys)} \<subseteq> snd ` set ls"
  shows "\<exists>r f. handle_all env (network (xs @ ys) (ks @ ls)) (register_completion_callback (receiver_new (ucast tsi) uninit)) =
      Some (Inr (), r) \<and> rc_delivered r = [f] \<and> delivered_as env e data f"
proof -
  let ?objs = "one_object e data" and ?h = "object_oti mp content"
  let ?a = "map (sent_arrival (length xs) (ijs @ kls) (xs @ ys))"
  have oti: "fe_fec_oti e = object_oti mp data" "fe_toi e = 1" using f(1,3,4) by simp_all
  note h = received_object_oti [OF content(2) mp]
  have l: "length xs = length ijs" "length ys = length kls"
    using fdt object by (simp_all add: sent_symbols_def list_all2_lengthD)
  have carousel: "carousel_packet tsi 1 ?h content ?objs p" if "p \<in> set (?a ns)" "snd ` set ns \<subseteq> {..<length (xs @ ys)}" for p ns
  proof -
    from that(1) obtain nk where nk: "nk \<in> set ns" "p = sent_arrival (length xs) (ijs @ kls) (xs @ ys) nk" by auto
    with that(2) have "snd nk < length (xs @ ys)" by (meson image_subset_iff lessThan_iff)
    from network_arrivals [OF fdt(1) object(1) g f h this] nk(2) show ?thesis by simp
  qed
  have ps: "\<forall>p \<in> set (?a ks). fst p = 0 \<and> carousel_packet tsi 1 ?h content ?objs p"
  proof
    fix p assume p: "p \<in> set (?a ks)"
    then obtain nk where nk: "nk \<in> set ks" "p = sent_arrival (length xs) (ijs @ kls) (xs @ ys) nk" by auto
    then have "snd nk < length xs" using ks by blast
    then have "fst p = 0" using nk(2) by (simp add: sent_arrival_def)
    moreover have "snd ` set ks \<subseteq> {..<length (xs @ ys)}" using ks by simp
    ultimately show "fst p = 0 \<and> carousel_packet tsi 1 ?h content ?objs p" using carousel [OF p] by simp
  qed
  have qs: "\<forall>p \<in> set (?a ls). carousel_packet tsi 1 ?h content ?objs p" using carousel [OF _ ls(1)] by blast
  have "slen (object_oti mp data) < 2 ^ 24" using mp by (simp add: object_oti_def session_oti_def)
  then have "objects_ok env ?objs"
    using carries parts(2) short unat_of_nat64 [OF short]
    by (auto simp: objects_ok_def one_object_iff object_ok_def oti) (simp add: one_object_def)
  moreover have "announces (fdt_file_entries table) ?objs"
    by (auto simp: announces_def table(1) one_object_iff oti)
  moreover have "length content = tlen (received_oti ?h)" using content(2) unat_of_nat64 [of "length content"] by (simp add: h)
  moreover have "symbol_pairs (received_oti ?h) \<subseteq> arrived (?a ks) 0"
    using network_covers(1) [OF l, of ks] ks fdt(2) by (simp add: h)
  ultimately obtain r tois where r: "handle_all env (datagrams (?a ks @ ?a ls))
      (register_completion_callback (receiver_new (ucast tsi) uninit)) = Some (Inr (), r)"
    and tois: "distinct tois" "set tois = {toi. \<exists>e' data'. ?objs toi = Some (e', data') \<and> symbol_pairs (fe_fec_oti e') \<subseteq> arrived (?a ls) toi}"
      "list_all2 (\<lambda>toi f. \<exists>e' data'. ?objs toi = Some (e', data') \<and> delivered_as env e' data' f) tois (rc_delivered r)"
    using session_delivers [OF memory _ _ content(1) xml, of ?objs ?h "?a ks" tsi 1 "?a ls" uninit] ps qs h parts(1) table by auto
  have "symbol_pairs (object_oti mp data) \<subseteq> arrived (?a ls) 1"
    using network_covers(2) [OF l ls(2)] object(2) by simp
  then have "set tois = {1}" using tois(2) by (auto simp: one_object_iff oti)
  from distinct_singleton [OF this tois(1)] have "tois = [1]" .
  with tois(3) r show ?thesis
    by (auto simp: list_all2_Cons1 one_object_iff datagrams_arrivals simp flip: map_append)
qed


section \<open>From one end to the other\<close>

lemma first_sent_simps [simp]:
  "fdt_file_entries (first_table env mp ns data d) = [announced_entry mp data d]"
  "global_fec_oti (sent_table now (first_table env mp ns data d)) = session_oti mp"
  "instance_id (first_table env mp ns data d) = 1"
  by (simp_all add: first_table_def fdt_new_def sent_table_def fdt_set_expires_def fdt_add_def fdt_bump_def)

lemma sent_length:
  assumes "sent_symbols tsi to f ijs xs" "distinct ijs" "set ijs = symbol_pairs oti" "partition_ok oti"
  shows "length xs = total_symbols oti"
  using assms distinct_card [of ijs] card_symbol_pairs [of oti] by (simp add: sent_symbols_def list_all2_lengthD)

text \<open>What the receiver makes of the object is the contents of the description.\<close>

lemma described_carries:
  assumes "\<forall>bs. length (se_md5 env bs) = 16" and "env_md5 renv = se_md5 env" and "env_zlib renv = se_zlib env"
    and "encodes_to env d data obj" and "digest_of (se_md5 env) data (fd_entry d)"
  shows "carries renv (announced_entry mp obj d) obj data"
proof (cases "fe_content_encoding (fd_entry d) = []")
  case True
  then show ?thesis using assms by (auto simp: carries_def announced_entry_def encodes_to_def digest_of_def)
next
  case False
  then obtain gz where gz: "gzip_codec (se_zlib env) gz" "obj = gz data" "length obj \<le> 16384" "length data \<le> 16384"
    "content_length (fd_entry d) = of_nat (length data)" "fe_content_encoding (fd_entry d) = ''gzip''"
    using assms(4) by (auto simp: encodes_to_def)
  have "inflates (se_zlib env) (inflate_init (se_zlib env) 31 obj) data" using gzip_codecD(4) [OF gz(1,4)] unfolding gz(2) .
  moreover have "unat (of_nat (length data) :: u32) = length data" using gz(4) by (simp add: unat_of_nat take_bit_nat_eq_self)
  ultimately show ?thesis
    using gz(3-6) assms(1-3,5) by (simp add: carries_def announced_entry_def window_bits_def digest_of_def)
qed

lemma described_delivered:
  assumes "carries renv (announced_entry mp obj d) obj data" and "encodes_to env d data obj" and "fresh_description s data d"
    and "delivered_as renv (announced_entry mp obj d) obj f"
  shows "fl_meta f = announced_entry mp obj d \<and> buffer_bytes f (unat (file_length f)) = Inr data"
proof -
  obtain bs where bs: "carries renv (announced_entry mp obj d) obj bs" "buffer_bytes f (unat (file_length f)) = Inr bs"
    "fl_meta f = (if fe_content_encoding (announced_entry mp obj d) = [] then announced_entry mp obj d
       else decoded_entry bs (announced_entry mp obj d))"
    using assms(4) by (auto simp: delivered_as_def)
  have data: "bs = data" by (rule carries_unique [OF bs(1) assms(1)])
  have "content_length (announced_entry mp obj d) \<noteq> 0" if "fe_content_encoding (announced_entry mp obj d) \<noteq> []"
  proof -
    have l: "length data < 2 ^ 32" "content_length (announced_entry mp obj d) = of_nat (length data)"
      using that assms(2) by (simp_all add: encodes_to_def announced_entry_def)
    then have "unat (content_length (announced_entry mp obj d)) = length data" by (simp add: unat_of_nat take_bit_nat_eq_self)
    then show ?thesis using assms(3) by (auto simp: fresh_description_def)
  qed
  then show ?thesis using bs(2,3) data by (simp add: decoded_entry_def)
qed

text \<open>(C2) From one end to the other. An active transmitter without a rate limit is handed a file
  description, of a file to be sent as it is, or compressed when it has at most 16384 bytes both before and
  after; its send loop runs for as many rounds as the FDT
  and the file have symbols, and every send completes. Then the application has been told that the file was
  transmitted, the queue is empty, and one datagram per symbol went to the session's address. A fresh
  receiver of the session that first gets each datagram of the FDT, then each of the file, both in any
  order and with any repetitions, delivers one file: with the entry of the description and its contents.\<close>
theorem described_file_arrives:
  fixes tsi :: u16 and mp :: u32
  assumes "transmitter_new env to (ucast tsi) mtu 0 None ns True source = (Inr (), t0)"
    and "mp = ucast mtu - 64" and "4 < unat mp" and "unat mp < 2013"
    and "sender_memory env" and "memory_suffices renv" and "\<forall>bs. length (se_md5 env bs) = 16" and "env_md5 renv = se_md5 env"
    and "env_zlib renv = se_zlib env" and "encodes_to env d data obj"
    and "fresh_description s data d" and "length data < 2 ^ 64" and "digest_of (se_md5 env) data (fd_entry d)"
    and "announced_exactly (session_oti mp) (announced_entry mp obj d)"
    and "table = sent_table now (first_table env mp ns obj d)"
    and "content = fdt_to_string (se_xml_print env) table" and "length content < 65536"
    and "env_xml_parse renv (se_xml_print env (fdt_root table)) = Some (fdt_root table)"
    and "partition_ok (object_oti mp obj)" and "partition_ok (object_oti mp content)"
    and "m = total_symbols (object_oti mp content)" and "n = total_symbols (object_oti mp obj)"
  shows "\<exists>t1. tr_run env (queue_ops now s number d @ send_rounds now (m + n)) t0 = Some (Inr (), t1) \<and>
    tr_completed t1 = [1] \<and> tr_files t1 = [] \<and> length (tr_sent t1) = m + n \<and> (\<forall>x \<in> set (tr_sent t1). fst x = to) \<and>
    (\<forall>ks ls uninit. snd ` set ks = {..<m} \<longrightarrow> {m..<m + n} \<subseteq> snd ` set ls \<longrightarrow> snd ` set ls \<subseteq> {..<m + n} \<longrightarrow>
       (\<exists>r f. handle_all renv (network (tr_sent t1) (ks @ ls))
            (register_completion_callback (receiver_new (ucast tsi) uninit)) = Some (Inr (), r) \<and>
          rc_delivered r = [f] \<and> fl_meta f = announced_entry mp obj d \<and>
          buffer_bytes f (unat (file_length f)) = Inr data))"
proof -
  let ?g = "table_object env mp now (first_table env mp ns obj d)" and ?f = "described_object env mp number data d"
  note content = assms(16) [unfolded assms(15)]
  have short: "length content < 2 ^ 64" "length obj < 2 ^ 64"
    using assms(10,12,17) by (auto simp: encodes_to_def split: if_splits)
  obtain t1 ijs xs kls ys where run: "tr_run env (queue_ops now s number d @ send_rounds now (m + n)) t0 = Some (Inr (), t1)"
    and t1: "tr_sent t1 = xs @ ys" "tr_completed t1 = [1]" "tr_files t1 = []"
    and xs: "sent_symbols (ucast tsi) to ?g ijs xs" "distinct ijs" "set ijs = symbol_pairs (object_oti mp content)"
    and ys: "sent_symbols (ucast tsi) to ?f kls ys" "distinct kls" "set kls = symbol_pairs (object_oti mp obj)"
    using sending_run [OF assms(1-5,7,11-13,10) short(2) content short(1) assms(19,20)] unfolding assms(21,22) by metis
  have mn: "length xs = m" "length ys = n"
    using sent_length [OF xs assms(20)] sent_length [OF ys assms(19)] assms(21,22) by simp_all
  have to: "\<forall>x \<in> set (tr_sent t1). fst x = to"
    using xs(1) ys(1) by (fastforce simp: t1(1) sent_symbols_def list_all2_conv_all_nth in_set_conv_nth)
  have carries: "carries renv (announced_entry mp obj d) obj data"
    by (rule described_carries [OF assms(7-10,13)])
  have table: "fdt_file_entries table = [announced_entry mp obj d]"
      "announced_exactly (global_fec_oti table) (announced_entry mp obj d)"
    using assms(14,15) by simp_all
  note made = described_object_made [OF assms(5,11,10,19) short(2), of number]
  have objects: "fl_oti ?g = object_oti mp content" "contents ?g = content" "fe_toi (fl_meta ?g) = 0"
      "fl_fdt_instance_id ?g = 1" "fl_oti ?f = object_oti mp obj" "contents ?f = obj" "fe_toi (fl_meta ?f) = 1"
      "fl_meta ?f = announced_entry mp obj d"
    by (simp_all add: content made)
  have whole: "delivered_as renv (announced_entry mp obj d) obj f \<Longrightarrow>
      fl_meta f = announced_entry mp obj d \<and> buffer_bytes f (unat (file_length f)) = Inr data" for f
    by (rule described_delivered [OF carries assms(10,11)])
  have "\<exists>r f. handle_all renv (network (tr_sent t1) (ks @ ls)) (register_completion_callback (receiver_new (ucast tsi) uninit)) =
        Some (Inr (), r) \<and> rc_delivered r = [f] \<and> fl_meta f = announced_entry mp obj d \<and>
        buffer_bytes f (unat (file_length f)) = Inr data"
    if "snd ` set ks = {..<m}" "{m..<m + n} \<subseteq> snd ` set ls" "snd ` set ls \<subseteq> {..<m + n}" for ks ls uninit
    using network_delivers [OF assms(6) carries assms(16-18) table xs(1,3) ys(1,3) objects assms(4,20,19) short(2), of ks ls uninit]
      that whole by (simp add: t1(1) mn) blast
  then show ?thesis using run t1 to mn by simp
qed


text \<open>Examples: a file of three bytes, as it is and compressed, one symbol each for it and the FDT.\<close>

definition example_sender :: "unit sender_env" where
  "example_sender =
     \<lparr>se_malloc = (\<lambda>n. Some (replicate n 0)), se_md5 = (\<lambda>bs. replicate 16 7), se_zlib = env_zlib example_env,
      se_xml_print = (\<lambda>x. [60]), se_local_address = (\<lambda>e. 0), se_uninit = (\<lambda>n. replicate n 0), se_uninit_time = 0\<rparr>"

definition example_destination :: endpoint where
  "example_destination = \<lparr>ep_address = 0xE0000001, ep_port = 5000\<rparr>"

definition session_process :: process where
  "session_process = \<lparr>pr_memory = [0 \<mapsto> [1, 2, 3]], pr_next_block = 1, pr_handles = Map.empty, pr_next_handle = 0,
     pr_files = Map.empty\<rparr>"

definition session_description :: description where
  "session_description = snd (description_of_vector (se_md5 example_sender) session_process ''f'' (Block 0) 3)"

lemma session_description_eq:
  "session_description = (blank_description ''f'' (Block 0) 3)\<lparr>fd_entry :=
     \<lparr>fe_toi = 0, content_location = ''f'', content_length = 3, content_md5 = ''BwcHBwcHBwcHBwcHBwcHBw=='',
      content_type = [], fe_expires = 0, fe_fec_oti = fec_oti_zero\<lparr>transfer_length := 3\<rparr>,
      fe_cache_control = \<lparr>no_cache = False, cache_expires = None\<rparr>, fe_content_encoding = [], etag = []\<rparr>\<rparr>"
  by code_simp

lemma example_fresh: "fresh_description session_process [1, 2, 3] session_description"
  by code_simp

lemma example_encodes: "encodes_to env session_description [1, 2, 3] [1, 2, 3]"
  by (simp add: encodes_to_def session_description_eq)

lemma example_digest: "digest_of (\<lambda>bs. replicate 16 7) data (fd_entry session_description)"
proof -
  have "base64_encode (replicate 16 7) False = ''BwcHBwcHBwcHBwcHBwcHBw==''" by code_simp
  then show ?thesis by (simp add: digest_of_def session_description_eq)
qed

lemma example_parts: "partition_ok (object_oti 1436 [1, 2, 3])" "partition_ok (object_oti 1436 [60])"
  "total_symbols (object_oti 1436 [1, 2, 3]) = 1" "total_symbols (object_oti 1436 [60]) = 1"
  by (simp_all add: partition_ok_def total_blocks_def total_symbols_def ceil_div_def)

text \<open>The compressed file, with the codec of the examples.\<close>

definition coded_sender :: "(bool \<times> byte list) sender_env" where
  "coded_sender =
     \<lparr>se_malloc = (\<lambda>n. Some (replicate n 0)), se_md5 = (\<lambda>bs. replicate 16 7), se_zlib = example_codec,
      se_xml_print = (\<lambda>x. [60]), se_local_address = (\<lambda>e. 0), se_uninit = (\<lambda>n. replicate n 0), se_uninit_time = 0\<rparr>"

definition coded_description :: description where
  "coded_description = snd (set_compression (\<lambda>bs. replicate 16 7) session_process COMPRESSION_GZIP session_description)"

definition coded_sent :: fdt where
  "coded_sent = sent_table 0 (first_table coded_sender 1436 FDT_NS_NONE [31, 1, 2, 3] coded_description)"

definition coded_receiver_env :: "(bool \<times> byte list) env" where
  "coded_receiver_env =
     \<lparr>env_malloc = (\<lambda>n. Some (replicate n 0)), env_md5 = (\<lambda>bs. replicate 16 7), env_zlib = example_codec,
      env_xml_parse = (\<lambda>x. Some (fdt_root coded_sent))\<rparr>"

lemma coded_description_eq:
  "coded_description = session_description\<lparr>fd_compression := COMPRESSION_GZIP,
     fd_entry := (fd_entry session_description)\<lparr>fe_content_encoding := ''gzip''\<rparr>\<rparr>"
  by code_simp

lemma coded_fresh: "fresh_description session_process [1, 2, 3] coded_description"
  using example_fresh by (simp add: coded_description_eq fresh_description_def fd_bytes_def)

lemma coded_encodes: "encodes_to coded_sender coded_description [1, 2, 3] [31, 1, 2, 3]"
  using example_gzip example_gz_short [of "[1, 2, 3]"]
  by (auto simp: encodes_to_def coded_description_eq session_description_eq coded_sender_def intro!: exI [of _ example_gz])

lemma coded_announced: "announced_exactly (session_oti 1436) (announced_entry 1436 [31, 1, 2, 3] coded_description)"
  by (simp add: coded_description_eq session_description_eq announced_exactly_def announced_entry_def blank_description_def
      object_oti_def session_oti_def fec_oti_zero_def)

lemma coded_parts: "partition_ok (object_oti 1436 [31, 1, 2, 3])" "total_symbols (object_oti 1436 [31, 1, 2, 3]) = 1"
  by (simp_all add: partition_ok_def total_blocks_def total_symbols_def ceil_div_def)

theorem described_file_arrives_witness:
  "\<exists>t0 t1 r f. transmitter_new coded_sender example_destination 7 1500 0 None FDT_NS_NONE True None = (Inr (), t0) \<and>
     tr_run coded_sender (queue_ops 0 session_process 1 coded_description @ send_rounds 0 2) t0 = Some (Inr (), t1) \<and>
     tr_completed t1 = [1] \<and> map fst (tr_sent t1) = [example_destination, example_destination] \<and>
     handle_all coded_receiver_env (network (tr_sent t1) [(1, 0), (2, 0), (3, 1)])
       (register_completion_callback (receiver_new 7 [])) = Some (Inr (), r) \<and>
     rc_delivered r = [f] \<and> fe_content_encoding (fl_meta f) = ''gzip'' \<and> buffer_bytes f (unat (file_length f)) = Inr [1, 2, 3]"
proof -
  obtain t0 where t0: "transmitter_new coded_sender example_destination (ucast (7 :: u16)) 1500 0 None FDT_NS_NONE True None = (Inr (), t0)"
    by (simp add: active_start)
  have env: "sender_memory coded_sender" "memory_suffices coded_receiver_env"
    "\<forall>bs. length (se_md5 coded_sender bs) = 16" "env_md5 coded_receiver_env = se_md5 coded_sender"
    "env_zlib coded_receiver_env = se_zlib coded_sender" "[60] = fdt_to_string (se_xml_print coded_sender) coded_sent"
    "env_xml_parse coded_receiver_env (se_xml_print coded_sender (fdt_root coded_sent)) = Some (fdt_root coded_sent)"
    "digest_of (se_md5 coded_sender) [1, 2, 3] (fd_entry coded_description)"
    using example_digest [of "[1, 2, 3]"]
    by (simp_all add: sender_memory_def memory_suffices_def coded_sender_def coded_receiver_env_def fdt_to_string_def
        digest_of_def coded_description_eq)
  have mp: "(1436 :: u32) = ucast (1500 :: u16) - 64" "4 < unat (1436 :: u32)" "unat (1436 :: u32) < 2013" by simp_all
  have l: "length [1 :: byte, 2, 3] < 2 ^ 64" "length [60 :: byte] < 65536" by simp_all
  note arrives = described_file_arrives [where number = 1, OF t0 mp env(1-5) coded_encodes coded_fresh l(1) env(8) coded_announced
      coded_sent_def env(6) l(2) env(7) coded_parts(1) example_parts(2) example_parts(4) [symmetric] coded_parts(2) [symmetric]]
  then obtain t1 where t1:
    "tr_run coded_sender (queue_ops 0 session_process 1 coded_description @ send_rounds 0 (1 + 1)) t0 = Some (Inr (), t1)"
    "tr_completed t1 = [1]" "length (tr_sent t1) = 1 + 1" "\<forall>x \<in> set (tr_sent t1). fst x = example_destination"
    and receives: "\<forall>ks ls uninit. snd ` set ks = {..<1} \<longrightarrow> {1..<1 + 1} \<subseteq> snd ` set ls \<longrightarrow> snd ` set ls \<subseteq> {..<1 + 1} \<longrightarrow>
       (\<exists>r f. handle_all coded_receiver_env (network (tr_sent t1) (ks @ ls))
            (register_completion_callback (receiver_new (ucast (7 :: u16)) uninit)) = Some (Inr (), r) \<and>
          rc_delivered r = [f] \<and> fl_meta f = announced_entry 1436 [31, 1, 2, 3] coded_description \<and>
          buffer_bytes f (unat (file_length f)) = Inr [1, 2, 3])" by blast
  obtain x y where xy: "tr_sent t1 = [x, y]" using t1(3) by (auto simp: length_Suc_conv)
  have sets: "snd ` set [(1 :: u64, 0), (2, 0)] = {..<1 :: nat}" "{1..<1 + 1} \<subseteq> snd ` set [(3 :: u64, 1 :: nat)]"
    "snd ` set [(3 :: u64, 1 :: nat)] \<subseteq> {..<1 + 1}" by auto
  obtain r f where "handle_all coded_receiver_env (network (tr_sent t1) [(1, 0), (2, 0), (3, 1)])
      (register_completion_callback (receiver_new 7 [])) = Some (Inr (), r)" "rc_delivered r = [f]"
    and meta: "fl_meta f = announced_entry 1436 [31, 1, 2, 3] coded_description" and "buffer_bytes f (unat (file_length f)) = Inr [1, 2, 3]"
    using receives [rule_format, OF sets, of "[]"] by auto
  moreover have "fe_content_encoding (fl_meta f) = ''gzip''"
    by (simp add: meta) (simp add: announced_entry_def coded_description_eq)
  moreover have "map fst (tr_sent t1) = [example_destination, example_destination]" using t1(4) xy by simp
  moreover have "tr_run coded_sender (queue_ops 0 session_process 1 coded_description @ send_rounds 0 2) t0 = Some (Inr (), t1)"
    using t1(1) unfolding one_add_one .
  moreover have "transmitter_new coded_sender example_destination 7 1500 0 None FDT_NS_NONE True None = (Inr (), t0)"
    using t0 by (simp only: unsigned_numeral) simp
  ultimately show ?thesis using t1(2)
    by (intro exI [of _ t0] exI [of _ t1] exI [of _ r] exI [of _ f] conjI)
qed

end
