(* ===== verification/Session_Properties.thy ===== *)
theory Session_Properties
  imports End_To_End
begin

text \<open>
  What holds in every state a transmitter can reach, with the run of the example session as the state that
  shows it is not empty.
\<close>

lemma run_reachable:
  "init t0 \<Longrightarrow> tr_run env ops t0 = Some (Inr (), t) \<Longrightarrow> \<forall>op \<in> set ops. \<forall>t. P op t \<Longrightarrow> reachable init (tr_event env P) t"
  using reachable_run [of init "tr_event env P" t0 t] reach_init [of init t0] tr_run_events [of env ops t0 t P] by blast

lemma sendable_cong:
  assumes "map fixed_part fs = map fixed_part gs" and "\<forall>f \<in> set gs. sendable_file env mp f"
  shows "\<forall>f \<in> set fs. sendable_file env mp f"
proof
  fix f assume "f \<in> set fs"
  then have "fixed_part f \<in> set (map fixed_part gs)" unfolding assms(1) [symmetric] by simp
  then obtain g where "g \<in> set gs" "fixed_part f = fixed_part g" by auto
  with fixed_part_cong(5) [of f g env mp] assms(2) show "sendable_file env mp f" by simp
qed

lemma session_example:
  "4 < unat (1436 :: u32)" "unat (1436 :: u32) < 2013" "(1436 :: u32) = ucast (1500 :: u16) - 64" "memory_exact example_sender"
  "sender_memory example_sender" "\<forall>bs. length (se_md5 example_sender bs) = 16"
  "digest_of (se_md5 example_sender) [1, 2, 3] (fd_entry session_description)"
  "[60] = fdt_to_string (se_xml_print example_sender) (sent_table 0 (first_table example_sender 1436 FDT_NS_NONE [1, 2, 3] session_description))"
  using example_digest [of "[1, 2, 3]"]
  by (simp_all add: memory_exact_def sender_memory_def example_sender_def fdt_to_string_def)

lemma session_started:
  obtains t0 where "transmitter_new example_sender example_destination 7 1500 0 None FDT_NS_NONE True None = (Inr (), t0)"
  by (simp add: active_start)

text \<open>The example session with the file and the FDT in the queue.\<close>

definition session_file :: flute_file where
  "session_file = described_object example_sender 1436 1 [1, 2, 3] session_description"

definition session_table :: flute_file where
  "session_table = table_object example_sender 1436 0 (first_table example_sender 1436 FDT_NS_NONE [1, 2, 3] session_description)"

lemma session_objects:
  "sendable_file example_sender 1436 session_file" "sender_file (object_oti 1436 [1, 2, 3]) [1, 2, 3] {} {} session_file"
  "sendable_file example_sender 1436 session_table" "sender_file (object_oti 1436 [60]) [60] {} {} session_table"
  "fl_oti session_table = object_oti 1436 [60]" "contents session_table = [60]"
proof -
  have l: "length [1 :: byte, 2, 3] < 2 ^ 64" "length [60 :: byte] < 2 ^ 64" by simp_all
  show "sendable_file example_sender 1436 session_file" "sender_file (object_oti 1436 [1, 2, 3]) [1, 2, 3] {} {} session_file"
    using described_object_ready [OF session_example(5) example_fresh example_encodes example_parts(1) l(1) session_example(1,7,6)]
      described_object_made(5) [OF session_example(5) example_fresh example_encodes example_parts(1) l(1)]
    by (simp_all add: session_file_def)
  show "sendable_file example_sender 1436 session_table" "sender_file (object_oti 1436 [60]) [60] {} {} session_table"
    "fl_oti session_table = object_oti 1436 [60]" "contents session_table = [60]"
    using table_object_ready [of example_sender 0 "first_table example_sender 1436 FDT_NS_NONE [1, 2, 3] session_description" 1436]
      l(2) example_parts(2) session_example(1,6) by (simp_all add: session_table_def flip: session_example(8))
qed

lemma session_state:
  obtains t0 t where "transmitter_new example_sender example_destination 7 1500 0 None FDT_NS_NONE True None = (Inr (), t0)"
    and "tr_run example_sender (queue_ops 0 session_process 1 session_description) t0 = Some (Inr (), t)"
    and "tr_store t = [session_file, session_table]" "tr_files t = [(0, 1), (1, 0)]" "sending 7 1436 1 t" "tr_sent t = []"
      "tr_completed t = []" "tr_callback t" "tr_endpoint t = example_destination"
proof -
  obtain t0 where t0: "transmitter_new example_sender example_destination 7 1500 0 None FDT_NS_NONE True None = (Inr (), t0)"
    by (rule session_started)
  have l: "length [1 :: byte, 2, 3] < 2 ^ 64" by simp
  obtain t where "tr_run example_sender (queue_ops 0 session_process 1 session_description) t0 = Some (Inr (), t)"
    "tr_store t = [session_file, session_table]" "tr_files t = [(0, 1), (1, 0)]" "sending 7 1436 1 t" "tr_sent t = []"
      "tr_completed t = []" "tr_callback t" "tr_endpoint t = example_destination"
    using queue_run [where number = 1, OF t0 session_example(3,5) example_fresh l example_encodes l example_parts(1)
        example_parts(2) [unfolded session_example(8)]] unfolding session_file_def session_table_def by metis
  with t0 show ?thesis by (rule that)
qed

lemma session_ready:
  obtains t0 t where "transmitter_new example_sender example_destination 7 1500 0 None FDT_NS_NONE True None = (Inr (), t0)"
    and "tr_run example_sender (queue_ops 0 session_process 1 session_description) t0 = Some (Inr (), t)"
    and "tr_files t = [(0, 1), (1, 0)]" "sending 7 1436 1 t" "tr_sent t = []" "tr_endpoint t = example_destination"
      "length (tr_store t) = 2"
    and "sendable_file example_sender 1436 (tr_store t ! 1)" "fl_oti (tr_store t ! 1) = object_oti 1436 [60]"
      "contents (tr_store t ! 1) = [60]" "sender_file (object_oti 1436 [60]) [60] {} {} (tr_store t ! 1)"
      "\<not> symbol_pairs (object_oti 1436 [60]) \<subseteq> {}"
proof -
  obtain t0 t where t: "transmitter_new example_sender example_destination 7 1500 0 None FDT_NS_NONE True None = (Inr (), t0)"
    "tr_run example_sender (queue_ops 0 session_process 1 session_description) t0 = Some (Inr (), t)"
    "tr_store t = [session_file, session_table]" "tr_files t = [(0, 1), (1, 0)]" "sending 7 1436 1 t" "tr_sent t = []"
      "tr_completed t = []" "tr_callback t" "tr_endpoint t = example_destination" by (rule session_state)
  have "card (symbol_pairs (object_oti 1436 [60])) = 1"
    using card_symbol_pairs [OF example_parts(2)] example_parts(4) by simp
  then have "\<not> symbol_pairs (object_oti 1436 [60]) \<subseteq> {}" by auto
  moreover have "tr_store t ! 1 = session_table" "length (tr_store t) = 2" using t(3) by simp_all
  ultimately show ?thesis using that [OF t(1,2,4-6,9)] session_objects by simp
qed

lemma session_queued:
  obtains t0 t where "transmitter_new example_sender example_destination 7 1500 0 None FDT_NS_NONE True None = (Inr (), t0)"
    and "tr_run example_sender (queue_ops 0 session_process 1 session_description) t0 = Some (Inr (), t)"
    and "om_keys (tr_files t) = [0, 1]" "tr_active t"
proof -
  obtain t0 t where "transmitter_new example_sender example_destination 7 1500 0 None FDT_NS_NONE True None = (Inr (), t0)"
    "tr_run example_sender (queue_ops 0 session_process 1 session_description) t0 = Some (Inr (), t)"
    "tr_files t = [(0, 1), (1, 0)]" "sending 7 1436 1 t" by (rule session_ready)
  then show ?thesis by (intro that [of t0 t]) (simp_all add: sending_def)
qed

lemma session_finished:
  obtains t0 t where "transmitter_new example_sender example_destination 7 1500 0 None FDT_NS_NONE True None = (Inr (), t0)"
    and "tr_run example_sender (queue_ops 0 session_process 1 session_description @ send_rounds 0 2) t0 = Some (Inr (), t)"
    and "tr_completed t = [1]" "\<forall>f \<in> set (tr_store t). sendable_file example_sender 1436 f"
proof -
  obtain t0 where t0: "transmitter_new example_sender example_destination 7 1500 0 None FDT_NS_NONE True None = (Inr (), t0)"
    by (rule session_started)
  have l: "length [1 :: byte, 2, 3] < 2 ^ 64" "length [60 :: byte] < 2 ^ 64" by simp_all
  let ?f = "described_object example_sender 1436 1 [1, 2, 3] session_description"
  let ?g = "table_object example_sender 1436 0 (first_table example_sender 1436 FDT_NS_NONE [1, 2, 3] session_description)"
  obtain t where t: "tr_run example_sender (queue_ops 0 session_process 1 session_description @
       send_rounds 0 (total_symbols (object_oti 1436 [60]) + total_symbols (object_oti 1436 [1, 2, 3]))) t0 = Some (Inr (), t)"
    "tr_completed t = [1]" "map fixed_part (tr_store t) = map fixed_part [?f, ?g]"
    using sending_run [OF t0 session_example(3,1,2,5,6) example_fresh l(1) session_example(7) example_encodes l(1) session_example(8) l(2) example_parts(1,2)] by metis
  have "sendable_file example_sender 1436 ?f" "sendable_file example_sender 1436 ?g"
    using session_objects(1,3) by (simp_all add: session_file_def session_table_def)
  then have "\<forall>f \<in> set (tr_store t). sendable_file example_sender 1436 f"
    by (intro sendable_cong [OF t(3)]) auto
  with t0 t(1) [unfolded example_parts(3,4) one_add_one] t(2) show ?thesis by (rule that)
qed

text \<open>(C9) Whatever the application calls and the event loop does, in any order, the files of the queue are
  the files the FDT lists (identifier 0 is the FDT's own); the next identifier is never 0.\<close>
theorem queue_is_announced:
  assumes "reachable (tr_init env) (tr_event env P) t"
  shows "om_ok (tr_files t) \<and> tr_toi t \<noteq> 0 \<and>
    {toi \<in> set (om_keys (tr_files t)). toi \<noteq> 0} = fe_toi ` set (fdt_file_entries (tr_fdt t))"
  using tx.inv_reachable [OF assms] by (simp add: tr_inv_def queue_announced_def)

theorem queue_is_announced_witness:
  "\<exists>t. reachable (tr_init example_sender) (tr_event example_sender (\<lambda>_ _. True)) t \<and>
     om_keys (tr_files t) = [0, 1] \<and> fe_toi ` set (fdt_file_entries (tr_fdt t)) = {1}"
proof -
  obtain t0 t where t: "transmitter_new example_sender example_destination 7 1500 0 None FDT_NS_NONE True None = (Inr (), t0)"
    "tr_run example_sender (queue_ops 0 session_process 1 session_description) t0 = Some (Inr (), t)"
    "om_keys (tr_files t) = [0, 1]" by (rule session_queued)
  have r: "reachable (tr_init example_sender) (tr_event example_sender (\<lambda>_ _. True)) t"
    by (rule run_reachable [OF _ t(2)]) (simp_all add: tr_init.intros [OF t(1)])
  have "{toi \<in> {0, 1 :: u32}. toi \<noteq> 0} = {1}" by auto
  with queue_is_announced [OF r] t(3) r show ?thesis by auto
qed

text \<open>(C10) An active transmitter never stops: in every state it can reach, its send loop waits on the timer
  or has a handler ready to run, and so has the loop that repeats the FDT. A timer that expires makes the
  handler ready, and the handler that runs without an error leaves the loop alive again.\<close>
theorem loops_stay_alive:
  assumes "reachable (tr_init env) (tr_event env P) t" and "tr_active t"
  shows "(tr_enabled Send_Timer_Expires t \<or> tr_enabled (Send_Handler takes) t) \<and>
    (tr_enabled Fdt_Timer_Expires t \<or> tr_enabled (Fdt_Handler now) t) \<and>
    (tr_enabled Send_Timer_Expires t \<longrightarrow> tr_enabled (Send_Handler takes) (send_timer_expires t)) \<and>
    (tr_enabled Fdt_Timer_Expires t \<longrightarrow> tr_enabled (Fdt_Handler now) (fdt_timer_expires t))"
  using tx.inv_reachable [OF assms(1)] assms(2)
  by (auto simp: tr_inv_def loops_alive_def send_timer_expires_def cancel_send_timer_def fdt_timer_expires_def)

theorem loops_stay_alive_witness:
  "\<exists>t. reachable (tr_init example_sender) (tr_event example_sender (\<lambda>_ _. True)) t \<and> tr_active t \<and>
     (tr_enabled Send_Timer_Expires t \<or> tr_enabled (Send_Handler True) t)"
proof -
  obtain t0 t where t: "transmitter_new example_sender example_destination 7 1500 0 None FDT_NS_NONE True None = (Inr (), t0)"
    "tr_run example_sender (queue_ops 0 session_process 1 session_description) t0 = Some (Inr (), t)"
    "om_keys (tr_files t) = [0, 1]" "tr_active t" by (rule session_queued)
  have r: "reachable (tr_init example_sender) (tr_event example_sender (\<lambda>_ _. True)) t"
    by (rule run_reachable [OF _ t(2)]) (simp_all add: tr_init.intros [OF t(1)])
  from loops_stay_alive [OF r t(4), of True] r t(4) show ?thesis by blast
qed

text \<open>(C7) A transmitter without a tunnel, whatever the order of calls, timers, handlers, completions and
  send errors, with files that are sendable (the parameters partition the contents, a symbol is no longer than the payload of a
  packet and at most 4 bytes shorter): every datagram it has sent is a packet that carries a symbol of a file it was given, of what
  its contents are encoded to when they are (of the table of the FDT when the identifier is 0), and when the application has been told that a file was
  transmitted, each symbol of a file with that identifier has been sent.\<close>
theorem completed_file_was_sent:
  fixes mp :: u32
  assumes "reachable (plain_init env tsi mp) (tr_event env no_tunnel) t" and "memory_exact env"
    and "4 < unat mp" and "unat mp < 2013" and "\<forall>f \<in> set (tr_store t). sendable_file env mp f"
  shows "(\<forall>x \<in> set (tr_sent t). \<exists>f \<in> set (tr_store t). \<exists>ij. file_packet tsi f ij (snd x)) \<and>
    (\<forall>f \<in> set (tr_store t). fe_toi (fl_meta f) = 0 \<longrightarrow> table_file env f) \<and>
    (\<forall>toi \<in> set (tr_completed t). \<exists>f \<in> set (tr_store t). fe_toi (fl_meta f) = toi \<and>
       (\<forall>ij \<in> symbol_pairs (fl_oti f). \<exists>x \<in> set (tr_sent t). file_packet tsi f ij (snd x)))"
proof -
  obtain S Q where good: "tr_good env tsi mp S Q t"
    using session.inv_reachable [OF assms(1)] assms(2-) by (auto simp: session_inv_def)
  have "\<exists>f \<in> set (tr_store t). \<exists>ij. file_packet tsi f ij (snd x)" if "x \<in> set (tr_sent t)" for x
    using good that unfolding tr_good_def by (meson nth_mem)
  moreover have "table_file env f" if "f \<in> set (tr_store t)" "fe_toi (fl_meta f) = 0" for f
    using good that unfolding tr_good_def by (metis in_set_conv_nth)
  moreover have "\<exists>f \<in> set (tr_store t). fe_toi (fl_meta f) = toi \<and>
       (\<forall>ij \<in> symbol_pairs (fl_oti f). \<exists>x \<in> set (tr_sent t). file_packet tsi f ij (snd x))"
    if "toi \<in> set (tr_completed t)" for toi
    using good that unfolding tr_good_def by (meson nth_mem subsetD)
  ultimately show ?thesis by blast
qed

theorem completed_file_was_sent_witness:
  "\<exists>t. reachable (plain_init example_sender 7 1436) (tr_event example_sender no_tunnel) t \<and> tr_completed t = [1] \<and>
     (\<exists>f \<in> set (tr_store t). fe_toi (fl_meta f) = 1 \<and>
        (\<forall>ij \<in> symbol_pairs (fl_oti f). \<exists>x \<in> set (tr_sent t). file_packet 7 f ij (snd x)))"
proof -
  obtain t0 t where t: "transmitter_new example_sender example_destination 7 1500 0 None FDT_NS_NONE True None = (Inr (), t0)"
    "tr_run example_sender (queue_ops 0 session_process 1 session_description @ send_rounds 0 2) t0 = Some (Inr (), t)"
    "tr_completed t = [1]" "\<forall>f \<in> set (tr_store t). sendable_file example_sender 1436 f" by (rule session_finished)
  have ops: "\<forall>op \<in> set (queue_ops 0 session_process 1 session_description @ send_rounds 0 2). \<forall>t. no_tunnel op t"
    by (simp add: queue_ops_def send_round_def no_tunnel_def numeral_2_eq_2)
  have r: "reachable (plain_init example_sender 7 1436) (tr_event example_sender no_tunnel) t"
    by (rule run_reachable [OF _ t(2) ops]) (rule plain_init.intros [OF t(1) session_example(3)])
  from completed_file_was_sent [OF r session_example(4,1,2) t(4)] t(3) r show ?thesis by auto
qed

end
