(* ===== verification/Queue_Drain.thy ===== *)
theory Queue_Drain
  imports Session_Properties "HOL-Library.Sublist"
begin

text \<open>
  Progress of the sender: the queue empties. From a quiet state, where no packet is under way and no symbol was lost to a
  failed send, the send loop transmits one queued file after another, the table of the FDT between them, tells
  the application of each, and ends with an empty queue. An invariant of all runs says what the entries of
  the queue are; the number of objects left is the measure.
\<close>

section \<open>The entries of the queue\<close>

text \<open>An entry names a file of the store that has its identifier and is not complete.\<close>

definition entry_waits :: "flute_file list \<Rightarrow> u32 \<times> nat \<Rightarrow> bool" where
  "entry_waits store x \<longleftrightarrow>
     snd x < length store \<and> fe_toi (fl_meta (store ! snd x)) = fst x \<and> \<not> fl_complete (store ! snd x)"

definition queue_waits :: "transmitter \<Rightarrow> bool" where
  "queue_waits t \<longleftrightarrow> (\<forall>x \<in> set (tr_files t). entry_waits (tr_store t) x)"

lemma entry_waits_append: "entry_waits store x \<Longrightarrow> entry_waits (store @ fs) x"
  by (auto simp: entry_waits_def nth_append)

lemma entry_waits_new: "fe_toi (fl_meta f) = k \<Longrightarrow> \<not> fl_complete f \<Longrightarrow> entry_waits (store @ [f]) (k, length store)"
  by (simp add: entry_waits_def)

lemma entry_waits_update:
  assumes "entry_waits store x" and "fl_meta f = fl_meta (store ! i)" and "snd x = i \<Longrightarrow> \<not> fl_complete f"
  shows "entry_waits (store[i := f]) x"
  using assms by (cases "snd x = i") (auto simp: entry_waits_def)

lemma queue_waits_frame:
  "queue_waits t \<Longrightarrow> tr_store t' = tr_store t \<Longrightarrow> set (tr_files t') \<subseteq> set (tr_files t) \<Longrightarrow> queue_waits t'"
  by (auto simp: queue_waits_def)

text \<open>New files are not complete.\<close>

lemma created_incomplete: "partition_and_create b f = Some (Inr f') \<Longrightarrow> fl_complete f' = fl_complete f"
  by (auto simp: partition_and_create_def create_blocks_def calculate_partitioning_def Let_def rbind_def split: sum.splits)

lemma file_of_data_incomplete:
  "file_of_data malloc md5 uninit toi oti location ctype expires data copy_data = Some (Inr f) \<Longrightarrow> \<not> fl_complete f"
  by (auto simp: file_of_data_def Let_def file_with_def dest!: created_incomplete split: if_splits option.splits sum.splits)

lemma encode_incomplete: "encode z f = Some (r, f') \<Longrightarrow> fl_complete f' = fl_complete f"
  by (auto simp: encode_def Let_def install_buffer_def free_old_def set_transfer_length_def
      split: if_splits option.splits sum.splits prod.splits)

lemma file_of_description_incomplete:
  "file_of_description malloc z uninit number data entry = Some (Inr f) \<Longrightarrow> \<not> fl_complete f"
  by (auto simp: file_of_description_def file_with_def dest!: created_incomplete encode_incomplete
      split: if_splits option.splits sum.splits)

section \<open>Every step keeps them\<close>

lemma send_fdt_waits:
  assumes "send_fdt env now t = Some (Inr (), t')" and "queue_waits t"
  shows "queue_waits t'"
  using assms(1)
proof (cases rule: send_fdt_cases)
  case (queued f)
  have "entry_waits (tr_store t') (0, length (tr_store t))"
    using file_of_data_toi [OF queued(2)] file_of_data_incomplete [OF queued(2)]
    by (simp add: queued(3) entry_waits_new set_fdt_instance_id_def)
  moreover have "entry_waits (tr_store t') x" if "x \<in> set (tr_files t)" for x
    using assms(2) that by (simp add: queued(3) queue_waits_def entry_waits_append)
  ultimately show ?thesis
    using om_set_subset [of 0 "length (tr_store t)" "tr_files t"] by (auto simp: queued(3) queue_waits_def)
qed (use assms(2) in simp)

lemma send_fdt_store:
  "send_fdt env now t = Some (Inr (), t') \<Longrightarrow> \<exists>fs. tr_store t' = tr_store t @ fs"
  by (auto elim!: send_fdt_cases)

lemma send_data_waits:
  assumes "send_data env now location ctype expires data t = Some (Inr (), t')" and "queue_waits t"
  shows "queue_waits t'"
  using assms(1)
proof (cases rule: send_data_cases)
  case (1 f t3)
  have "queue_waits ((advance_toi t)\<lparr>tr_store := tr_store t @ [f], tr_fdt := fdt_add (fl_meta f) (tr_fdt t)\<rparr>)"
    using assms(2) by (simp add: queue_waits_def entry_waits_append)
  then have w: "queue_waits t3" by (rule send_fdt_waits [OF 1(2)])
  obtain fs where fs: "tr_store t3 = (tr_store t @ [f]) @ fs" using send_fdt_store [OF 1(2)] by auto
  have "entry_waits (tr_store t3) (ucast (tr_toi t), length (tr_store t))"
    unfolding fs by (intro entry_waits_append entry_waits_new file_of_data_toi [OF 1(1)] file_of_data_incomplete [OF 1(1)])
  then show ?thesis
    using w om_insert_subset [of "ucast (tr_toi t)" "length (tr_store t)" "tr_files t3"]
    by (auto simp: 1(3) queue_waits_def)
qed

lemma send_description_waits:
  assumes "send_description env now s number d t = Some (d', Inr (), t')" and "queue_waits t"
  shows "queue_waits t'"
  using assms(1)
proof (cases rule: send_description_cases)
  case (1 t1 data f)
  let ?t2 = "t1\<lparr>tr_store := tr_store t1 @ [f],
       tr_files := om_insert (fe_toi (fd_entry d')) (length (tr_store t1)) (tr_files t1), tr_fdt := fdt_add (fl_meta f) (tr_fdt t1)\<rparr>"
  have "tr_store t1 = tr_store t" "tr_files t1 = tr_files t" using prepare_objects [OF 1(1)] by (simp_all add: tr_objects_def)
  then have "queue_waits t1" using assms(2) by (simp add: queue_waits_def)
  then have "queue_waits ?t2"
    using om_insert_subset [of "fe_toi (fd_entry d')" "length (tr_store t1)" "tr_files t1"]
      entry_waits_new [OF file_of_description_toi [OF 1(3)] file_of_description_incomplete [OF 1(3)], of "tr_store t1"]
    by (auto simp: queue_waits_def entry_waits_append)
  then show ?thesis by (rule send_fdt_waits [OF 1(4)])
qed

lemma next_symbols_incomplete: "get_next_symbols mp f = Inr (ss, f') \<Longrightarrow> fl_complete f' = fl_complete f"
  by (auto simp: get_next_symbols_def rbind_eq_Inr_iff case_prod_beta Let_def)

lemma send_packet_of_waits:
  assumes "send_packet_of env takes i t = (Inr n, t')" and "queue_waits t"
  shows "queue_waits t'"
proof -
  from assms(1) obtain ss f where f: "get_next_symbols (ucast (tr_max_payload t)) (tr_store t ! i) = Inr (ss, f)"
    by (auto simp: send_packet_of_def Let_def split: sum.splits)
  with assms(1) have st: "tr_store t' = (tr_store t)[i := f]" "tr_files t' = tr_files t"
    by (auto simp: send_packet_of_def Let_def update_file_def start_send_def split: sum.splits if_splits option.splits)
  have "fl_meta f = fl_meta (tr_store t ! i)" "fl_complete f = fl_complete (tr_store t ! i)"
    using fixed_part_cong(1) [OF get_next_symbols_fixed [OF f]] next_symbols_incomplete [OF f] by simp_all
  with assms(2) show ?thesis
    unfolding queue_waits_def st by (metis entry_waits_def entry_waits_update)
qed

lemma reschedule_objects [simp]: "tr_files (reschedule n t) = tr_files t"
  by (simp add: reschedule_def start_send_timer_def cancel_send_timer_def Let_def)

lemma send_next_packet_waits:
  assumes "send_next_packet env takes t = (Inr (), t')" and w: "queue_waits t"
  shows "queue_waits t'"
proof (cases "tr_active t")
  case False
  with assms show ?thesis by (simp add: send_next_packet_def)
next
  case True
  obtain n t1 where t1: "(case next_file t of None \<Rightarrow> (Inr 0, t) | Some i \<Rightarrow> send_packet_of env takes i t) = (Inr n, t1)"
    "t' = reschedule n t1" by (rule send_next_packet_cases [OF assms(1) True])
  then have "queue_waits t1" using w by (auto split: option.splits dest: send_packet_of_waits)
  then show ?thesis by (rule queue_waits_frame) (simp_all add: t1(2))
qed

text \<open>The completed file is the one whose identifier leaves the queue.\<close>

lemma file_transmitted_waits:
  assumes "file_transmitted env now toi t = Some (Inr (), t')"
    and "\<And>x. x \<in> set (tr_files t) \<Longrightarrow> fst x \<noteq> toi \<Longrightarrow> entry_waits (tr_store t) x"
  shows "queue_waits t'"
  using assms(1)
proof (cases rule: file_transmitted_cases)
  case fdt
  with assms(2) show ?thesis by (auto simp: queue_waits_def om_erase_def)
next
  case (object t2)
  have "queue_waits (t\<lparr>tr_files := om_erase toi (tr_files t), tr_fdt := fdt_remove toi (tr_fdt t)\<rparr>)"
    using assms(2) by (auto simp: queue_waits_def om_erase_def)
  then have "queue_waits t2" by (rule send_fdt_waits [OF object(2)])
  then show ?thesis by (rule queue_waits_frame) (simp_all add: object(3))
qed

lemma send_completed_waits:
  assumes "send_completed env now error p t = Some (Inr (), t')" and w: "queue_waits t"
  shows "queue_waits t'"
proof (cases error)
  case True
  with assms show ?thesis by (simp add: send_completed_def)
next
  case False
  let ?i = "pd_file p"
  from False assms(1) obtain t1 where t1: "transmit_late p t = Inr t1" by (auto simp: send_completed_def split: sum.splits)
  then have st: "tr_store t1 = tr_store t" "tr_files t1 = tr_files t"
    by (auto simp: transmit_late_def split: if_splits option.splits)
  obtain r f where m: "mark_completed (se_md5 env) (pd_symbols p) True (tr_store t ! ?i) = (r, f)" by force
  have f: "fl_meta f = fl_meta (tr_store t ! ?i)"
    using mark_completed_fixed [of "se_md5 env" "pd_symbols p" True "tr_store t ! ?i"]
    by (intro fixed_part_cong(1)) (simp add: m)
  have old: "entry_waits (tr_store t) x" if "x \<in> set (tr_files t)" for x using w that by (simp add: queue_waits_def)
  from assms(1) False t1 m st
  consider "fl_complete f" "file_transmitted env now (fe_toi (fl_meta f)) (update_file ?i f t1) = Some (Inr (), t')"
    | "\<not> fl_complete f" "t' = update_file ?i f t1"
    by (auto simp: send_completed_def Let_def split: sum.splits if_splits)
  then show ?thesis
  proof cases
    case 1
    from 1(2) show ?thesis
    proof (rule file_transmitted_waits)
      fix x assume x: "x \<in> set (tr_files (update_file ?i f t1))" "fst x \<noteq> fe_toi (fl_meta f)"
      then have "entry_waits (tr_store t) x" using old by (simp add: update_file_def st)
      moreover from this have "snd x \<noteq> ?i" using x(2) f by (auto simp: entry_waits_def)
      ultimately show "entry_waits (tr_store (update_file ?i f t1)) x"
        using entry_waits_update [OF _ f, of x] by (simp add: update_file_def st)
    qed
  next
    case 2
    with old f show ?thesis
      unfolding queue_waits_def by (auto simp: update_file_def st intro: entry_waits_update)
  qed
qed

lemma set_tunnel_queue: "tr_files (set_udp_tunnel_address env e t) = tr_files t"
  by (simp add: set_udp_tunnel_address_def Let_def split: option.split)

lemma tr_step_waits:
  assumes "tr_step env op t = Some (Inr (), t')" and w: "queue_waits t"
  shows "queue_waits t'"
proof (cases op)
  case (Send_Data now location ctype expires data)
  with assms(1) have "send_data env now location ctype expires data t = Some (Inr (), t')" by simp
  then show ?thesis using w by (rule send_data_waits)
next
  case (Send_Description now s number d)
  with assms(1) obtain d' where "send_description env now s number d t = Some (d', Inr (), t')" by auto
  then show ?thesis using w by (rule send_description_waits)
next
  case (Activate takes)
  have "queue_waits (start_fdt_repeat_timer (t\<lparr>tr_active := True\<rparr>))"
    by (rule queue_waits_frame [OF w]) (simp_all add: start_fdt_repeat_timer_def)
  with Activate assms show ?thesis by (auto simp: activate_def split: if_splits intro: send_next_packet_waits)
next
  case (Send_Handler takes)
  with assms(1) have "send_next_packet env takes (t\<lparr>tr_send_ready := tr_send_ready t - 1\<rparr>) = (Inr (), t')"
    by (simp add: run_send_handler_def)
  then show ?thesis by (rule send_next_packet_waits) (rule queue_waits_frame [OF w]; simp)
next
  case (Fdt_Handler now)
  let ?t1 = "t\<lparr>tr_fdt_ready := tr_fdt_ready t - 1\<rparr>"
  have w1: "queue_waits ?t1" by (rule queue_waits_frame [OF w]) simp_all
  from Fdt_Handler assms(1) have "t' = ?t1 \<or> (\<exists>t2. send_fdt env now ?t1 = Some (Inr (), t2) \<and> t' = start_fdt_repeat_timer t2)"
    by (auto simp: run_fdt_handler_def fdt_send_tick_def split: if_splits option.splits sum.splits)
  then show ?thesis
    using w1 by (auto dest!: send_fdt_waits intro: queue_waits_frame simp: start_fdt_repeat_timer_def)
next
  case (Completion now error k)
  with assms(1) have "send_completed env now error (tr_pending t ! k) (remove_pending k t) = Some (Inr (), t')"
    by (simp add: run_completion_def)
  then show ?thesis by (rule send_completed_waits) (rule queue_waits_frame [OF w]; simp)
qed (use assms(1) queue_waits_frame [OF w] in \<open>auto simp: store_same set_tunnel_queue deactivate_def cancel_send_timer_def
    set_rate_limit_def set_endpoint_def set_source_address_def transmitter_register_completion_callback_def
    send_timer_expires_def fdt_timer_expires_def\<close>)

text \<open>The parameters of the session stay what the constructor made them.\<close>

lemma send_fdt_parameters: "send_fdt env now t = Some (Inr (), t') \<Longrightarrow> tr_fec_oti t' = tr_fec_oti t"
  by (auto elim!: send_fdt_cases)

lemma file_transmitted_parameters:
  "file_transmitted env now toi t = Some (Inr (), t') \<Longrightarrow> tr_fec_oti t' = tr_fec_oti t"
  by (auto elim!: file_transmitted_cases dest!: send_fdt_parameters)

lemma send_next_packet_parameters:
  "send_next_packet env takes t = (Inr (), t') \<Longrightarrow> tr_fec_oti t' = tr_fec_oti t"
  by (auto simp: send_next_packet_def send_packet_of_def reschedule_def start_send_timer_def cancel_send_timer_def
      update_file_def start_send_def Let_def split: if_splits option.splits sum.splits prod.splits)

lemma send_completed_parameters:
  "send_completed env now error p t = Some (Inr (), t') \<Longrightarrow> tr_fec_oti t' = tr_fec_oti t"
  by (auto simp: send_completed_def transmit_late_def update_file_def Let_def
      split: if_splits option.splits sum.splits prod.splits dest!: file_transmitted_parameters)

lemma send_description_parameters:
  assumes "send_description env now s number d t = Some (d', Inr (), t')"
  shows "tr_fec_oti t' = tr_fec_oti t"
  using assms
proof (cases rule: send_description_cases)
  case (1 t1 data f)
  from 1(1) have "tr_fec_oti t1 = tr_fec_oti t" by (auto simp: prepare_description_def Let_def split: if_splits)
  with send_fdt_parameters [OF 1(4)] show ?thesis by simp
qed

lemma tr_step_parameters:
  assumes "tr_step env op t = Some (Inr (), t')"
  shows "tr_fec_oti t' = tr_fec_oti t"
  using assms
  by (cases op)
    (auto elim!: send_data_cases dest!: send_fdt_parameters send_next_packet_parameters send_completed_parameters
        send_description_parameters
      simp: activate_def run_send_handler_def run_fdt_handler_def fdt_send_tick_def run_completion_def remove_pending_def
        start_fdt_repeat_timer_def deactivate_def cancel_send_timer_def set_rate_limit_def set_endpoint_def
        set_source_address_def set_udp_tunnel_address_def transmitter_register_completion_callback_def Let_def
        send_timer_expires_def fdt_timer_expires_def
      split: if_splits option.splits sum.splits)

text \<open>Both together, from the constructor on.\<close>

definition queue_inv :: "u32 \<Rightarrow> transmitter \<Rightarrow> bool" where
  "queue_inv mp t \<longleftrightarrow> queue_waits t \<and> tr_fec_oti t = session_oti mp"

lemma transmitter_new_queue:
  assumes "transmitter_new env to tsi mtu rate None ns active source = (Inr (), t)"
  shows "queue_inv (ucast mtu - 64) t"
proof -
  let ?t = "idle_transmitter env to tsi mtu rate None ns active source"
  let ?t0 = "if active then start_fdt_repeat_timer ?t else ?t"
  have "queue_waits ?t0" "tr_fec_oti ?t0 = session_oti (ucast mtu - 64)"
    by (simp_all add: start_fdt_repeat_timer_def idle_oti) (simp_all add: idle_transmitter_def Let_def queue_waits_def)
  moreover from assms have "t = ?t0 \<or> send_next_packet env True ?t0 = (Inr (), t)"
    by (auto simp: transmitter_new_def Let_def split: if_splits)
  ultimately show ?thesis
    unfolding queue_inv_def by (auto dest: send_next_packet_waits send_next_packet_parameters)
qed

interpretation queue: inductive_invariant "plain_init env tsi mp" "tr_event env P" "queue_inv mp" for env tsi mp P
proof unfold_locales
  show "queue_inv mp t" if "plain_init env tsi mp t" for t
    using that by cases (simp add: transmitter_new_queue)
  show "queue_inv mp t'" if "queue_inv mp t" "tr_event env P t t'" for t t'
    using that by (auto simp: queue_inv_def elim!: tr_eventE dest: tr_step_waits tr_step_parameters)
qed


section \<open>A quiet sender\<close>

text \<open>No symbol of the file is in a send.\<close>

definition no_symbol_queued :: "flute_file \<Rightarrow> bool" where
  "no_symbol_queued f \<longleftrightarrow> list_all (\<lambda>(_, b). list_all (\<lambda>(_, s). \<not> sl_queued s) (sb_symbols b)) (fl_source_blocks f)"

lemma nothing_in_flight:
  assumes "sender_file oti data S Q f" and "no_symbol_queued f"
  shows "Q = {}"
proof (rule ccontr)
  assume "Q \<noteq> {}"
  then obtain i j where ij: "(i, j) \<in> Q" by auto
  with assms(1) have "i < total_blocks oti" "j < block_len oti i" by (auto simp: sender_file_def symbol_pairs_def)
  moreover have "\<forall>i < total_blocks oti. \<forall>j < block_len oti i. (i, j) \<notin> Q"
    using assms by (auto simp: sender_file_def no_symbol_queued_def send_blocks_def send_block_def send_slots_def send_slot_def list_all_iff)
  ultimately show False using ij by blast
qed

lemma in_flight_none: "sender_file oti data S {} f \<Longrightarrow> no_symbol_queued f"
  by (auto simp: sender_file_def no_symbol_queued_def send_blocks_def send_block_def send_slots_def send_slot_def list_all_iff)

text \<open>Every table of some of the entries can be sent.\<close>

definition table_fits :: "'z sender_env \<Rightarrow> u32 \<Rightarrow> u64 \<Rightarrow> fdt \<Rightarrow> bool" where
  "table_fits env mp now table \<longleftrightarrow>
     (let content = fdt_to_string (se_xml_print env) (sent_table now table)
      in partition_ok (object_oti mp content) \<and> length content < 2 ^ 64)"

definition tables_fit :: "'z sender_env \<Rightarrow> u32 \<Rightarrow> u64 \<Rightarrow> file_entry list \<Rightarrow> bool" where
  "tables_fit env mp now entries \<longleftrightarrow> (\<forall>table. subseq (fdt_file_entries table) entries \<longrightarrow> table_fits env mp now table)"

lemma tables_fit_filter: "tables_fit env mp now entries \<Longrightarrow> tables_fit env mp now (filter P entries)"
  unfolding tables_fit_def using subseq_order.trans subseq_filter_left by blast

definition quiet :: "u64 \<Rightarrow> u32 \<Rightarrow> transmitter \<Rightarrow> bool" where
  "quiet tsi mp t \<longleftrightarrow>
     tr_active t \<and> tr_tunnel t = None \<and> tr_tsi t = tsi \<and> tr_max_payload t = mp \<and> tr_rate_limit t = 0 \<and>
     tr_pending t = [] \<and> 0 < tr_send_ready t \<and> tr_callback t \<and> tr_fec_oti t = session_oti mp"

text \<open>A file that is not in a send, of which what is marked as sent has been sent.\<close>

definition sent_all :: "u64 \<Rightarrow> transmitter \<Rightarrow> flute_file \<Rightarrow> (nat \<times> nat) set \<Rightarrow> bool" where
  "sent_all tsi t f S \<longleftrightarrow> (\<forall>ij \<in> S. \<exists>y \<in> set (tr_sent t). file_packet tsi f ij (snd y))"

definition ready_file :: "'z sender_env \<Rightarrow> u64 \<Rightarrow> u32 \<Rightarrow> transmitter \<Rightarrow> nat \<Rightarrow> bool" where
  "ready_file env tsi mp t i \<longleftrightarrow>
     (let f = tr_store t ! i
      in sendable_file env mp f \<and> (\<exists>S. sender_file (fl_oti f) (contents f) S {} f \<and> sent_all tsi t f S))"

lemma sent_all_mono: "sent_all tsi t f S \<Longrightarrow> set (tr_sent t) \<subseteq> set (tr_sent t') \<Longrightarrow> sent_all tsi t' f S"
  unfolding sent_all_def by blast

lemma ready_file_mono:
  "ready_file env tsi mp t i \<Longrightarrow> tr_store t' ! i = tr_store t ! i \<Longrightarrow> set (tr_sent t) \<subseteq> set (tr_sent t') \<Longrightarrow>
     ready_file env tsi mp t' i"
  unfolding ready_file_def Let_def by (auto intro: sent_all_mono)

lemma ready_file_update [simp]:
  "ready_file env tsi mp (t\<lparr>tr_files := fs\<rparr>) i = ready_file env tsi mp t i"
  "ready_file env tsi mp (t\<lparr>tr_fdt := d\<rparr>) i = ready_file env tsi mp t i"
  "ready_file env tsi mp (t\<lparr>tr_completed := c\<rparr>) i = ready_file env tsi mp t i"
  by (simp_all add: ready_file_def sent_all_def)

lemma sent_symbols_all:
  "sent_symbols tsi to f ijs xs \<Longrightarrow> ij \<in> set ijs \<Longrightarrow> \<exists>y \<in> set xs. file_packet tsi f ij (snd y)"
  unfolding sent_symbols_def by (induction rule: list_all2_induct) auto

definition draining :: "'z sender_env \<Rightarrow> u64 \<Rightarrow> u32 \<Rightarrow> u64 \<Rightarrow> transmitter \<Rightarrow> bool" where
  "draining env tsi mp now t \<longleftrightarrow>
     quiet tsi mp t \<and> tr_inv t \<and> queue_waits t \<and> (\<forall>x \<in> set (tr_files t). ready_file env tsi mp t (snd x)) \<and>
     tables_fit env mp now (fdt_file_entries (tr_fdt t))"

lemma table_object_drains:
  fixes mp :: u32
  assumes "table_fits env mp now table" and "4 < unat mp" and "\<forall>bs. length (se_md5 env bs) = 16"
    and "tr_store t ! i = table_object env mp now table"
  shows "ready_file env tsi mp t i"
  using table_object_ready [of env now table mp] assms
  by (auto simp: table_fits_def Let_def ready_file_def sent_all_def intro!: exI [of _ "{}"])

section \<open>One object after another\<close>

text \<open>What the transmission of an object does to the queue: its entry goes; when it was a file, the
  application is told and the table of the files that are left is queued.\<close>

lemma file_transmitted_drains:
  fixes mp :: u32
  assumes mem: "sender_memory env" and mp: "4 < unat mp" and md5: "\<forall>bs. length (se_md5 env bs) = 16"
    and t: "quiet tsi mp t" "tables_fit env mp now (fdt_file_entries (tr_fdt t))"
    and others: "\<And>x. x \<in> set (tr_files t) \<Longrightarrow> fst x \<noteq> toi \<Longrightarrow>
      entry_waits (tr_store t) x \<and> ready_file env tsi mp t (snd x)"
  obtains t' where "file_transmitted env now toi t = Some (Inr (), t')" "quiet tsi mp t'"
    "tables_fit env mp now (fdt_file_entries (tr_fdt t'))"
    "\<forall>x \<in> set (tr_files t'). ready_file env tsi mp t' (snd x)"
    "tr_sent t' = tr_sent t" "\<And>i. i < length (tr_store t) \<Longrightarrow> tr_store t' ! i = tr_store t ! i"
    "tr_completed t' = tr_completed t @ (if toi = 0 then [] else [toi])"
    "tr_files t' = om_erase toi (tr_files t) \<or>
       toi \<noteq> 0 \<and> tr_files t' = om_set 0 (length (tr_store t)) (om_erase toi (tr_files t))"
proof -
  have old: "entry_waits (tr_store t) x \<and> ready_file env tsi mp t (snd x)" if "x \<in> set (om_erase toi (tr_files t))" for x
    using others [of x] that by (auto simp: om_erase_def)
  let ?t1 = "t\<lparr>tr_files := om_erase toi (tr_files t), tr_fdt := fdt_remove toi (tr_fdt t)\<rparr>"
  let ?T = "tr_fdt ?t1"
  have fits: "tables_fit env mp now (fdt_file_entries ?T)" using tables_fit_filter [OF t(2)] by simp
  consider (fdt) "toi = 0" | (last) "toi \<noteq> 0" "fdt_file_entries ?T = []" | (more) "toi \<noteq> 0" "fdt_file_entries ?T \<noteq> []"
    by blast
  then show ?thesis
  proof cases
    case fdt
    show ?thesis
      by (rule that [of "t\<lparr>tr_files := om_erase 0 (tr_files t)\<rparr>"])
        (use fdt t old in \<open>auto simp: file_transmitted_def quiet_def\<close>)
  next
    case last
    show ?thesis
      by (rule that [of "?t1\<lparr>tr_completed := tr_completed t @ [toi]\<rparr>"])
        (use last t(1) old fits in \<open>auto simp: file_transmitted_def send_fdt_def quiet_def\<close>)
  next
    case more
    have T: "table_fits env mp now ?T" using fits by (simp add: tables_fit_def)
    define t2 where "t2 = ?t1\<lparr>tr_fdt := fdt_sent (sent_table now ?T), tr_store := tr_store t @ [table_object env mp now ?T],
        tr_files := om_set 0 (length (tr_store t)) (om_erase toi (tr_files t))\<rparr>"
    define t3 where "t3 = t2\<lparr>tr_completed := tr_completed t @ [toi]\<rparr>"
    have t3: "tr_store t3 = tr_store t @ [table_object env mp now ?T]" "tr_sent t3 = tr_sent t"
      "tr_files t3 = om_set 0 (length (tr_store t)) (om_erase toi (tr_files t))" "tr_completed t3 = tr_completed t @ [toi]"
      "fdt_file_entries (tr_fdt t3) = fdt_file_entries ?T" "quiet tsi mp t3"
      using t(1) by (simp_all add: t3_def t2_def quiet_def fdt_sent_def)
    have "send_fdt env now ?t1 = Some (Inr (), t2)"
      using send_fdt_queues [OF mem, of ?t1 mp now] more(2) t(1) T by (simp add: quiet_def table_fits_def Let_def t2_def)
    then have run: "file_transmitted env now toi t = Some (Inr (), t3)"
      using more(1) t(1) by (simp add: file_transmitted_def quiet_def t3_def) (simp add: t2_def)
    have "ready_file env tsi mp t3 (snd x)" if "x \<in> set (tr_files t3)" for x
    proof (cases "x = (0, length (tr_store t))")
      case True
      then show ?thesis by (intro table_object_drains [OF T mp md5]) (simp add: t3(1))
    next
      case False
      with that om_set_subset [of 0 "length (tr_store t)" "om_erase toi (tr_files t)"]
      have "x \<in> set (om_erase toi (tr_files t))" by (auto simp: t3(3))
      from old [OF this] have x: "ready_file env tsi mp t (snd x)" "snd x < length (tr_store t)" by (simp_all add: entry_waits_def)
      show ?thesis by (rule ready_file_mono [OF x(1)]) (use x(2) in \<open>simp_all add: nth_append t3\<close>)
    qed
    then have "\<forall>x \<in> set (tr_files t3). ready_file env tsi mp t3 (snd x)" by blast
    moreover have "tables_fit env mp now (fdt_file_entries (tr_fdt t3))" using fits t3(5) by simp
    moreover have "tr_store t3 ! i = tr_store t ! i" if "i < length (tr_store t)" for i using that by (simp add: t3(1) nth_append)
    moreover have "tr_completed t3 = tr_completed t @ (if toi = 0 then [] else [toi])" using more(1) t3(4) by simp
    ultimately show ?thesis using that run t3(2,3,6) more(1) by blast
  qed
qed

text \<open>The files of the queue in its order, and the objects that are left to send: each file is followed
  by a table at most.\<close>

definition queued_files :: "transmitter \<Rightarrow> u32 list" where
  "queued_files t = filter (\<lambda>toi. toi \<noteq> 0) (om_keys (tr_files t))"

definition objects_left :: "transmitter \<Rightarrow> nat" where
  "objects_left t = length (queued_files t) + length (tr_files t)"

lemma om_erase_first: "om_ok ((k, v) # m) \<Longrightarrow> om_erase k ((k, v) # m) = m"
  by (auto simp: om_ok_Cons om_erase_def om_keys_def filter_id_conv)

lemma om_set_first: "\<forall>k' \<in> set (om_keys m). k < k' \<Longrightarrow> om_set k v m = (k, v) # m"
  by (cases m) auto

lemma queue_shrinks:
  assumes ok: "om_ok (tr_files t)" and first: "tr_files t = (k, i) # rest"
    and files: "tr_files t' = om_erase k (tr_files t) \<or> k \<noteq> 0 \<and> tr_files t' = om_set 0 n (om_erase k (tr_files t))"
  shows "objects_left t' < objects_left t"
    and "(if k = 0 then [] else [k]) @ queued_files t' = queued_files t"
    and "x \<in> set (tr_files t) \<Longrightarrow> fst x \<noteq> k \<Longrightarrow> x \<in> set (tr_files t')"
proof -
  have erase: "om_erase k (tr_files t) = rest" using ok om_erase_first by (simp add: first)
  have above: "\<forall>k' \<in> set (om_keys rest). k < k'" using ok by (simp add: first om_ok_Cons)
  have nonzero: "\<forall>k' \<in> set (om_keys rest). 0 < k'"
    using above by (meson order_le_less_trans word_zero_le)
  then have "tr_files t' = rest \<or> k \<noteq> 0 \<and> tr_files t' = (0, n) # rest"
    using files om_set_first [of rest 0 n] by (simp add: erase)
  then show "objects_left t' < objects_left t" "(if k = 0 then [] else [k]) @ queued_files t' = queued_files t"
    "x \<in> set (tr_files t) \<Longrightarrow> fst x \<noteq> k \<Longrightarrow> x \<in> set (tr_files t')"
    by (auto simp: objects_left_def queued_files_def first)
qed

lemma object_drained:
  fixes mp :: u32
  assumes mem: "sender_memory env" and mp: "4 < unat mp" "unat mp < 2013" and md5: "\<forall>bs. length (se_md5 env bs) = 16"
    and t: "draining env tsi mp now t" and ne: "tr_files t \<noteq> []"
  obtains n t' where "\<And>ops. tr_run env (send_rounds now n @ ops) t = tr_run env ops t'" "draining env tsi mp now t'"
    "objects_left t' < objects_left t" "tr_completed t' @ queued_files t' = tr_completed t @ queued_files t"
    "set (tr_sent t) \<subseteq> set (tr_sent t')"
    "\<And>x. x \<in> set (tr_files t) \<Longrightarrow> sent_all tsi t' (tr_store t ! snd x) (symbol_pairs (fl_oti (tr_store t ! snd x))) \<or>
       x \<in> set (tr_files t') \<and> tr_store t' ! snd x = tr_store t ! snd x"
proof -
  obtain k i rest where first: "tr_files t = (k, i) # rest" using ne by (cases "tr_files t") auto
  have q: "quiet tsi mp t" "tr_inv t" "tables_fit env mp now (fdt_file_entries (tr_fdt t))"
    and waits: "\<And>x. x \<in> set (tr_files t) \<Longrightarrow> entry_waits (tr_store t) x"
    and ready: "\<And>x. x \<in> set (tr_files t) \<Longrightarrow> ready_file env tsi mp t (snd x)"
    using t by (simp_all add: draining_def queue_waits_def)
  let ?f = "tr_store t ! i"
  have w: "i < length (tr_store t)" "fe_toi (fl_meta ?f) = k" "\<not> fl_complete ?f"
    using waits [of "(k, i)"] by (simp_all add: first entry_waits_def)
  have s: "sending tsi mp i t" using q(1) w(1) by (simp add: sending_def quiet_def first)
  obtain S where f: "sendable_file env mp ?f" "sender_file (fl_oti ?f) (contents ?f) S {} ?f" "sent_all tsi t ?f S"
    using ready [of "(k, i)"] by (auto simp: first ready_file_def Let_def)
  have "\<not> symbol_pairs (fl_oti ?f) \<subseteq> S" using f(2) w(3) by (simp add: sender_file_def)
  then obtain m where m: "card (symbol_pairs (fl_oti ?f) - S) = Suc m"
    using finite_symbol_pairs [of "fl_oti ?f"] by (metis Diff_eq_empty_iff card_eq_0_iff finite_Diff not0_implies_Suc)
  obtain ijs xs f' where f': "fixed_part f' = fixed_part ?f" "set ijs = symbol_pairs (fl_oti ?f) - S"
      "sent_symbols tsi (tr_endpoint t) ?f ijs xs"
    and run: "\<And>ops t''. file_transmitted env now (fe_toi (fl_meta ?f))
         (t\<lparr>tr_store := (tr_store t)[i := f'], tr_sent := tr_sent t @ xs\<rparr>) = Some (Inr (), t'') \<Longrightarrow>
       tr_run env (send_rounds now (Suc m) @ ops) t = tr_run env ops t''"
    using send_file_runs [OF s mp f(1,2) m, of now] by blast
  let ?t1 = "t\<lparr>tr_store := (tr_store t)[i := f'], tr_sent := tr_sent t @ xs\<rparr>"
  have others: "entry_waits (tr_store ?t1) x \<and> ready_file env tsi mp ?t1 (snd x)"
    if "x \<in> set (tr_files ?t1)" "fst x \<noteq> k" for x
  proof -
    have x: "x \<in> set (tr_files t)" using that(1) by simp
    then have "snd x \<noteq> i" using waits [OF x] that(2) w(2) by (auto simp: entry_waits_def)
    with waits [OF x] ready_file_mono [OF ready [OF x], of ?t1] show ?thesis by (simp add: entry_waits_def)
  qed
  have all_sent: "sent_all tsi ?t1 ?f (symbol_pairs (fl_oti ?f))"
    unfolding sent_all_def
  proof
    fix ij assume "ij \<in> symbol_pairs (fl_oti ?f)"
    then consider "ij \<in> S" | "ij \<in> set ijs" using f'(2) by blast
    then show "\<exists>y \<in> set (tr_sent ?t1). file_packet tsi ?f ij (snd y)"
      using f(3) sent_symbols_all [OF f'(3), of ij] by cases (auto simp: sent_all_def)
  qed
  have q1: "quiet tsi mp ?t1" "tables_fit env mp now (fdt_file_entries (tr_fdt ?t1))" using q by (simp_all add: quiet_def)
  obtain t' where t': "file_transmitted env now k ?t1 = Some (Inr (), t')" "quiet tsi mp t'"
    "tables_fit env mp now (fdt_file_entries (tr_fdt t'))" "\<forall>x \<in> set (tr_files t'). ready_file env tsi mp t' (snd x)"
    "tr_sent t' = tr_sent ?t1" "\<And>i. i < length (tr_store ?t1) \<Longrightarrow> tr_store t' ! i = tr_store ?t1 ! i"
    "tr_completed t' = tr_completed ?t1 @ (if k = 0 then [] else [k])"
    "tr_files t' = om_erase k (tr_files ?t1) \<or> k \<noteq> 0 \<and> tr_files t' = om_set 0 (length (tr_store ?t1)) (om_erase k (tr_files ?t1))"
    using file_transmitted_drains [OF mem mp(1) md5 q1 others] by blast
  have "tr_inv ?t1" using q(2) tr_inv_cong [of ?t1 t] by (simp add: tr_control_def)
  then have "tr_inv t'" by (rule file_transmitted_inv [OF t'(1)])
  moreover have "queue_waits t'" by (rule file_transmitted_waits [OF t'(1)]) (use others in blast)
  ultimately have "draining env tsi mp now t'" using t'(2-4) by (simp add: draining_def)
  moreover have ok: "om_ok (tr_files t)" using q(2) by (simp add: tr_inv_def queue_announced_def)
  note shrinks = queue_shrinks [OF ok first, of t' "length (tr_store t)"]
  moreover have "sent_all tsi t' (tr_store t ! snd x) (symbol_pairs (fl_oti (tr_store t ! snd x))) \<or>
      x \<in> set (tr_files t') \<and> tr_store t' ! snd x = tr_store t ! snd x" if x: "x \<in> set (tr_files t)" for x
  proof (cases "fst x = k")
    case True
    have "distinct (om_keys (tr_files t))" using ok by (rule om_ok_distinct)
    with x True have "x = (k, i)" by (force simp: first om_keys_def)
    then show ?thesis using sent_all_mono [OF all_sent, of t'] t'(5) by simp
  next
    case False
    then have "snd x \<noteq> i" using waits [OF x] w(2) by (auto simp: entry_waits_def)
    moreover have "x \<in> set (tr_files t')" using shrinks(3) [OF _ x False] t'(8) by simp
    ultimately show ?thesis using t'(6) [of "snd x"] waits [OF x] by (simp add: entry_waits_def)
  qed
  ultimately show ?thesis
    using run [unfolded w(2), OF t'(1)] shrinks t'(5,7,8) by (intro that [of "Suc m" t']) simp_all
qed

lemma draining_ends:
  fixes mp :: u32
  assumes "sender_memory env" and "4 < unat mp" "unat mp < 2013" and "\<forall>bs. length (se_md5 env bs) = 16"
    and "draining env tsi mp now t"
  shows "\<exists>n t'. tr_run env (send_rounds now n) t = Some (Inr (), t') \<and> draining env tsi mp now t' \<and> tr_files t' = [] \<and>
    tr_completed t' = tr_completed t @ queued_files t \<and> set (tr_sent t) \<subseteq> set (tr_sent t') \<and>
    (\<forall>x \<in> set (tr_files t). sent_all tsi t' (tr_store t ! snd x) (symbol_pairs (fl_oti (tr_store t ! snd x))))"
  using assms(5)
proof (induction "objects_left t" arbitrary: t rule: less_induct)
  case (less t)
  show ?case
  proof (cases "tr_files t = []")
    case True
    with less.prems show ?thesis by (intro exI [of _ 0] exI [of _ t]) (simp add: queued_files_def)
  next
    case False
    obtain n t1 where t1: "\<And>ops. tr_run env (send_rounds now n @ ops) t = tr_run env ops t1" "draining env tsi mp now t1"
      "objects_left t1 < objects_left t" "tr_completed t1 @ queued_files t1 = tr_completed t @ queued_files t"
      "set (tr_sent t) \<subseteq> set (tr_sent t1)"
      and sent: "\<And>x. x \<in> set (tr_files t) \<Longrightarrow> sent_all tsi t1 (tr_store t ! snd x) (symbol_pairs (fl_oti (tr_store t ! snd x))) \<or>
       x \<in> set (tr_files t1) \<and> tr_store t1 ! snd x = tr_store t ! snd x"
      using object_drained [OF assms(1-4) less.prems False] by blast
    from less.hyps [OF t1(3,2)] obtain m t' where t': "tr_run env (send_rounds now m) t1 = Some (Inr (), t')"
      "draining env tsi mp now t'" "tr_files t' = []" "tr_completed t' = tr_completed t1 @ queued_files t1"
      "set (tr_sent t1) \<subseteq> set (tr_sent t')"
      "\<forall>x \<in> set (tr_files t1). sent_all tsi t' (tr_store t1 ! snd x) (symbol_pairs (fl_oti (tr_store t1 ! snd x)))" by blast
    have "sent_all tsi t' (tr_store t ! snd x) (symbol_pairs (fl_oti (tr_store t ! snd x)))" if "x \<in> set (tr_files t)" for x
      using sent [OF that] sent_all_mono [OF _ t'(5)] t'(6) by metis
    then show ?thesis
      using t'(1-5) t1(1) [of "send_rounds now m"] t1(4,5)
      by (intro exI [of _ "n + m"] exI [of _ t']) (simp add: send_rounds_add)
  qed
qed

text \<open>(C8) A sender that never had a tunnel, whatever else was done with it before, is active, has no packet
  under way, no symbol whose send failed and no rate limit; its files are sendable, and so are the tables it
  still has to send (those of the remaining files). Then it empties its queue: with enough rounds of the send loop, in each of which the socket takes the packet
  and the send completes, every symbol of every object of the queue has been sent, the application has been
  told of each file, in the order of their identifiers, and the queue and the FDT are empty.\<close>
theorem queue_drains:
  fixes mp :: u32
  assumes "reachable (plain_init env tsi mp) (tr_event env no_tunnel) t"
    and "sender_memory env" "memory_exact env" "\<forall>bs. length (se_md5 env bs) = 16" and "4 < unat mp" "unat mp < 2013"
    and "tr_active t" "tr_callback t" "tr_rate_limit t = 0" "tr_pending t = []" "0 < tr_send_ready t"
    and "\<forall>f \<in> set (tr_store t). sendable_file env mp f \<and> no_symbol_queued f"
    and "tables_fit env mp now (fdt_file_entries (tr_fdt t))"
  shows "\<exists>n t'. tr_run env (send_rounds now n) t = Some (Inr (), t') \<and>
    tr_files t' = [] \<and> fdt_file_entries (tr_fdt t') = [] \<and>
    tr_completed t' = tr_completed t @ filter (\<lambda>toi. toi \<noteq> 0) (om_keys (tr_files t)) \<and>
    (\<forall>(toi, i) \<in> set (tr_files t). \<forall>ij \<in> symbol_pairs (fl_oti (tr_store t ! i)).
       \<exists>x \<in> set (tr_sent t'). file_packet tsi (tr_store t ! i) ij (snd x))"
proof -
  have inv: "tr_inv t" "queue_waits t" "tr_fec_oti t = session_oti mp"
    using session.inv_reachable [OF assms(1)] queue.inv_reachable [OF assms(1)]
    by (simp_all add: session_inv_def queue_inv_def)
  obtain S Q where good: "tr_good env tsi mp S Q t"
    using session.inv_reachable [OF assms(1)] assms(3,5,6,12) by (auto simp: session_inv_def)
  have "ready_file env tsi mp t i" if "i < length (tr_store t)" for i
  proof -
    have f: "sendable_file env mp (tr_store t ! i)" "no_symbol_queued (tr_store t ! i)" using assms(12) that by simp_all
    have g: "sender_file (fl_oti (tr_store t ! i)) (contents (tr_store t ! i)) (S i) (Q i) (tr_store t ! i)"
      "sent_all tsi t (tr_store t ! i) (S i)" using good that by (simp_all add: tr_good_def sent_all_def)
    with f(1) nothing_in_flight [OF g(1) f(2)] show ?thesis by (auto simp: ready_file_def Let_def)
  qed
  moreover have "quiet tsi mp t" using good inv(3) assms(7-11) by (simp add: quiet_def tr_good_def)
  ultimately have "draining env tsi mp now t"
    using inv assms(13) by (auto simp: draining_def queue_waits_def entry_waits_def)
  from draining_ends [OF assms(2,5,6,4) this] obtain n t' where t': "tr_run env (send_rounds now n) t = Some (Inr (), t')"
    "draining env tsi mp now t'" "tr_files t' = []" "tr_completed t' = tr_completed t @ queued_files t"
    "\<forall>x \<in> set (tr_files t). sent_all tsi t' (tr_store t ! snd x) (symbol_pairs (fl_oti (tr_store t ! snd x)))" by blast
  have "fdt_file_entries (tr_fdt t') = []" using t'(2,3) by (simp add: draining_def tr_inv_def queue_announced_def)
  with t' show ?thesis
    by (intro exI [of _ n] exI [of _ t']) (auto simp: queued_files_def sent_all_def)
qed

text \<open>The example session: the printer writes the same text for every table.\<close>

lemma example_tables: "tables_fit example_sender 1436 now entries"
proof -
  have "fdt_to_string (se_xml_print example_sender) table = [60]" for table
    by (simp add: fdt_to_string_def example_sender_def)
  then show ?thesis using example_parts(2) by (simp add: tables_fit_def table_fits_def)
qed

theorem queue_drains_witness:
  "\<exists>t n t'. reachable (plain_init example_sender 7 1436) (tr_event example_sender no_tunnel) t \<and>
     om_keys (tr_files t) = [0, 1] \<and> tr_run example_sender (send_rounds 0 n) t = Some (Inr (), t') \<and>
     tr_files t' = [] \<and> tr_completed t' = [1]"
proof -
  obtain t0 t where t: "transmitter_new example_sender example_destination 7 1500 0 None FDT_NS_NONE True None = (Inr (), t0)"
    "tr_run example_sender (queue_ops 0 session_process 1 session_description) t0 = Some (Inr (), t)"
    "tr_store t = [session_file, session_table]" "tr_files t = [(0, 1), (1, 0)]" "sending 7 1436 1 t" "tr_sent t = []"
      "tr_completed t = []" "tr_callback t" "tr_endpoint t = example_destination" by (rule session_state)
  have files: "\<forall>f \<in> set (tr_store t). sendable_file example_sender 1436 f \<and> no_symbol_queued f"
    using session_objects(1,3) in_flight_none [OF session_objects(2)] in_flight_none [OF session_objects(4)] by (simp add: t(3))
  have ops: "\<forall>op \<in> set (queue_ops 0 session_process 1 session_description). \<forall>t. no_tunnel op t"
    by (simp add: queue_ops_def no_tunnel_def)
  have r: "reachable (plain_init example_sender 7 1436) (tr_event example_sender no_tunnel) t"
    by (rule run_reachable [OF _ t(2) ops]) (rule plain_init.intros [OF t(1) session_example(3)])
  have s: "tr_active t" "tr_rate_limit t = 0" "tr_pending t = []" "0 < tr_send_ready t" using t(5) by (simp_all add: sending_def)
  from queue_drains [OF r session_example(5,4,6,1,2) s(1) t(8) s(2-4) files example_tables, of 0]
  show ?thesis using r t(4,7) by fastforce
qed

end
