(* ===== verification/Reception_Refinement.thy ===== *)
theory Reception_Refinement
  imports Delivery
begin

text \<open>
  The receiver implements a specification that knows nothing of packets, buffers or maps: which symbols of
  which objects count as received. Until the FDT is complete only its symbols count; then those of the
  announced files do. A file is delivered when each of its symbols counts.
\<close>

section \<open>The specification\<close>

record reception =
  sp_table :: bool
  sp_got :: "u16 \<Rightarrow> (nat \<times> nat) set"

definition nothing_received :: reception where
  "nothing_received = \<lparr>sp_table = False, sp_got = (\<lambda>_. {})\<rparr>"

fun spec_arrival :: "(nat \<times> nat) set \<Rightarrow> arrival \<Rightarrow> reception \<Rightarrow> reception" where
  "spec_arrival fdt (toi, ijs, now, d) s =
     (let got = set ijs \<union> sp_got s toi in
      if sp_table s then s\<lparr>sp_got := (sp_got s)(toi := got)\<rparr>
      else if toi \<noteq> 0 then s
      else if fdt \<subseteq> got then \<lparr>sp_table = True, sp_got = (\<lambda>_. {})\<rparr>
      else s\<lparr>sp_got := (sp_got s)(0 := got)\<rparr>)"

definition spec_delivered :: "objects \<Rightarrow> reception \<Rightarrow> u16 set" where
  "spec_delivered objs s = {toi. sp_table s \<and> obtained objs (sp_got s) toi}"

section \<open>The simulation\<close>

text \<open>What the session relies on: memory, an FDT that announces the objects and parses, and parameters that
  partition it.\<close>

definition session_ok :: "'z env \<Rightarrow> u32 \<Rightarrow> fec_oti \<Rightarrow> byte list \<Rightarrow> objects \<Rightarrow> fdt \<Rightarrow> bool" where
  "session_ok env fid h content objs t \<longleftrightarrow>
     memory_suffices env \<and> objects_ok env objs \<and> announces (fdt_file_entries t) objs \<and>
     fdt_parse (env_xml_parse env) (fid AND 0xFFFFF) content = Inr t \<and> instance_id t = fid AND 0xFFFFF \<and>
     encoding_id h = CompactNoCode \<and> partition_ok (received_oti h) \<and> length content = tlen (received_oti h)"

definition implements ::
  "'z env \<Rightarrow> u16 \<Rightarrow> u32 \<Rightarrow> fec_oti \<Rightarrow> byte list \<Rightarrow> objects \<Rightarrow> fdt \<Rightarrow> reception \<Rightarrow> receiver \<Rightarrow> bool" where
  "implements env tsi fid h content objs t s r \<longleftrightarrow>
     session_ok env fid h content objs t \<and>
     (if sp_table s then session env tsi (Some t) objs [] (sp_got s) r
      else awaiting_fdt env tsi fid h content (sp_got s 0) r)"

definition receive_arrival :: "'z env \<Rightarrow> arrival \<Rightarrow> receiver \<Rightarrow> receiver option" where
  "receive_arrival env p r =
     (case p of (toi, ijs, now, d) \<Rightarrow>
        (case handle_receive_from env now (Some d) r of Some (Inr _, r') \<Rightarrow> Some r' | _ \<Rightarrow> None))"

lemma awaiting_ignores:
  assumes ok: "session_ok env fid h content objs t" and a: "awaiting_fdt env tsi fid h content R r"
    and p: "carousel_packet tsi fid h content objs (toi, ijs, now, d)" and toi: "toi \<noteq> 0"
  shows "\<exists>r'. handle_receive_from env now (Some d) r = Some (Inr (), r') \<and> awaiting_fdt env tsi fid h content R r'"
proof -
  consider "stranger tsi objs d" | e data fid' h' where "objs toi = Some (e, data)" "encoding_id h' = CompactNoCode"
      "packet_of tsi toi fid' h' (fe_fec_oti e) data ijs d"
    using p toi by (auto simp: carousel_packet_def)
  then show ?thesis
  proof cases
    case 1
    from awaiting_stranger [OF a 1] show ?thesis by blast
  next
    case e: (2 e data fid' h')
  have o: "object_ok env e data" using ok e(1) by (simp add: session_ok_def objects_ok_def)
  have s: "encoding_symbol_length (fe_fec_oti e) \<noteq> 0" using o by (auto simp: object_ok_def partition_ok_def)
  have "(ucast toi :: u64) \<noteq> 0" using toi by (metis unat_0 unat_eq_0 unat_ucast_16_64)
  then have "om_get (rc_files r) (ucast toi) = None" using a by (auto simp: awaiting_fdt_def split: if_splits)
  note unknown = unknown_packet [OF e(3) toi this]
  have "handle_receive_from env now (Some d) r = Some (Inr (), (receive_datagram d r)\<lparr>rc_armed := True\<rparr>)"
    by (rule handle_packet [OF e(3) _ e(2) s _ _ _ unknown]) (use o a in \<open>simp_all add: object_ok_def awaiting_fdt_def\<close>)
  moreover have "awaiting_fdt env tsi fid h content R ((receive_datagram d r)\<lparr>rc_armed := True\<rparr>)"
    using a by (simp add: awaiting_fdt_def)
  ultimately show ?thesis by blast
  qed
qed

lemma implements_step:
  assumes rel: "implements env tsi fid h content objs t s r" and p: "carousel_packet tsi fid h content objs p"
  shows "\<exists>r'. receive_arrival env p r = Some r' \<and>
    implements env tsi fid h content objs t (spec_arrival (symbol_pairs (received_oti h)) p s) r'"
proof -
  obtain toi ijs now d where eq: "p = (toi, ijs, now, d)" by (cases p)
  have ok: "session_ok env fid h content objs t" using rel by (simp add: implements_def)
  note k = ok [unfolded session_ok_def]
  show ?thesis
  proof (cases "sp_table s")
    case True
    then have "session env tsi (Some t) objs [] (sp_got s) r" using rel by (simp add: implements_def)
    moreover have "session_packet tsi (Some t) objs toi ijs d"
      using p k carousel_in_session [of tsi fid h content objs toi ijs now d t] by (simp add: eq)
    ultimately show ?thesis
      using session_step [of env tsi "Some t" objs "[]" "sp_got s" r toi ijs d now] k True ok
      by (auto simp: eq receive_arrival_def implements_def)
  next
    case False
    then have a: "awaiting_fdt env tsi fid h content (sp_got s 0) r" using rel by (simp add: implements_def)
    show ?thesis
    proof (cases "toi = 0")
      case True
      then have "carousel_packet tsi fid h content objs (0, ijs, now, d)" using p by (simp add: eq)
      from awaiting_step [OF _ _ _ _ _ _ _ a this, of t] k obtain r' where
        r': "handle_receive_from env now (Some d) r = Some (Inr (), r')"
          "if symbol_pairs (received_oti h) \<subseteq> set ijs \<union> sp_got s 0 then session env tsi (Some t) objs [] (\<lambda>_. {}) r'
           else awaiting_fdt env tsi fid h content (set ijs \<union> sp_got s 0) r'" by auto
      with False True ok show ?thesis
        by (cases "symbol_pairs (received_oti h) \<subseteq> set ijs \<union> sp_got s 0")
          (simp_all add: eq receive_arrival_def implements_def Let_def)
    next
      case toi: False
      with awaiting_ignores [OF ok a p [unfolded eq]] False ok show ?thesis
        by (auto simp: eq receive_arrival_def implements_def Let_def)
    qed
  qed
qed

interpretation reception: forward_simulation "receive_arrival env" "spec_arrival (symbol_pairs (received_oti h))"
  "implements env tsi fid h content objs t" "carousel_packet tsi fid h content objs"
  for env tsi fid h content objs t
  by unfold_locales (rule implements_step)

lemma steps_handle_all:
  "run_steps (receive_arrival env) ps r = Some r' \<Longrightarrow> handle_all env (datagrams ps) r = Some (Inr (), r')"
proof (induction ps arbitrary: r)
  case (Cons p ps)
  obtain toi ijs now d where eq: "p = (toi, ijs, now, d)" by (cases p)
  obtain r1 where r1: "receive_arrival env p r = Some r1" "run_steps (receive_arrival env) ps r1 = Some r'"
    using Cons.prems by (auto simp: bind_eq_Some_conv)
  then have "handle_receive_from env now (Some d) r = Some (Inr (), r1)"
    by (auto simp: receive_arrival_def eq split: option.splits sum.splits)
  with Cons.IH [OF r1(2)] show ?case by (simp add: eq)
qed simp

text \<open>(C12) A fresh receiver gets packets of the FDT and of the files it announces, in any order and any
  mixture, with losses and repetitions and strangers among them. It does what the specification says: the handler never fails and
  keeps receiving, the receiver has its table exactly when each symbol of the FDT has come, and the files
  it has handed over are, once each and byte for byte (inflated when they have a content encoding), those all of whose symbols have
  come since then. The contents of a file with a content encoding have at most 16384 bytes (\<open>objects_ok\<close>).\<close>
theorem reception_refines_spec:
  assumes "memory_suffices env" and "objects_ok env objs" and "announces (fdt_file_entries table) objs"
    and "content = fdt_to_string xml_print table"
    and "env_xml_parse env (xml_print (fdt_root table)) = Some (fdt_root table)"
    and "\<forall>e \<in> set (fdt_file_entries table). announced_exactly (global_fec_oti table) e"
    and "encoding_id h = CompactNoCode" and "partition_ok (received_oti h)" and "length content = tlen (received_oti h)"
    and "\<forall>p \<in> set ps. carousel_packet tsi fid h content objs p"
    and "s = fold (spec_arrival (symbol_pairs (received_oti h))) ps nothing_received"
  shows "\<exists>r'. handle_all env (datagrams ps) (register_completion_callback (receiver_new (ucast tsi) uninit)) =
      Some (Inr (), r') \<and> rc_armed r' \<and> rc_running r' \<and> (rc_fdt r' \<noteq> None \<longleftrightarrow> sp_table s) \<and>
    (\<exists>tois. distinct tois \<and> set tois = spec_delivered objs s \<and>
       list_all2 (\<lambda>toi f. \<exists>e data. objs toi = Some (e, data) \<and> delivered_as env e data f) tois (rc_delivered r'))"
proof -
  let ?r = "register_completion_callback (receiver_new (ucast tsi) uninit)"
  have "map (received_entry (received_global (global_fec_oti table))) (fdt_file_entries table) = fdt_file_entries table"
    using assms(6) by (simp add: map_idI received_entry_exact)
  then obtain t where t: "fdt_parse (env_xml_parse env) (fid AND 0xFFFFF) content = Inr t"
    "instance_id t = fid AND 0xFFFFF" "fdt_file_entries t = fdt_file_entries table"
    using assms(5) by (simp add: assms(4) fdt_parse_def fdt_to_string_def fdt_of_sent_root)
  have "implements env tsi fid h content objs t nothing_received ?r"
    using assms t by (simp add: implements_def session_ok_def nothing_received_def awaiting_fdt_def
        register_completion_callback_def receiver_new_def)
  from reception.sim_run [OF this assms(10)] obtain r' where
    r': "run_steps (receive_arrival env) ps ?r = Some r'" "implements env tsi fid h content objs t s r'"
    unfolding assms(11) by blast
  note run = steps_handle_all [OF r'(1)]
  show ?thesis
  proof (cases "sp_table s")
    case True
    then have "session env tsi (Some t) objs [] (sp_got s) r'" using r'(2) by (simp add: implements_def)
    with run True show ?thesis by (auto simp: session_def deliveries_def spec_delivered_def)
  next
    case False
    then have "awaiting_fdt env tsi fid h content (sp_got s 0) r'" using r'(2) by (simp add: implements_def)
    with run False show ?thesis by (auto simp: awaiting_fdt_def spec_delivered_def)
  qed
qed

text \<open>A packet of the file comes before the FDT and is lost; when it comes again, the file is delivered.\<close>

abbreviation mixed_arrivals :: "arrival list" where
  "mixed_arrivals \<equiv>
     [(1, [(1, 0)], 0, built 7 1 example_header_oti [sym 1 0 [9, 10]]),
      (0, [(0, 0)], 1, built 7 0 example_header_oti [sym 0 0 [60]]),
      (1, [(0, 0), (0, 1)], 2, built 7 1 example_header_oti [sym 0 0 [1, 2, 3, 4], sym 0 1 [5, 6, 7, 8]])]"

abbreviation last_arrival :: arrival where
  "last_arrival \<equiv> (1, [(1, 0)], 3, built 7 1 example_header_oti [sym 1 0 [9, 10]])"

lemma mixed_received:
  "sp_table (fold (spec_arrival {(0, 0)}) mixed_arrivals nothing_received)"
  "spec_delivered example_files (fold (spec_arrival {(0, 0)}) mixed_arrivals nothing_received) = {}"
  "spec_delivered example_files (fold (spec_arrival {(0, 0)}) (mixed_arrivals @ [last_arrival]) nothing_received) = {1}"
  by (auto simp: nothing_received_def Let_def spec_delivered_def obtained_def example_files_iff example_pairs)

theorem reception_refines_spec_witness:
  "\<exists>r1 r2 f. handle_all example_env (datagrams mixed_arrivals) example_receiver = Some (Inr (), r1) \<and> rc_delivered r1 = [] \<and>
     handle_all example_env (datagrams (mixed_arrivals @ [last_arrival])) example_receiver = Some (Inr (), r2) \<and>
     rc_delivered r2 = [f] \<and> buffer_bytes f (unat (file_length f)) = Inr [1, 2, 3, 4, 5, 6, 7, 8, 9, 10]"
proof -
  have ps: "\<forall>p \<in> set mixed_arrivals. carousel_packet 7 5 example_header_oti [60] example_files p"
    "\<forall>p \<in> set (mixed_arrivals @ [last_arrival]). carousel_packet 7 5 example_header_oti [60] example_files p"
    using example_carousel by simp_all
  note refines = reception_refines_spec [OF example_session(1) example_objects example_table(1) example_session(5,6)
      example_table(2) example_ids(1) example_session(7,8) _ refl, of _ 7 5 "replicate 2048 0"]
  obtain r1 tois where r1: "handle_all example_env (datagrams mixed_arrivals) example_receiver = Some (Inr (), r1)"
    "set tois = {}" "list_all2 (\<lambda>toi f. \<exists>e data. example_files toi = Some (e, data) \<and> delivered_as example_env e data f) tois (rc_delivered r1)"
    using refines [OF ps(1)] unfolding example_received_oti(1,3) mixed_received(2) by auto
  obtain r2 tois2 where r2: "handle_all example_env (datagrams (mixed_arrivals @ [last_arrival])) example_receiver = Some (Inr (), r2)"
    "distinct tois2" "set tois2 = {1}" "list_all2 (\<lambda>toi f. \<exists>e data. example_files toi = Some (e, data) \<and> delivered_as example_env e data f) tois2 (rc_delivered r2)"
    using refines [OF ps(2)] unfolding example_received_oti(1,3) mixed_received(3) by auto
  have "rc_delivered r1 = []" using r1(2,3) by simp
  moreover have "tois2 = [1]" using r2(2,3) by (cases tois2; cases "tl tois2") auto
  then obtain f where "rc_delivered r2 = [f]" "buffer_bytes f (unat (file_length f)) = Inr [1, 2, 3, 4, 5, 6, 7, 8, 9, 10]"
    using r2(4) delivered_plain [OF digest_entry_plain] by (auto simp: list_all2_Cons1 example_files_iff)
  ultimately show ?thesis using r1(1) r2(1) by blast
qed

end
