(* ===== verification/Sender_Failures.thy ===== *)
theory Sender_Failures
  imports Session_Properties
begin

text \<open>
  A send that fails: its symbol stays queued and not complete for good, no packet carries it again, and the
  file never leaves the queue. The state this is, that every event keeps it, and the theorem.
\<close>

section \<open>A symbol that stays queued\<close>

definition lost_slot :: "u16 \<Rightarrow> u16 \<Rightarrow> flute_file \<Rightarrow> bool" where
  "lost_slot sbn esi f \<longleftrightarrow>
     \<not> fl_complete f \<and> om_ok (fl_source_blocks f) \<and>
     (\<exists>b s. om_get (fl_source_blocks f) sbn = Some b \<and> \<not> sb_complete b \<and> om_ok (sb_symbols b) \<and>
        om_get (sb_symbols b) esi = Some s \<and> sl_queued s \<and> \<not> sl_complete s)"

definition symbol_key :: "encoding_symbol \<Rightarrow> u16 \<times> u16" where
  "symbol_key s = (ucast (es_source_block_number s), ucast (es_id s))"

lemma ucast_16_32_16 [simp]: "(ucast (ucast (w :: u16) :: u32) :: u16) = w"
  by (rule bit_word_eqI) (simp add: bit_simps)

lemma take_slots_keys: "take_slots f nof sbn cnt m = (syms, m', cnt') \<Longrightarrow> om_keys m' = om_keys m"
  by (induction f nof sbn cnt m arbitrary: syms m' cnt' rule: take_slots.induct)
    (auto simp: Let_def split: if_splits prod.splits)

lemma take_slots_queued:
  assumes "take_slots f nof sbn cnt m = (syms, m', cnt')" and "om_get m esi = Some s" "sl_queued s"
  shows "om_get m' esi = Some s"
  using assms
  by (induction f nof sbn cnt m arbitrary: syms m' cnt' rule: take_slots.induct)
    (auto simp: Let_def split: if_splits prod.splits)

lemma take_slots_symbols:
  assumes "take_slots f nof sbn cnt m = (syms, m', cnt')" and "x \<in> set syms"
  shows "\<exists>esi s. (esi, s) \<in> set m \<and> \<not> sl_queued s \<and> symbol_key x = (sbn, esi)"
  using assms
  by (induction f nof sbn cnt m arbitrary: syms m' cnt' rule: take_slots.induct)
    (auto simp: Let_def symbol_key_def symbol_of_slot_def split: if_splits prod.splits; blast)+

lemma take_blocks_keys: "take_blocks f nof cnt m = (syms, m') \<Longrightarrow> om_keys m' = om_keys m"
  by (induction f nof cnt m arbitrary: syms m' rule: take_blocks.induct)
    (auto simp: Let_def split: if_splits prod.splits)

definition block_taken :: "flute_file \<Rightarrow> int \<Rightarrow> u16 \<Rightarrow> source_block \<Rightarrow> source_block \<Rightarrow> bool" where
  "block_taken f nof sbn b b' \<longleftrightarrow> b' = b \<or>
    (\<exists>c syms slots c'. take_slots f nof sbn c (sb_symbols b) = (syms, slots, c') \<and> b' = b\<lparr>sb_symbols := slots\<rparr>)"

lemma take_blocks_get:
  assumes "take_blocks f nof cnt m = (syms, m')" and "om_get m sbn = Some b"
  shows "\<exists>b'. om_get m' sbn = Some b' \<and> block_taken f nof sbn b b'"
  using assms
proof (induction f nof cnt m arbitrary: syms m' rule: take_blocks.induct)
  case (2 f nof cnt k c rest)
  have same: "block_taken f nof sbn b b" by (simp add: block_taken_def)
  show ?case
  proof (cases "cnt \<ge> nof \<or> sb_complete c")
    case True
    obtain sy r where "take_blocks f nof cnt rest = (sy, r)" by force
    with "2.IH"(2) "2.prems" True same show ?thesis by (auto split: if_splits)
  next
    case False
    then have more: "\<not> cnt \<ge> nof" "\<not> sb_complete c" by simp_all
    obtain sy slots n where t: "take_slots f nof k cnt (sb_symbols c) = (sy, slots, n)"
      by (cases "take_slots f nof k cnt (sb_symbols c)")
    obtain sy' r where r: "take_blocks f nof n rest = (sy', r)" by force
    have m': "m' = (k, c\<lparr>sb_symbols := slots\<rparr>) # r" using "2.prems"(1) more t r by simp
    show ?thesis
    proof (cases "sbn = k")
      case True
      with "2.prems"(2) t show ?thesis unfolding m' by (auto simp: block_taken_def)
    next
      case False
      with "2.IH"(1) [OF more t [symmetric] refl refl r] "2.prems"(2) show ?thesis unfolding m' by simp
    qed
  qed
qed simp

lemma take_blocks_symbols:
  assumes "take_blocks f nof cnt m = (syms, m')" and "x \<in> set syms"
  shows "\<exists>sbn b esi s. (sbn, b) \<in> set m \<and> (esi, s) \<in> set (sb_symbols b) \<and> \<not> sl_queued s \<and> symbol_key x = (sbn, esi)"
  using assms
proof (induction f nof cnt m arbitrary: syms m' rule: take_blocks.induct)
  case (2 f nof cnt k b rest)
  show ?case
  proof (cases "cnt \<ge> nof \<or> sb_complete b")
    case True
    obtain sy r where "take_blocks f nof cnt rest = (sy, r)" by force
    with "2.IH"(2) "2.prems" True show ?thesis by (fastforce split: if_splits)
  next
    case False
    then have more: "\<not> cnt \<ge> nof" "\<not> sb_complete b" by simp_all
    obtain sy slots c where t: "take_slots f nof k cnt (sb_symbols b) = (sy, slots, c)" by (cases "take_slots f nof k cnt (sb_symbols b)")
    obtain sy' r where r: "take_blocks f nof c rest = (sy', r)" by force
    have "x \<in> set sy \<or> x \<in> set sy'" using "2.prems" more t r by auto
    then show ?thesis
      using take_slots_symbols [OF t] "2.IH"(1) [OF more t [symmetric] refl refl r] by fastforce
  qed
qed simp

lemma get_next_symbols_lost:
  assumes "get_next_symbols n f = Inr (syms, f')" and lost: "lost_slot sbn esi f"
  shows "lost_slot sbn esi f'" and "(sbn, esi) \<notin> symbol_key ` set syms"
proof -
  from assms(1) obtain nof blocks where t: "take_blocks f nof 0 (fl_source_blocks f) = (syms, blocks)"
    "f' = f\<lparr>fl_source_blocks := blocks\<rparr>"
    by (auto simp: get_next_symbols_def rbind_def Let_def split: sum.splits prod.splits)
  obtain b s where b: "\<not> fl_complete f" "om_ok (fl_source_blocks f)" "om_get (fl_source_blocks f) sbn = Some b" "\<not> sb_complete b"
    "om_ok (sb_symbols b)" "om_get (sb_symbols b) esi = Some s" "sl_queued s" "\<not> sl_complete s"
    using lost by (auto simp: lost_slot_def)
  have "om_ok blocks" using take_blocks_keys [OF t(1)] b(2) by (simp add: om_ok_def)
  moreover obtain b' where b': "om_get blocks sbn = Some b'" "block_taken f nof sbn b b'"
    using take_blocks_get [OF t(1) b(3)] by blast
  moreover have "\<not> sb_complete b' \<and> om_ok (sb_symbols b') \<and> om_get (sb_symbols b') esi = Some s"
    using b'(2) b(4-7) take_slots_queued take_slots_keys by (fastforce simp: block_taken_def om_ok_def)
  ultimately show "lost_slot sbn esi f'" using b(1,7,8) by (simp add: t(2) lost_slot_def)
  show "(sbn, esi) \<notin> symbol_key ` set syms"
  proof
    assume "(sbn, esi) \<in> symbol_key ` set syms"
    then obtain b' s' where "(sbn, b') \<in> set (fl_source_blocks f)" "(esi, s') \<in> set (sb_symbols b')" "\<not> sl_queued s'"
      using take_blocks_symbols [OF t(1)] by fastforce
    with b om_in_set_get [OF b(2)] om_in_set_get [OF b(5)] show False by fastforce
  qed
qed

lemma mark_symbol_lost:
  assumes lost: "lost_slot sbn esi f" and key: "symbol_key x \<noteq> (sbn, esi)"
  shows "lost_slot sbn esi (snd (mark_symbol md5 ok x f))"
proof -
  obtain b s where b: "\<not> fl_complete f" "om_ok (fl_source_blocks f)" "om_get (fl_source_blocks f) sbn = Some b" "\<not> sb_complete b"
    "om_ok (sb_symbols b)" "om_get (sb_symbols b) esi = Some s" "sl_queued s" "\<not> sl_complete s"
    using lost by (auto simp: lost_slot_def)
  obtain n k where nk: "symbol_key x = (n, k)" by force
  have incomplete: "lost_slot sbn esi (snd (check_file_completion md5 g))"
    if g: "om_ok (fl_source_blocks g)" "om_get (fl_source_blocks g) sbn = Some c" "\<not> sb_complete c" "om_ok (sb_symbols c)"
      "om_get (sb_symbols c) esi = Some s" for g c
  proof -
    have "(sbn, c) \<in> set (fl_source_blocks g)" using g(2) by (rule om_get_in_set)
    then have "\<not> list_all (\<lambda>(_, b). sb_complete b) (fl_source_blocks g)" using g(3) by (auto simp: list_all_iff)
    then have "snd (check_file_completion md5 g) = g\<lparr>fl_complete := False\<rparr>" by (simp add: check_file_completion_def)
    with g b(7,8) show ?thesis by (simp add: lost_slot_def)
  qed
  show ?thesis
  proof (cases "om_get (fl_source_blocks f) n")
    case None
    with nk lost show ?thesis by (simp add: mark_symbol_def symbol_key_def)
  next
    case (Some c)
    define c1 where "c1 = (case om_get (sb_symbols c) k of None \<Rightarrow> c
      | Some slot \<Rightarrow> c\<lparr>sb_symbols := om_set k (slot\<lparr>sl_queued := False, sl_complete := ok\<rparr>) (sb_symbols c)\<rparr>)"
    let ?g = "f\<lparr>fl_source_blocks := om_set n (check_source_block_completion c1) (fl_source_blocks f)\<rparr>"
    have mark: "mark_symbol md5 ok x f = check_file_completion md5 ?g"
      using Some nk by (simp add: mark_symbol_def symbol_key_def Let_def c1_def)
    show ?thesis
    proof (cases "n = sbn")
      case False
      then show ?thesis unfolding mark using b by (intro incomplete [of _ b]) (simp_all add: om.ok_assign om_get_set)
    next
      case True
      with Some b(3) have c: "c = b" by simp
      have k: "k \<noteq> esi" using key nk True by simp
      have c1: "om_ok (sb_symbols c1)" "om_get (sb_symbols c1) esi = Some s"
        using b k by (simp_all add: c1_def c om_ok_set om_get_set split: option.split)
      then have "\<not> list_all (\<lambda>(_, s). sl_complete s) (sb_symbols c1)"
        using om_get_in_set b(8) by (fastforce simp: list_all_iff)
      with c1 show ?thesis unfolding mark
        using b True by (intro incomplete [of _ "check_source_block_completion c1"])
          (simp_all add: om.ok_assign om_get_set check_source_block_completion_def)
    qed
  qed
qed

lemma mark_completed_lost:
  assumes "lost_slot sbn esi f" and "(sbn, esi) \<notin> symbol_key ` set xs"
  shows "lost_slot sbn esi (snd (mark_completed md5 xs ok f))"
  unfolding mark_completed_def
  by (rule for_each_invariant [of xs "lost_slot sbn esi"]) (use assms mark_symbol_lost in \<open>auto simp: image_iff\<close>)


section \<open>A failed send\<close>

text \<open>No send in progress has the symbol, and its slot stays queued.\<close>

definition symbol_lost :: "nat \<Rightarrow> u16 \<Rightarrow> u16 \<Rightarrow> transmitter \<Rightarrow> bool" where
  "symbol_lost i sbn esi t \<longleftrightarrow>
     i < length (tr_store t) \<and> lost_slot sbn esi (tr_store t ! i) \<and>
     (\<forall>p \<in> set (tr_pending t). pd_file p = i \<longrightarrow> (sbn, esi) \<notin> symbol_key ` set (pd_symbols p))"

text \<open>Steps that add files and start no send.\<close>

definition adds_files :: "transmitter \<Rightarrow> transmitter \<Rightarrow> bool" where
  "adds_files t t' \<longleftrightarrow> (\<exists>new. tr_store t' = tr_store t @ new) \<and> tr_pending t' = tr_pending t"

lemma adds_files_same: "tr_store t' = tr_store t \<Longrightarrow> tr_pending t' = tr_pending t \<Longrightarrow> adds_files t t'"
  by (simp add: adds_files_def)

lemma adds_files_lost: "adds_files t t' \<Longrightarrow> symbol_lost i sbn esi t \<Longrightarrow> symbol_lost i sbn esi t'"
  by (auto simp: adds_files_def symbol_lost_def nth_append)

lemma adds_files_from: "adds_files t1 t' \<Longrightarrow> adds_files t t1 \<Longrightarrow> adds_files t t'"
  by (auto simp: adds_files_def)

lemma send_fdt_adds: "send_fdt env now t = Some (Inr (), t') \<Longrightarrow> adds_files t t'"
  by (auto elim!: send_fdt_cases simp: adds_files_def)

lemma file_transmitted_adds: "file_transmitted env now toi t = Some (Inr (), t') \<Longrightarrow> adds_files t t'"
  by (auto elim!: file_transmitted_cases dest!: send_fdt_adds simp: adds_files_def)

lemma send_data_adds: "send_data env now location ctype expires data t = Some (Inr (), t') \<Longrightarrow> adds_files t t'"
  by (erule send_data_cases) (auto simp: adds_files_def dest!: send_fdt_adds)

lemma send_description_adds:
  assumes "send_description env now s number d t = Some (d', Inr (), t')"
  shows "adds_files t t'"
  using assms
proof (cases rule: send_description_cases)
  case (1 t1 data f)
  have "tr_store t1 = tr_store t" "tr_pending t1 = tr_pending t"
    using 1(1) by (auto simp: prepare_description_def Let_def split: if_splits)
  then show ?thesis using send_fdt_adds [OF 1(4)] by (auto simp: adds_files_def)
qed

lemma run_fdt_handler_adds:
  assumes "run_fdt_handler env now t = Some (Inr (), t')"
  shows "adds_files t t'"
proof (cases "tr_active t")
  case True
  with assms obtain t2 where "send_fdt env now (t\<lparr>tr_fdt_ready := tr_fdt_ready t - 1\<rparr>) = Some (Inr (), t2)"
    "t' = start_fdt_repeat_timer t2"
    by (auto simp: run_fdt_handler_def fdt_send_tick_def split: option.splits sum.splits)
  then show ?thesis by (auto dest!: send_fdt_adds simp: adds_files_def start_fdt_repeat_timer_def)
next
  case False
  with assms show ?thesis by (auto simp: run_fdt_handler_def fdt_send_tick_def adds_files_def)
qed

text \<open>A packet never carries the symbol.\<close>

lemma send_packet_of_lost:
  assumes send: "send_packet_of env takes j t = (Inr n, t')" and lost: "symbol_lost i sbn esi t"
  shows "symbol_lost i sbn esi t'"
proof -
  from send obtain ss f where next_symbols: "get_next_symbols (ucast (tr_max_payload t)) (tr_store t ! j) = Inr (ss, f)"
    by (auto simp: send_packet_of_def Let_def split: sum.splits)
  with send have st: "tr_store t' = (tr_store t)[j := f]"
    "\<forall>p \<in> set (tr_pending t'). p \<in> set (tr_pending t) \<or> pd_file p = j \<and> pd_symbols p = ss"
    by (auto simp: send_packet_of_def Let_def update_file_def start_send_def split: sum.splits if_splits option.splits)
  show ?thesis
  proof (cases "j = i")
    case True
    with lost have l: "i < length (tr_store t)" "lost_slot sbn esi (tr_store t ! j)" by (simp_all add: symbol_lost_def)
    show ?thesis
      using get_next_symbols_lost [OF next_symbols l(2)] l(1) lost st True
      unfolding symbol_lost_def by (metis length_list_update nth_list_update_eq)
  next
    case False
    with lost st show ?thesis by (auto simp: symbol_lost_def)
  qed
qed

lemma reschedule_adds: "adds_files t (reschedule n t)"
  by (simp add: adds_files_def reschedule_def start_send_timer_def cancel_send_timer_def Let_def)

lemma send_next_packet_lost:
  assumes "send_next_packet env takes t = (Inr (), t')" and lost: "symbol_lost i sbn esi t"
  shows "symbol_lost i sbn esi t'"
proof (cases "tr_active t \<and> next_file t \<noteq> None")
  case True
  with assms(1) obtain j n t1 where "send_packet_of env takes j t = (Inr n, t1)" "t' = reschedule n t1"
    by (auto simp: send_next_packet_def split: sum.splits prod.splits)
  with send_packet_of_lost [OF _ lost] show ?thesis using adds_files_lost [OF reschedule_adds] by blast
next
  case False
  with assms(1) have "adds_files t t'"
    using reschedule_adds [of t 0] by (auto simp: send_next_packet_def adds_files_same split: if_splits)
  then show ?thesis using lost by (rule adds_files_lost)
qed

lemma send_completed_lost:
  assumes step: "send_completed env now error p t = Some (Inr (), t')" and lost: "symbol_lost i sbn esi t"
    and p: "pd_file p = i \<longrightarrow> (sbn, esi) \<notin> symbol_key ` set (pd_symbols p)"
  shows "symbol_lost i sbn esi t'"
proof (cases error)
  case True
  with step lost show ?thesis by (simp add: send_completed_def)
next
  case False
  with step obtain t1 where t1: "transmit_late p t = Inr t1" by (auto simp: send_completed_def split: sum.splits)
  then have st: "tr_store t1 = tr_store t" "tr_pending t1 = tr_pending t"
    by (auto simp: transmit_late_def split: if_splits option.splits)
  let ?j = "pd_file p"
  obtain r f where m: "mark_completed (se_md5 env) (pd_symbols p) True (tr_store t ! ?j) = (r, f)" by force
  let ?t2 = "update_file ?j f t1"
  have "symbol_lost i sbn esi ?t2"
  proof (cases "?j = i")
    case True
    with lost p mark_completed_lost [of sbn esi "tr_store t ! i" "pd_symbols p" "se_md5 env" True] m st show ?thesis
      by (simp add: symbol_lost_def update_file_def)
  next
    case False
    with lost st show ?thesis by (simp add: symbol_lost_def update_file_def)
  qed
  moreover from step False t1 m st have "t' = ?t2 \<or> file_transmitted env now (fe_toi (fl_meta f)) ?t2 = Some (Inr (), t')"
    by (auto simp: send_completed_def Let_def split: sum.splits if_splits)
  ultimately show ?thesis using file_transmitted_adds adds_files_lost by blast
qed

lemma pending_same:
  "tr_pending (deactivate t) = tr_pending t" "tr_pending (set_rate_limit limit t) = tr_pending t"
  "tr_pending (set_endpoint e t) = tr_pending t" "tr_pending (set_source_address a t) = tr_pending t"
  "tr_pending (transmitter_register_completion_callback t) = tr_pending t"
  "tr_pending (set_udp_tunnel_address env new t) = tr_pending t" "tr_pending (send_timer_expires t) = tr_pending t"
  "tr_pending (fdt_timer_expires t) = tr_pending t"
  by (simp_all add: deactivate_def cancel_send_timer_def set_rate_limit_def set_endpoint_def set_source_address_def
      transmitter_register_completion_callback_def set_udp_tunnel_address_def Let_def send_timer_expires_def
      fdt_timer_expires_def split: option.split)

lemma tr_step_lost:
  assumes step: "tr_step env op t = Some (Inr (), t')" and en: "tr_enabled op t" and lost: "symbol_lost i sbn esi t"
  shows "symbol_lost i sbn esi t'"
proof (cases op)
  case (Send_Data now location ctype expires data)
  with step have "send_data env now location ctype expires data t = Some (Inr (), t')" by simp
  from adds_files_lost [OF send_data_adds [OF this] lost] show ?thesis .
next
  case (Send_Description now s number d)
  with step obtain d' where "send_description env now s number d t = Some (d', Inr (), t')" by auto
  from adds_files_lost [OF send_description_adds [OF this] lost] show ?thesis .
next
  case (Activate takes)
  with step have "t' = t \<or> send_next_packet env takes (start_fdt_repeat_timer (t\<lparr>tr_active := True\<rparr>)) = (Inr (), t')"
    by (auto simp: activate_def split: if_splits)
  moreover have "symbol_lost i sbn esi (start_fdt_repeat_timer (t\<lparr>tr_active := True\<rparr>))"
    using lost by (simp add: symbol_lost_def start_fdt_repeat_timer_def)
  ultimately show ?thesis using lost send_next_packet_lost by blast
next
  case (Send_Handler takes)
  with step have "send_next_packet env takes (t\<lparr>tr_send_ready := tr_send_ready t - 1\<rparr>) = (Inr (), t')"
    by (simp add: run_send_handler_def)
  then show ?thesis by (rule send_next_packet_lost) (use lost in \<open>simp add: symbol_lost_def\<close>)
next
  case (Fdt_Handler now)
  with step have "run_fdt_handler env now t = Some (Inr (), t')" by simp
  from adds_files_lost [OF run_fdt_handler_adds [OF this] lost] show ?thesis .
next
  case (Completion now error k)
  with step have "send_completed env now error (tr_pending t ! k) (remove_pending k t) = Some (Inr (), t')"
    by (simp add: run_completion_def)
  moreover have "symbol_lost i sbn esi (remove_pending k t)"
    using lost by (auto simp: symbol_lost_def remove_pending_def dest: in_set_takeD in_set_dropD)
  moreover have "pd_file (tr_pending t ! k) = i \<longrightarrow> (sbn, esi) \<notin> symbol_key ` set (pd_symbols (tr_pending t ! k))"
    using lost en Completion by (simp add: symbol_lost_def)
  ultimately show ?thesis by (rule send_completed_lost)
qed (use step in \<open>auto simp: adds_files_lost [OF adds_files_same lost] store_same pending_same\<close>)

interpretation lost: absorbing "tr_event env P" "symbol_lost i sbn esi" for env P i sbn esi
  by unfold_locales (auto elim: tr_eventE intro: tr_step_lost)


text \<open>The first file of the queue that is not complete comes at or before any other that is not.\<close>

lemma find_sorted:
  assumes "om_ok m" and "(k, v) \<in> set m" and "P (k, v)"
  shows "\<exists>k' v'. find P m = Some (k', v') \<and> (k', v') \<in> set m \<and> k' \<le> k"
  using assms
proof (induction m)
  case (Cons x m)
  show ?case
  proof (cases "P x")
    case True
    have "fst x \<le> k" using Cons.prems(1,2) by (cases x) (fastforce simp: om_ok_Cons om_keys_def)
    with True show ?thesis by (cases x) simp
  next
    case False
    with Cons show ?thesis by (cases x) (auto simp: om_ok_Cons)
  qed
qed simp

lemma blocked_queue:
  assumes "om_ok (tr_files t)" and "(k, i) \<in> set (tr_files t)" and "\<not> fl_complete (tr_store t ! i)"
  shows "\<exists>k' j. next_file t = Some j \<and> (k', j) \<in> set (tr_files t) \<and> k' \<le> k"
  using find_sorted [of "tr_files t" k i "\<lambda>(toi, i). \<not> fl_complete (tr_store t ! i)"] assms by (auto simp: next_file_def)

lemma error_loses:
  assumes k: "k < length (tr_pending t)" and p: "p = tr_pending t ! k" and i: "pd_file p = i" "i < length (tr_store t)"
    and lost: "lost_slot sbn esi (tr_store t ! i)"
    and only: "\<forall>l < length (tr_pending t). l \<noteq> k \<longrightarrow> pd_file (tr_pending t ! l) = i \<longrightarrow>
        (sbn, esi) \<notin> symbol_key ` set (pd_symbols (tr_pending t ! l))"
  shows "tr_step env (Completion now True k) t = Some (Inr (), remove_pending k t)"
    and "symbol_lost i sbn esi (remove_pending k t)"
proof -
  show "tr_step env (Completion now True k) t = Some (Inr (), remove_pending k t)"
    by (simp add: run_completion_def send_completed_def)
  have "\<exists>l < length (tr_pending t). l \<noteq> k \<and> q = tr_pending t ! l" if "q \<in> set (tr_pending (remove_pending k t))" for q
  proof -
    from that have "q \<in> set (take k (tr_pending t)) \<or> q \<in> set (drop (Suc k) (tr_pending t))"
      by (simp add: remove_pending_def)
    then show ?thesis
    proof
      assume "q \<in> set (take k (tr_pending t))"
      then obtain n where "n < k" "q = tr_pending t ! n" using k by (auto simp: in_set_conv_nth)
      then show ?thesis using k by (intro exI [of _ n]) simp
    next
      assume "q \<in> set (drop (Suc k) (tr_pending t))"
      then obtain n where "n < length (tr_pending t) - Suc k" "q = tr_pending t ! (Suc k + n)" by (auto simp: in_set_conv_nth)
      then show ?thesis by (intro exI [of _ "Suc k + n"]) simp
    qed
  qed
  with only i lost show "symbol_lost i sbn esi (remove_pending k t)"
    unfolding symbol_lost_def by (metis store_same(9))
qed

text \<open>(C14) A send that fails is the end of its file. The symbol of the failed send stays queued: whatever
  happens afterwards, no packet carries it again, the file never becomes complete, and as long as the file
  is in the queue no file behind it gets a turn.\<close>
theorem send_error_stalls_queue:
  assumes "k < length (tr_pending t)" and "p = tr_pending t ! k" and "pd_file p = i" and "i < length (tr_store t)"
    and "lost_slot sbn esi (tr_store t ! i)"
    and "\<forall>l < length (tr_pending t). l \<noteq> k \<longrightarrow> pd_file (tr_pending t ! l) = i \<longrightarrow>
        (sbn, esi) \<notin> symbol_key ` set (pd_symbols (tr_pending t ! l))"
    and "tr_step env (Completion now True k) t = Some (Inr (), t1)" and "(tr_event env P)\<^sup>*\<^sup>* t1 t'"
  shows "\<not> fl_complete (tr_store t' ! i) \<and>
    (\<forall>q \<in> set (tr_pending t'). pd_file q = i \<longrightarrow> (sbn, esi) \<notin> symbol_key ` set (pd_symbols q)) \<and>
    (\<forall>key. om_ok (tr_files t') \<longrightarrow> (key, i) \<in> set (tr_files t') \<longrightarrow>
       (\<exists>key' j. next_file t' = Some j \<and> (key', j) \<in> set (tr_files t') \<and> key' \<le> key))"
proof -
  have "t1 = remove_pending k t" using assms(7) unfolding error_loses(1) [OF assms(1-6)] by simp
  then have "symbol_lost i sbn esi t1" using error_loses(2) [OF assms(1-6)] by simp
  then have "symbol_lost i sbn esi t'" by (rule lost.stuck_for_ever [OF _ assms(8)])
  then show ?thesis using blocked_queue [of t'] by (simp add: symbol_lost_def lost_slot_def)
qed

text \<open>The first packet of the example session fails.\<close>

lemma queued_slot_lost:
  assumes f: "sender_file oti data S Q f" and ok: "partition_ok oti" and ij: "(i, j) \<in> Q"
  shows "lost_slot (of_nat i) (of_nat j) f"
proof -
  have mem: "i < total_blocks oti" "j < block_len oti i" "(i, j) \<notin> S"
    using f ij by (auto simp: sender_file_def symbol_pairs_def)
  note n = partition_bounds(1) [OF ok] partition_bounds(2) [OF ok, of i]
  have u: "unat (of_nat i :: u16) = i" "unat (of_nat j :: u16) = j"
    using mem n by (simp_all add: unat_of_nat take_bit_nat_eq_self)
  have "om_get (send_blocks (file_buffer f) oti S Q) (of_nat i) = Some (send_block (file_buffer f) oti S Q i)"
    "om_get (sb_symbols (send_block (file_buffer f) oti S Q i)) (of_nat j) = Some (send_slot (file_buffer f) oti S Q i j)"
    using mem n u by (simp_all add: send_blocks_def send_block_def send_slots_def om_get_indexed)
  moreover have "om_ok (send_blocks (file_buffer f) oti S Q)" "om_ok (sb_symbols (send_block (file_buffer f) oti S Q i))"
    using n by (simp_all add: send_blocks_def send_block_def send_slots_def om_ok_indexed)
  moreover have "\<not> symbol_pairs oti \<subseteq> S" using mem by (auto simp: symbol_pairs_def)
  ultimately show ?thesis
    using f mem ij unfolding lost_slot_def sender_file_def by (auto simp: send_slot_def) (auto simp: send_block_def)
qed

lemma genuine_key:
  assumes "genuine oti data (i, j) s"
  shows "symbol_key s = (of_nat i, of_nat j)"
proof -
  have ids: "i = unat (es_source_block_number s)" "j = unat (es_id s)" using assms by (simp_all add: genuine_def)
  show ?thesis by (simp add: symbol_key_def ids)
qed

theorem send_error_stalls_queue_witness:
  "\<exists>t t1. reachable (tr_init example_sender) (tr_event example_sender (\<lambda>_ _. True)) t \<and> length (tr_pending t) = 1 \<and>
     tr_step example_sender (Completion 5 True 0) t = Some (Inr (), t1) \<and>
     (\<forall>t'. (tr_event example_sender (\<lambda>_ _. True))\<^sup>*\<^sup>* t1 t' \<longrightarrow> \<not> fl_complete (tr_store t' ! 1))"
proof -
  obtain t0 t where t0: "transmitter_new example_sender example_destination 7 1500 0 None FDT_NS_NONE True None = (Inr (), t0)"
    and t: "tr_run example_sender (queue_ops 0 session_process 1 session_description) t0 = Some (Inr (), t)"
      "tr_files t = [(0, 1), (1, 0)]" "sending 7 1436 1 t" "tr_sent t = []" "tr_endpoint t = example_destination" "length (tr_store t) = 2"
    and g: "sendable_file example_sender 1436 (tr_store t ! 1)" "fl_oti (tr_store t ! 1) = object_oti 1436 [60]"
      "contents (tr_store t ! 1) = [60]" "sender_file (object_oti 1436 [60]) [60] {} {} (tr_store t ! 1)"
      "\<not> symbol_pairs (object_oti 1436 [60]) \<subseteq> {}" by (rule session_ready)
  obtain ij s d f1 where step: "ij \<in> symbol_pairs (object_oti 1436 [60]) - {}" "genuine (object_oti 1436 [60]) [60] ij s"
    "sender_file (object_oti 1436 [60]) [60] {} {ij} f1" "run_send_handler example_sender True t = (Inr (), one_pending t 1 f1 s d)"
    by (rule send_handler_steps [OF t(3) session_example(1,2) g(1), of "{}"]) (use g in simp_all)
  obtain i j where ij: "ij = (i, j)" by force
  let ?t = "one_pending t 1 f1 s d"
  have pending: "tr_pending ?t = [\<lparr>pd_file = 1, pd_symbols = [s], pd_endpoint = tr_endpoint t, pd_data = Some d, pd_taken = True\<rparr>]"
    "tr_store ?t ! 1 = f1" "length (tr_store ?t) = 2"
    using t(6) by (simp_all add: one_pending_def)
  have lost: "lost_slot (of_nat i) (of_nat j) f1"
    by (rule queued_slot_lost [OF step(3) example_parts(2)]) (simp add: ij)
  have "0 < tr_send_ready t" using t(3) by (simp add: sending_def)
  then have "tr_run example_sender (queue_ops 0 session_process 1 session_description @ [Send_Handler True]) t0 = Some (Inr (), ?t)"
    unfolding tr_run_append [OF t(1)] using step(4) by simp
  then have r: "reachable (tr_init example_sender) (tr_event example_sender (\<lambda>_ _. True)) ?t"
    by (rule run_reachable [rotated]) (simp_all add: tr_init.intros [OF t0])
  have c: "tr_step example_sender (Completion 5 True 0) ?t = Some (Inr (), remove_pending 0 ?t)"
    by (simp add: run_completion_def send_completed_def)
  have "\<not> fl_complete (tr_store t' ! 1)" if "(tr_event example_sender (\<lambda>_ _. True))\<^sup>*\<^sup>* (remove_pending 0 ?t) t'" for t'
    using send_error_stalls_queue [OF _ refl _ _ _ _ c that, of 1 "of_nat i" "of_nat j"] lost pending by simp
  with r c pending(1) show ?thesis by (intro exI [of _ ?t] exI [of _ "remove_pending 0 ?t"]) (simp del: tr_step.simps)
qed

end
