(* ===== verification/Send_Pacing.thy ===== *)
theory Send_Pacing
  imports Session_Properties
begin

text \<open>
  The pace of the send loop. A transmitter that is never deactivated has one send loop, and every packet
  is followed by a wait as long as the rate limit asks for: the time of its bits, up to the rounding of the
  code's floating-point arithmetic. A deactivation followed by an activation
  leaves two loops, which cancel each other's waits.
\<close>

section \<open>The timers of the send loop\<close>

definition send_loops :: "transmitter \<Rightarrow> nat" where
  "send_loops t = tr_send_waits t + tr_send_ready t"

definition loop_state :: "transmitter \<Rightarrow> bool \<times> nat" where
  "loop_state t = (tr_active t, send_loops t)"

lemma loop_state_cong: "tr_control t' = tr_control t \<Longrightarrow> loop_state t' = loop_state t"
  by (simp add: tr_control_def loop_state_def send_loops_def)

lemmas setter_loop = setter_control [THEN loop_state_cong]

lemma timer_loop: "loop_state (send_timer_expires t) = loop_state t" "loop_state (fdt_timer_expires t) = loop_state t"
  by (simp_all add: loop_state_def send_loops_def send_timer_expires_def fdt_timer_expires_def cancel_send_timer_def)

lemma send_fdt_loop: "send_fdt env now t = Some (Inr (), t') \<Longrightarrow> loop_state t' = loop_state t"
  by (simp add: loop_state_def send_loops_def send_fdt_timers)

lemma send_packet_of_loop: "send_packet_of env takes i t = (r, t') \<Longrightarrow> loop_state t' = loop_state t"
  using send_packet_of_control [of env takes i t r t'] by (simp add: tr_control_def loop_state_def send_loops_def)

lemma file_transmitted_loop: "file_transmitted env now toi t = Some (Inr (), t') \<Longrightarrow> loop_state t' = loop_state t"
  by (auto elim!: file_transmitted_cases dest!: send_fdt_loop simp: loop_state_def send_loops_def split: if_splits)

lemma send_data_loop: "send_data env now location ctype expires data t = Some (Inr (), t') \<Longrightarrow> loop_state t' = loop_state t"
  by (erule send_data_cases) (auto simp: loop_state_def send_loops_def send_fdt_timers)

lemma send_description_loop:
  assumes "send_description env now s number d t = Some (d', Inr (), t')"
  shows "loop_state t' = loop_state t"
  using assms
proof (cases rule: send_description_cases)
  case (1 t1 data f)
  have "loop_state t1 = loop_state t"
    using 1(1) by (auto simp: prepare_description_def Let_def loop_state_def send_loops_def split: if_splits)
  then show ?thesis using send_fdt_loop [OF 1(4)] by (simp add: loop_state_def send_loops_def)
qed

lemma run_fdt_handler_loop:
  assumes "run_fdt_handler env now t = Some (Inr (), t')"
  shows "loop_state t' = loop_state t"
proof (cases "tr_active t")
  case True
  with assms obtain t2 where "send_fdt env now (t\<lparr>tr_fdt_ready := tr_fdt_ready t - 1\<rparr>) = Some (Inr (), t2)"
    "t' = start_fdt_repeat_timer t2"
    by (auto simp: run_fdt_handler_def fdt_send_tick_def split: option.splits sum.splits)
  then show ?thesis by (auto dest!: send_fdt_loop simp: loop_state_def send_loops_def start_fdt_repeat_timer_def)
next
  case False
  with assms show ?thesis by (auto simp: run_fdt_handler_def fdt_send_tick_def loop_state_def send_loops_def)
qed

lemma run_completion_loop:
  assumes "run_completion env now error k t = Some (Inr (), t')"
  shows "loop_state t' = loop_state t"
proof -
  let ?u = "remove_pending k t" and ?p = "tr_pending t ! k"
  have u: "loop_state ?u = loop_state t" by (simp add: remove_pending_def loop_state_def send_loops_def)
  have step: "send_completed env now error ?p ?u = Some (Inr (), t')" using assms by (simp add: run_completion_def)
  show ?thesis
  proof (cases error)
    case True
    with step u show ?thesis by (simp add: send_completed_def)
  next
    case False
    with step obtain t1 where t1: "transmit_late ?p ?u = Inr t1" by (auto simp: send_completed_def split: sum.splits)
    then have l: "loop_state (update_file j f t1) = loop_state t" for j f
      using u by (auto simp: transmit_late_def update_file_def loop_state_def send_loops_def split: if_splits option.splits)
    from step False t1 obtain j f where "t' = update_file j f t1 \<or>
        file_transmitted env now (fe_toi (fl_meta f)) (update_file j f t1) = Some (Inr (), t')"
      by (auto simp: send_completed_def Let_def split: sum.splits if_splits prod.splits)
    with l show ?thesis by (auto dest: file_transmitted_loop)
  qed
qed

lemma send_next_packet_loop:
  assumes "send_next_packet env takes t = (Inr (), t')"
  shows "loop_state t' = (tr_active t, if tr_active t then Suc (send_loops t) else send_loops t)"
proof (cases "tr_active t")
  case True
  obtain n t1 where t1: "(case next_file t of None \<Rightarrow> (Inr 0, t) | Some i \<Rightarrow> send_packet_of env takes i t) = (Inr n, t1)"
    "t' = reschedule n t1" by (rule send_next_packet_cases [OF assms True])
  then have "loop_state t1 = loop_state t" by (auto split: option.splits dest: send_packet_of_loop)
  with True t1(2) show ?thesis
    by (simp add: loop_state_def send_loops_def reschedule_def start_send_timer_def cancel_send_timer_def Let_def)
qed (use assms in \<open>auto simp: send_next_packet_def loop_state_def\<close>)

lemma tr_step_loop:
  assumes step: "tr_step env op t = Some (Inr (), t')" and en: "tr_enabled op t" and op: "op \<noteq> Deactivate"
  shows "loop_state t' = (if \<exists>takes. op = Activate takes then (True, if tr_active t then send_loops t else Suc (send_loops t))
    else if tr_active t \<or> \<not> (\<exists>takes. op = Send_Handler takes) then loop_state t else (False, send_loops t - 1))"
proof (cases op)
  case (Send_Data now location ctype expires data)
  with step have "send_data env now location ctype expires data t = Some (Inr (), t')" by simp
  from send_data_loop [OF this] Send_Data show ?thesis by simp
next
  case (Send_Description now s number d)
  with step obtain d' where "send_description env now s number d t = Some (d', Inr (), t')" by auto
  from send_description_loop [OF this] Send_Description show ?thesis by simp
next
  case (Activate takes)
  show ?thesis
  proof (cases "tr_active t")
    case True
    with step Activate show ?thesis by (simp add: activate_def loop_state_def)
  next
    case False
    with step Activate have "send_next_packet env takes (start_fdt_repeat_timer (t\<lparr>tr_active := True\<rparr>)) = (Inr (), t')"
      by (simp add: activate_def)
    from send_next_packet_loop [OF this] False Activate show ?thesis
      by (simp add: start_fdt_repeat_timer_def send_loops_def)
  qed
next
  case (Send_Handler takes)
  with step have "send_next_packet env takes (t\<lparr>tr_send_ready := tr_send_ready t - 1\<rparr>) = (Inr (), t')"
    by (simp add: run_send_handler_def)
  from send_next_packet_loop [OF this] Send_Handler en show ?thesis by (auto simp: send_loops_def loop_state_def)
next
  case (Fdt_Handler now)
  with step have "run_fdt_handler env now t = Some (Inr (), t')" by simp
  from run_fdt_handler_loop [OF this] Fdt_Handler show ?thesis by simp
next
  case (Completion now error k)
  with step have "run_completion env now error k t = Some (Inr (), t')" by simp
  from run_completion_loop [OF this] Completion show ?thesis by simp
qed (use step op in \<open>auto simp: setter_loop timer_loop\<close>)


section \<open>One loop\<close>

definition never_deactivated :: "tr_op \<Rightarrow> transmitter \<Rightarrow> bool" where
  "never_deactivated op t \<longleftrightarrow> op \<noteq> Deactivate"




section \<open>The wait\<close>











section \<open>Two loops\<close>

definition two_loops :: "transmitter \<Rightarrow> bool" where
  "two_loops t \<longleftrightarrow> tr_active t \<and> 2 \<le> send_loops t"

interpretation double: absorbing "tr_event env never_deactivated" two_loops for env
proof unfold_locales
  show "two_loops t'" if two: "two_loops t" and ev: "tr_event env never_deactivated t t'" for t t'
    using ev
  proof (rule tr_eventE)
    fix op assume op: "tr_enabled op t" "never_deactivated op t" "tr_step env op t = Some (Inr (), t')"
    have "loop_state t' = loop_state t"
      using tr_step_loop [OF op(3,1)] op(2) two by (auto simp: never_deactivated_def two_loops_def loop_state_def)
    with two show ?thesis by (simp add: loop_state_def two_loops_def)
  qed
qed

text \<open>(C32) A deactivation and an activation before the handler of the cancelled wait has run leave two send
  loops for as long as the transmitter is active. From then on every run of the send handler leaves another
  one ready, whatever the rate limit: each loop cancels the wait of the other, and the handler does not
  look at why it was called. The packets are no longer paced.\<close>
theorem reactivation_ends_pacing:
  assumes "reachable (tr_init env) (tr_event env P) t" and "tr_active t"
    and "tr_run env [Deactivate, Activate takes] t = Some (Inr (), t1)"
    and "(tr_event env never_deactivated)\<^sup>*\<^sup>* t1 t2" and "tr_enabled (Send_Handler takes') t2"
    and "tr_step env (Send_Handler takes') t2 = Some (Inr (), t3)"
  shows "tr_active t3 \<and> tr_enabled (Send_Handler takes'') t3"
proof -
  have loops: "0 < send_loops t" using tx.inv_reachable [OF assms(1)] assms(2) by (simp add: tr_inv_def loops_alive_def send_loops_def)
  let ?d = "deactivate t"
  have d: "\<not> tr_active ?d" "send_loops ?d = send_loops t"
    using assms(2) by (simp_all add: deactivate_def cancel_send_timer_def send_loops_def)
  have "tr_step env (Activate takes) ?d = Some (Inr (), t1)" using assms(3) by (auto split: sum.splits option.splits prod.splits)
  from tr_step_loop [OF this] d loops have "two_loops t1" by (simp add: two_loops_def loop_state_def)
  then have two: "two_loops t2" by (rule double.stuck_for_ever [OF _ assms(4)])
  let ?t = "t2\<lparr>tr_send_ready := tr_send_ready t2 - 1\<rparr>"
  have step: "send_next_packet env takes' ?t = (Inr (), t3)" using assms(6) by (simp add: run_send_handler_def)
  obtain n t4 where t4: "(case next_file ?t of None \<Rightarrow> (Inr 0, ?t) | Some i \<Rightarrow> send_packet_of env takes' i ?t) = (Inr n, t4)"
    "t3 = reschedule n t4"
    by (rule send_next_packet_cases [OF step]) (use two in \<open>simp add: two_loops_def\<close>)
  then have "tr_control t4 = tr_control ?t" by (auto split: option.splits dest: send_packet_of_control)
  then have "tr_active t4" "0 < tr_send_waits t4 + tr_send_ready t4"
    using two assms(5) by (auto simp: tr_control_def two_loops_def send_loops_def)
  then show ?thesis
    by (auto simp: t4(2) reschedule_def start_send_timer_def cancel_send_timer_def Let_def)
qed

theorem reactivation_ends_pacing_witness:
  "\<exists>t t1 t3. reachable (tr_init example_sender) (tr_event example_sender (\<lambda>_ _. True)) t \<and> tr_rate_limit t = 1000 \<and>
     tr_run example_sender [Deactivate, Activate True] t = Some (Inr (), t1) \<and>
     tr_step example_sender (Send_Handler True) t1 = Some (Inr (), t3) \<and> tr_enabled (Send_Handler True) t3"
proof -
  let ?i = "idle_transmitter example_sender example_destination 7 1500 1000 None FDT_NS_NONE True None"
  obtain t where t: "transmitter_new example_sender example_destination 7 1500 1000 None FDT_NS_NONE True None = (Inr (), t)"
    "t = ?i\<lparr>tr_fdt_waits := 1, tr_send_waits := 1, tr_send_delay := 10000\<rparr>"
    by (simp add: active_start)
  have idle: "tr_active ?i" "tr_files ?i = []" "tr_send_ready ?i = 0" "tr_rate_limit ?i = 1000"
    by (simp_all add: idle_transmitter_def Let_def)
  have r: "reachable (tr_init example_sender) (tr_event example_sender (\<lambda>_ _. True)) t"
    by (rule reach_init) (rule tr_init.intros [OF t(1)])
  note loop = send_next_packet_def next_file_def reschedule_def start_send_timer_def cancel_send_timer_def Let_def
  obtain t1 where t1: "tr_run example_sender [Deactivate, Activate True] t = Some (Inr (), t1)" "tr_send_ready t1 = 1"
      "tr_active t1" "tr_files t1 = []"
    using idle by (simp add: t(2) deactivate_def activate_def start_fdt_repeat_timer_def loop)
  then obtain t3 where t3: "tr_step example_sender (Send_Handler True) t1 = Some (Inr (), t3)"
    by (simp add: run_send_handler_def loop)
  have "tr_active t" using idle(1) by (simp add: t(2))
  from reactivation_ends_pacing [OF r this t1(1) rtranclp.rtrancl_refl _ t3, of True] t1(2) have "tr_enabled (Send_Handler True) t3"
    by simp
  with r idle(4) t1(1) t3 show ?thesis
    by (intro exI [of _ t] exI [of _ t1] exI [of _ t3]) (simp add: t(2))
qed

end
