(* ===== verification/Tunnel_Failures.thy ===== *)
theory Tunnel_Failures
  imports Session_Properties Udp_Tunnel
begin

text \<open>
  The UDP tunnel of the transmitter: a tunnel that is set when files are queued already sends packets
  without their symbols and counts them as sent; its buffer is freed while the socket may still need it.
\<close>

section \<open>A symbol that does not fit\<close>

lemma write_bytes_room: "write_bytes buf p xs = Inr b \<Longrightarrow> p + length xs \<le> length buf \<and> length b = length buf"
  by (auto simp: write_bytes_def split: if_splits)

lemma write_nothing: "p \<le> length buf \<Longrightarrow> write_bytes buf p [] = Inr buf"
  by (simp add: write_bytes_def)

lemma long_symbol_payload:
  assumes "n < es_len s" and "es_fec_scheme s = CompactNoCode"
  shows "to_payload [s] buf p (n + 4) oti = to_payload [s\<lparr>es_len := 0\<rparr>] buf p (n + 4) oti"
proof -
  have long: "\<not> es_len s \<le> n" using assms(1) by (simp add: not_le)
  have "payload_loop [s] b2 (p + 4) (n + 4 - 4) 4 = payload_loop [s\<lparr>es_len := 0\<rparr>] b2 (p + 4) (n + 4 - 4) 4"
    if "write_bytes buf p (be16_enc x) = Inr b1" "write_bytes b1 (p + 2) (be16_enc y) = Inr b2" for b1 b2 x y
  proof -
    have "p + 4 \<le> length b2" using write_bytes_room [OF that(1)] write_bytes_room [OF that(2)] by simp
    then show ?thesis
      using assms(2) long by (simp add: encode_to_def symbol_bytes_def read_bytes_def write_nothing)
  qed
  then show ?thesis
    by (simp add: to_payload_def rbind_def split: sum.split)
qed

lemma long_symbol_dropped:
  assumes "max_size < es_len s" and "es_fec_scheme s = CompactNoCode" and "encoding_id oti = CompactNoCode"
    and "unat max_size < 2 ^ 63"
  shows "\<exists>out. alc_build tsi toi oti [s] max_size fid = Inr out \<and> length (wire out) = 4 * lct_words toi + 4"
proof -
  let ?s = "s\<lparr>es_len := 0\<rparr>"
  have "alc_build tsi toi oti [s] max_size fid = alc_build tsi toi oti [?s] max_size fid"
    by (simp add: alc_build_def long_symbol_payload [OF assms(1,2)])
  moreover have data: "payload_data [?s] = []" "symbol_ok ?s" using assms(2) by (simp_all add: symbol_ok_def symbol_data_def)
  moreover have "alc_build tsi toi oti [?s] max_size fid =
    Inr \<lparr>out_buffer = header_image tsi toi oti fid @ payload_image [?s] @ replicate (unat max_size - length (payload_data [?s])) 0,
         out_len = of_nat (4 * lct_words toi + length (payload_image [?s]))\<rparr>"
    by (rule alc_build_image) (use data assms(3,4) in simp_all)
  moreover have "length (payload_image [?s]) = 4" "4 * lct_words toi \<le> 32"
    using data(1) by (simp_all add: lct_words_def del: payload_data_simps)
  moreover have "unat (of_nat (4 * lct_words toi + 4) :: 64 word) = 4 * lct_words toi + 4"
    by (rule unat_of_nat64) (simp add: lct_words_def)
  ultimately show ?thesis by (simp add: wire_def del: payload_data_simps)
qed


lemma whole_symbol:
  assumes ok: "partition_ok oti" and whole: "slen oti dvd tlen oti" and gen: "genuine oti data ij s"
  shows "unat (es_len s) = slen oti"
proof -
  let ?k = "symbol_index oti ij"
  obtain n where n: "tlen oti = slen oti * n" using whole by (auto elim: dvdE)
  have "?k < total_symbols oti" using symbol_index_less [OF ok] gen by (simp add: genuine_def)
  from symbol_before_end [OF ok this] have "?k * slen oti < tlen oti" .
  then have "Suc ?k \<le> n" by (simp add: n mult.commute)
  then have "slen oti * Suc ?k \<le> tlen oti" unfolding n by (rule mult_le_mono2)
  then have "slen oti \<le> tlen oti - ?k * slen oti" by (simp add: algebra_simps)
  then show ?thesis using gen by (simp add: genuine_def)
qed

lemma tunnel_header:
  assumes "length uninit = length data + 28"
  shows "\<exists>header. tunnel_datagram uninit e data a = Inr (header @ data) \<and> length header = 28"
  by (subst tunnel_datagram_image [OF assms])
    (simp only: sum.inject append.assoc [symmetric] append_same_eq, intro exI conjI, rule refl, simp)

lemma source_of_frame [simp]:
  "source_of (t\<lparr>tr_send_ready := n\<rparr>) = source_of t" "source_of (t\<lparr>tr_store := fs\<rparr>) = source_of t"
  by (cases "tr_source t"; simp add: source_of_def)+

section \<open>A tunnel that comes late\<close>

text \<open>The state after a packet of file \<open>i\<close> has gone to the tunnel \<open>e\<close>.\<close>

definition tunnelled ::
  "bool \<Rightarrow> transmitter \<Rightarrow> nat \<Rightarrow> flute_file \<Rightarrow> encoding_symbol \<Rightarrow> endpoint \<Rightarrow> byte list \<Rightarrow> transmitter" where
  "tunnelled takes t i f s e d =
     t\<lparr>tr_store := (tr_store t)[i := f],
       tr_pending := [\<lparr>pd_file = i, pd_symbols = [s], pd_endpoint = e, pd_data = None, pd_taken = takes\<rparr>],
       tr_sent := (if takes then tr_sent t @ [(e, d)] else tr_sent t)\<rparr>"

lemma late_tunnel_handler:
  fixes mp :: u32 and e :: endpoint and takes :: bool
  assumes t: "sending tsi mp i t" and mp: "32 < unat mp" "unat mp < 2013" and plain: "sendable_file env mp (tr_store t ! i)"
    and sender: "sender_file (fl_oti (tr_store t ! i)) (contents (tr_store t ! i)) S {} (tr_store t ! i)"
    and more: "\<not> symbol_pairs (fl_oti (tr_store t ! i)) \<subseteq> S"
    and whole: "slen (fl_oti (tr_store t ! i)) = unat mp" "unat mp dvd tlen (fl_oti (tr_store t ! i))"
    and uninit: "\<forall>n. length (se_uninit env n) = n"
  defines "f \<equiv> tr_store t ! i" and "t1 \<equiv> set_udp_tunnel_address env (Some e) t"
  obtains ij s f1 header packet where "ij \<in> symbol_pairs (fl_oti f) - S" "genuine (fl_oti f) (contents f) ij s"
    "unat (es_len s) = unat mp" "fl_meta f1 = fl_meta f" "sender_file (fl_oti f) (contents f) S {ij} f1"
    "length header = 28" "length packet = 4 * lct_words (ucast (fe_toi (fl_meta f))) + 4"
    "run_send_handler env takes t1 = (Inr (), tunnelled takes t1 i f1 s e (header @ packet))"
proof -
  note p = sendableD [OF plain, folded f_def]
  have t_simps: "tr_active t" "tr_tunnel t = None" "tr_tsi t = tsi" "tr_max_payload t = mp" "tr_rate_limit t = 0"
    "tr_pending t = []" "0 < tr_send_ready t" "i < length (tr_store t)" using t by (simp_all add: sending_def)
  have t1: "t1 = t\<lparr>tr_tunnel := Some e, tr_max_payload := mp - 28, tr_tunnel_local := se_local_address env e\<rparr>"
    using t_simps by (simp add: t1_def set_udp_tunnel_address_def Let_def)
  have m: "unat (mp - 28) = unat mp - 28" using mp(1) by (subst unat_sub) (simp_all add: word_le_nat_alt)
  then have m': "4 < unat (mp - 28)" "unat (mp - 28) - 4 \<le> slen (fl_oti f)" "unat (mp - 28) < 2 ^ 24" "slen (fl_oti f) < 2 ^ 24"
    using mp whole(1) by (simp_all add: f_def)
  have "\<not> symbol_pairs (fl_oti f) \<subseteq> S \<union> {}" using more by (simp add: f_def)
  from next_symbol [OF p(1) sender [folded f_def] p(2) m', unfolded if_not_P [OF this]] obtain ij s f1 where
    s: "get_next_symbols (ucast (mp - 28)) f = Inr ([s], f1)" "ij \<in> symbol_pairs (fl_oti f)" "ij \<notin> S"
      "genuine (fl_oti f) (contents f) ij s" "sender_file (fl_oti f) (contents f) S {ij} f1" by auto
  have fixd: "fixed_part f1 = fixed_part f" using get_next_symbols_fixed [OF s(1)] .
  note c = fixed_part_cong(1,3) [OF fixd]
  have len: "unat (es_len s) = unat mp" using whole_symbol [OF p(1) _ s(4)] whole by (simp add: f_def)
  have "ucast (mp - 28) < es_len s" "unat (ucast (mp - 28) :: u64) < 2 ^ 63"
    using len m mp by (simp_all add: word_less_nat_alt)
  then obtain out where
    out: "alc_build (ucast tsi) (ucast (fe_toi (fl_meta f))) (fl_oti f) [s] (ucast (mp - 28)) (ucast (fl_fdt_instance_id f)) = Inr out"
      "length (wire out) = 4 * lct_words (ucast (fe_toi (fl_meta f))) + 4"
    using long_symbol_dropped [of "ucast (mp - 28)" s "fl_oti f" "ucast tsi" "ucast (fe_toi (fl_meta f))" "ucast (fl_fdt_instance_id f)"]
      s(4) p(2) by (auto simp: genuine_def)
  have "length (se_uninit env (length (wire out) + 20 + 8)) = length (wire out) + 28" using uninit by simp
  from tunnel_header [OF this] obtain header where
    d: "tunnel_datagram (se_uninit env (length (wire out) + 20 + 8)) (tr_endpoint t) (wire out) (source_of t1) = Inr (header @ wire out)"
      "length header = 28" by blast
  have inc: "\<not> fl_complete f" using sender more by (simp add: sender_file_def f_def)
  let ?t0 = "t1\<lparr>tr_send_ready := tr_send_ready t1 - 1\<rparr>"
  have "next_file ?t0 = Some i" using sending_next [OF t inc [unfolded f_def]] by (simp add: next_file_def t1)
  moreover have "0 < length (wire out)" using out(2) by simp
  ultimately have "run_send_handler env takes t1 = (Inr (), tunnelled takes t1 i f1 s e (header @ wire out))"
    using t_simps s(1) out(1) d(1) c
    by (simp add: run_send_handler_def send_next_packet_def send_packet_of_def f_def [symmetric] t1 update_file_def source_of_frame
        reschedule_def start_send_def tunnelled_def)
  with that [OF _ s(4) len c(1) s(5) d(2) out(2)] s(2,3) show ?thesis by simp
qed


text \<open>(C33) A tunnel that is set while a file is being sent empties its packets. The payload of the session
  shrinks by the 28 bytes of the tunnel's headers, the symbols of the files that are queued already do not:
  a symbol that filled the payload fits no more, so its packet has the headers and no byte of the symbol.
  The packet is sent all the same and its completion marks the symbol as transmitted.\<close>
theorem late_tunnel_drops_data:
  fixes mp :: u32 and e :: endpoint
  assumes "sending tsi mp i t" and "32 < unat mp" and "unat mp < 2013" and "sendable_file env mp (tr_store t ! i)"
    and "sender_file (fl_oti (tr_store t ! i)) (contents (tr_store t ! i)) S {} (tr_store t ! i)"
    and "\<not> symbol_pairs (fl_oti (tr_store t ! i)) \<subseteq> S"
    and "slen (fl_oti (tr_store t ! i)) = unat mp" and "unat mp dvd tlen (fl_oti (tr_store t ! i))"
    and "\<forall>n. length (se_uninit env n) = n"
  defines "f \<equiv> tr_store t ! i"
  shows "\<exists>t1 t2 p ij s header packet f2.
    tr_step env (Set_Tunnel (Some e)) t = Some (Inr (), t1) \<and> tr_step env (Send_Handler True) t1 = Some (Inr (), t2) \<and>
    tr_pending t2 = [p] \<and> pd_symbols p = [s] \<and> ij \<in> symbol_pairs (fl_oti f) - S \<and>
    genuine (fl_oti f) (contents f) ij s \<and> unat (es_len s) = unat mp \<and>
    tr_sent t2 = tr_sent t @ [(e, header @ packet)] \<and> length header = 28 \<and>
    length packet = 4 * lct_words (ucast (fe_toi (fl_meta f))) + 4 \<and>
    mark_completed (se_md5 env) (pd_symbols p) True (tr_store t2 ! pd_file p) = (Inr (), f2) \<and>
    sender_file (fl_oti f) (contents f) (insert ij S) {} f2"
proof -
  let ?t1 = "set_udp_tunnel_address env (Some e) t"
  obtain ij s f1 header packet where r: "ij \<in> symbol_pairs (fl_oti f) - S" "genuine (fl_oti f) (contents f) ij s"
    "unat (es_len s) = unat mp" "fl_meta f1 = fl_meta f" "sender_file (fl_oti f) (contents f) S {ij} f1"
    "length header = 28" "length packet = 4 * lct_words (ucast (fe_toi (fl_meta f))) + 4"
    "run_send_handler env True ?t1 = (Inr (), tunnelled True ?t1 i f1 s e (header @ packet))"
    unfolding f_def by (rule late_tunnel_handler [OF assms(1-9)])
  let ?t2 = "tunnelled True ?t1 i f1 s e (header @ packet)"
  have "i < length (tr_store ?t1)" "tr_sent ?t1 = tr_sent t" using assms(1)
    by (simp_all add: sending_def set_udp_tunnel_address_def Let_def)
  then have t2: "tr_store ?t2 ! i = f1" "tr_sent ?t2 = tr_sent t @ [(e, header @ packet)]"
    "tr_pending ?t2 = [\<lparr>pd_file = i, pd_symbols = [s], pd_endpoint = e, pd_data = None, pd_taken = True\<rparr>]"
    by (simp_all add: tunnelled_def)
  have md5: "md5_ok (se_md5 env) (contents f) (fl_meta f1)" "partition_ok (fl_oti f)"
    using sendableD(1,5) [OF assms(4)] by (simp_all add: r(4) f_def)
  note marked = sent_symbol_marked [OF md5(2,1) r(5,2) insertI1]
  have "{ij} - {ij} = {}" by simp
  note marked = marked [unfolded this]
  have steps: "tr_step env (Set_Tunnel (Some e)) t = Some (Inr (), ?t1)"
    "tr_step env (Send_Handler True) ?t1 = Some (Inr (), ?t2)" using r(8) by simp_all
  let ?p = "\<lparr>pd_file = i, pd_symbols = [s], pd_endpoint = e, pd_data = None, pd_taken = True\<rparr>"
  have p: "pd_symbols ?p = [s]" "pd_file ?p = i" by simp_all
  from marked(1) have "mark_completed (se_md5 env) (pd_symbols ?p) True (tr_store ?t2 ! pd_file ?p) =
      (Inr (), f1\<lparr>fl_source_blocks := send_blocks (file_buffer f1) (fl_oti f) (insert ij S) {}, fl_complete := symbol_pairs (fl_oti f) \<subseteq> insert ij S\<rparr>)"
    unfolding p t2(1) .
  with steps p(1) r(1-3,6,7) t2(2,3) marked(2) show ?thesis by blast
qed

definition full_sender :: "unit sender_env" where
  "full_sender = example_sender\<lparr>se_xml_print := (\<lambda>x. replicate 36 60)\<rparr>"

lemma full_session:
  obtains t0 t where "transmitter_new full_sender example_destination 7 100 0 None FDT_NS_NONE True None = (Inr (), t0)"
    and "tr_run full_sender (queue_ops 0 session_process 1 session_description) t0 = Some (Inr (), t)"
    and "sending 7 36 1 t" "tr_sent t = []" "sendable_file full_sender 36 (tr_store t ! 1)"
      "fl_oti (tr_store t ! 1) = object_oti 36 (replicate 36 60)" "fe_toi (fl_meta (tr_store t ! 1)) = 0"
      "sender_file (object_oti 36 (replicate 36 60)) (contents (tr_store t ! 1)) {} {} (tr_store t ! 1)"
proof -
  let ?data = "replicate 36 60 :: byte list"
  let ?table = "first_table full_sender 36 FDT_NS_NONE [1, 2, 3] session_description"
  let ?g = "table_object full_sender 36 0 ?table"
  have env: "sender_memory full_sender" "length (se_md5 full_sender ?data) = 16"
    "fdt_to_string (se_xml_print full_sender) (sent_table 0 ?table) = ?data"
    by (simp_all add: sender_memory_def full_sender_def example_sender_def fdt_to_string_def)
  have parts: "partition_ok (object_oti 36 [1, 2, 3])" "partition_ok (object_oti 36 ?data)"
    by (simp_all add: partition_ok_def total_blocks_def total_symbols_def ceil_div_def)
  have l: "length [1 :: byte, 2, 3] < 2 ^ 64" "length ?data < 2 ^ 64" "(36 :: u32) = ucast (100 :: u16) - 64" "4 < unat (36 :: u32)"
    by simp_all
  obtain t0 where t0: "transmitter_new full_sender example_destination 7 100 0 None FDT_NS_NONE True None = (Inr (), t0)"
    by (simp add: active_start)
  obtain t where t: "tr_run full_sender (queue_ops 0 session_process 1 session_description) t0 = Some (Inr (), t)"
    "tr_store t = [described_object full_sender 36 1 [1, 2, 3] session_description, ?g]" "sending 7 36 1 t" "tr_sent t = []"
    using queue_run [where number = 1, OF t0 l(3) env(1) example_fresh l(1) example_encodes l(1) parts(1) parts(2) [folded env(3)]] by metis
  note g = table_object_ready [of full_sender 0 ?table 36, unfolded env(3), OF l(2) parts(2) l(4) env(2)]
  have "contents ?g = ?data" "fl_oti ?g = object_oti 36 ?data" using g(2) by (simp_all add: sender_file_def contents_def)
  moreover have "fe_toi (fl_meta ?g) = 0" by (simp add: table_object_def Let_def set_fdt_instance_id_def)
  ultimately show ?thesis using that [OF t0 t(1,3,4)] g t(2) by simp
qed

theorem late_tunnel_drops_data_witness:
  "\<exists>t t1 t2 p packet header f2. sending 7 36 1 t \<and> tr_step full_sender (Set_Tunnel (Some example_destination)) t = Some (Inr (), t1) \<and>
     tr_step full_sender (Send_Handler True) t1 = Some (Inr (), t2) \<and> tr_sent t2 = [(example_destination, header @ packet)] \<and>
     length header = 28 \<and> length packet = 36 \<and> tr_pending t2 = [p] \<and>
     mark_completed (se_md5 full_sender) (pd_symbols p) True (tr_store t2 ! pd_file p) = (Inr (), f2) \<and> fl_complete f2"
proof -
  obtain t0 t where t: "sending 7 36 1 t" "tr_sent t = []" "sendable_file full_sender 36 (tr_store t ! 1)"
      "fl_oti (tr_store t ! 1) = object_oti 36 (replicate 36 60)" "fe_toi (fl_meta (tr_store t ! 1)) = 0"
      "sender_file (object_oti 36 (replicate 36 60)) (contents (tr_store t ! 1)) {} {} (tr_store t ! 1)"
    by (rule full_session)
  let ?oti = "object_oti 36 (replicate 36 60)"
  have "partition_ok ?oti" "total_symbols ?oti = 1"
    by (simp_all add: partition_ok_def total_blocks_def total_symbols_def ceil_div_def)
  then have "card (symbol_pairs ?oti) = 1" using card_symbol_pairs by simp
  then obtain x where x: "symbol_pairs ?oti = {x}" by (auto simp: card_1_singleton_iff)
  have h: "32 < unat (36 :: u32)" "unat (36 :: u32) < 2013" "slen ?oti = unat (36 :: u32)" "unat (36 :: u32) dvd tlen ?oti"
    "\<forall>n. length (se_uninit full_sender n) = n" "\<not> symbol_pairs ?oti \<subseteq> {}"
    using x by (simp_all add: full_sender_def example_sender_def)
  have all: "symbol_pairs ?oti \<subseteq> insert ij {}" if "ij \<in> symbol_pairs ?oti - {}" for ij using x that by auto
  note r = late_tunnel_drops_data [where e = example_destination, OF t(1) h(1,2) t(3) t(6) [folded t(4)] h(6,3,4) [folded t(4)] h(5)]
  then obtain t1 t2 p ij s header packet f2 where r: "tr_step full_sender (Set_Tunnel (Some example_destination)) t = Some (Inr (), t1)"
    "tr_step full_sender (Send_Handler True) t1 = Some (Inr (), t2)" "tr_pending t2 = [p]" "ij \<in> symbol_pairs ?oti - {}"
    "tr_sent t2 = tr_sent t @ [(example_destination, header @ packet)]" "length header = 28"
    "length packet = 4 * lct_words (ucast (fe_toi (fl_meta (tr_store t ! 1)))) + 4"
    "mark_completed (se_md5 full_sender) (pd_symbols p) True (tr_store t2 ! pd_file p) = (Inr (), f2)"
    "sender_file ?oti (contents (tr_store t ! 1)) (insert ij {}) {} f2"
    unfolding t(4) by blast
  have "fl_complete f2" using r(9) all [OF r(4)] unfolding sender_file_def by blast
  moreover have "length packet = 36" using r(7) t(5) by (simp add: lct_words_def)
  ultimately show ?thesis using t(1,2) r(1-3,5,6,8)
    by (intro exI [of _ t] exI [of _ t1] exI [of _ t2] exI [of _ p] exI [of _ packet] exI [of _ header] exI [of _ f2])
      (simp del: tr_step.simps)
qed

section \<open>The buffer of the tunnel\<close>

lemma tunnel_send_deleted:
  assumes "send_packet_of env takes i t = (Inr n, t')" and "tr_tunnel t = Some e"
  shows "tr_pending t' = tr_pending t \<or>
    (\<exists>p. tr_pending t' = tr_pending t @ [p] \<and> pd_taken p = takes \<and> pd_data p = None \<and> pd_endpoint p = e)"
  using assms
  by (auto simp: send_packet_of_def Let_def update_file_def start_send_def split: sum.splits prod.splits if_splits)

lemma reschedule_pending [simp]: "tr_pending (reschedule n t) = tr_pending t"
  by (simp add: reschedule_def start_send_timer_def cancel_send_timer_def Let_def)

text \<open>(C34) Through a tunnel, a datagram the socket does not take at once is read from freed memory when it
  is sent at last: the buffer is deleted right after the send has been started.\<close>
theorem tunnel_buffer_freed:
  assumes "tr_tunnel t = Some e" and "tr_step env (Send_Handler False) t = Some (Inr (), t1)"
    and "tr_pending t1 \<noteq> tr_pending t"
  shows "tr_enabled (Completion now False (length (tr_pending t))) t1 \<and>
    (\<exists>t2. tr_step env (Completion now False (length (tr_pending t))) t1 = Some (Inl (Undefined ''read of freed memory''), t2))"
proof -
  let ?t0 = "t\<lparr>tr_send_ready := tr_send_ready t - 1\<rparr>"
  have step: "send_next_packet env False ?t0 = (Inr (), t1)" using assms(2) by (simp add: run_send_handler_def)
  have act: "tr_active ?t0"
    using step assms(3) by (cases "tr_active t") (auto simp: send_next_packet_def)
  from send_next_packet_cases [OF step act] obtain n t' where
    t': "(case next_file ?t0 of None \<Rightarrow> (Inr 0, ?t0) | Some i \<Rightarrow> send_packet_of env False i ?t0) = (Inr n, t')"
      "t1 = reschedule n t'" by metis
  have "tr_pending t' \<noteq> tr_pending t" using assms(3) t'(2) by simp
  then obtain p where p: "tr_pending t' = tr_pending t @ [p]" "\<not> pd_taken p" "pd_data p = None"
    using t'(1) tunnel_send_deleted [of env False _ ?t0 n t' e] assms(1) by (fastforce split: option.splits)
  then have "tr_pending t1 ! length (tr_pending t) = p" "length (tr_pending t) < length (tr_pending t1)"
    using t'(2) by simp_all
  with p(2,3) show ?thesis by (simp add: run_completion_def send_completed_def transmit_late_def)
qed


theorem tunnel_buffer_freed_witness:
  "\<exists>t t1 t2. sending 7 36 1 t \<and>
     tr_run full_sender [Set_Tunnel (Some example_destination), Send_Handler False] t = Some (Inr (), t1) \<and>
     tr_step full_sender (Completion 0 False 0) t1 = Some (Inl (Undefined ''read of freed memory''), t2)"
proof -
  obtain t0 t where t: "sending 7 36 1 t" "sendable_file full_sender 36 (tr_store t ! 1)"
      "fl_oti (tr_store t ! 1) = object_oti 36 (replicate 36 60)"
      "sender_file (object_oti 36 (replicate 36 60)) (contents (tr_store t ! 1)) {} {} (tr_store t ! 1)"
    by (rule full_session)
  let ?oti = "object_oti 36 (replicate 36 60)" and ?t1 = "set_udp_tunnel_address full_sender (Some example_destination) t"
  have "partition_ok ?oti" "total_symbols ?oti = 1"
    by (simp_all add: partition_ok_def total_blocks_def total_symbols_def ceil_div_def)
  then have "card (symbol_pairs ?oti) = 1" using card_symbol_pairs by simp
  then have more: "\<not> symbol_pairs ?oti \<subseteq> {}" by auto
  have h: "32 < unat (36 :: u32)" "unat (36 :: u32) < 2013" "slen ?oti = unat (36 :: u32)" "unat (36 :: u32) dvd tlen ?oti"
    "\<forall>n. length (se_uninit full_sender n) = n"
    by (simp_all add: full_sender_def example_sender_def)
  obtain s f1 d where handler: "run_send_handler full_sender False ?t1 =
      (Inr (), tunnelled False ?t1 1 f1 s example_destination d)"
    by (rule late_tunnel_handler [where e = example_destination and takes = False, OF t(1) h(1,2) t(2) t(4) [folded t(3)]
          more [folded t(3)] h(3,4) [folded t(3)] h(5)]) blast
  let ?t2 = "tunnelled False ?t1 1 f1 s example_destination d"
  have pending: "tr_pending ?t1 = []" "tr_tunnel ?t1 = Some example_destination" "tr_pending ?t2 \<noteq> tr_pending ?t1"
    "0 < tr_send_ready ?t1"
    using t(1) by (simp_all add: sending_def set_udp_tunnel_address_def Let_def tunnelled_def)
  have step: "tr_step full_sender (Send_Handler False) ?t1 = Some (Inr (), ?t2)" using handler by simp
  from tunnel_buffer_freed [OF pending(2) step pending(3), of 0] obtain t3 where
    "tr_step full_sender (Completion 0 False 0) ?t2 = Some (Inl (Undefined ''read of freed memory''), t3)"
    using pending(1) by auto
  moreover have "tr_run full_sender [Set_Tunnel (Some example_destination), Send_Handler False] t = Some (Inr (), ?t2)"
    using step pending(4) by simp
  ultimately show ?thesis using t(1) by blast
qed

end
