(* ===== verification/Ip_Sec.thy ===== *)
theory Ip_Sec
  imports C_Numbers Ordered_Map
begin

text \<open>
  \<^verbatim>\<open>IpSec.cpp\<close>: the security association and the policy that \<^verbatim>\<open>enable_esp\<close> asks the kernel for, as the
  netlink messages it sends, with the address and key parsers of the C library it uses. Words that the code
  converts with \<^verbatim>\<open>htonl\<close> or gets from \<^verbatim>\<open>inet_addr\<close> are their four bytes in memory.
\<close>

section \<open>The C library\<close>

text \<open>\<^verbatim>\<open>strtol\<close> in base 16. The code calls it on two characters, so the value never saturates.\<close>

definition skip_0x :: "string \<Rightarrow> string" where
  "skip_0x s =
     (case s of
        c0 # c1 # c2 # t \<Rightarrow>
          if c0 = CHR ''0'' \<and> (c1 = CHR ''x'' \<or> c1 = CHR ''X'') \<and> digit_val 16 c2 \<noteq> None then c2 # t else s
      | _ \<Rightarrow> s)"

definition c_strtol_hex :: "string \<Rightarrow> int" where
  "c_strtol_hex s =
     (let (neg, t) = split_sign (dropWhile c_isspace s);
          v = int (digits_value 16 (digits_of 16 (skip_0x t)))
      in if neg then - v else v)"

text \<open>\<^verbatim>\<open>inet_addr\<close>: up to four numbers, decimal, octal or hexadecimal, the last one filling the bytes that are
  left; what is not an address gives \<^verbatim>\<open>INADDR_NONE\<close>.\<close>

definition address_number :: "string \<Rightarrow> (nat \<times> string) option" where
  "address_number s =
     (case s of
        [] \<Rightarrow> None
      | c # _ \<Rightarrow>
          if digit_val 10 c = None then None
          else let (base, u) = detect_base s
               in Some (digits_value base (digits_of base u), dropWhile (\<lambda>c. digit_val base c \<noteq> None) u))"

fun address_parts :: "nat \<Rightarrow> string \<Rightarrow> (nat list \<times> string) option" where
  "address_parts 0 s = None"
| "address_parts (Suc n) s =
     (case address_number s of
        None \<Rightarrow> None
      | Some (v, rest) \<Rightarrow>
          (case rest of
             c # t \<Rightarrow>
               if c = CHR ''.''
               then (if 255 < v then None
                     else case address_parts n t of None \<Rightarrow> None | Some (vs, r) \<Rightarrow> Some (v # vs, r))
               else Some ([v], rest)
           | [] \<Rightarrow> Some ([v], rest)))"

definition address_value :: "nat list \<Rightarrow> nat option" where
  "address_value vs =
     (let k = 5 - length vs in
      if last vs < 256 ^ k then Some (foldl (\<lambda>a v. a * 256 + v) 0 (butlast vs) * 256 ^ k + last vs) else None)"

definition inet_addr :: "string \<Rightarrow> byte list" where
  "inet_addr s =
     be32_enc (case address_parts 4 s of
       None \<Rightarrow> 0xFFFFFFFF
     | Some (vs, rest) \<Rightarrow>
         (case address_value vs of
            None \<Rightarrow> 0xFFFFFFFF
          | Some v \<Rightarrow> if rest = [] \<or> c_isspace (hd rest) then of_nat v else 0xFFFFFFFF))"

section \<open>The structures of the kernel\<close>

datatype direction = Direction_In | Direction_Out

text \<open>The members the code sets; the structures are zero otherwise.\<close>

record xfrm_selector =
  sel_family :: u16
  sel_saddr :: "byte list"
  sel_daddr :: "byte list"
  sel_prefixlen_d :: byte

record xfrm_id =
  id_daddr :: "byte list"
  id_spi :: "byte list"
  id_proto :: byte

record xfrm_lifetime =
  soft_byte_limit :: u64
  hard_byte_limit :: u64
  soft_packet_limit :: u64
  hard_packet_limit :: u64

record xfrm_userpolicy_info =
  xp_sel :: xfrm_selector
  xp_lft :: xfrm_lifetime
  xp_dir :: byte

record xfrm_user_tmpl =
  tm_id :: xfrm_id
  tm_family :: u16
  tm_saddr :: "byte list"
  tm_reqid :: u32
  tm_mode :: byte
  tm_aalgos :: u32
  tm_ealgos :: u32
  tm_calgos :: u32

record xfrm_usersa_info =
  xs_sel :: xfrm_selector
  xs_id :: xfrm_id
  xs_saddr :: "byte list"
  xs_lft :: xfrm_lifetime
  xs_reqid :: u32
  xs_family :: u16
  xs_mode :: byte

record xfrm_algo =
  alg_name :: string
  alg_key_len :: u32
  alg_key :: "byte list"

datatype netlink_message =
    XFRM_MSG_NEWSA xfrm_usersa_info xfrm_algo
  | XFRM_MSG_UPDPOLICY xfrm_userpolicy_info xfrm_user_tmpl

text \<open>What the process has handed to the kernel, and the netlink sockets it holds open. Neither function
  closes its socket or looks at what the kernel answers.\<close>

record netlink =
  nl_sent :: "netlink_message list"
  nl_sockets :: nat

definition nl_send :: "netlink_message \<Rightarrow> netlink \<Rightarrow> netlink" where
  "nl_send m k = k\<lparr>nl_sent := nl_sent k @ [m], nl_sockets := nl_sockets k + 1\<rparr>"

definition AF_INET :: u16 where "AF_INET = 2"
definition IPPROTO_ESP :: byte where "IPPROTO_ESP = 50"
definition XFRM_MODE_TRANSPORT :: byte where "XFRM_MODE_TRANSPORT = 0"
definition XFRM_INF :: u64 where "XFRM_INF = - 1"
definition INADDR_ANY :: "byte list" where "INADDR_ANY = [0, 0, 0, 0]"

definition xfrm_policy_dir :: "direction \<Rightarrow> byte" where
  "xfrm_policy_dir d = (if d = Direction_In then 0 else 1)"

definition unlimited :: xfrm_lifetime where
  "unlimited = \<lparr>soft_byte_limit = XFRM_INF, hard_byte_limit = XFRM_INF, soft_packet_limit = XFRM_INF,
                hard_packet_limit = XFRM_INF\<rparr>"

section \<open>The functions\<close>

definition esp_id :: "u32 \<Rightarrow> string \<Rightarrow> xfrm_id" where
  "esp_id spi dest_address =
     \<lparr>id_daddr = inet_addr dest_address, id_spi = be32_enc spi, id_proto = IPPROTO_ESP\<rparr>"

definition esp_selector :: "string \<Rightarrow> xfrm_selector" where
  "esp_selector dest_address =
     \<lparr>sel_family = AF_INET, sel_saddr = INADDR_ANY, sel_daddr = inet_addr dest_address, sel_prefixlen_d = 32\<rparr>"

definition esp_policy :: "string \<Rightarrow> direction \<Rightarrow> xfrm_userpolicy_info" where
  "esp_policy dest_address direction =
     \<lparr>xp_sel = esp_selector dest_address, xp_lft = unlimited, xp_dir = xfrm_policy_dir direction\<rparr>"

definition esp_tmpl :: "u32 \<Rightarrow> string \<Rightarrow> xfrm_user_tmpl" where
  "esp_tmpl spi dest_address =
     \<lparr>tm_id = esp_id spi dest_address, tm_family = AF_INET, tm_saddr = INADDR_ANY, tm_reqid = spi,
      tm_mode = XFRM_MODE_TRANSPORT, tm_aalgos = NOT 0, tm_ealgos = NOT 0, tm_calgos = NOT 0\<rparr>"

definition configure_policy :: "u32 \<Rightarrow> string \<Rightarrow> direction \<Rightarrow> netlink \<Rightarrow> netlink" where
  "configure_policy spi dest_address direction k =
     nl_send (XFRM_MSG_UPDPOLICY (esp_policy dest_address direction) (esp_tmpl spi dest_address)) k"

text \<open>The loop over the key, two characters at a time.\<close>

fun binary_key :: "string \<Rightarrow> byte list" where
  "binary_key [] = []"
| "binary_key [c] = [word_of_int (c_strtol_hex [c])]"
| "binary_key (c # d # cs) = word_of_int (c_strtol_hex [c, d]) # binary_key cs"

definition esp_state :: "u32 \<Rightarrow> string \<Rightarrow> xfrm_usersa_info" where
  "esp_state spi dest_address =
     \<lparr>xs_sel = esp_selector dest_address, xs_id = esp_id spi dest_address, xs_saddr = INADDR_ANY, xs_lft = unlimited,
      xs_reqid = spi, xs_family = AF_INET, xs_mode = XFRM_MODE_TRANSPORT\<rparr>"

definition esp_algo :: "byte list \<Rightarrow> xfrm_algo" where
  "esp_algo key = \<lparr>alg_name = ''aes'', alg_key_len = of_nat (length key * 8), alg_key = key\<rparr>"

text \<open>The bytes of the key are copied from the address of its first one, which an empty key does not have.\<close>

definition configure_state :: "u32 \<Rightarrow> string \<Rightarrow> direction \<Rightarrow> string \<Rightarrow> netlink \<Rightarrow> netlink outcome" where
  "configure_state spi dest_address direction key k =
     (if 512 < length (binary_key key) then (Inl (CStr ''Key is too long''), k)
      else if binary_key key = [] then (Inl (Undefined ''element of an empty vector''), k)
      else (Inr (), nl_send (XFRM_MSG_NEWSA (esp_state spi dest_address) (esp_algo (binary_key key))) k))"

definition enable_esp :: "u32 \<Rightarrow> string \<Rightarrow> direction \<Rightarrow> string \<Rightarrow> netlink \<Rightarrow> netlink outcome" where
  "enable_esp spi dest_address direction key k =
     and_then (configure_state spi dest_address direction key k)
       (\<lambda>k. (Inr (), configure_policy spi dest_address direction k))"

text \<open>What the transmitter and the receiver call it with; \<open>mcast\<close> is the address they were made with.\<close>

definition transmitter_enable_ipsec :: "string \<Rightarrow> u32 \<Rightarrow> string \<Rightarrow> netlink \<Rightarrow> netlink outcome" where
  "transmitter_enable_ipsec mcast spi key k = enable_esp spi mcast Direction_Out key k"

definition receiver_enable_ipsec :: "string \<Rightarrow> u32 \<Rightarrow> string \<Rightarrow> netlink \<Rightarrow> netlink outcome" where
  "receiver_enable_ipsec mcast spi key k = enable_esp spi mcast Direction_In key k"


section \<open>Addresses and keys\<close>

definition dotted_quad :: "byte \<Rightarrow> byte \<Rightarrow> byte \<Rightarrow> byte \<Rightarrow> string" where
  "dotted_quad a b c d = dec_string (unat a) @ ''.'' @ dec_string (unat b) @ ''.'' @ dec_string (unat c) @ ''.'' @ dec_string (unat d)"

definition hex_char :: "bool \<Rightarrow> nat \<Rightarrow> char" where
  "hex_char upper n = char_of (if n < 10 then 48 + n else if upper then 55 + n else 87 + n)"

definition hex_byte :: "bool \<Rightarrow> byte \<Rightarrow> string" where
  "hex_byte upper b = [hex_char upper (unat b div 16), hex_char upper (unat b mod 16)]"

definition hex_string :: "bool \<Rightarrow> byte list \<Rightarrow> string" where
  "hex_string upper bs = concat (map (hex_byte upper) bs)"

lemma hex_char_code: "n < 16 \<Longrightarrow> of_char (hex_char upper n) = (if n < 10 then 48 + n else if upper then 55 + n else 87 + n)"
  by (simp add: hex_char_def take_bit_nat_eq_self)

lemma hex_char_digit [simp]:
  assumes "n < 16"
  shows "digit_val 16 (hex_char upper n) = Some n" "\<not> c_isspace (hex_char upper n)"
    "hex_char upper n \<noteq> CHR ''-''" "hex_char upper n \<noteq> CHR ''+''"
proof -
  note code = hex_char_code [OF assms, of upper]
  show "digit_val 16 (hex_char upper n) = Some n" "\<not> c_isspace (hex_char upper n)"
    using assms by (simp_all add: digit_val_def c_isspace_def code)
  have "of_char (hex_char upper n) \<noteq> (45 :: nat)" "of_char (hex_char upper n) \<noteq> (43 :: nat)" using assms by (simp_all add: code)
  then show "hex_char upper n \<noteq> CHR ''-''" "hex_char upper n \<noteq> CHR ''+''" by auto
qed

lemma split_sign_set: "split_sign s = (neg, t) \<Longrightarrow> set t \<subseteq> set s"
  by (cases s rule: split_sign.cases) (auto split: if_splits)

lemma c_strtol_hex_byte: "(word_of_int (c_strtol_hex (hex_byte upper b)) :: byte) = b"
proof -
  have b: "unat b div 16 < 16" "unat b mod 16 < 16" using unat_bound [of b] by (simp_all add: less_mult_imp_div_less)
  then have "c_strtol_hex (hex_byte upper b) = int (unat b)"
    by (simp add: c_strtol_hex_def hex_byte_def skip_0x_def digits_of_def digits_value_def)
  then show ?thesis by simp
qed

lemma binary_key_hex: "binary_key (hex_string upper bs) = bs"
proof (induction bs)
  case (Cons b bs)
  then show ?case using c_strtol_hex_byte [of upper b] by (simp add: hex_string_def hex_byte_def)
qed (simp add: hex_string_def)

lemma binary_key_length: "length (binary_key key) = (length key + 1) div 2"
  by (induction key rule: binary_key.induct) simp_all

lemma c_strtol_hex_none:
  assumes "\<forall>c \<in> set s. digit_val 16 c = None"
  shows "c_strtol_hex s = 0"
proof -
  obtain neg t where t: "split_sign (dropWhile c_isspace s) = (neg, t)" by fastforce
  have "set t \<subseteq> set (dropWhile c_isspace s)" by (rule split_sign_set [OF t])
  then have none: "\<forall>c \<in> set t. digit_val 16 c = None" using assms set_dropWhileD by fast
  then have "skip_0x t = t" by (auto simp: skip_0x_def split: list.split)
  moreover have "digits_of 16 t = []" using none by (cases t) (simp_all add: digits_of_def)
  ultimately show ?thesis using t by (simp add: c_strtol_hex_def digits_value_def)
qed

lemma binary_key_none:
  "\<forall>c \<in> set key. digit_val 16 c = None \<Longrightarrow> binary_key key = replicate ((length key + 1) div 2) 0"
  by (induction key rule: binary_key.induct) (simp_all add: c_strtol_hex_none)


lemma digits_of_stop:
  assumes "\<forall>c \<in> set s. digit_val base c \<noteq> None" and "rest = [] \<or> digit_val base (hd rest) = None"
  shows "digits_of base (s @ rest) = digits_of base s" "dropWhile (\<lambda>c. digit_val base c \<noteq> None) (s @ rest) = rest"
proof -
  have "takeWhile (\<lambda>c. digit_val base c \<noteq> None) rest = []" "dropWhile (\<lambda>c. digit_val base c \<noteq> None) rest = rest"
    using assms(2) by (cases rest; simp)+
  then show "digits_of base (s @ rest) = digits_of base s" "dropWhile (\<lambda>c. digit_val base c \<noteq> None) (s @ rest) = rest"
    using assms(1) by (simp_all add: digits_of_def takeWhile_append2 dropWhile_append2 takeWhile_eq_all_conv [THEN iffD2])
qed

lemma address_number_dec:
  assumes "rest = [] \<or> hd rest = CHR ''.''"
  shows "address_number (dec_string n @ rest) = Some (n, rest)"
proof (cases "n = 0")
  case True
  have "dec_string 0 = ''0''" using digit_char_plain(4) [of 0] by (subst dec_string.simps) simp
  moreover have "digit_val 8 CHR ''.'' = None" "digit_val 8 CHR ''0'' = Some 0" "digit_val 10 CHR ''0'' = Some 0"
    by (simp_all add: digit_val_def)
  ultimately show ?thesis using assms True
    by (cases rest)
      (auto simp: address_number_def detect_base_def digits_of_def digits_value_def split: list.split)
next
  case False
  obtain c s where cs: "dec_string n = c # s" using dec_string_nonempty by (meson list.exhaust)
  have "c \<noteq> CHR ''0''" using dec_string_head [of n] False digit_char_plain(4) cs by fastforce
  then have base: "detect_base (c # s @ rest) = (10, dec_string n @ rest)"
    using cs by (simp add: detect_base_def split: list.split)
  have "digit_val 10 CHR ''.'' = None" by (simp add: digit_val_def)
  with assms have "rest = [] \<or> digit_val 10 (hd rest) = None" by auto
  note stop = digits_of_stop [OF dec_string_digit_vals this]
  obtain v where "digit_val 10 c = Some v" using dec_string_digit_vals [of n] cs by auto
  then have "address_number (c # s @ rest) = Some (digits_value 10 (digits_of 10 (dec_string n @ rest)),
      dropWhile (\<lambda>c. digit_val 10 c \<noteq> None) (dec_string n @ rest))"
    by (simp add: address_number_def base)
  then have "address_number (c # s @ rest) = Some (n, rest)" unfolding stop dec_string_parse .
  then show ?thesis by (simp add: cs)
qed

lemma be32_enc_quad:
  "be32_enc (of_nat (((unat a * 256 + unat b) * 256 + unat c) * 256 + unat d)) = [a, b, c, d]" (is "be32_enc (of_nat ?n) = _")
proof -
  have l: "unat a < 256" "unat b < 256" "unat c < 256" "unat d < 256"
    using unat_bound [of a] unat_bound [of b] unat_bound [of c] unat_bound [of d] by simp_all
  have enc: "unat (ucast (drop_bit k (of_nat n :: u32)) :: byte) = n div 2 ^ k mod 256" "unat (ucast (of_nat n :: u32) :: byte) = n mod 256"
    if "n < 2 ^ 32" for n k
  proof -
    have u: "unat (of_nat n :: u32) = n" using that by (simp add: unat_of_nat take_bit_nat_eq_self)
    show "unat (ucast (drop_bit k (of_nat n :: u32)) :: byte) = n div 2 ^ k mod 256" "unat (ucast (of_nat n :: u32) :: byte) = n mod 256"
      using that by (simp_all add: unsigned_ucast_eq unsigned_drop_bit_eq u take_bit_eq_mod) (simp add: drop_bit_eq_div)?
  qed
  have "?n < 2 ^ 32" using l by simp
  note enc [OF this]
  moreover have "?n div 2 ^ 24 mod 256 = unat a" "?n div 2 ^ 16 mod 256 = unat b" "?n div 2 ^ 8 mod 256 = unat c"
    "?n mod 256 = unat d"
  proof -
    have byte: "(x * 256 + y) div 256 = x" "(x * 256 + y) mod 256 = y" if "y < 256" for x y :: nat using that by simp_all
    have powers: "(2 :: nat) ^ 24 = 256 * (256 * 256)" "(2 :: nat) ^ 16 = 256 * 256" "(2 :: nat) ^ 8 = 256" by simp_all
    show "?n div 2 ^ 24 mod 256 = unat a" "?n div 2 ^ 16 mod 256 = unat b" "?n div 2 ^ 8 mod 256 = unat c" "?n mod 256 = unat d"
      using l(1) by (simp_all only: powers div_mult2_eq byte l mod_less)
  qed
  ultimately show ?thesis unfolding be32_enc_def by (simp only: list.inject word_unat_eq_iff)
qed

lemma inet_addr_quad: "inet_addr (dotted_quad a b c d) = [a, b, c, d]"
proof -
  have small: "unat x \<le> 255" for x :: byte using unat_bound [of x] by simp
  have four: "(4 :: nat) = Suc (Suc (Suc (Suc 0)))" by simp
  have last_part: "address_number (dec_string (unat d)) = Some (unat d, [])"
    using address_number_dec [of "[]" "unat d"] by simp
  have part: "address_number (dec_string n @ CHR ''.'' # rest) = Some (n, CHR ''.'' # rest)" for n rest
    by (rule address_number_dec) simp
  have "address_parts 4 (dotted_quad a b c d) = Some ([unat a, unat b, unat c, unat d], [])"
    using small [of a] small [of b] small [of c]
    by (simp add: dotted_quad_def four part last_part not_less [THEN iffD2] del: dec_string.simps)
  moreover have "address_value [unat a, unat b, unat c, unat d] = Some (((unat a * 256 + unat b) * 256 + unat c) * 256 + unat d)"
    using small [of d] by (simp add: address_value_def)
  ultimately show ?thesis using be32_enc_quad [of a b c d]
    by (simp add: inet_addr_def del: of_nat_add of_nat_mult)
qed


section \<open>What the kernel is asked for\<close>

lemma enable_esp_empty: "enable_esp spi dest direction [] k = (Inl (Undefined ''element of an empty vector''), k)"
  by (simp add: enable_esp_def configure_state_def)

lemma enable_esp_sends:
  "length (binary_key key) \<le> 512 \<Longrightarrow> binary_key key \<noteq> [] \<Longrightarrow> enable_esp spi dest direction key k =
     (Inr (), k\<lparr>nl_sent := nl_sent k @ [XFRM_MSG_NEWSA (esp_state spi dest) (esp_algo (binary_key key)),
                                       XFRM_MSG_UPDPOLICY (esp_policy dest direction) (esp_tmpl spi dest)],
               nl_sockets := nl_sockets k + 2\<rparr>)"
  by (simp add: enable_esp_def configure_state_def configure_policy_def nl_send_def)

text \<open>(C39) With a key of one to 512 bytes in hexadecimal, \<^verbatim>\<open>enable_esp\<close> sends two messages, first the security
  association and then the policy that uses it: both for packets to the address of the session, with the
  same parameter index, for ESP in transport mode without a lifetime, the policy in the direction asked
  for, and the key is the one the digits stand for, upper or lower case. Without a key it takes the address of the
  first element of an empty vector, which is undefined.\<close>
theorem esp_configured:
  assumes "length ks \<le> 512"
  shows "if ks = [] then enable_esp spi (dotted_quad a b c d) direction (hex_string upper ks) k =
      (Inl (Undefined ''element of an empty vector''), k)
   else \<exists>sa algo policy tmpl.
    enable_esp spi (dotted_quad a b c d) direction (hex_string upper ks) k =
      (Inr (), k\<lparr>nl_sent := nl_sent k @ [XFRM_MSG_NEWSA sa algo, XFRM_MSG_UPDPOLICY policy tmpl],
                nl_sockets := nl_sockets k + 2\<rparr>) \<and>
    alg_name algo = ''aes'' \<and> alg_key algo = ks \<and> unat (alg_key_len algo) = 8 * length ks \<and>
    id_daddr (xs_id sa) = [a, b, c, d] \<and> be32_dec (id_spi (xs_id sa)) = spi \<and> tm_id tmpl = xs_id sa \<and>
    sel_daddr (xs_sel sa) = [a, b, c, d] \<and> sel_prefixlen_d (xs_sel sa) = 32 \<and> xp_sel policy = xs_sel sa \<and>
    id_proto (xs_id sa) = IPPROTO_ESP \<and> xs_mode sa = XFRM_MODE_TRANSPORT \<and> tm_mode tmpl = XFRM_MODE_TRANSPORT \<and>
    tm_reqid tmpl = xs_reqid sa \<and> xs_lft sa = unlimited \<and> xp_lft policy = unlimited \<and>
    xp_dir policy = xfrm_policy_dir direction"
proof (cases "ks = []")
  case True
  then show ?thesis by (simp add: hex_string_def enable_esp_empty)
next
  case False
  let ?dest = "dotted_quad a b c d"
  have "unat (of_nat (length ks * 8) :: u32) = 8 * length ks"
    using assms by (simp add: unat_of_nat take_bit_nat_eq_self mult.commute del: of_nat_mult)
  moreover have "length (binary_key (hex_string upper ks)) \<le> 512" "binary_key (hex_string upper ks) \<noteq> []"
    using assms False by (simp_all add: binary_key_hex)
  from enable_esp_sends [OF this, of spi ?dest direction k, unfolded binary_key_hex]
  have "enable_esp spi ?dest direction (hex_string upper ks) k = (Inr (), k\<lparr>nl_sent := nl_sent k @
      [XFRM_MSG_NEWSA (esp_state spi ?dest) (esp_algo ks), XFRM_MSG_UPDPOLICY (esp_policy ?dest direction) (esp_tmpl spi ?dest)],
      nl_sockets := nl_sockets k + 2\<rparr>)" .
  ultimately show ?thesis
    unfolding if_not_P [OF False]
    by (intro exI [of _ "esp_state spi ?dest"] exI [of _ "esp_algo ks"] exI [of _ "esp_policy ?dest direction"]
        exI [of _ "esp_tmpl spi ?dest"])
      (simp add: esp_state_def esp_algo_def esp_policy_def esp_tmpl_def esp_id_def esp_selector_def inet_addr_quad
        del: of_nat_mult)
qed

theorem esp_configured_witness:
  "\<exists>sa algo policy tmpl.
    enable_esp 7 (dotted_quad 224 0 0 1) Direction_In (hex_string False [0xA1, 0x02]) \<lparr>nl_sent = [], nl_sockets = 0\<rparr> =
      (Inr (), \<lparr>nl_sent = [XFRM_MSG_NEWSA sa algo, XFRM_MSG_UPDPOLICY policy tmpl], nl_sockets = 2\<rparr>) \<and>
    alg_key algo = [0xA1, 0x02] \<and> unat (alg_key_len algo) = 16 \<and> id_daddr (xs_id sa) = [224, 0, 0, 1]"
  using esp_configured [of "[0xA1, 0x02]" 7 224 0 0 1 Direction_In False "\<lparr>nl_sent = [], nl_sockets = 0\<rparr>"] by auto

text \<open>What \<^verbatim>\<open>enable_esp\<close> does with other keys. One that is too long is refused before anything is sent.
  One without a single hexadecimal digit is accepted: the association gets a key of zeros.\<close>
theorem esp_key_unchecked:
  "(1024 < length key \<longrightarrow> enable_esp spi dest direction key k = (Inl (CStr ''Key is too long''), k)) \<and>
   (key \<noteq> [] \<and> length key \<le> 1024 \<and> (\<forall>x \<in> set key. digit_val 16 x = None) \<longrightarrow>
      (\<exists>sa algo policy tmpl. enable_esp spi dest direction key k =
         (Inr (), k\<lparr>nl_sent := nl_sent k @ [XFRM_MSG_NEWSA sa algo, XFRM_MSG_UPDPOLICY policy tmpl],
                   nl_sockets := nl_sockets k + 2\<rparr>) \<and>
         alg_key algo = replicate ((length key + 1) div 2) 0))"
proof (intro conjI impI)
  assume "1024 < length key"
  then have "512 < length (binary_key key)" unfolding binary_key_length by linarith
  then show "enable_esp spi dest direction key k = (Inl (CStr ''Key is too long''), k)"
    by (simp add: enable_esp_def configure_state_def)
next
  assume key: "key \<noteq> [] \<and> length key \<le> 1024 \<and> (\<forall>x \<in> set key. digit_val 16 x = None)"
  then have "length (binary_key key) \<le> 512" unfolding binary_key_length by linarith
  moreover have "binary_key key \<noteq> []" using key by (cases key rule: binary_key.cases) simp_all
  ultimately show "\<exists>sa algo policy tmpl. enable_esp spi dest direction key k =
         (Inr (), k\<lparr>nl_sent := nl_sent k @ [XFRM_MSG_NEWSA sa algo, XFRM_MSG_UPDPOLICY policy tmpl],
                   nl_sockets := nl_sockets k + 2\<rparr>) \<and>
         alg_key algo = replicate ((length key + 1) div 2) 0"
    using key enable_esp_sends [of key spi dest direction k] binary_key_none [of key]
    by (intro exI conjI) (assumption, simp add: esp_algo_def)
qed

theorem esp_key_unchecked_witness:
  "enable_esp 7 ''224.0.0.1'' Direction_Out (replicate 1025 CHR ''a'') \<lparr>nl_sent = [], nl_sockets = 0\<rparr> =
     (Inl (CStr ''Key is too long''), \<lparr>nl_sent = [], nl_sockets = 0\<rparr>) \<and>
   (\<exists>sa algo policy tmpl. enable_esp 7 ''224.0.0.1'' Direction_Out ''my input'' \<lparr>nl_sent = [], nl_sockets = 0\<rparr> =
      (Inr (), \<lparr>nl_sent = [XFRM_MSG_NEWSA sa algo, XFRM_MSG_UPDPOLICY policy tmpl], nl_sockets = 2\<rparr>) \<and>
      alg_key algo = [0, 0, 0, 0])"
proof -
  let ?k = "\<lparr>nl_sent = [], nl_sockets = 0\<rparr>"
  have none: "''my input'' \<noteq> [] \<and> length ''my input'' \<le> 1024 \<and> (\<forall>x \<in> set ''my input''. digit_val 16 x = None)" by (simp add: digit_val_def)
  have four: "replicate ((length ''my input'' + 1) div 2) 0 = [0, 0, 0, 0 :: byte]" by code_simp
  have sent: "?k\<lparr>nl_sent := nl_sent ?k @ ms, nl_sockets := nl_sockets ?k + 2\<rparr> = \<lparr>nl_sent = ms, nl_sockets = 2\<rparr>" for ms
    by simp
  have long: "1024 < length (replicate 1025 CHR ''a'')" unfolding length_replicate by simp
  note all = esp_key_unchecked [of _ 7 "''224.0.0.1''" Direction_Out ?k, unfolded sent]
  from all [THEN conjunct1, rule_format, OF long] all [THEN conjunct2, rule_format, OF none, unfolded four]
  show ?thesis by (rule conjI)
qed

end
