(* ===== verification/Example_Programs.thy ===== *)
theory Example_Programs
  imports C_Numbers Receiver
begin

text \<open>
  The programs of \<^verbatim>\<open>src/examples\<close>: their options, the file the receiver writes for what the library
  delivers, and the transmitter's repetitions. The option parser of the C library is the order in which it
  calls \<^verbatim>\<open>parse_opt\<close>; the file system is what files hold, and \<open>writable\<close> the paths \<^verbatim>\<open>fopen\<close> opens for
  writing.
\<close>

section \<open>Options\<close>

text \<open>\<^verbatim>\<open>strtoul\<close> in base 10.\<close>

definition c_strtoul :: "string \<Rightarrow> u64" where
  "c_strtoul s =
     (let (neg, t) = split_sign (dropWhile c_isspace s);
          v = digits_value 10 (digits_of 10 t)
      in if 2 ^ 64 \<le> v then - 1 else if neg then - of_nat v else of_nat v)"

record receiver_arguments =
  ra_flute_interface :: string
  ra_mcast_target :: string
  ra_enable_ipsec :: bool
  ra_aes_key :: "string option"
  ra_mcast_port :: u16
  ra_log_level :: u32
  ra_tsi :: u64
  ra_output_path :: "string option"

definition receiver_defaults :: receiver_arguments where
  "receiver_defaults =
     \<lparr>ra_flute_interface = ''0.0.0.0'', ra_mcast_target = ''238.1.1.95'', ra_enable_ipsec = False, ra_aes_key = None,
      ra_mcast_port = 40085, ra_log_level = 2, ra_tsi = 16, ra_output_path = None\<rparr>"

definition receiver_parse_opt :: "char \<Rightarrow> string \<Rightarrow> receiver_arguments \<Rightarrow> receiver_arguments option" where
  "receiver_parse_opt key arg a =
     (if key = CHR ''m'' then Some (a\<lparr>ra_mcast_target := arg\<rparr>)
      else if key = CHR ''i'' then Some (a\<lparr>ra_flute_interface := arg\<rparr>)
      else if key = CHR ''k'' then Some (a\<lparr>ra_aes_key := Some arg, ra_enable_ipsec := True\<rparr>)
      else if key = CHR ''p'' then Some (a\<lparr>ra_mcast_port := ucast (c_strtoul arg)\<rparr>)
      else if key = CHR ''l'' then Some (a\<lparr>ra_log_level := ucast (c_strtoul arg)\<rparr>)
      else if key = CHR ''T'' then Some (a\<lparr>ra_tsi := c_strtoul arg\<rparr>)
      else if key = CHR ''o'' then Some (a\<lparr>ra_output_path := Some arg\<rparr>)
      else None)"

record transmitter_arguments =
  ta_mcast_target :: string
  ta_enable_ipsec :: bool
  ta_use_gzip :: bool
  ta_new_api :: bool
  ta_gen_etags :: bool
  ta_aes_key :: "string option"
  ta_mcast_port :: u16
  ta_mtu :: u16
  ta_rate_limit :: u32
  ta_tsi :: u64
  ta_retransmit_count :: u64
  ta_log_level :: u32

definition transmitter_defaults :: transmitter_arguments where
  "transmitter_defaults =
     \<lparr>ta_mcast_target = ''238.1.1.95'', ta_enable_ipsec = False, ta_use_gzip = False, ta_new_api = False,
      ta_gen_etags = False, ta_aes_key = None, ta_mcast_port = 40085, ta_mtu = 1500, ta_rate_limit = 1000,
      ta_tsi = 16, ta_retransmit_count = 1, ta_log_level = 2\<rparr>"

text \<open>The options; the names of the files are what follows them.\<close>

definition transmitter_parse_opt :: "char \<Rightarrow> string \<Rightarrow> transmitter_arguments \<Rightarrow> transmitter_arguments option" where
  "transmitter_parse_opt key arg a =
     (if key = CHR ''e'' then Some (a\<lparr>ta_gen_etags := True, ta_new_api := True\<rparr>)
      else if key = CHR ''m'' then Some (a\<lparr>ta_mcast_target := arg\<rparr>)
      else if key = CHR ''k'' then Some (a\<lparr>ta_aes_key := Some arg, ta_enable_ipsec := True\<rparr>)
      else if key = CHR ''p'' then Some (a\<lparr>ta_mcast_port := ucast (c_strtoul arg)\<rparr>)
      else if key = CHR ''t'' then Some (a\<lparr>ta_mtu := ucast (c_strtoul arg)\<rparr>)
      else if key = CHR ''r'' then Some (a\<lparr>ta_rate_limit := ucast (c_strtoul arg)\<rparr>)
      else if key = CHR ''l'' then Some (a\<lparr>ta_log_level := ucast (c_strtoul arg)\<rparr>)
      else if key = CHR ''g'' then Some (a\<lparr>ta_use_gzip := True, ta_new_api := True\<rparr>)
      else if key = CHR ''T'' then Some (a\<lparr>ta_tsi := c_strtoul arg\<rparr>)
      else if key = CHR ''n'' then Some (a\<lparr>ta_new_api := True\<rparr>)
      else if key = CHR ''R'' then Some (a\<lparr>ta_retransmit_count := c_strtoul arg, ta_new_api := True\<rparr>)
      else None)"

section \<open>The files the receiver writes\<close>

text \<open>\<^verbatim>\<open>std::filesystem::path\<close> on POSIX: \<^verbatim>\<open>filename()\<close>, and \<^verbatim>\<open>/\<close> with a name on the right.\<close>

definition path_filename :: "string \<Rightarrow> string" where
  "path_filename p = rev (takeWhile (\<lambda>c. c \<noteq> CHR ''/'') (rev p))"

definition path_append :: "string \<Rightarrow> string \<Rightarrow> string" where
  "path_append dir name = (if dir = [] \<or> last dir = CHR ''/'' then dir @ name else dir @ ''/'' @ name)"

definition out_file :: "string option \<Rightarrow> string \<Rightarrow> string" where
  "out_file output_path location =
     (case output_path of
        None \<Rightarrow> location
      | Some dir \<Rightarrow> if 0 < length dir then path_append dir (path_filename location) else location)"

text \<open>The completion callback. \<^verbatim>\<open>fwrite\<close> to the null pointer of a failed \<^verbatim>\<open>fopen\<close> is undefined.\<close>

definition write_received ::
  "(string \<Rightarrow> bool) \<Rightarrow> string option \<Rightarrow> flute_file \<Rightarrow> (string \<rightharpoonup> byte list) \<Rightarrow> (string \<rightharpoonup> byte list) result" where
  "write_received writable output_path f files =
     (let path = out_file output_path (content_location (fl_meta f)) in
      if \<not> writable path then Inl (Undefined ''null stream'')
      else rbind (buffer_bytes f (unat (file_length f))) (\<lambda>bytes. Inr (files(path \<mapsto> bytes))))"

section \<open>The repetitions of the transmitter\<close>

text \<open>The completion callback: each file with the identifier counts its transmissions and is sent again
  until there have been enough. The result is the identifiers that are sent again.\<close>

fun count_transmission :: "u64 \<Rightarrow> u32 \<Rightarrow> (u32 \<times> u64) list \<Rightarrow> u32 list \<times> (u32 \<times> u64) list" where
  "count_transmission limit toi [] = ([], [])"
| "count_transmission limit toi ((file_toi, n) # rest) =
     (let (again, rest') = count_transmission limit toi rest in
      if file_toi = toi
      then (if n + 1 < limit then toi # again else again, (file_toi, n + 1) # rest')
      else (again, (file_toi, n) # rest'))"


lemma path_filename_props: "CHR ''/'' \<notin> set (path_filename p)" "\<exists>pre. p = pre @ path_filename p"
proof -
  show "CHR ''/'' \<notin> set (path_filename p)" by (auto simp: path_filename_def dest: set_takeWhileD)
  have "rev p = takeWhile (\<lambda>c. c \<noteq> CHR ''/'') (rev p) @ dropWhile (\<lambda>c. c \<noteq> CHR ''/'') (rev p)" by simp
  then have "p = rev (dropWhile (\<lambda>c. c \<noteq> CHR ''/'') (rev p)) @ path_filename p"
    unfolding path_filename_def by (metis rev_append rev_rev_ident)
  then show "\<exists>pre. p = pre @ path_filename p" by blast
qed

text \<open>(C35) The file the receiver program writes. With an output directory it lies in that directory, under
  the last part of the announced location, and no other file changes. Without one it lies wherever the
  sender of the session says. A location that cannot be opened, a directory for instance, is undefined
  behaviour.\<close>
theorem received_file_written:
  fixes f :: flute_file and dir :: string
  assumes "buffer_bytes f (unat (file_length f)) = Inr data" and "dir \<noteq> []" and "last dir \<noteq> CHR ''/''"
  defines "location \<equiv> content_location (fl_meta f)"
    and "name \<equiv> path_filename (content_location (fl_meta f))"
  shows "(\<exists>pre. location = pre @ name) \<and> CHR ''/'' \<notin> set name \<and>
    write_received writable (Some dir) f files =
      (if writable (dir @ ''/'' @ name) then Inr (files(dir @ ''/'' @ name \<mapsto> data)) else Inl (Undefined ''null stream'')) \<and>
    write_received writable None f files =
      (if writable location then Inr (files(location \<mapsto> data)) else Inl (Undefined ''null stream''))"
proof (intro conjI)
  show "\<exists>pre. location = pre @ name" "CHR ''/'' \<notin> set name"
    unfolding location_def name_def by (rule path_filename_props)+
qed (use assms(1-3) in \<open>simp_all add: write_received_def out_file_def path_append_def location_def name_def\<close>)

definition example_received :: "string \<Rightarrow> flute_file" where
  "example_received location =
     file_with \<lparr>fe_toi = 1, content_location = location, content_length = 3, content_md5 = '''', content_type = '''',
       fe_expires = 0, fe_fec_oti = fec_oti_zero\<lparr>transfer_length := 3\<rparr>,
       fe_cache_control = \<lparr>no_cache = False, cache_expires = None\<rparr>, fe_content_encoding = '''', etag = ''''\<rparr>
       True [1, 2, 3] 0 None"

theorem received_file_written_witness:
  "write_received (\<lambda>p. p \<noteq> ''out/..'') (Some ''out'') (example_received ''/etc/passwd'') Map.empty = Inr [''out/passwd'' \<mapsto> [1, 2, 3]] \<and>
   write_received (\<lambda>p. p \<noteq> ''out/..'') None (example_received ''/etc/passwd'') Map.empty = Inr [''/etc/passwd'' \<mapsto> [1, 2, 3]] \<and>
   write_received (\<lambda>p. p \<noteq> ''out/..'') (Some ''out'') (example_received ''a/..'') Map.empty = Inl (Undefined ''null stream'')"
proof -
  have bytes: "buffer_bytes (example_received l) (unat (file_length (example_received l))) = Inr [1, 2, 3]"
    "content_location (fl_meta (example_received l)) = l" for l
    by (simp_all add: example_received_def file_with_def file_length_def buffer_bytes_def heap_at_def read_bytes_def)
  have out: "''out'' \<noteq> []" "last ''out'' \<noteq> CHR ''/''" by simp_all
  have names: "path_filename ''/etc/passwd'' = ''passwd''" "path_filename ''a/..'' = ''..''" by code_simp+
  note written = received_file_written [OF bytes(1) out, of _ "\<lambda>p. p \<noteq> ''out/..''" Map.empty, unfolded bytes(2)]
  from written [of "''/etc/passwd''"] written [of "''a/..''"] show ?thesis by (simp add: names)
qed


section \<open>How often a file is sent\<close>

text \<open>The completions of one file, one after another: how often it is sent again.\<close>

fun sent_again :: "u64 \<Rightarrow> u32 \<Rightarrow> nat \<Rightarrow> (u32 \<times> u64) list \<Rightarrow> nat" where
  "sent_again limit toi 0 files = 0"
| "sent_again limit toi (Suc k) files =
     (let (again, files') = count_transmission limit toi files in length again + sent_again limit toi k files')"

lemma count_other: "toi \<notin> fst ` set files \<Longrightarrow> count_transmission limit toi files = ([], files)"
  by (induction files) auto

lemma count_one:
  assumes "distinct (map fst (pre @ (toi, n) # post))"
  shows "count_transmission limit toi (pre @ (toi, n) # post) =
    (if n + 1 < limit then [toi] else [], pre @ (toi, n + 1) # post)"
  using assms by (induction pre) (auto simp: count_other)

lemma sent_again_count:
  assumes "distinct (map fst (pre @ (toi, n) # post))" and "unat n + k < 2 ^ 64"
  shows "sent_again limit toi k (pre @ (toi, n) # post) = min k (unat limit - 1 - unat n)"
  using assms
proof (induction k arbitrary: n)
  case (Suc k)
  have n: "unat (n + 1) = unat n + 1" using Suc.prems(2) by (subst unat_add_lem [THEN iffD1]) simp_all
  then have "sent_again limit toi k (pre @ (toi, n + 1) # post) = min k (unat limit - 1 - unat (n + 1))"
    using Suc.prems by (intro Suc.IH) simp_all
  moreover have "n + 1 < limit \<longleftrightarrow> unat n + 1 < unat limit" by (simp add: word_less_nat_alt n)
  ultimately show ?case using Suc.prems(1) by (auto simp: count_one n)
qed simp

text \<open>A file that is completed often enough is sent as often as the option says, the first time included,
  and once when the option says 0.\<close>

lemma transmissions_as_asked:
  assumes "distinct (map fst (pre @ (toi, 0) # post))" and "unat limit \<le> k" and "k < 2 ^ 64"
  shows "1 + sent_again limit toi k (pre @ (toi, 0) # post) = max 1 (unat limit)"
  using sent_again_count [of pre toi 0 post k limit] assms by simp

end
