(* ===== verification/Transmitter_Program.thy ===== *)
theory Transmitter_Program
  imports Example_Programs Ip_Sec Session_Properties
begin

text \<open>
  \<^verbatim>\<open>src/examples/flute-transmitter.cpp\<close> beyond its options: the files of the command line are described or
  read, a transmitter is set up and the files are queued; the completion callback of the interface with
  descriptions sends a file again. From there on the program is the event machine of \<^verbatim>\<open>Transmitter_Events\<close>.
  The set-up of \<^verbatim>\<open>src/examples/flute-receiver.cpp\<close> is here as well. A parameter stands for SHA-1; the clock is an argument.
\<close>

section \<open>Files as descriptions\<close>

text \<open>The description of a file of the command line.\<close>

definition describe_file ::
  "'z sender_env \<Rightarrow> (byte list \<Rightarrow> byte list) \<Rightarrow> int \<Rightarrow> int \<Rightarrow> transmitter_arguments \<Rightarrow> string \<Rightarrow> process \<Rightarrow>
     (description \<times> process) result" where
  "describe_file env sha1 epoch clock a name s =
     (case description_of_file (se_md5 env) name name s of
        (Inl e, _) \<Rightarrow> Inl e
      | (Inr _, d, s1) \<Rightarrow>
          let d1 = set_expiry_time epoch (clock + 60 * 10 ^ 9) (set_content_type ''application/octet-stream'' d)
          in case (if ta_use_gzip a then set_compression (se_md5 env) s1 COMPRESSION_GZIP d1 else (Inr (), d1)) of
               (Inl e, _) \<Rightarrow> Inl e
             | (Inr _, d2) \<Rightarrow>
                 if ta_gen_etags a
                 then rbind (fd_bytes s1 d2) (\<lambda>bs. Inr (set_etag (base64_encode (take 20 (sha1 bs)) False) d2, s1))
                 else Inr (d2, s1))"

fun describe_files ::
  "'z sender_env \<Rightarrow> (byte list \<Rightarrow> byte list) \<Rightarrow> int \<Rightarrow> int \<Rightarrow> transmitter_arguments \<Rightarrow> string list \<Rightarrow> process \<Rightarrow>
     (description list \<times> process) result" where
  "describe_files env sha1 epoch clock a [] s = Inr ([], s)"
| "describe_files env sha1 epoch clock a (name # names) s =
     rbind (describe_file env sha1 epoch clock a name s) (\<lambda>(d, s1).
     rbind (describe_files env sha1 epoch clock a names s1) (\<lambda>(ds, s2). Inr (d # ds, s2)))"

text \<open>The transmitter of both interfaces. The completion callback is registered; \<open>k\<close> is what the kernel
  was asked for.\<close>

definition start_transmitter ::
  "'z sender_env \<Rightarrow> endpoint \<Rightarrow> transmitter_arguments \<Rightarrow> netlink \<Rightarrow> (transmitter \<times> netlink) result" where
  "start_transmitter env to a k =
     (case transmitter_new env to (ta_tsi a) (ta_mtu a) (ta_rate_limit a) None FDT_NS_DRAFT_2005 True None of
        (Inl e, _) \<Rightarrow> Inl e
      | (Inr _, t) \<Rightarrow>
          (case (if ta_enable_ipsec a
                 then (case ta_aes_key a of
                         None \<Rightarrow> (Inl (Undefined ''string from a null pointer''), k)
                       | Some key \<Rightarrow> transmitter_enable_ipsec (ta_mcast_target a) 1 key k)
                 else (Inr (), k)) of
             (Inl e, _) \<Rightarrow> Inl e
           | (Inr _, k1) \<Rightarrow> Inr (transmitter_register_completion_callback t, k1)))"

text \<open>The descriptions are shared: \<^verbatim>\<open>send\<close> changes those in the program's list. \<open>n\<close> numbers them.\<close>

fun queue_descriptions ::
  "'z sender_env \<Rightarrow> u64 \<Rightarrow> process \<Rightarrow> nat \<Rightarrow> description list \<Rightarrow> transmitter \<Rightarrow>
     (description list \<times> transmitter outcome) option" where
  "queue_descriptions env now s n [] t = Some ([], Inr (), t)"
| "queue_descriptions env now s n (d # ds) t =
     (case send_description env now s n d t of
        None \<Rightarrow> None
      | Some (d', Inl e, t1) \<Rightarrow> Some (d' # ds, Inl e, t1)
      | Some (d', Inr _, t1) \<Rightarrow>
          map_option (\<lambda>(ds', r). (d' # ds', r)) (queue_descriptions env now s (Suc n) ds t1))"

definition send_with_new_api ::
  "'z sender_env \<Rightarrow> (byte list \<Rightarrow> byte list) \<Rightarrow> int \<Rightarrow> int \<Rightarrow> u64 \<Rightarrow> endpoint \<Rightarrow> transmitter_arguments \<Rightarrow> string list \<Rightarrow>
     process \<Rightarrow> netlink \<Rightarrow> (description list \<times> process \<times> netlink \<times> transmitter) result option" where
  "send_with_new_api env sha1 epoch clock now to a names s k =
     (case describe_files env sha1 epoch clock a names s of
        Inl e \<Rightarrow> Some (Inl e)
      | Inr (ds, s1) \<Rightarrow>
          (case start_transmitter env to a k of
             Inl e \<Rightarrow> Some (Inl e)
           | Inr (t, k1) \<Rightarrow>
               (case queue_descriptions env now s1 0 ds t of
                  None \<Rightarrow> None
                | Some (ds', Inl e, t1) \<Rightarrow> Some (Inl e)
                | Some (ds', Inr _, t1) \<Rightarrow> Some (Inr (ds', s1, k1, t1)))))"

text \<open>The completion callback: each file with the identifier counts the transmission and is sent again until
  there have been enough.\<close>

fun on_transmitted ::
  "'z sender_env \<Rightarrow> u64 \<Rightarrow> process \<Rightarrow> u64 \<Rightarrow> u32 \<Rightarrow> nat \<Rightarrow> (description \<times> u64) list \<Rightarrow> transmitter \<Rightarrow>
     ((description \<times> u64) list \<times> transmitter outcome) option" where
  "on_transmitted env now s limit toi n [] t = Some ([], Inr (), t)"
| "on_transmitted env now s limit toi n ((d, count) # files) t =
     (if fe_toi (fd_entry d) = toi then
        if count + 1 < limit then
          (case send_description env now s n d t of
             None \<Rightarrow> None
           | Some (d', Inl e, t1) \<Rightarrow> Some ((d', count + 1) # files, Inl e, t1)
           | Some (d', Inr _, t1) \<Rightarrow>
               map_option (\<lambda>(files', r). ((d', count + 1) # files', r)) (on_transmitted env now s limit toi (Suc n) files t1))
        else map_option (\<lambda>(files', r). ((d, count + 1) # files', r)) (on_transmitted env now s limit toi (Suc n) files t)
      else map_option (\<lambda>(files', r). ((d, count) # files', r)) (on_transmitted env now s limit toi (Suc n) files t))"

section \<open>Files as buffers\<close>

text \<open>A file that cannot be opened has the length \<open>- 1\<close> and no buffer.\<close>

definition read_file :: "'z sender_env \<Rightarrow> process \<Rightarrow> string \<Rightarrow> byte list option" where
  "read_file env s name =
     (case pr_files s name of
        Some (True, content) \<Rightarrow> (case se_malloc env (length content) of None \<Rightarrow> None | Some _ \<Rightarrow> Some content)
      | _ \<Rightarrow> None)"

text \<open>Without a buffer the library computes the digest of bytes at the null pointer.\<close>

fun queue_buffers ::
  "'z sender_env \<Rightarrow> u64 \<Rightarrow> (string \<times> byte list option) list \<Rightarrow> transmitter \<Rightarrow> transmitter outcome option" where
  "queue_buffers env now [] t = Some (Inr (), t)"
| "queue_buffers env now ((name, buffer) # files) t =
     (case buffer of
        None \<Rightarrow> Some (Inl (Undefined ''read through the null pointer''), t)
      | Some data \<Rightarrow>
          (case send_data env now name ''application/octet-stream'' (ucast (now + 60)) data t of
             Some (Inr _, t1) \<Rightarrow> queue_buffers env now files t1
           | r \<Rightarrow> r))"

definition send_with_old_api ::
  "'z sender_env \<Rightarrow> u64 \<Rightarrow> endpoint \<Rightarrow> transmitter_arguments \<Rightarrow> string list \<Rightarrow> process \<Rightarrow> netlink \<Rightarrow>
     (netlink \<times> transmitter) result option" where
  "send_with_old_api env now to a names s k =
     (case start_transmitter env to a k of
        Inl e \<Rightarrow> Some (Inl e)
      | Inr (t, k1) \<Rightarrow>
          (case queue_buffers env now (map (\<lambda>name. (name, read_file env s name)) names) t of
             None \<Rightarrow> None
           | Some (Inl e, t1) \<Rightarrow> Some (Inl e)
           | Some (Inr _, t1) \<Rightarrow> Some (Inr (k1, t1))))"

section \<open>The programs\<close>

text \<open>Both main functions catch what is derived from \<^verbatim>\<open>std::exception\<close> and return 0 all the same; the string
  literals the library throws are not caught and end the process.\<close>

definition exit_status :: "'a result \<Rightarrow> int result" where
  "exit_status r =
     (case r of Inr _ \<Rightarrow> Inr 0 | Inl e \<Rightarrow> if caught_as_std_exception e then Inr 0 else Inl e)"

definition start_receiver ::
  "receiver_arguments \<Rightarrow> byte list \<Rightarrow> netlink \<Rightarrow> (receiver \<times> netlink) result" where
  "start_receiver a uninit k =
     (let r = receiver_new (ra_tsi a) uninit in
      case (if ra_enable_ipsec a
            then (case ra_aes_key a of
                    None \<Rightarrow> (Inl (Undefined ''string from a null pointer''), k)
                  | Some key \<Rightarrow> receiver_enable_ipsec (ra_mcast_target a) 1 key k)
            else (Inr (), k)) of
        (Inl e, _) \<Rightarrow> Inl e
      | (Inr _, k1) \<Rightarrow> Inr (register_completion_callback r, k1))"

text \<open>The main function of the transmitter, when the event loop returns.\<close>

definition transmitter_main ::
  "'z sender_env \<Rightarrow> (byte list \<Rightarrow> byte list) \<Rightarrow> int \<Rightarrow> int \<Rightarrow> u64 \<Rightarrow> endpoint \<Rightarrow> transmitter_arguments \<Rightarrow> string list \<Rightarrow>
     process \<Rightarrow> netlink \<Rightarrow> int result option" where
  "transmitter_main env sha1 epoch clock now to a names s k =
     (if ta_new_api a then map_option exit_status (send_with_new_api env sha1 epoch clock now to a names s k)
      else map_option exit_status (send_with_old_api env now to a names s k))"

lemma exit_status_0: "exit_status r = Inr status \<Longrightarrow> status = 0"
  by (cases r) (auto simp: exit_status_def split: if_splits)

lemma main_returns_0: "transmitter_main env sha1 epoch clock now to a names s k = Some (Inr status) \<Longrightarrow> status = 0"
  by (auto simp: transmitter_main_def split: if_splits dest: exit_status_0)

text \<open>A file that cannot be opened is an exception that the interface for descriptions reports, and a read through the
  null pointer with the interface for buffers.\<close>

lemma missing_file:
  assumes "pr_files s name = None" and "start_transmitter env to a k = Inr (t, k')"
  shows "send_with_new_api env sha1 epoch clock now to a (name # names) s k = Some (Inl (StdExc ''Could not open the file''))"
    and "send_with_old_api env now to a (name # names) s k = Some (Inl (Undefined ''read through the null pointer''))"
  using assms
  by (simp_all add: send_with_new_api_def describe_file_def description_of_file_def attach_file_def sys_open_def Let_def
      rbind_def send_with_old_api_def read_file_def)

section \<open>What is queued\<close>

text \<open>What the program says of a file.\<close>

definition file_labels :: "file_entry \<Rightarrow> string \<times> string \<times> string" where
  "file_labels e = (content_location e, content_type e, fe_content_encoding e)"

definition program_labels :: "transmitter_arguments \<Rightarrow> string \<Rightarrow> string \<times> string \<times> string" where
  "program_labels a name = (name, ''application/octet-stream'', if ta_use_gzip a then ''gzip'' else '''')"

definition unsent :: "description \<Rightarrow> bool" where
  "unsent d \<longleftrightarrow> fd_tsi d = None \<and> fe_toi (fd_entry d) = 0"

lemma description_of_file_blank:
  assumes "description_of_file md5 location name s = (Inr (), d, s')"
  shows "unsent d" "fd_compression d = COMPRESSION_NONE" "content_location (fd_entry d) = location"
    "fe_content_encoding (fd_entry d) = []"
  using assms
  by (auto simp: description_of_file_def attach_file_def blank_description_def calculate_file_entry_def unsent_def Let_def
      split: option.splits prod.splits if_splits sum.splits)

lemma set_compression_labels:
  assumes "set_compression md5 s COMPRESSION_GZIP d = (Inr (), d')" and "fd_compression d = COMPRESSION_NONE" and "unsent d"
  shows "unsent d'" "file_labels (fd_entry d') = (content_location (fd_entry d), content_type (fd_entry d), ''gzip'')"
  using assms
  by (auto simp: set_compression_def calculate_file_entry_def unsent_def file_labels_def Let_def split: if_splits sum.splits)

lemma describe_file_labels:
  assumes "describe_file env sha1 epoch clock a name s = Inr (d, s')"
  shows "unsent d \<and> file_labels (fd_entry d) = program_labels a name"
proof -
  obtain d0 s1 where d0: "description_of_file (se_md5 env) name name s = (Inr (), d0, s1)"
    using assms by (auto simp: describe_file_def split: sum.splits prod.splits)
  note blank = description_of_file_blank [OF d0]
  define d1 where "d1 = set_expiry_time epoch (clock + 60 * 10 ^ 9) (set_content_type ''application/octet-stream'' d0)"
  have d1: "unsent d1" "fd_compression d1 = COMPRESSION_NONE" "file_labels (fd_entry d1) = (name, ''application/octet-stream'', '''')"
    using blank by (simp_all add: d1_def unsent_def file_labels_def set_expiry_time_def set_content_type_def Let_def)
  obtain d2 where d2: "(if ta_use_gzip a then set_compression (se_md5 env) s1 COMPRESSION_GZIP d1 else (Inr (), d1)) = (Inr (), d2)"
    and d: "d = d2 \<or> (\<exists>e. d = set_etag e d2)"
    using assms by (auto simp: describe_file_def d0 d1_def Let_def rbind_eq_Inr_iff split: sum.splits prod.splits if_splits)
  have "unsent d2 \<and> file_labels (fd_entry d2) = program_labels a name"
    using d2 d1 set_compression_labels [of "se_md5 env" s1 d1 d2]
    by (auto simp: program_labels_def file_labels_def split: if_splits)
  with d show ?thesis by (auto simp: set_etag_def unsent_def file_labels_def)
qed

lemma describe_files_labels:
  "describe_files env sha1 epoch clock a names s = Inr (ds, s') \<Longrightarrow>
     (\<forall>d \<in> set ds. unsent d) \<and> map (\<lambda>d. file_labels (fd_entry d)) ds = map (program_labels a) names"
  by (induction names arbitrary: s ds s') (auto simp: rbind_eq_Inr_iff dest: describe_file_labels)

lemma encode_labels: "encode z f = Some (r, f') \<Longrightarrow> file_labels (fl_meta f') = file_labels (fl_meta f)"
  by (auto simp: encode_def Let_def install_buffer_def free_old_def set_transfer_length_def file_labels_def
      split: if_splits option.splits sum.splits prod.splits)

lemma file_of_description_labels:
  "file_of_description malloc z uninit number data entry = Some (Inr f) \<Longrightarrow> file_labels (fl_meta f) = file_labels entry"
  by (auto simp: file_of_description_def file_with_def set_transfer_length_def file_labels_def
      dest!: partition_and_create_meta encode_labels split: if_splits option.splits sum.splits)

lemma small_toi: "0 < k \<Longrightarrow> k < 65536 \<Longrightarrow> (of_nat k :: u16) \<noteq> 0" "k < 65536 \<Longrightarrow> (ucast (of_nat k :: u16) :: u32) = of_nat k"
proof -
  assume "k < 65536"
  then have u: "unat (of_nat k :: u16) = k" "unat (of_nat k :: u32) = k" by (simp_all add: unat_of_nat)
  then show "(ucast (of_nat k :: u16) :: u32) = of_nat k" by (metis unat_ucast_16_32 word_unat_eq_iff)
  show "(of_nat k :: u16) \<noteq> 0" if "0 < k" using u(1) that by (metis less_numeral_extra(3) unat_0)
qed

text \<open>A description that has not been sent takes the next identifier and its entry goes to the end of the table.\<close>

lemma description_queued:
  assumes step: "send_description env now s n d t = Some (d', Inr (), t1)" and d: "unsent d"
    and toi: "tr_toi t = of_nat k" "0 < k" "Suc k < 65536"
  shows "\<exists>e. fdt_file_entries (tr_fdt t1) = fdt_file_entries (tr_fdt t) @ [e] \<and> fe_toi e = of_nat k \<and>
      file_labels e = file_labels (fd_entry d)"
    and "fe_toi (fd_entry d') = of_nat k" and "fd_tsi d' = Some (tr_tsi t)" and "tr_toi t1 = of_nat (Suc k)"
    and "0 \<in> set (om_keys (tr_files t1))" and "tr_tsi t1 = tr_tsi t"
proof -
  from step obtain t2 data f where c: "prepare_description t d = (d', t2)"
    "file_of_description (se_malloc env) (se_zlib env) (se_uninit_time env) n data (fd_entry d') = Some (Inr f)"
    "send_fdt env now (t2\<lparr>tr_store := tr_store t2 @ [f],
       tr_files := om_insert (fe_toi (fd_entry d')) (length (tr_store t2)) (tr_files t2), tr_fdt := fdt_add (fl_meta f) (tr_fdt t2)\<rparr>) = Some (Inr (), t1)"
    by (rule send_description_cases)
  have next_toi: "tr_toi t + 1 = of_nat (Suc k)" by (simp add: toi(1))
  have "tr_toi t + 1 \<noteq> 0" unfolding next_toi using small_toi(1) [of "Suc k"] toi(3) by blast
  then have adv: "tr_toi (advance_toi t) = of_nat (Suc k)" by (simp add: advance_toi_def next_toi del: of_nat_Suc)
  have "(ucast (tr_toi t) :: u32) = of_nat k" using small_toi(2) [of k] toi by simp
  then have p: "t2 = advance_toi t" "fe_toi (fd_entry d') = of_nat k" "fd_tsi d' = Some (tr_tsi t)"
    "file_labels (fd_entry d') = file_labels (fd_entry d)"
    using c(1) d
    by (auto simp: prepare_description_def unsent_def has_tsi_def set_tsi_def set_toi_def merge_fec_oti_def Let_def file_labels_def)
  show "fe_toi (fd_entry d') = of_nat k" "fd_tsi d' = Some (tr_tsi t)" by (rule p)+
  show "tr_toi t1 = of_nat (Suc k)" using send_fdt_timers(6) [OF c(3)] adv p(1) by simp
  show "\<exists>e. fdt_file_entries (tr_fdt t1) = fdt_file_entries (tr_fdt t) @ [e] \<and> fe_toi e = of_nat k \<and> file_labels e = file_labels (fd_entry d)"
    using send_fdt_timers(7) [OF c(3)] file_of_description_toi [OF c(2)] file_of_description_labels [OF c(2)] p
    by (intro exI [of _ "fl_meta f"]) simp
  show "0 \<in> set (om_keys (tr_files t1))" "tr_tsi t1 = tr_tsi t"
    using c(3) by (auto elim!: send_fdt_cases simp: keys_om_set p(1))
qed

lemma descriptions_queued:
  assumes "queue_descriptions env now s n ds t = Some (ds', Inr (), t')" and "\<forall>d \<in> set ds. unsent d"
    and "tr_toi t = of_nat k" "0 < k" "k + length ds < 65536"
  shows "\<exists>es. fdt_file_entries (tr_fdt t') = fdt_file_entries (tr_fdt t) @ es \<and>
      map fe_toi es = map of_nat [k..<k + length ds] \<and> map file_labels es = map (\<lambda>d. file_labels (fd_entry d)) ds \<and>
      map (\<lambda>d. (fd_tsi d, fe_toi (fd_entry d))) ds' = map (\<lambda>toi. (Some (tr_tsi t), toi)) (map fe_toi es)"
    and "ds \<noteq> [] \<Longrightarrow> 0 \<in> set (om_keys (tr_files t'))"
proof -
  have "(\<exists>es. fdt_file_entries (tr_fdt t') = fdt_file_entries (tr_fdt t) @ es \<and>
      map fe_toi es = map of_nat [k..<k + length ds] \<and> map file_labels es = map (\<lambda>d. file_labels (fd_entry d)) ds \<and>
      map (\<lambda>d. (fd_tsi d, fe_toi (fd_entry d))) ds' = map (\<lambda>toi. (Some (tr_tsi t), toi)) (map fe_toi es)) \<and>
    (ds = [] \<and> t' = t \<or> 0 \<in> set (om_keys (tr_files t')))"
    using assms
  proof (induction ds arbitrary: n t ds' k)
    case (Cons d ds)
    from Cons.prems(1) obtain d' t1 ds1 where d': "send_description env now s n d t = Some (d', Inr (), t1)"
      "queue_descriptions env now s (Suc n) ds t1 = Some (ds1, Inr (), t')" "ds' = d' # ds1"
      by (auto split: option.splits sum.splits prod.splits)
    have u: "unsent d" "\<forall>d \<in> set ds. unsent d" and k: "Suc k < 65536" "Suc k + length ds < 65536" using Cons.prems(2,5) by simp_all
    note one = description_queued [OF d'(1) u(1) Cons.prems(3,4) k(1)]
    obtain e where e: "fdt_file_entries (tr_fdt t1) = fdt_file_entries (tr_fdt t) @ [e]" "fe_toi e = of_nat k"
      "file_labels e = file_labels (fd_entry d)" using one(1) by blast
    from Cons.IH [OF d'(2) u(2) one(4) zero_less_Suc k(2), unfolded one(6)] obtain es where es: "fdt_file_entries (tr_fdt t') = fdt_file_entries (tr_fdt t1) @ es"
      "map fe_toi es = map of_nat [Suc k..<Suc k + length ds]" "map file_labels es = map (\<lambda>d. file_labels (fd_entry d)) ds"
      "map (\<lambda>d. (fd_tsi d, fe_toi (fd_entry d))) ds1 = map (\<lambda>toi. (Some (tr_tsi t), toi)) (map fe_toi es)"
      and keys: "ds = [] \<and> t' = t1 \<or> 0 \<in> set (om_keys (tr_files t'))"
      by blast
    have up: "[k..<k + length (d # ds)] = k # [Suc k..<Suc k + length ds]" by (simp add: upt_rec)
    have "map fe_toi (e # es) = map of_nat [k..<k + length (d # ds)]" unfolding up using e(2) es(2) by simp
    moreover have "map (\<lambda>d. (fd_tsi d, fe_toi (fd_entry d))) ds' = map (\<lambda>toi. (Some (tr_tsi t), toi)) (map fe_toi (e # es))"
      using es(4) one(2,3) e(2) by (simp add: d'(3))
    ultimately have "fdt_file_entries (tr_fdt t') = fdt_file_entries (tr_fdt t) @ (e # es) \<and>
        map fe_toi (e # es) = map of_nat [k..<k + length (d # ds)] \<and>
        map file_labels (e # es) = map (\<lambda>d. file_labels (fd_entry d)) (d # ds) \<and>
        map (\<lambda>d. (fd_tsi d, fe_toi (fd_entry d))) ds' = map (\<lambda>toi. (Some (tr_tsi t), toi)) (map fe_toi (e # es))"
      using e es(1,3) by simp
    with keys one(5) show ?case by blast
  qed simp
  then show "\<exists>es. fdt_file_entries (tr_fdt t') = fdt_file_entries (tr_fdt t) @ es \<and>
      map fe_toi es = map of_nat [k..<k + length ds] \<and> map file_labels es = map (\<lambda>d. file_labels (fd_entry d)) ds \<and>
      map (\<lambda>d. (fd_tsi d, fe_toi (fd_entry d))) ds' = map (\<lambda>toi. (Some (tr_tsi t), toi)) (map fe_toi es)"
    "ds \<noteq> [] \<Longrightarrow> 0 \<in> set (om_keys (tr_files t'))" by blast+
qed

section \<open>Queueing is a run of the event machine\<close>

fun description_ops :: "u64 \<Rightarrow> process \<Rightarrow> nat \<Rightarrow> description list \<Rightarrow> tr_op list" where
  "description_ops now s n [] = []"
| "description_ops now s n (d # ds) = Send_Description now s n d # description_ops now s (Suc n) ds"

lemma queue_descriptions_run:
  "queue_descriptions env now s n ds t = Some (ds', Inr (), t') \<Longrightarrow> tr_run env (description_ops now s n ds) t = Some (Inr (), t')"
  by (induction ds arbitrary: n t ds') (auto split: option.splits sum.splits prod.splits)

lemma queue_descriptions_callback:
  "queue_descriptions env now s n ds t = Some (ds', Inr (), t') \<Longrightarrow> tr_callback t' = tr_callback t"
proof (induction ds arbitrary: n t ds')
  case (Cons d ds)
  from Cons.prems obtain d' t1 ds1 where step: "send_description env now s n d t = Some (d', Inr (), t1)"
    "queue_descriptions env now s (Suc n) ds t1 = Some (ds1, Inr (), t')"
    by (auto split: option.splits sum.splits prod.splits)
  from step(1) have "tr_callback t1 = tr_callback t"
    by (auto elim!: send_description_cases dest!: send_fdt_timers(8) simp: prepare_description_def Let_def split: if_splits)
  with Cons.IH [OF step(2)] show ?case by simp
qed simp

lemma description_ops_plain: "op \<in> set (description_ops now s n ds) \<Longrightarrow> no_tunnel op t"
  by (induction ds arbitrary: n) (auto simp: no_tunnel_def)

definition buffer_ops :: "u64 \<Rightarrow> (string \<times> byte list) list \<Rightarrow> tr_op list" where
  "buffer_ops now files = map (\<lambda>(name, data). Send_Data now name ''application/octet-stream'' (ucast (now + 60)) data) files"

lemma queue_buffers_run:
  assumes "queue_buffers env now files t = Some (Inr (), t')"
  shows "\<exists>loaded. files = map (\<lambda>(name, data). (name, Some data)) loaded \<and> tr_run env (buffer_ops now loaded) t = Some (Inr (), t')"
  using assms
proof (induction files arbitrary: t)
  case Nil
  then show ?case by (simp add: buffer_ops_def)
next
  case (Cons x files)
  obtain name buffer where x: "x = (name, buffer)" by force
  from Cons.prems obtain data t1 where d: "buffer = Some data"
    "send_data env now name ''application/octet-stream'' (ucast (now + 60)) data t = Some (Inr (), t1)"
    "queue_buffers env now files t1 = Some (Inr (), t')"
    by (auto simp: x split: option.splits sum.splits prod.splits)
  from Cons.IH [OF d(3)] obtain loaded where "files = map (\<lambda>(name, data). (name, Some data)) loaded"
    "tr_run env (buffer_ops now loaded) t1 = Some (Inr (), t')" by blast
  then show ?case using d(1,2) by (intro exI [of _ "(name, data) # loaded"]) (simp add: x buffer_ops_def)
qed

text \<open>The transmitter both interfaces start with.\<close>

lemma transmitter_started:
  assumes "start_transmitter env to a k = Inr (t, k')"
  obtains t0 where "transmitter_new env to (ta_tsi a) (ta_mtu a) (ta_rate_limit a) None FDT_NS_DRAFT_2005 True None = (Inr (), t0)"
    and "t = t0\<lparr>tr_callback := True\<rparr>"
  using assms
  by (auto simp: start_transmitter_def transmitter_register_completion_callback_def split: sum.splits prod.splits if_splits option.splits)

lemma started_state:
  assumes "start_transmitter env to a k = Inr (t, k')"
  shows "fdt_file_entries (tr_fdt t) = []" "tr_toi t = of_nat 1" "tr_tsi t = ta_tsi a" "tr_callback t"
    and "tr_run env ops t = Some (Inr (), t') \<Longrightarrow> \<forall>op \<in> set ops. \<forall>t. no_tunnel op t \<Longrightarrow>
      reachable (plain_init env (ta_tsi a) (ucast (ta_mtu a) - 64)) (tr_event env no_tunnel) t'"
proof -
  obtain t0 where t0: "transmitter_new env to (ta_tsi a) (ta_mtu a) (ta_rate_limit a) None FDT_NS_DRAFT_2005 True None = (Inr (), t0)"
    and t: "t = t0\<lparr>tr_callback := True\<rparr>" by (rule transmitter_started [OF assms])
  show "fdt_file_entries (tr_fdt t) = []" "tr_toi t = of_nat 1" "tr_tsi t = ta_tsi a" "tr_callback t"
    using t0 [unfolded active_start] by (auto simp: t) (simp_all add: idle_transmitter_def Let_def fdt_new_def)
  show "reachable (plain_init env (ta_tsi a) (ucast (ta_mtu a) - 64)) (tr_event env no_tunnel) t'"
    if run: "tr_run env ops t = Some (Inr (), t')" and ops: "\<forall>op \<in> set ops. \<forall>t. no_tunnel op t"
  proof (rule run_reachable)
    show "plain_init env (ta_tsi a) (ucast (ta_mtu a) - 64) t0" by (rule plain_init.intros [OF t0 refl])
    show "tr_run env (Register_Callback # ops) t0 = Some (Inr (), t')"
      using run by (simp add: t transmitter_register_completion_callback_def)
    show "\<forall>op \<in> set (Register_Callback # ops). \<forall>t. no_tunnel op t" using ops by (simp add: no_tunnel_def)
  qed
qed

section \<open>Sending again\<close>

lemma description_resent:
  assumes step: "send_description env now s n d t = Some (d', Inr (), t1)"
    and d: "fd_tsi d = Some (tr_tsi t)" "fe_toi (fd_entry d) \<noteq> 0"
  shows "fd_tsi d' = fd_tsi d" "fe_toi (fd_entry d') = fe_toi (fd_entry d)" "tr_toi t1 = tr_toi t" "tr_tsi t1 = tr_tsi t"
    and "\<exists>e. fdt_file_entries (tr_fdt t1) = fdt_file_entries (tr_fdt t) @ [e] \<and> fe_toi e = fe_toi (fd_entry d)"
proof -
  from step obtain t2 data f where c: "prepare_description t d = (d', t2)"
    "file_of_description (se_malloc env) (se_zlib env) (se_uninit_time env) n data (fd_entry d') = Some (Inr f)"
    "send_fdt env now (t2\<lparr>tr_store := tr_store t2 @ [f],
       tr_files := om_insert (fe_toi (fd_entry d')) (length (tr_store t2)) (tr_files t2), tr_fdt := fdt_add (fl_meta f) (tr_fdt t2)\<rparr>) = Some (Inr (), t1)"
    by (rule send_description_cases)
  have p: "fd_tsi d' = fd_tsi d" "fe_toi (fd_entry d') = fe_toi (fd_entry d)" "t2 = t"
    using c(1) d
    by (auto simp: prepare_description_def has_tsi_def fd_tsi_value_def set_tsi_def set_toi_def merge_fec_oti_def Let_def)
  then show "fd_tsi d' = fd_tsi d" "fe_toi (fd_entry d') = fe_toi (fd_entry d)" by simp_all
  show "tr_toi t1 = tr_toi t" "tr_tsi t1 = tr_tsi t" using c(3) p(3) by (auto elim!: send_fdt_cases)
  show "\<exists>e. fdt_file_entries (tr_fdt t1) = fdt_file_entries (tr_fdt t) @ [e] \<and> fe_toi e = fe_toi (fd_entry d)"
    using send_fdt_timers(7) [OF c(3)] file_of_description_toi [OF c(2)] p by (intro exI [of _ "fl_meta f"]) simp
qed

text \<open>The callback counts as \<open>count_transmission\<close> does and announces again what that says, under the same identifier.\<close>

definition counts :: "(description \<times> u64) list \<Rightarrow> (u32 \<times> u64) list" where
  "counts files = map (\<lambda>(d, count). (fe_toi (fd_entry d), count)) files"

lemma counts_simps [simp]: "counts [] = []" "counts ((d, count) # files) = (fe_toi (fd_entry d), count) # counts files"
  by (simp_all add: counts_def)

lemma on_transmitted_counts:
  assumes "on_transmitted env now s limit toi n files t = Some (files', Inr (), t')" and "toi \<noteq> 0"
    and "\<forall>x \<in> set files. fd_tsi (fst x) = Some (tr_tsi t)"
  shows "counts files' = snd (count_transmission limit toi (counts files)) \<and> tr_toi t' = tr_toi t \<and>
    (\<exists>es. fdt_file_entries (tr_fdt t') = fdt_file_entries (tr_fdt t) @ es \<and>
       map fe_toi es = fst (count_transmission limit toi (counts files)))"
  using assms
proof (induction files arbitrary: n t files')
  case (Cons x files)
  obtain d count where x: "x = (d, count)" by force
  consider (other) "fe_toi (fd_entry d) \<noteq> toi" | (enough) "fe_toi (fd_entry d) = toi" "\<not> count + 1 < limit"
    | (again) "fe_toi (fd_entry d) = toi" "count + 1 < limit" by blast
  then show ?case
  proof cases
    case other
    with Cons.prems(1) obtain fs where fs: "on_transmitted env now s limit toi (Suc n) files t = Some (fs, Inr (), t')"
      "files' = (d, count) # fs" by (auto simp: x)
    from Cons.IH [OF fs(1) Cons.prems(2)] Cons.prems(3) other show ?thesis by (auto simp: x fs(2) case_prod_beta)
  next
    case enough
    with Cons.prems(1) obtain fs where fs: "on_transmitted env now s limit toi (Suc n) files t = Some (fs, Inr (), t')"
      "files' = (d, count + 1) # fs" by (auto simp: x)
    from Cons.IH [OF fs(1) Cons.prems(2)] Cons.prems(3) enough show ?thesis by (auto simp: x fs(2) case_prod_beta)
  next
    case again
    with Cons.prems(1) obtain d' t1 fs where sent: "send_description env now s n d t = Some (d', Inr (), t1)"
      and fs: "on_transmitted env now s limit toi (Suc n) files t1 = Some (fs, Inr (), t')" "files' = (d', count + 1) # fs"
      by (auto simp: x split: option.splits sum.splits prod.splits)
    have d: "fd_tsi d = Some (tr_tsi t)" "fe_toi (fd_entry d) \<noteq> 0" using Cons.prems(2,3) again(1) by (simp_all add: x)
    note one = description_resent [OF sent d]
    obtain e where e: "fdt_file_entries (tr_fdt t1) = fdt_file_entries (tr_fdt t) @ [e]" "fe_toi e = toi"
      using one(5) again(1) by auto
    have "\<forall>x \<in> set files. fd_tsi (fst x) = Some (tr_tsi t1)" using Cons.prems(3) one(4) by simp
    from Cons.IH [OF fs(1) Cons.prems(2) this] obtain es where IH: "counts fs = snd (count_transmission limit toi (counts files))"
      "tr_toi t' = tr_toi t1" "fdt_file_entries (tr_fdt t') = fdt_file_entries (tr_fdt t1) @ es"
      "map fe_toi es = fst (count_transmission limit toi (counts files))" by blast
    show ?thesis
      using IH again one(2,3) e by (auto simp: x fs(2) case_prod_beta intro!: exI [of _ "e # es"])
  qed
qed simp

text \<open>(C16) What the transmitter program queues with the interface for descriptions. When it gets to its event loop, it is
  in a state of the event machine, the FDT lists the files of the command line in their order, with the
  identifiers from 1 on, under their names, as octet streams, compressed when that was asked for; the queue holds these
  files and the FDT, and the program's descriptions have the identifiers by which its callback finds them.\<close>
theorem program_queues_files:
  assumes "send_with_new_api env sha1 epoch clock now to a names s k = Some (Inr (ds, s', k', t))"
    and "names \<noteq> []" and "length names < 65535"
  shows "reachable (plain_init env (ta_tsi a) (ucast (ta_mtu a) - 64)) (tr_event env no_tunnel) t \<and> tr_callback t \<and>
    map fe_toi (fdt_file_entries (tr_fdt t)) = map of_nat [1..<Suc (length names)] \<and>
    map file_labels (fdt_file_entries (tr_fdt t)) = map (program_labels a) names \<and>
    om_keys (tr_files t) = map of_nat [0..<Suc (length names)] \<and>
    map (\<lambda>d. (fd_tsi d, fe_toi (fd_entry d))) ds = map (\<lambda>toi. (Some (ta_tsi a), of_nat toi)) [1..<Suc (length names)]"
proof -
  from assms(1) obtain ds0 t0 where described: "describe_files env sha1 epoch clock a names s = Inr (ds0, s')"
    and started: "start_transmitter env to a k = Inr (t0, k')"
    and queued: "queue_descriptions env now s' 0 ds0 t0 = Some (ds, Inr (), t)"
    by (auto simp: send_with_new_api_def split: sum.splits option.splits prod.splits)
  note labels = describe_files_labels [OF described]
  have n: "length ds0 = length names" using labels by (metis length_map)
  note st = started_state [OF started]
  have r: "reachable (plain_init env (ta_tsi a) (ucast (ta_mtu a) - 64)) (tr_event env no_tunnel) t"
    by (rule st(5) [OF queue_descriptions_run [OF queued]]) (use description_ops_plain in blast)
  have "1 + length ds0 < 65536" using assms(3) n by simp
  note q = descriptions_queued [OF queued conjunct1 [OF labels] st(2) zero_less_one this]
  from q(1) obtain es where es: "fdt_file_entries (tr_fdt t) = es" "map fe_toi es = map of_nat [1..<Suc (length names)]"
    "map file_labels es = map (program_labels a) names"
    "map (\<lambda>d. (fd_tsi d, fe_toi (fd_entry d))) ds = map (\<lambda>toi. (Some (ta_tsi a), toi)) (map fe_toi es)"
    using labels st(1,3) n by (auto simp del: map_map)
  have tr_inv: "tr_inv t" using session.inv_reachable [OF r] by (simp add: session_inv_def)
  have zero: "0 \<in> set (om_keys (tr_files t))" by (rule q(2)) (use assms(2) n in auto)
  have "fe_toi ` set es = of_nat ` {1..<Suc (length names)}" using arg_cong [OF es(2), of set] by (simp del: upt_Suc)
  then have "set (om_keys (tr_files t)) = insert 0 (of_nat ` {1..<Suc (length names)})"
    using tr_inv zero es(1) by (auto simp: tr_inv_def queue_announced_def)
  also have "\<dots> = set (map of_nat [0..<Suc (length names)])"
  proof -
    have "[0..<Suc (length names)] = 0 # [1..<Suc (length names)]" by (simp add: upt_conv_Cons del: upt_Suc)
    then show ?thesis by (simp del: upt_Suc)
  qed
  finally have "om_keys (tr_files t) = map of_nat [0..<Suc (length names)]"
  proof (rule strict_sorted_equal [rotated 2])
    show "sorted_wrt (<) (om_keys (tr_files t))" using tr_inv by (simp add: tr_inv_def queue_announced_def om_ok_def)
    show "sorted_wrt (<) (map of_nat [0..<Suc (length names)] :: u32 list)"
      using assms(3)
      by (auto simp: sorted_wrt_map sorted_wrt_iff_nth_less word_less_nat_alt unat_of_nat simp del: upt_Suc)
  qed
  moreover have "tr_callback t" using queue_descriptions_callback [OF queued] st(4) by simp
  ultimately show ?thesis using r es(1,3) es(4) [unfolded es(2)] es(2) by (simp del: upt_Suc)
qed

definition program_arguments :: transmitter_arguments where
  "program_arguments = transmitter_defaults\<lparr>ta_rate_limit := 0, ta_new_api := True\<rparr>"

definition program_process :: process where
  "program_process = \<lparr>pr_memory = Map.empty, pr_next_block = 0, pr_handles = Map.empty, pr_next_handle = 0,
     pr_files = [''f'' \<mapsto> (True, [1, 2, 3])]\<rparr>"

lemma example_described:
  obtains d s where "describe_files example_sender sha1 0 0 program_arguments [''f''] program_process = Inr ([d], s)"
    and "fresh_description s [1, 2, 3] d" "encodes_to example_sender d [1, 2, 3] [1, 2, 3]"
proof -
  have md5: "base64_encode (replicate 16 7) False = ''BwcHBwcHBwcHBwcHBwcHBw==''" by code_simp
  let ?r = "describe_file example_sender sha1 0 0 program_arguments ''f'' program_process"
  have "\<exists>d s. ?r = Inr (d, s) \<and> fresh_description s [1, 2, 3] d \<and> encodes_to example_sender d [1, 2, 3] [1, 2, 3]"
    by (simp add: describe_file_def description_of_file_def attach_file_def sys_open_def sys_mmap_def new_handle_def
        program_process_def program_arguments_def transmitter_defaults_def calculate_file_entry_def blank_description_def
        fd_bytes_def pointer_bytes_def read_bytes_def set_expiry_time_def set_content_type_def Let_def
        fresh_description_def encodes_to_def)
  then show ?thesis using that by auto
qed

theorem program_queues_files_witness:
  "\<exists>ds s k t. send_with_new_api example_sender (\<lambda>_. []) 0 0 0 example_destination program_arguments [''f''] program_process
       \<lparr>nl_sent = [], nl_sockets = 0\<rparr> = Some (Inr (ds, s, k, t)) \<and>
     om_keys (tr_files t) = [0, 1] \<and> map file_labels (fdt_file_entries (tr_fdt t)) = [(''f'', ''application/octet-stream'', '''')] \<and>
     map (\<lambda>d. (fd_tsi d, fe_toi (fd_entry d))) ds = [(Some 16, 1)]"
proof -
  let ?k = "\<lparr>nl_sent = [], nl_sockets = 0\<rparr> :: netlink"
  obtain d s where d: "describe_files example_sender (\<lambda>_. []) 0 0 program_arguments [''f''] program_process = Inr ([d], s)"
    "fresh_description s [1, 2, 3] d" "encodes_to example_sender d [1, 2, 3] [1, 2, 3]" by (rule example_described)
  obtain t0 where t0: "transmitter_new example_sender example_destination 16 1500 0 None FDT_NS_DRAFT_2005 True None = (Inr (), t0)"
    by (simp add: active_start)
  have l: "length [1 :: byte, 2, 3] < 2 ^ 64" by simp
  have parts: "partition_ok (object_oti 1436 (fdt_to_string (se_xml_print example_sender)
      (sent_table 0 (first_table example_sender 1436 FDT_NS_DRAFT_2005 [1, 2, 3] d))))"
    using example_parts(2) by (simp add: fdt_to_string_def example_sender_def)
  obtain t1 where "tr_run example_sender (queue_ops 0 s 0 d) t0 = Some (Inr (), t1)"
    using queue_run [OF t0 session_example(3,5) d(2) l d(3) l example_parts(1) parts] by blast
  then obtain d' t2 where sent: "send_description example_sender 0 s 0 d (t0\<lparr>tr_callback := True\<rparr>) = Some (d', Inr (), t2)"
    by (auto simp: queue_ops_def transmitter_register_completion_callback_def simp del: tr_run.simps elim!: tr_run_Cons_iff [THEN iffD1, elim_format])
  have start: "start_transmitter example_sender example_destination program_arguments ?k = Inr (t0\<lparr>tr_callback := True\<rparr>, ?k)"
    using t0 by (simp add: start_transmitter_def program_arguments_def transmitter_defaults_def transmitter_register_completion_callback_def)
  have run: "send_with_new_api example_sender (\<lambda>_. []) 0 0 0 example_destination program_arguments [''f''] program_process ?k =
      Some (Inr ([d'], s, ?k, t2))"
    by (simp add: send_with_new_api_def d(1) start sent del: describe_files.simps)
  from program_queues_files [OF run] run show ?thesis
    by (intro exI [of _ "[d']"] exI [of _ s] exI [of _ ?k] exI [of _ t2])
      (simp add: program_labels_def program_arguments_def transmitter_defaults_def)
qed

end
