(* ===== verification/Spec2Isabelle.thy ===== *)
theory Spec2Isabelle
  imports Flute_Prelude Ordered_Map Float_Division C_Numbers Base64 Flute_Types Encoding_Symbol Alc_Packet
    File_Delivery_Table Flute_File File_Partition File_Reassembly Receiver Event_Machine Receiver_Safety
    Delivery Receiver_Failures Receiver_Memory Udp_Tunnel File_Description Description_Contents Transmitter Send_Queue
    Transmitter_Events Transmission Transmission_Safety Send_Run End_To_End Session_Properties Queue_Drain
    Reception_Refinement Sender_Failures Send_Pacing Tunnel_Failures File_Coding Ip_Sec Example_Programs Transmitter_Program
begin

text \<open>
  A verification development for libflute, a C++ library that delivers files over unidirectional transport:
  FLUTE (RFC 3926) sessions of ALC/LCT packets (RFC 5775, RFC 5651) with the Compact No-Code FEC scheme.
  A transmitter announces files in a file delivery table (FDT, itself sent as the file with identifier 0),
  cuts them into source blocks and encoding symbols and sends the symbols in UDP datagrams; a receiver takes
  the packets of a session, collects the symbols, installs the FDT, and hands completed files to the
  application. Theories are given with the files under \<^verbatim>\<open>src/\<close> they model.
\<close>

section \<open>The theories\<close>

text \<open>
  The library of the development.
  \<^item> \<^verbatim>\<open>Flute_Prelude\<close>: byte and word types, exceptions and undefined behaviour as values (\<^verbatim>\<open>exn\<close>,
    \<^verbatim>\<open>result\<close>, \<^verbatim>\<open>outcome\<close>), checked reads and writes of byte buffers, big-endian fields with the locale
    \<^verbatim>\<open>byte_codec\<close> and its interpretations.
  \<^item> \<^verbatim>\<open>Ordered_Map\<close>: \<^verbatim>\<open>std::map\<close> as a list sorted by key, with the locale \<^verbatim>\<open>std_map\<close>.
  \<^item> \<^verbatim>\<open>Float_Division\<close>: quotients in IEEE \<^verbatim>\<open>float\<close> and \<^verbatim>\<open>double\<close>, rounded up or down, against the integer ones.
  \<^item> \<^verbatim>\<open>C_Numbers\<close>: number parsing and printing of the C and C++ libraries.
  \<^item> \<^verbatim>\<open>Event_Machine\<close>: reachable states of components driven by events; the locales
    \<^verbatim>\<open>inductive_invariant\<close>, \<^verbatim>\<open>absorbing\<close> (a sublocale of it) and \<^verbatim>\<open>forward_simulation\<close>.

  The model, in the order of the code.
  \<^item> \<^verbatim>\<open>Base64\<close>: \<^verbatim>\<open>utils/base64.cpp\<close>. \<^verbatim>\<open>Flute_Types\<close>: \<^verbatim>\<open>include/flute_types.h\<close>.
  \<^item> \<^verbatim>\<open>Encoding_Symbol\<close>: \<^verbatim>\<open>src/EncodingSymbol.cpp\<close>, symbols in the payload of a packet.
  \<^item> \<^verbatim>\<open>Alc_Packet\<close>: \<^verbatim>\<open>src/AlcPacket.cpp\<close>, the parser (\<^verbatim>\<open>alc_parse\<close>) and the builder (\<^verbatim>\<open>alc_build\<close>) of packets.
  \<^item> \<^verbatim>\<open>File_Delivery_Table\<close>: \<^verbatim>\<open>src/FileDeliveryTable.cpp\<close>, the table, its instance identifier and its XML form.
  \<^item> \<^verbatim>\<open>Flute_File\<close>: \<^verbatim>\<open>src/File.cpp\<close>, buffers in an explicit heap, partitioning, storing and taking symbols,
    completion, content encoding. \<^verbatim>\<open>File_Partition\<close>, \<^verbatim>\<open>File_Reassembly\<close> and \<^verbatim>\<open>File_Coding\<close> prove about it.
  \<^item> \<^verbatim>\<open>Receiver\<close>: \<^verbatim>\<open>src/Receiver.cpp\<close>, the whole handler of a datagram (\<^verbatim>\<open>handle_receive_from\<close>) and the
    application's operations. \<^verbatim>\<open>Receiver_Safety\<close>, \<^verbatim>\<open>Delivery\<close>, \<^verbatim>\<open>Receiver_Failures\<close>, \<^verbatim>\<open>Receiver_Memory\<close> (with the
    locale \<^verbatim>\<open>file_property\<close>, for what every file of a receiver satisfies) and \<^verbatim>\<open>Reception_Refinement\<close> prove about it.
  \<^item> \<^verbatim>\<open>File_Description\<close>: \<^verbatim>\<open>Transmitter::FileDescription\<close> over the memory, handles and files of a process;
    \<^verbatim>\<open>Description_Contents\<close> proves about it.
  \<^item> \<^verbatim>\<open>Udp_Tunnel\<close>: the IP and UDP headers of \<^verbatim>\<open>src/Transmitter.cpp\<close>.
  \<^item> \<^verbatim>\<open>Transmitter\<close>: the rest of \<^verbatim>\<open>src/Transmitter.cpp\<close>. \<^verbatim>\<open>Transmitter_Events\<close> makes it a machine: calls of the
    application, expiring timers, handlers and completions of sends in any order (\<^verbatim>\<open>tr_op\<close>, \<^verbatim>\<open>tr_step\<close>,
    \<^verbatim>\<open>tr_event\<close>). \<^verbatim>\<open>Send_Queue\<close>, \<^verbatim>\<open>Transmission\<close>, \<^verbatim>\<open>Transmission_Safety\<close>, \<^verbatim>\<open>Send_Run\<close>, \<^verbatim>\<open>Session_Properties\<close>,
    \<^verbatim>\<open>Queue_Drain\<close>, \<^verbatim>\<open>Sender_Failures\<close>, \<^verbatim>\<open>Send_Pacing\<close> and \<^verbatim>\<open>Tunnel_Failures\<close> prove about it, \<^verbatim>\<open>End_To_End\<close> composes it with
    the receiver.
  \<^item> \<^verbatim>\<open>Ip_Sec\<close>: \<^verbatim>\<open>src/IpSec.cpp\<close>. \<^verbatim>\<open>Example_Programs\<close>: the options of the programs of \<^verbatim>\<open>src/examples\<close> and
    what the receiver writes; \<^verbatim>\<open>Transmitter_Program\<close>: how they are set up, what the transmitter queues and sends again.
\<close>

section \<open>How state and operations correspond\<close>

text \<open>
  A class is a record, a method a function on it that returns the changed record; a method that may throw
  returns an \<^verbatim>\<open>outcome\<close>, the exception or unit with the state as it is then. \<^verbatim>\<open>CStr\<close> is a thrown string
  literal, \<^verbatim>\<open>StdExc\<close> an exception derived from \<^verbatim>\<open>std::exception\<close>, which the receiver's handler catches, and
  \<^verbatim>\<open>Undefined\<close> a step the language leaves undefined. Integers have the width of the code and wrap as it
  does. Loops that may run for ever (the header extensions, the blocks of a file, zlib, the base64 encoder with its 32-bit position) are partial
  functions: \<^verbatim>\<open>None\<close> is a call that does not return. Where a theorem says that something is returned, it
  proves \<^verbatim>\<open>Some\<close>. No fuel is used.

  Shared pointers become positions: the files of a transmitter stay in \<^verbatim>\<open>tr_store\<close>, its queue \<^verbatim>\<open>tr_files\<close> and
  the sends in flight \<^verbatim>\<open>tr_pending\<close> refer to them by index; buffers are allocations of a file's heap, a freed
  one is \<^verbatim>\<open>None\<close>. Time is an argument of the operations that read the clock.

  Parameters stand for what is not in the repository: MD5, zlib, \<^verbatim>\<open>malloc\<close> and the XML parser and printer
  (\<^verbatim>\<open>env\<close> of the receiver, \<^verbatim>\<open>sender_env\<close> of the transmitter), what uninitialised memory holds, the local
  address of a socket. Theorems name what they rely on: that allocations succeed with the size asked for
  (\<^verbatim>\<open>sender_memory\<close>, \<^verbatim>\<open>memory_suffices\<close>), that digests have 16 bytes, that the XML library parses what it
  printed, and of zlib what its manual says (\<^verbatim>\<open>gzip_codec\<close>): deflating and inflating undo each other, a full output
  buffer is \<^verbatim>\<open>Z_OK\<close> for \<^verbatim>\<open>deflate\<close> but \<^verbatim>\<open>Z_BUF_ERROR\<close> for \<^verbatim>\<open>inflate\<close> that was asked to finish, and the two do not take
  each other's streams. Each has an instance in a witness.

  The bounds in theorems: payloads below 2013 bytes, so that a packet fits the receive buffer of 2048;
  contents of at most 16384 bytes for files that come compressed, since \<^verbatim>\<open>File::decode\<close> throws for larger ones (\<^verbatim>\<open>File_Coding\<close>);
  transfer lengths below 2 ^ 53, where the code's \<^verbatim>\<open>double\<close> arithmetic is exact; at most 65536 blocks and symbols
  per block, the range of the maps' keys (\<^verbatim>\<open>partition_ok\<close>).
\<close>

section \<open>What is shown\<close>

text \<open>
  \<^item> Functional behaviour from end to end: a described file, compressed or not, is announced, sent and
    delivered byte for byte whatever the network does to the order and number of its datagrams; the receiver delivers exactly the
    files all of whose symbols came, each once, whatever comes from other sessions, and refines an abstract reception.
  \<^item> The layers: packets, payloads, tables, digests and gzip contents round-trip; the partition in floating
    point is that of RFC 5052; symbols tile the buffer; headers and checksums of tunnelled datagrams.
  \<^item> Invariants over all interleavings of the transmitter's events: what has been sent, what is announced,
    that its loops stay alive, that the rate limit is kept, against the time the bits of a packet take; that the entry of a
    file description matches its contents through copies and moves; and of the receiver's: what is delivered has
    the announced digest, and files are typed, each slot a piece of the file's one buffer.
  \<^item> Progress: when no send fails and no tunnel is ever set, the send loop empties the queue of sendable files, file by file with the
    table between them, whatever else was done with the transmitter before; the number of objects left is the measure.
  \<^item> The program: the transmitter of the examples queues the files of its command line as a run of the event machine, so
    what holds of every reachable state holds of it.
  \<^item> Errors: inputs on which the parser hangs or leaves its buffer, datagrams and tables that end reception,
    failed sends, a second send loop, a late tunnel, freed buffers, unchecked keys and encodings. Each is
    stated as what the code does.
\<close>

section \<open>Not modelled\<close>

text \<open>
  Sockets (whether a datagram is taken, a send completes and the bind of a source address succeeds are arguments),
  multicast membership and the event loop itself beyond the order of its handlers; logging; the
  locks, since the library runs its handlers on one thread (a callback that calls back into the receiver
  would wait for the lock its handler holds); destructors other than those of a file and a file description; the netlink library and the kernel behind \<^verbatim>\<open>src/IpSec.cpp\<close>; the logging and the option parser of the C library in the examples;
  tests and build files. ETag values are arbitrary strings.
  Deprecated overloads that only forward to another constructor or setter are not separate definitions.
\<close>

end
